(* ===== verification/Prelude.thy ===== *)
theory Prelude
  imports
    Main
    "HOL-Library.Char_ord"
    "HOL-Library.Code_Target_Numeral"
    "HOL-Library.List_Lexorder"
begin

text \<open>
  Shared vocabulary of the development.

  A fallible Go function \<open>(T, error)\<close> is a function into \<open>error + T\<close>: \<open>Inl\<close> is the error
  the code returns, \<open>Inr\<close> its value.  \<open>bindE\<close> is the sequence
  \<open>v, err := m; if err != nil { return err }; f v\<close>, \<open>ensure\<close> is the guard
  \<open>if !b { return err }\<close>, \<open>try_opt\<close> turns a \<open>(T, ok)\<close> result into one
  with an error, and \<open>fail_opt\<close> is a call that only returns an error.
  The collection \<open>result_iff\<close> inverts successful results.
\<close>

named_theorems result_iff \<open>inversion rules for successful results\<close>

type_synonym ('e, 'a) result = "'e + 'a"

definition bindE :: "('e, 'a) result \<Rightarrow> ('a \<Rightarrow> ('e, 'b) result) \<Rightarrow> ('e, 'b) result" where
  "bindE m f = (case m of Inl e \<Rightarrow> Inl e | Inr v \<Rightarrow> f v)"

definition ensure :: "bool \<Rightarrow> 'e \<Rightarrow> ('e, 'a) result \<Rightarrow> ('e, 'a) result" where
  "ensure b e k = (if b then k else Inl e)"

definition try_opt :: "'e \<Rightarrow> 'a option \<Rightarrow> ('e, 'a) result" where
  "try_opt e m = (case m of None \<Rightarrow> Inl e | Some v \<Rightarrow> Inr v)"

definition fail_opt :: "'e option \<Rightarrow> ('e, unit) result" where
  "fail_opt e = (case e of None \<Rightarrow> Inr () | Some x \<Rightarrow> Inl x)"

definition map_err :: "('e \<Rightarrow> 'f) \<Rightarrow> ('e, 'a) result \<Rightarrow> ('f, 'a) result" where
  "map_err g m = (case m of Inl e \<Rightarrow> Inl (g e) | Inr v \<Rightarrow> Inr v)"

definition is_ok :: "('e, 'a) result \<Rightarrow> bool" where
  "is_ok m = (case m of Inl _ \<Rightarrow> False | Inr _ \<Rightarrow> True)"

lemma bindE_simps [simp]: "bindE (Inl e) f = Inl e" "bindE (Inr v) f = f v"
  by (simp_all add: bindE_def)

lemma bindE_cong [fundef_cong]:
  "m = m' \<Longrightarrow> (\<And>v. m' = Inr v \<Longrightarrow> f v = g v) \<Longrightarrow> bindE m f = bindE m' g"
  by (cases m') simp_all

lemma bindE_Inr [result_iff]: "bindE m f = Inr y \<longleftrightarrow> (\<exists>v. m = Inr v \<and> f v = Inr y)"
  by (cases m) simp_all

lemma bindE_assoc: "bindE (bindE m f) g = bindE m (\<lambda>v. bindE (f v) g)"
  by (cases m) simp_all

lemma ensure_simps [simp]: "ensure True e k = k" "ensure False e k = Inl e"
  by (simp_all add: ensure_def)

lemma ensure_Inr [result_iff]: "ensure b e k = Inr y \<longleftrightarrow> b \<and> k = Inr y"
  by (simp add: ensure_def)

lemma try_opt_simps [simp]: "try_opt e None = Inl e" "try_opt e (Some v) = Inr v"
  by (simp_all add: try_opt_def)

lemma try_opt_Inr [result_iff]: "try_opt e m = Inr v \<longleftrightarrow> m = Some v"
  by (cases m) simp_all

lemma fail_opt_simps [simp]: "fail_opt None = Inr ()" "fail_opt (Some e) = Inl e"
  by (simp_all add: fail_opt_def)

lemma fail_opt_Inr [result_iff]: "fail_opt e = Inr u \<longleftrightarrow> e = None"
  by (cases e) simp_all

lemma map_err_simps [simp]: "map_err g (Inl e) = Inl (g e)" "map_err g (Inr v) = Inr v"
  by (simp_all add: map_err_def)

lemma map_err_Inr [result_iff]: "map_err g m = Inr v \<longleftrightarrow> m = Inr v"
  by (cases m) simp_all

lemma is_ok_simps [simp]: "is_ok (Inl e) = False" "is_ok (Inr v) = True"
  by (simp_all add: is_ok_def)

lemma is_ok_iff: "is_ok m \<longleftrightarrow> (\<exists>v. m = Inr v)"
  by (cases m) simp_all

lemma is_ok_bindE: "is_ok (bindE m f) \<longleftrightarrow> (\<exists>v. m = Inr v \<and> is_ok (f v))"
  by (cases m) simp_all

text \<open>A \<open>for\<close> loop over a slice that stops at the first error and collects its results.\<close>

fun mapE :: "('a \<Rightarrow> ('e, 'b) result) \<Rightarrow> 'a list \<Rightarrow> ('e, 'b list) result" where
  "mapE f [] = Inr []"
| "mapE f (x # xs) = bindE (f x) (\<lambda>y. bindE (mapE f xs) (\<lambda>ys. Inr (y # ys)))"

lemma mapE_Inr: "mapE f xs = Inr ys \<longleftrightarrow> list_all2 (\<lambda>x y. f x = Inr y) xs ys"
  by (induction xs arbitrary: ys) (auto simp: result_iff list_all2_Cons1)

lemma mapE_length: "mapE f xs = Inr ys \<Longrightarrow> length ys = length xs"
  by (auto simp: mapE_Inr dest: list_all2_lengthD)

text \<open>A \<open>for\<close> loop over a slice that only checks and stops at the first error.\<close>

fun checkE :: "('a \<Rightarrow> 'e option) \<Rightarrow> 'a list \<Rightarrow> 'e option" where
  "checkE f [] = None"
| "checkE f (x # xs) = (case f x of Some e \<Rightarrow> Some e | None \<Rightarrow> checkE f xs)"

lemma checkE_None [result_iff]: "checkE f xs = None \<longleftrightarrow> (\<forall>x \<in> set xs. f x = None)"
  by (induction xs) (auto split: option.splits)

lemma checkE_Some: "checkE f xs = Some e \<Longrightarrow> \<exists>x \<in> set xs. f x = Some e"
  by (induction xs) (auto split: option.splits)

text \<open>A \<open>for\<close> loop that threads a value and stops at the first error.\<close>

fun foldE :: "('s \<Rightarrow> 'a \<Rightarrow> ('e, 's) result) \<Rightarrow> 's \<Rightarrow> 'a list \<Rightarrow> ('e, 's) result" where
  "foldE f s [] = Inr s"
| "foldE f s (x # xs) = bindE (f s x) (\<lambda>s'. foldE f s' xs)"

lemma foldE_invariant:
  assumes "foldE f s xs = Inr s'" and "P s"
    and "\<And>s x t. x \<in> set xs \<Longrightarrow> P s \<Longrightarrow> f s x = Inr t \<Longrightarrow> P t"
  shows "P s'"
  using assms
proof (induction xs arbitrary: s)
  case Nil
  then show ?case by simp
next
  case (Cons x xs)
  then obtain t where "f s x = Inr t" "foldE f t xs = Inr s'" by (auto simp: result_iff)
  with Cons show ?case by (metis list.set_intros)
qed

lemma foldE_append: "foldE f s (xs @ ys) = bindE (foldE f s xs) (\<lambda>t. foldE f t ys)"
  by (induction xs arbitrary: s) (simp_all add: bindE_assoc)

text \<open>An element of a concatenation that is not in one part lies in the other.\<close>

lemma append_split_left:
  "ls @ ys = pre @ x # post \<Longrightarrow> x \<notin> set ls \<Longrightarrow> \<exists>pre'. pre = ls @ pre' \<and> ys = pre' @ x # post"
proof (induction ls arbitrary: pre)
  case (Cons a ls)
  then show ?case by (cases pre) auto
qed simp

lemma append_split_right:
  "es @ rs = pre @ x # post \<Longrightarrow> x \<notin> set rs \<Longrightarrow> \<exists>post'. es = pre @ x # post'"
proof (induction pre arbitrary: es)
  case Nil
  then show ?case by (cases es) auto
next
  case (Cons a pre)
  then show ?case by (cases es) (auto simp: Cons_eq_append_conv)
qed

text \<open>
  Go's string-keyed maps, as association lists (the first entry of a key counts): reading a
  missing key gives the zero value, ranging visits every key once, and a store replaces.
\<close>

type_synonym labels = "(string \<times> string) list"

definition label :: "labels \<Rightarrow> string \<Rightarrow> string" where
  "label m k = (case map_of m k of None \<Rightarrow> [] | Some v \<Rightarrow> v)"

definition has_key :: "('k \<times> 'v) list \<Rightarrow> 'k \<Rightarrow> bool" where
  "has_key m k = (k \<in> fst ` set m)"

definition keys_of :: "('k \<times> 'v) list \<Rightarrow> 'k list" where
  "keys_of m = remdups (map fst m)"

lemma label_simps [simp]:
  "map_of m k = None \<Longrightarrow> label m k = []" "map_of m k = Some v \<Longrightarrow> label m k = v"
  by (simp_all add: label_def)

lemma set_keys_of [simp]: "set (keys_of m) = dom (map_of m)"
  by (simp add: keys_of_def dom_map_of_conv_image_fst)

lemma distinct_keys_of [simp]: "distinct (keys_of m)"
  by (simp add: keys_of_def)

lemma has_key_iff: "has_key m k \<longleftrightarrow> k \<in> dom (map_of m)"
  by (simp add: has_key_def dom_map_of_conv_image_fst)

lemma label_Cons: "label ((k, v) # m) x = (if x = k then v else label m x)"
  by (simp add: label_def)

end
