(* ===== verification/Go_Strings.thy ===== *)
theory Go_Strings
  imports Prelude
begin

text \<open>
  The part of Go's \<open>strings\<close> and \<open>strconv\<close> that the program uses.  A Go string is a sequence
  of bytes, here a list of characters (each one byte).  Functions that split take a one-byte
  separator, as every call of the program does.  \<open>to_lower\<close> maps the ASCII letters and the
  two code points outside ASCII whose lower case is an ASCII letter (U+0130 and U+212A); it
  leaves every other multi-byte character alone, which no comparison of the program with an
  ASCII string can observe.  \<open>trim_space\<close> and \<open>fields\<close> know all of Unicode's white space.
\<close>

section \<open>Prefixes and suffixes\<close>

fun has_prefix :: "string \<Rightarrow> string \<Rightarrow> bool" where
  "has_prefix s [] = True"
| "has_prefix [] (p # ps) = False"
| "has_prefix (c # s) (p # ps) = (c = p \<and> has_prefix s ps)"

definition has_suffix :: "string \<Rightarrow> string \<Rightarrow> bool" where
  "has_suffix s p = has_prefix (rev s) (rev p)"

definition trim_prefix :: "string \<Rightarrow> string \<Rightarrow> string" where
  "trim_prefix s p = (if has_prefix s p then drop (length p) s else s)"

definition trim_suffix :: "string \<Rightarrow> string \<Rightarrow> string" where
  "trim_suffix s p = (if has_suffix s p then take (length s - length p) s else s)"

fun contains_str :: "string \<Rightarrow> string \<Rightarrow> bool" where
  "contains_str [] p = (p = [])"
| "contains_str (c # s) p = (has_prefix (c # s) p \<or> contains_str s p)"

definition contains_any :: "string \<Rightarrow> string \<Rightarrow> bool" where
  "contains_any s cs = list_ex (\<lambda>c. c \<in> set cs) s"

lemma has_prefix_iff: "has_prefix s p \<longleftrightarrow> (\<exists>t. s = p @ t)"
  by (induction s p rule: has_prefix.induct) auto

lemma has_prefix_append [simp]: "has_prefix (p @ t) p"
  by (auto simp: has_prefix_iff)

lemma has_suffix_iff: "has_suffix s p \<longleftrightarrow> (\<exists>t. s = t @ p)"
proof
  assume "has_suffix s p"
  then obtain u where "rev s = rev p @ u" by (auto simp: has_suffix_def has_prefix_iff)
  then have "s = rev u @ p" by (metis rev_append rev_rev_ident)
  then show "\<exists>t. s = t @ p" by blast
qed (auto simp: has_suffix_def has_prefix_iff)

lemma has_suffix_append [simp]: "has_suffix (t @ p) p"
  by (auto simp: has_suffix_iff)

lemma trim_prefix_append [simp]: "trim_prefix (p @ t) p = t"
  by (simp add: trim_prefix_def)

lemma trim_suffix_append [simp]: "trim_suffix (t @ p) p = t"
  by (simp add: trim_suffix_def)

lemma trim_prefix_id: "\<not> has_prefix s p \<Longrightarrow> trim_prefix s p = s"
  by (simp add: trim_prefix_def)

lemma trim_suffix_id: "\<not> has_suffix s p \<Longrightarrow> trim_suffix s p = s"
  by (simp add: trim_suffix_def)

lemma has_prefix_trim: "has_prefix s p \<Longrightarrow> p @ trim_prefix s p = s"
  by (auto simp: has_prefix_iff)

lemma has_suffix_trim: "has_suffix s p \<Longrightarrow> trim_suffix s p @ p = s"
  by (auto simp: has_suffix_iff)

lemma contains_any_iff: "contains_any s cs \<longleftrightarrow> set s \<inter> set cs \<noteq> {}"
  by (auto simp: contains_any_def list_ex_iff)

section \<open>Splitting and joining\<close>

fun split_char :: "char \<Rightarrow> string \<Rightarrow> string list" where
  "split_char c [] = [[]]"
| "split_char c (x # xs) =
     (if x = c then [] # split_char c xs
      else (case split_char c xs of [] \<Rightarrow> [[x]] | y # ys \<Rightarrow> (x # y) # ys))"

fun join_char :: "char \<Rightarrow> string list \<Rightarrow> string" where
  "join_char c [] = []"
| "join_char c [x] = x"
| "join_char c (x # y # ys) = x @ c # join_char c (y # ys)"

fun join_str :: "string \<Rightarrow> string list \<Rightarrow> string" where
  "join_str s [] = []"
| "join_str s [x] = x"
| "join_str s (x # y # ys) = x @ s @ join_str s (y # ys)"

text \<open>\<open>strings.Cut(s, c)\<close>: what is before the first separator, what is after, and whether found.\<close>

fun cut_char :: "char \<Rightarrow> string \<Rightarrow> string \<times> string \<times> bool" where
  "cut_char c [] = ([], [], False)"
| "cut_char c (x # xs) =
     (if x = c then ([], xs, True)
      else (case cut_char c xs of (a, b, f) \<Rightarrow> (x # a, b, f)))"

text \<open>\<open>strings.SplitN(s, c, 2)\<close>.\<close>

definition split2 :: "char \<Rightarrow> string \<Rightarrow> string list" where
  "split2 c s = (case cut_char c s of (a, b, f) \<Rightarrow> if f then [a, b] else [s])"

lemma split_char_nonempty [simp]: "split_char c s \<noteq> []"
  by (induction s) (auto split: list.splits)

lemma join_split [simp]: "join_char c (split_char c s) = s"
proof (induction s)
  case Nil
  show ?case by simp
next
  case (Cons x xs)
  show ?case
  proof (cases "split_char c xs")
    case Nil
    then show ?thesis by simp
  next
    case (Cons y ys)
    with Cons.IH show ?thesis by (cases ys) (auto)
  qed
qed

lemma split_no_sep: "x \<in> set (split_char c s) \<Longrightarrow> c \<notin> set x"
proof (induction s arbitrary: x)
  case Nil
  then show ?case by simp
next
  case (Cons a s)
  then show ?case by (cases "split_char c s") (auto split: if_splits)
qed

lemma split_char_id: "c \<notin> set s \<Longrightarrow> split_char c s = [s]"
  by (induction s) auto

lemma split_char_append: "c \<notin> set s \<Longrightarrow> split_char c (s @ c # t) = s # split_char c t"
  by (induction s) auto

lemma split_join:
  "xs \<noteq> [] \<Longrightarrow> \<forall>x \<in> set xs. c \<notin> set x \<Longrightarrow> split_char c (join_char c xs) = xs"
  by (induction c xs rule: join_char.induct) (auto simp: split_char_id split_char_append)

lemma join_char_str: "join_char c xs = join_str [c] xs"
  by (induction c xs rule: join_char.induct) auto

lemma set_join_char: "set (join_char c xs) \<subseteq> insert c (\<Union>x \<in> set xs. set x)"
  by (induction c xs rule: join_char.induct) auto

lemma set_split_char: "x \<in> set (split_char c s) \<Longrightarrow> set x \<subseteq> set s"
proof (induction s arbitrary: x)
  case Nil
  then show ?case by simp
next
  case (Cons a s)
  then show ?case by (cases "split_char c s") (fastforce split: if_splits)+
qed

lemma cut_char_found: "c \<notin> set a \<Longrightarrow> cut_char c (a @ c # b) = (a, b, True)"
  by (induction a) auto

lemma cut_char_not_found: "c \<notin> set s \<Longrightarrow> cut_char c s = (s, [], False)"
  by (induction s) auto

lemma cut_charD:
  "cut_char c s = (a, b, f) \<Longrightarrow>
     c \<notin> set a \<and> (if f then s = a @ c # b else s = a \<and> b = [] \<and> c \<notin> set s)"
  by (induction s arbitrary: a b f) (auto split: if_splits prod.splits)

lemma cut_char_split:
  "cut_char c s = (a, b, f) \<Longrightarrow> split_char c s = (if f then a # split_char c b else [a])"
  by (auto dest!: cut_charD simp: split_char_append split_char_id split: if_splits)

lemma split2_found: "c \<notin> set a \<Longrightarrow> split2 c (a @ c # b) = [a, b]"
  by (simp add: split2_def cut_char_found)

lemma split2_not_found: "c \<notin> set s \<Longrightarrow> split2 c s = [s]"
  by (simp add: split2_def cut_char_not_found)

lemma split2_cases:
  obtains "c \<notin> set s" "split2 c s = [s]"
  | a b where "c \<notin> set a" "s = a @ c # b" "split2 c s = [a, b]"
proof (cases "c \<in> set s")
  case True
  then obtain a b where "s = a @ c # b" "c \<notin> set a" by (meson split_list_first)
  with that(2) show ?thesis by (simp add: split2_found)
next
  case False
  with that(1) show ?thesis by (simp add: split2_not_found)
qed

section \<open>Characters, white space and case\<close>

definition is_digit :: "char \<Rightarrow> bool" where
  "is_digit c = (CHR ''0'' \<le> c \<and> c \<le> CHR ''9'')"

definition is_lower :: "char \<Rightarrow> bool" where
  "is_lower c = (CHR ''a'' \<le> c \<and> c \<le> CHR ''z'')"

definition is_upper :: "char \<Rightarrow> bool" where
  "is_upper c = (CHR ''A'' \<le> c \<and> c \<le> CHR ''Z'')"

lemma is_digit_code: "is_digit c \<longleftrightarrow> 48 \<le> (of_char c :: nat) \<and> (of_char c :: nat) \<le> 57"
  by (simp add: is_digit_def less_eq_char_def)

lemma is_lower_code: "is_lower c \<longleftrightarrow> 97 \<le> (of_char c :: nat) \<and> (of_char c :: nat) \<le> 122"
  by (simp add: is_lower_def less_eq_char_def)

lemma is_upper_code: "is_upper c \<longleftrightarrow> 65 \<le> (of_char c :: nat) \<and> (of_char c :: nat) \<le> 90"
  by (simp add: is_upper_def less_eq_char_def)

lemmas char_class_code = is_digit_code is_lower_code is_upper_code

definition lower_char :: "char \<Rightarrow> char" where
  "lower_char c = (if is_upper c then char_of ((of_char c :: nat) + 32) else c)"

fun to_lower :: "string \<Rightarrow> string" where
  "to_lower [] = []"
| "to_lower (c # s) =
     (if c = CHR 0xC4 \<and> take 1 s = [CHR 0xB0] then CHR ''i'' # to_lower (drop 1 s)
      else if c = CHR 0xE2 \<and> take 2 s = [CHR 0x84, CHR 0xAA] then CHR ''k'' # to_lower (drop 2 s)
      else lower_char c # to_lower s)"

text \<open>The UTF-8 encodings of the code points \<open>unicode.IsSpace\<close> accepts.\<close>

definition unicode_spaces :: "string list" where
  "unicode_spaces =
     [[CHR 0x09], [CHR 0x0A], [CHR 0x0B], [CHR 0x0C], [CHR 0x0D], [CHR 0x20],
      [CHR 0xC2, CHR 0x85], [CHR 0xC2, CHR 0xA0], [CHR 0xE1, CHR 0x9A, CHR 0x80],
      [CHR 0xE2, CHR 0x80, CHR 0x80], [CHR 0xE2, CHR 0x80, CHR 0x81],
      [CHR 0xE2, CHR 0x80, CHR 0x82], [CHR 0xE2, CHR 0x80, CHR 0x83],
      [CHR 0xE2, CHR 0x80, CHR 0x84], [CHR 0xE2, CHR 0x80, CHR 0x85],
      [CHR 0xE2, CHR 0x80, CHR 0x86], [CHR 0xE2, CHR 0x80, CHR 0x87],
      [CHR 0xE2, CHR 0x80, CHR 0x88], [CHR 0xE2, CHR 0x80, CHR 0x89],
      [CHR 0xE2, CHR 0x80, CHR 0x8A], [CHR 0xE2, CHR 0x80, CHR 0xA8],
      [CHR 0xE2, CHR 0x80, CHR 0xA9], [CHR 0xE2, CHR 0x80, CHR 0xAF],
      [CHR 0xE2, CHR 0x81, CHR 0x9F], [CHR 0xE3, CHR 0x80, CHR 0x80]]"

text \<open>The length of the white space character at the start of \<open>s\<close>, 0 when there is none.\<close>

definition space_at :: "string list \<Rightarrow> string \<Rightarrow> nat" where
  "space_at sps s = (case find (has_prefix s) sps of None \<Rightarrow> 0 | Some p \<Rightarrow> length p)"

function trim_left :: "string list \<Rightarrow> string \<Rightarrow> string" where
  "trim_left sps s = (if space_at sps s = 0 then s else trim_left sps (drop (space_at sps s) s))"
  by pat_completeness auto
termination
proof (relation "measure (\<lambda>(sps, s). length s)", goal_cases)
  case 1
  show ?case by simp
next
  case (2 sps s)
  then have "s \<noteq> []"
    by (auto simp: space_at_def has_prefix_iff find_Some_iff split: option.splits)
  with 2 show ?case by (cases s) (auto simp: diff_less)
qed

declare trim_left.simps [simp del]

definition trim_space :: "string \<Rightarrow> string" where
  "trim_space s = rev (trim_left (map rev unicode_spaces) (rev (trim_left unicode_spaces s)))"

text \<open>\<open>strings.Fields\<close>: the maximal runs without white space.\<close>

fun str_fields_fuel :: "nat \<Rightarrow> string \<Rightarrow> string \<Rightarrow> string list" where
  "str_fields_fuel 0 cur s = (if cur = [] then [] else [cur])"
| "str_fields_fuel (Suc n) cur [] = (if cur = [] then [] else [cur])"
| "str_fields_fuel (Suc n) cur (c # s) =
     (let k = space_at unicode_spaces (c # s) in
      if k = 0 then str_fields_fuel n (cur @ [c]) s
      else if cur = [] then str_fields_fuel n [] (drop k (c # s))
      else cur # str_fields_fuel n [] (drop k (c # s)))"

definition str_fields :: "string \<Rightarrow> string list" where
  "str_fields s = str_fields_fuel (length s) [] s"

lemma trim_left_id: "space_at sps s = 0 \<Longrightarrow> trim_left sps s = s"
  by (subst trim_left.simps) simp

definition visible :: "char \<Rightarrow> bool" where
  "visible c \<longleftrightarrow> 32 < (of_char c :: nat) \<and> (of_char c :: nat) < 128"

lemma unicode_spaces_invisible: "\<forall>p \<in> set unicode_spaces. p \<noteq> [] \<and> \<not> visible (hd p) \<and> \<not> visible (last p)"
  by (simp add: unicode_spaces_def visible_def)

lemma has_prefix_hd: "has_prefix s p \<Longrightarrow> p \<noteq> [] \<Longrightarrow> s \<noteq> [] \<and> hd s = hd p"
  by (auto simp: has_prefix_iff)

lemma space_at_visible:
  assumes "\<forall>p \<in> set sps. p \<noteq> [] \<and> \<not> visible (hd p)" and "s = [] \<or> visible (hd s)"
  shows "space_at sps s = 0"
proof -
  have "find (has_prefix s) sps = None"
    using assms by (auto simp: find_None_iff dest: has_prefix_hd)
  then show ?thesis by (simp add: space_at_def)
qed

lemma space_at_unicode_0: "s = [] \<or> visible (hd s) \<Longrightarrow> space_at unicode_spaces s = 0"
  by (rule space_at_visible) (use unicode_spaces_invisible in auto)

lemma space_at_rev_unicode_0: "s = [] \<or> visible (hd s) \<Longrightarrow> space_at (map rev unicode_spaces) s = 0"
  by (rule space_at_visible) (use unicode_spaces_invisible in \<open>auto simp: hd_rev\<close>)

text \<open>Trimming leaves a string alone whose first and last bytes are visible ASCII.\<close>

lemma trim_space_id:
  assumes "\<forall>c \<in> set s. visible c"
  shows "trim_space s = s"
proof -
  have "s = [] \<or> visible (hd s)" "rev s = [] \<or> visible (hd (rev s))"
    using assms by (cases s; simp) (metis assms hd_in_set set_rev)
  then show ?thesis
    by (simp add: trim_space_def trim_left_id space_at_unicode_0 space_at_rev_unicode_0)
qed

section \<open>Integers\<close>

definition digit_val :: "char \<Rightarrow> nat" where
  "digit_val c = of_char c - 48"

definition digits_val :: "string \<Rightarrow> nat" where
  "digits_val s = foldl (\<lambda>n c. 10 * n + digit_val c) 0 s"

definition all_digits :: "string \<Rightarrow> bool" where
  "all_digits s = list_all is_digit s"

text \<open>\<open>strconv.Atoi\<close> on a 64-bit machine; \<open>None\<close> is its error.\<close>

definition atoi :: "string \<Rightarrow> int option" where
  "atoi s =
     (let neg = (take 1 s = ''-'');
          ds = (if take 1 s = ''-'' \<or> take 1 s = ''+'' then drop 1 s else s)
      in if ds = [] \<or> \<not> all_digits ds then None
         else let n = digits_val ds in
           if neg then (if n \<le> 2 ^ 63 then Some (- int n) else None)
           else (if n < 2 ^ 63 then Some (int n) else None))"

text \<open>\<open>strconv.ParseUint(s, 10, 32)\<close>.\<close>

definition parse_uint32 :: "string \<Rightarrow> nat option" where
  "parse_uint32 s =
     (if s = [] \<or> \<not> all_digits s then None
      else let n = digits_val s in if n < 2 ^ 32 then Some n else None)"

definition digit_char :: "nat \<Rightarrow> char" where
  "digit_char n = char_of (48 + n)"

function show_nat :: "nat \<Rightarrow> string" where
  "show_nat n = (if n < 10 then [digit_char n] else show_nat (n div 10) @ [digit_char (n mod 10)])"
  by pat_completeness auto
termination
  by (relation "measure id") auto

declare show_nat.simps [simp del]

text \<open>\<open>strconv.Itoa\<close> and \<open>FormatInt(_, 10)\<close>.\<close>

definition itoa :: "int \<Rightarrow> string" where
  "itoa i = (if i < 0 then CHR ''-'' # show_nat (nat (- i)) else show_nat (nat i))"

lemma digits_val_snoc: "digits_val (s @ [c]) = 10 * digits_val s + digit_val c"
  by (simp add: digits_val_def)

lemma digit_char_code: "n < 10 \<Longrightarrow> of_char (digit_char n) = (48 + n :: nat)"
  by (simp add: digit_char_def)

lemma digit_char_digit: "n < 10 \<Longrightarrow> is_digit (digit_char n)"
  by (simp add: is_digit_code digit_char_code)

lemma digit_val_char: "n < 10 \<Longrightarrow> digit_val (digit_char n) = n"
  by (simp add: digit_val_def digit_char_code)

lemma show_nat_nonempty [simp]: "show_nat n \<noteq> []"
  by (subst show_nat.simps) simp

lemma show_nat_digits: "all_digits (show_nat n)"
proof (induction n rule: show_nat.induct)
  case (1 n)
  show ?case
  proof (cases "n < 10")
    case True
    then show ?thesis by (subst show_nat.simps) (simp add: all_digits_def digit_char_digit)
  next
    case False
    with 1 show ?thesis by (subst show_nat.simps) (simp add: all_digits_def digit_char_digit)
  qed
qed

lemma digits_val_show_nat [simp]: "digits_val (show_nat n) = n"
proof (induction n rule: show_nat.induct)
  case (1 n)
  show ?case
  proof (cases "n < 10")
    case True
    then show ?thesis by (subst show_nat.simps) (simp add: digits_val_def digit_val_char)
  next
    case False
    with 1 show ?thesis by (subst show_nat.simps) (simp add: digits_val_snoc digit_val_char)
  qed
qed

lemma show_nat_hd: "0 < n \<Longrightarrow> hd (show_nat n) \<noteq> CHR ''0''"
proof (induction n rule: show_nat.induct)
  case (1 n)
  show ?case
  proof (cases "n < 10")
    case True
    have "of_char (digit_char n) = (48 + n :: nat)" using True by (rule digit_char_code)
    moreover have "of_char (CHR ''0'') = (48 :: nat)" by simp
    ultimately have "digit_char n \<noteq> CHR ''0''" using 1(2) by (metis add_cancel_left_right less_not_refl)
    with True show ?thesis by (subst show_nat.simps) simp
  next
    case False
    with 1 have "hd (show_nat (n div 10)) \<noteq> CHR ''0''" by simp
    with False show ?thesis by (subst show_nat.simps) simp
  qed
qed

lemma all_digits_not_sign:
  assumes "all_digits s" shows "take 1 s \<noteq> ''-''" "take 1 s \<noteq> ''+''"
  using assms by (cases s; auto simp: all_digits_def is_digit_code)+

lemma atoi_digits:
  "all_digits s \<Longrightarrow> s \<noteq> [] \<Longrightarrow>
     atoi s = (if digits_val s < 2 ^ 63 then Some (int (digits_val s)) else None)"
  using all_digits_not_sign [of s] by (simp add: atoi_def Let_def)

lemma atoi_itoa: "- (2 ^ 63) \<le> i \<Longrightarrow> i < 2 ^ 63 \<Longrightarrow> atoi (itoa i) = Some i"
proof (cases "i < 0")
  case True
  assume "- (2 ^ 63) \<le> i"
  with True show ?thesis using show_nat_digits [of "nat (- i)"]
    by (simp add: itoa_def atoi_def Let_def)
next
  case False
  assume "i < 2 ^ 63"
  with False show ?thesis using show_nat_digits [of "nat i"]
    by (simp add: itoa_def atoi_digits nat_less_iff)
qed

lemma digits_val_append: "digits_val (s @ t) = digits_val s * 10 ^ length t + digits_val t"
proof (induction t rule: rev_induct)
  case Nil
  show ?case by (simp add: digits_val_def)
next
  case (snoc c t)
  have "digits_val (s @ t @ [c]) = 10 * digits_val (s @ t) + digit_val c"
    using digits_val_snoc [of "s @ t" c] by simp
  with snoc show ?case by (simp add: digits_val_snoc algebra_simps)
qed

lemma digit_char_val: "is_digit c \<Longrightarrow> digit_char (digit_val c) = c"
  by (simp add: digit_char_def digit_val_def is_digit_code)

lemma digit_val_less: "is_digit c \<Longrightarrow> digit_val c < 10"
  by (auto simp: digit_val_def is_digit_code)

text \<open>A canonical decimal (no superfluous leading zero) is what printing its value gives.\<close>

definition canonical_digits :: "string \<Rightarrow> bool" where
  "canonical_digits s \<longleftrightarrow> s \<noteq> [] \<and> all_digits s \<and> (length s > 1 \<longrightarrow> hd s \<noteq> CHR ''0'')"

lemma show_nat_digits_val: "canonical_digits s \<Longrightarrow> show_nat (digits_val s) = s"
proof (induction s rule: rev_induct)
  case Nil
  then show ?case by (simp add: canonical_digits_def)
next
  case (snoc c t)
  then have c: "is_digit c" by (simp add: canonical_digits_def all_digits_def)
  show ?case
  proof (cases "t = []")
    case True
    with c show ?thesis
      by (subst show_nat.simps) (simp add: digits_val_def digit_val_less digit_char_val)
  next
    case False
    with snoc.prems have hd0: "hd t \<noteq> CHR ''0''" by (auto simp: canonical_digits_def)
    with snoc False have IH: "show_nat (digits_val t) = t"
      by (simp add: canonical_digits_def all_digits_def)
    have "digits_val t \<noteq> 0"
    proof
      assume "digits_val t = 0"
      moreover have "show_nat 0 = ''0''" by code_simp
      ultimately have "t = ''0''" using IH by simp
      with hd0 show False by simp
    qed
    with c IH show ?thesis
      by (subst show_nat.simps) (simp add: digits_val_snoc digit_val_less digit_char_val)
  qed
qed

lemma canonical_digits_show_nat: "canonical_digits (show_nat n)"
proof (cases "n = 0")
  case True
  then show ?thesis
    by (subst show_nat.simps) (simp add: canonical_digits_def all_digits_def digit_char_digit)
next
  case False
  then show ?thesis by (simp add: canonical_digits_def show_nat_digits show_nat_hd)
qed

lemma digits_val_inject:
  "canonical_digits s \<Longrightarrow> canonical_digits t \<Longrightarrow> digits_val s = digits_val t \<Longrightarrow> s = t"
  by (metis show_nat_digits_val)

end
