(* ===== verification/Semver.thy ===== *)
theory Semver
  imports Go_Strings "HOL-Library.Product_Lexorder"
begin

text \<open>
  Version parsing and precedence (\<open>internal/update/semver.go\<close>).  \<open>parse_version\<close> and
  \<open>compare_version\<close> follow the code; \<open>version_key\<close> is the reference order, a lexicographic
  key in which numeric identifiers come before the others.
\<close>

section \<open>The code\<close>

record version =
  v_major :: int
  v_minor :: int
  v_patch :: int
  v_pre :: "string list"
  v_raw :: string

datatype semver_error =
    MoreThanOneBuildSeparator string
  | NotSemVer string
  | NonCanonicalComponent string
  | InvalidComponent string
  | EmptyIdentifierSet string
  | EmptyIdentifier string
  | InvalidIdentifier string
  | NonCanonicalPrerelease string

definition identifier_char :: "char \<Rightarrow> bool" where
  "identifier_char c = (is_digit c \<or> is_upper c \<or> is_lower c \<or> c = CHR ''-'')"

text \<open>The loop body of \<open>validateIdentifiers\<close> for one identifier.\<close>

definition check_identifier :: "string \<Rightarrow> bool \<Rightarrow> string \<Rightarrow> semver_error option" where
  "check_identifier ver prerelease ident =
     (if ident = [] then Some (EmptyIdentifier ver)
      else if \<not> list_all identifier_char ident then Some (InvalidIdentifier ver)
      else if prerelease \<and> all_digits ident \<and> length ident > 1 \<and> hd ident = CHR ''0''
      then Some (NonCanonicalPrerelease ver)
      else None)"

definition validate_identifiers :: "string \<Rightarrow> string \<Rightarrow> bool \<Rightarrow> semver_error option" where
  "validate_identifiers ver value prerelease =
     (if value = [] then Some (EmptyIdentifierSet ver)
      else checkE (check_identifier ver prerelease) (split_char (CHR ''.'') value))"

text \<open>The loop body over the three numeric components.\<close>

definition parse_component :: "string \<Rightarrow> string \<Rightarrow> (semver_error, int) result" where
  "parse_component value item =
     (if item = [] \<or> length item > 1 \<and> hd item = CHR ''0'' then Inl (NonCanonicalComponent value)
      else case atoi item of
        None \<Rightarrow> Inl (InvalidComponent value)
      | Some n \<Rightarrow> if n < 0 then Inl (InvalidComponent value) else Inr n)"

definition parse_version :: "string \<Rightarrow> (semver_error, version) result" where
  "parse_version value =
     (let raw = trim_prefix (trim_space value) ''v'';
          buildParts = split_char (CHR ''+'') raw
      in if length buildParts > 2 then Inl (MoreThanOneBuildSeparator value)
      else let withoutBuild = buildParts ! 0 in
      case (if length buildParts = 2 then validate_identifiers value (buildParts ! 1) False
            else None) of
        Some e \<Rightarrow> Inl e
      | None \<Rightarrow>
          let parts = split2 (CHR ''-'') withoutBuild;
              core = split_char (CHR ''.'') (parts ! 0)
          in if length core \<noteq> 3 then Inl (NotSemVer value)
          else bindE (mapE (parse_component value) core) (\<lambda>numbers.
            let ver = \<lparr>v_major = numbers ! 0, v_minor = numbers ! 1, v_patch = numbers ! 2,
                       v_pre = [], v_raw = raw\<rparr>
            in if length parts = 2
               then (case validate_identifiers value (parts ! 1) True of
                       Some e \<Rightarrow> Inl e
                     | None \<Rightarrow> Inr (ver\<lparr>v_pre := split_char (CHR ''.'') (parts ! 1)\<rparr>))
               else Inr ver))"

text \<open>The loops of \<open>Compare\<close>: over the three number pairs, then over the identifiers.\<close>

fun compare_numbers :: "(int \<times> int) list \<Rightarrow> int" where
  "compare_numbers [] = 0"
| "compare_numbers ((a, b) # rest) =
     (if a < b then -1 else if a > b then 1 else compare_numbers rest)"

definition compare_identifier :: "string \<Rightarrow> string \<Rightarrow> int" where
  "compare_identifier a b =
     (case (atoi a, atoi b) of
        (Some ai, Some bi) \<Rightarrow> if ai < bi then -1 else 1
      | (Some _, None) \<Rightarrow> -1
      | (None, Some _) \<Rightarrow> 1
      | (None, None) \<Rightarrow> if a < b then -1 else 1)"

fun compare_pre :: "string list \<Rightarrow> string list \<Rightarrow> int" where
  "compare_pre (a # as) (b # bs) =
     (if a = b then compare_pre as bs else compare_identifier a b)"
| "compare_pre [] [] = 0"
| "compare_pre [] (b # bs) = -1"
| "compare_pre (a # as) [] = 1"

definition compare_version :: "version \<Rightarrow> version \<Rightarrow> int" where
  "compare_version left right =
     (let c = compare_numbers [(v_major left, v_major right), (v_minor left, v_minor right),
                               (v_patch left, v_patch right)]
      in if c \<noteq> 0 then c
      else if v_pre left = [] \<and> v_pre right \<noteq> [] then 1
      else if v_pre left \<noteq> [] \<and> v_pre right = [] then -1
      else compare_pre (v_pre left) (v_pre right))"

section \<open>The reference order\<close>

text \<open>
  Precedence as SemVer 2.0.0 section 11 states it, as a linear order on keys: numeric
  identifiers come before the others and compare by value, a list of identifiers comes after
  its proper prefixes, and a release comes after its prereleases.
\<close>

datatype ident = Num nat | Alnum string

instantiation ident :: linorder
begin

fun less_eq_ident :: "ident \<Rightarrow> ident \<Rightarrow> bool" where
  "less_eq_ident (Num a) (Num b) = (a \<le> b)"
| "less_eq_ident (Num a) (Alnum t) = True"
| "less_eq_ident (Alnum s) (Num b) = False"
| "less_eq_ident (Alnum s) (Alnum t) = (s \<le> t)"

definition less_ident :: "ident \<Rightarrow> ident \<Rightarrow> bool" where
  "less_ident a b = (a \<le> b \<and> \<not> b \<le> (a :: ident))"

instance
proof
  fix x y z :: ident
  show "x < y \<longleftrightarrow> x \<le> y \<and> \<not> y \<le> x" by (simp add: less_ident_def)
  show "x \<le> x" by (cases x) auto
  show "x \<le> y \<Longrightarrow> y \<le> z \<Longrightarrow> x \<le> z" by (cases x; cases y; cases z) auto
  show "x \<le> y \<Longrightarrow> y \<le> x \<Longrightarrow> x = y" by (cases x; cases y) auto
  show "x \<le> y \<or> y \<le> x" by (cases x; cases y) auto
qed

end

datatype release = Prerelease "ident list" | Release

instantiation release :: linorder
begin

fun less_eq_release :: "release \<Rightarrow> release \<Rightarrow> bool" where
  "less_eq_release (Prerelease xs) (Prerelease ys) = (xs \<le> ys)"
| "less_eq_release (Prerelease xs) Release = True"
| "less_eq_release Release (Prerelease ys) = False"
| "less_eq_release Release Release = True"

definition less_release :: "release \<Rightarrow> release \<Rightarrow> bool" where
  "less_release a b = (a \<le> b \<and> \<not> b \<le> (a :: release))"

instance
proof
  fix x y z :: release
  show "x < y \<longleftrightarrow> x \<le> y \<and> \<not> y \<le> x" by (simp add: less_release_def)
  show "x \<le> x" by (cases x) auto
  show "x \<le> y \<Longrightarrow> y \<le> z \<Longrightarrow> x \<le> z" by (cases x; cases y; cases z) auto
  show "x \<le> y \<Longrightarrow> y \<le> x \<Longrightarrow> x = y" by (cases x; cases y) auto
  show "x \<le> y \<or> y \<le> x" by (cases x; cases y) auto
qed

end

definition ident_key :: "string \<Rightarrow> ident" where
  "ident_key s = (if all_digits s then Num (digits_val s) else Alnum s)"

definition version_key :: "version \<Rightarrow> int \<times> int \<times> int \<times> release" where
  "version_key v =
     (v_major v, v_minor v, v_patch v,
      if v_pre v = [] then Release else Prerelease (map ident_key (v_pre v)))"

text \<open>
  The identifiers on which the code's \<open>Atoi\<close> test agrees with SemVer's \<open>only digits\<close>: numeric
  ones are canonical and fit an \<open>int\<close>, and no other one is a signed number such as \<open>-1\<close>.
\<close>

definition plain_identifier :: "string \<Rightarrow> bool" where
  "plain_identifier s \<longleftrightarrow>
     (if all_digits s then canonical_digits s \<and> digits_val s < 2 ^ 63 else atoi s = None)"

definition plain_version :: "version \<Rightarrow> bool" where
  "plain_version v \<longleftrightarrow> list_all plain_identifier (v_pre v)"

text \<open>The three-way result of comparing two keys of a linear order.\<close>

definition three_way :: "'k :: linorder \<Rightarrow> 'k \<Rightarrow> int" where
  "three_way a b = (if a < b then -1 else if a = b then 0 else 1)"

locale three_way_order =
  fixes cmp :: "'a \<Rightarrow> 'a \<Rightarrow> int" and key :: "'a \<Rightarrow> 'k :: linorder" and ok :: "'a \<Rightarrow> bool"
  assumes cmp_key: "ok a \<Longrightarrow> ok b \<Longrightarrow> cmp a b = three_way (key a) (key b)"
begin

lemma cmp_antisym: "ok a \<Longrightarrow> ok b \<Longrightarrow> cmp b a = - cmp a b"
  by (auto simp: cmp_key three_way_def)

lemma cmp_trans: "ok a \<Longrightarrow> ok b \<Longrightarrow> ok c \<Longrightarrow> cmp a b \<le> 0 \<Longrightarrow> cmp b c \<le> 0 \<Longrightarrow> cmp a c \<le> 0"
  by (auto simp: cmp_key three_way_def split: if_splits)

lemma cmp_zero: "ok a \<Longrightarrow> ok b \<Longrightarrow> cmp a b = 0 \<longleftrightarrow> key a = key b"
  by (simp add: cmp_key three_way_def)

lemma cmp_less: "ok a \<Longrightarrow> ok b \<Longrightarrow> cmp a b < 0 \<longleftrightarrow> key a < key b"
  by (simp add: cmp_key three_way_def)

end

lemma compare_identifier_key:
  assumes "plain_identifier a" "plain_identifier b" "a \<noteq> b"
  shows "ident_key a \<noteq> ident_key b" "compare_identifier a b = three_way (ident_key a) (ident_key b)"
proof -
  have num: "atoi s = Some (int (digits_val s))" if "plain_identifier s" "all_digits s" for s
    using that by (simp add: plain_identifier_def atoi_digits canonical_digits_def)
  have oth: "atoi s = None" if "plain_identifier s" "\<not> all_digits s" for s
    using that by (simp add: plain_identifier_def)
  show ne: "ident_key a \<noteq> ident_key b"
    using assms by (auto simp: ident_key_def plain_identifier_def dest: digits_val_inject)
  show "compare_identifier a b = three_way (ident_key a) (ident_key b)"
    using assms(1,2) ne num [of a] num [of b] oth [of a] oth [of b]
    by (cases "all_digits a"; cases "all_digits b")
      (auto simp: compare_identifier_def three_way_def ident_key_def less_ident_def)
qed

lemma compare_pre_key:
  assumes "list_all plain_identifier as" "list_all plain_identifier bs"
  shows "compare_pre as bs = three_way (map ident_key as) (map ident_key bs)"
  using assms
proof (induction as bs rule: compare_pre.induct)
  case (1 a as b bs)
  show ?case
  proof (cases "a = b")
    case True
    with 1 show ?thesis by (auto simp: three_way_def)
  next
    case False
    with 1 compare_identifier_key [of a b] show ?thesis by (auto simp: three_way_def)
  qed
qed (simp_all add: three_way_def)

lemma compare_version_key:
  assumes "plain_version a" "plain_version b"
  shows "compare_version a b = three_way (version_key a) (version_key b)"
proof -
  have "compare_pre (v_pre a) (v_pre b) = three_way (map ident_key (v_pre a)) (map ident_key (v_pre b))"
    using assms by (simp add: plain_version_def compare_pre_key)
  then show ?thesis
    by (auto simp: compare_version_def version_key_def three_way_def less_prod_def less_release_def Let_def)
qed

interpretation ver: three_way_order compare_version version_key plain_version
  by unfold_locales (rule compare_version_key)

section \<open>Parsing and printing\<close>

definition valid_idents :: "bool \<Rightarrow> string list \<Rightarrow> bool" where
  "valid_idents pre xs \<longleftrightarrow> (\<forall>x \<in> set xs. check_identifier [] pre x = None)"

definition valid_version :: "version \<Rightarrow> bool" where
  "valid_version v \<longleftrightarrow>
     (\<forall>n \<in> {v_major v, v_minor v, v_patch v}. 0 \<le> n \<and> n < 2 ^ 63) \<and> valid_idents True (v_pre v)"

text \<open>\<open>MAJOR.MINOR.PATCH[-PRE][+BUILD]\<close>; an empty list of identifiers prints nothing.\<close>

definition render_core :: "version \<Rightarrow> string" where
  "render_core v = join_char (CHR ''.'') (map itoa [v_major v, v_minor v, v_patch v])"

definition render_version :: "version \<Rightarrow> string list \<Rightarrow> string" where
  "render_version v build =
     render_core v @ (if v_pre v = [] then [] else CHR ''-'' # join_char (CHR ''.'') (v_pre v)) @
     (if build = [] then [] else CHR ''+'' # join_char (CHR ''.'') build)"

lemma check_identifier_None:
  "check_identifier ver pre x = None \<longleftrightarrow>
     x \<noteq> [] \<and> list_all identifier_char x \<and>
     \<not> (pre \<and> all_digits x \<and> length x > 1 \<and> hd x = CHR ''0'')"
  by (simp add: check_identifier_def)

lemma validate_identifiers_None:
  "validate_identifiers ver value pre = None \<longleftrightarrow>
     value \<noteq> [] \<and> valid_idents pre (split_char (CHR ''.'') value)"
  by (simp add: validate_identifiers_def valid_idents_def result_iff check_identifier_None)

lemma identifier_char_visible: "identifier_char c \<Longrightarrow> visible c \<and> c \<noteq> CHR ''.'' \<and> c \<noteq> CHR ''+''"
  by (auto simp: identifier_char_def char_class_code visible_def)

lemma valid_idents_chars:
  assumes "valid_idents pre xs" "c \<in> set (join_char (CHR ''.'') xs)"
  shows "visible c \<and> c \<noteq> CHR ''+''"
proof -
  have "c = CHR ''.'' \<or> (\<exists>x \<in> set xs. c \<in> set x)"
    using assms(2) set_join_char [of "CHR ''.''" xs] by auto
  then show ?thesis
    using assms(1) identifier_char_visible
    by (auto simp: valid_idents_def check_identifier_None list_all_iff visible_def)
qed

lemma split_join_idents:
  assumes "valid_idents pre xs" "xs \<noteq> []"
  shows "split_char (CHR ''.'') (join_char (CHR ''.'') xs) = xs"
  using assms identifier_char_visible
  by (intro split_join) (auto simp: valid_idents_def check_identifier_None list_all_iff)

lemma join_idents_nonempty: "valid_idents pre xs \<Longrightarrow> xs \<noteq> [] \<Longrightarrow> join_char (CHR ''.'') xs \<noteq> []"
  by (cases xs; cases "tl xs") (auto simp: valid_idents_def check_identifier_None)

lemma itoa_digits: "0 \<le> n \<Longrightarrow> c \<in> set (itoa n) \<Longrightarrow> is_digit c"
  using show_nat_digits [of "nat n"] by (simp add: itoa_def all_digits_def list_all_iff)

lemma itoa_nonempty [simp]: "itoa n \<noteq> []"
  by (simp add: itoa_def)

lemma digit_visible: "is_digit c \<Longrightarrow> visible c \<and> c \<noteq> CHR ''.'' \<and> c \<noteq> CHR ''+'' \<and> c \<noteq> CHR ''-'' \<and> c \<noteq> CHR ''v''"
  by (auto simp: char_class_code visible_def)

lemma parse_component_itoa:
  assumes "0 \<le> n" "n < 2 ^ 63" shows "parse_component value (itoa n) = Inr n"
proof -
  have "canonical_digits (itoa n)" using assms(1) by (simp add: itoa_def canonical_digits_show_nat)
  moreover have "atoi (itoa n) = Some n" using assms by (intro atoi_itoa) auto
  ultimately show ?thesis using assms(1) by (simp add: parse_component_def canonical_digits_def)
qed

lemma parse_component_Inr:
  assumes "parse_component value item = Inr n" "CHR ''+'' \<notin> set item" "CHR ''-'' \<notin> set item"
  shows "item = itoa n \<and> 0 \<le> n \<and> n < 2 ^ 63"
proof -
  have a: "atoi item = Some n" "0 \<le> n" "item \<noteq> []" "length item > 1 \<longrightarrow> hd item \<noteq> CHR ''0''"
    using assms(1) by (auto simp: parse_component_def split: option.splits if_splits)
  have "take 1 item \<noteq> ''-''" "take 1 item \<noteq> ''+''" using assms(2,3) by (cases item; auto)+
  with a have d: "all_digits item" by (auto simp: atoi_def Let_def split: if_splits)
  with a have "n = int (digits_val item)" "n < 2 ^ 63"
    by (auto simp: atoi_digits split: if_splits)
  moreover have "show_nat (digits_val item) = item"
    using a d by (intro show_nat_digits_val) (simp add: canonical_digits_def)
  ultimately show ?thesis using a(2) by (simp add: itoa_def)
qed

lemma render_core_chars:
  assumes "valid_version v" "c \<in> set (render_core v)"
  shows "visible c \<and> c \<noteq> CHR ''+'' \<and> c \<noteq> CHR ''-'' \<and> c \<noteq> CHR ''v''"
proof -
  have "c = CHR ''.'' \<or> (\<exists>n \<in> {v_major v, v_minor v, v_patch v}. c \<in> set (itoa n))"
    using assms(2) by (auto simp: render_core_def)
  then show ?thesis
    using assms(1) itoa_digits digit_visible by (auto simp: valid_version_def visible_def)
qed

lemma split_render_core:
  assumes "valid_version v"
  shows "split_char (CHR ''.'') (render_core v) = map itoa [v_major v, v_minor v, v_patch v]"
proof -
  have "CHR ''.'' \<notin> set (itoa n)" if "0 \<le> n" for n
    using itoa_digits [OF that] digit_visible by blast
  with assms show ?thesis
    unfolding render_core_def by (intro split_join) (auto simp: valid_version_def)
qed

lemma render_core_hd:
  assumes "valid_version v" shows "render_core v \<noteq> []"
  by (simp add: render_core_def)

lemma render_version_raw:
  assumes v: "valid_version v" and b: "valid_idents False build"
  shows "trim_prefix (trim_space (render_version v build)) ''v'' = render_version v build"
proof -
  let ?s = "render_version v build"
  have pv: "valid_idents True (v_pre v)" using v by (simp add: valid_version_def)
  have "\<forall>c \<in> set ?s. visible c"
    using render_core_chars [OF v] valid_idents_chars [OF b] valid_idents_chars [OF pv]
    by (auto simp: render_version_def visible_def split: if_splits)
  then have ts: "trim_space ?s = ?s" by (rule trim_space_id)
  have "hd ?s \<noteq> CHR ''v''"
    using render_core_chars [OF v, of "hd (render_core v)"] render_core_hd [OF v]
    by (simp add: render_version_def)
  then have "\<not> has_prefix ?s ''v''" by (auto simp: has_prefix_iff)
  with ts show ?thesis by (simp add: trim_prefix_id)
qed

lemma parse_render_raw:
  assumes v: "valid_version v" and b: "valid_idents False build"
    and raw: "trim_prefix (trim_space s) ''v'' = render_version v build"
  shows "parse_version s = Inr (v\<lparr>v_raw := render_version v build\<rparr>)"
proof -
  let ?s = "render_version v build"
  let ?pre = "if v_pre v = [] then [] else CHR ''-'' # join_char (CHR ''.'') (v_pre v)"
  let ?main = "render_core v @ ?pre"
  have pv: "valid_idents True (v_pre v)" using v by (simp add: valid_version_def)
  have main: "visible c \<and> c \<noteq> CHR ''+''" if "c \<in> set ?main" for c
    using that render_core_chars [OF v] valid_idents_chars [OF pv]
    by (auto simp: visible_def split: if_splits)
  have sp: "split_char (CHR ''+'') ?s =
      (if build = [] then [?main] else [?main, join_char (CHR ''.'') build])"
  proof (cases "build = []")
    case True
    then have "?s = ?main" by (simp add: render_version_def)
    with True main show ?thesis by (metis split_char_id)
  next
    case False
    then have "?s = ?main @ CHR ''+'' # join_char (CHR ''.'') build" by (simp add: render_version_def)
    moreover have "CHR ''+'' \<notin> set ?main" using main by blast
    moreover have "CHR ''+'' \<notin> set (join_char (CHR ''.'') build)" using valid_idents_chars [OF b] by blast
    ultimately show ?thesis using False by (simp add: split_char_append split_char_id del: append_assoc)
  qed
  have bv: "validate_identifiers s (join_char (CHR ''.'') build) False = None" if "build \<noteq> []"
    using that b by (simp add: validate_identifiers_None split_join_idents join_idents_nonempty)
  have dash: "CHR ''-'' \<notin> set (render_core v)" using render_core_chars [OF v] by blast
  have parts: "split2 (CHR ''-'') ?main =
      (if v_pre v = [] then [render_core v] else [render_core v, join_char (CHR ''.'') (v_pre v)])"
    using dash by (simp add: split2_found split2_not_found)
  have ppv: "validate_identifiers s (join_char (CHR ''.'') (v_pre v)) True = None"
      "split_char (CHR ''.'') (join_char (CHR ''.'') (v_pre v)) = v_pre v" if "v_pre v \<noteq> []"
    using that pv by (simp_all add: validate_identifiers_None split_join_idents join_idents_nonempty)
  have core: "mapE (parse_component s) (map itoa [v_major v, v_minor v, v_patch v]) =
      Inr [v_major v, v_minor v, v_patch v]"
    using v by (simp add: valid_version_def parse_component_itoa)
  show ?thesis
    unfolding parse_version_def raw sp Let_def
    using bv parts ppv core
    by (auto simp: split_render_core [OF v] simp del: mapE.simps list.map)
qed

lemma parse_version_Inr:
  assumes "parse_version s = Inr v"
  shows "valid_version v \<and> v_raw v = trim_prefix (trim_space s) ''v'' \<and>
    (\<exists>build. valid_idents False build \<and> v_raw v = render_version v build)"
proof -
  define raw where "raw = trim_prefix (trim_space s) ''v''"
  define bp where "bp = split_char (CHR ''+'') raw"
  define parts where "parts = split2 (CHR ''-'') (bp ! 0)"
  define core where "core = split_char (CHR ''.'') (parts ! 0)"
  define ver where "ver = (\<lambda>numbers. \<lparr>v_major = numbers ! 0, v_minor = numbers ! 1,
      v_patch = numbers ! 2, v_pre = [], v_raw = raw\<rparr>)"
  define fin where "fin = (\<lambda>numbers.
      if length parts = 2
      then (case validate_identifiers s (parts ! 1) True of
              Some e \<Rightarrow> Inl e
            | None \<Rightarrow> Inr (ver numbers\<lparr>v_pre := split_char (CHR ''.'') (parts ! 1)\<rparr>))
      else Inr (ver numbers))"
  have run: "parse_version s =
     (if length bp > 2 then Inl (MoreThanOneBuildSeparator s)
      else case (if length bp = 2 then validate_identifiers s (bp ! 1) False else None) of
        Some e \<Rightarrow> Inl e
      | None \<Rightarrow> if length core \<noteq> 3 then Inl (NotSemVer s)
                else bindE (mapE (parse_component s) core) fin)"
    unfolding parse_version_def Let_def fin_def ver_def raw_def bp_def parts_def core_def ..
  have len: "length bp \<le> 2"
    and bv: "length bp = 2 \<longrightarrow> validate_identifiers s (bp ! 1) False = None"
    and c3: "length core = 3"
    and body: "bindE (mapE (parse_component s) core) fin = Inr v"
    using assms unfolding run by (auto split: if_splits option.splits)
  obtain ns where ns: "mapE (parse_component s) core = Inr ns" and fin: "fin ns = Inr v"
    using body by (auto simp: bindE_Inr)
  have pre: "length parts = 2 \<longrightarrow> validate_identifiers s (parts ! 1) True = None"
    and v: "v = \<lparr>v_major = ns ! 0, v_minor = ns ! 1, v_patch = ns ! 2,
              v_pre = (if length parts = 2 then split_char (CHR ''.'') (parts ! 1) else []), v_raw = raw\<rparr>"
    using fin unfolding fin_def ver_def by (auto split: if_splits option.splits)
  have bp0: "bp ! 0 \<in> set bp" by (simp add: bp_def)
  then have plus: "CHR ''+'' \<notin> set (bp ! 0)" unfolding bp_def by (rule split_no_sep)
  have raw: "raw = bp ! 0 @ (if length bp = 2 then CHR ''+'' # bp ! 1 else [])"
  proof -
    have j: "raw = join_char (CHR ''+'') bp" by (simp add: bp_def)
    have "bp \<noteq> []" by (simp add: bp_def)
    with len consider x where "bp = [x]" | x y where "bp = [x, y]"
      by (cases bp; cases "tl bp"; cases "tl (tl bp)") auto
    then show ?thesis using j by cases auto
  qed
  have p0: "CHR ''-'' \<notin> set (parts ! 0)" "set (parts ! 0) \<subseteq> set (bp ! 0)"
    and main: "bp ! 0 = parts ! 0 @ (if length parts = 2 then CHR ''-'' # parts ! 1 else [])"
    by (rule split2_cases [of "CHR ''-''" "bp ! 0"], auto simp: parts_def)+
  have items: "x = itoa n \<and> 0 \<le> n \<and> n < 2 ^ 63" if "x \<in> set core" "parse_component s x = Inr n" for x n
    using that parse_component_Inr [of s x n] set_split_char [of x "CHR ''.''" "parts ! 0"] p0 plus
    unfolding core_def by blast
  obtain a b c where core: "core = [a, b, c]" using c3
    by (cases core; cases "tl core"; cases "tl (tl core)") auto
  with ns obtain i j k where ijk: "ns = [i, j, k]" "parse_component s a = Inr i"
    "parse_component s b = Inr j" "parse_component s c = Inr k" by (auto simp: result_iff)
  then have it: "a = itoa i" "b = itoa j" "c = itoa k" "0 \<le> i" "0 \<le> j" "0 \<le> k"
    "i < 2 ^ 63" "j < 2 ^ 63" "k < 2 ^ 63" using items core by auto
  have "parts ! 0 = join_char (CHR ''.'') core" by (simp add: core_def)
  then have rc: "render_core v = parts ! 0" using core it v ijk(1) by (simp add: render_core_def)
  have vi: "valid_idents True (v_pre v)"
    using v pre by (auto simp: validate_identifiers_None valid_idents_def)
  have vv: "valid_version v" using v ijk(1) it vi by (simp add: valid_version_def)
  have mainv: "bp ! 0 = render_core v @ (if v_pre v = [] then [] else CHR ''-'' # join_char (CHR ''.'') (v_pre v))"
    using main rc v by simp
  let ?build = "if length bp = 2 then split_char (CHR ''.'') (bp ! 1) else []"
  have "valid_idents False ?build"
    using bv by (auto simp: validate_identifiers_None valid_idents_def)
  moreover have "raw = render_version v ?build"
    using raw mainv by (simp add: render_version_def)
  ultimately show ?thesis using vv v raw_def by auto
qed

section \<open>Properties\<close>

text \<open>\<open>ParseVersion\<close> accepts exactly the spellings of a semantic version.  It returns
  \<open>v\<close> for \<open>s\<close> if and only if \<open>s\<close>, without surrounding white space and one leading \<open>v\<close>, is
  \<open>MAJOR.MINOR.PATCH[-PRE][+BUILD]\<close> printed from the fields of \<open>v\<close> and some valid build
  identifiers, the numbers fit an \<open>int\<close>, and the prerelease identifiers are valid.\<close>

theorem parse_version_exact:
  "parse_version s = Inr v \<longleftrightarrow>
     valid_version v \<and> v_raw v = trim_prefix (trim_space s) ''v'' \<and>
     (\<exists>build. valid_idents False build \<and> v_raw v = render_version v build)"
  using parse_version_Inr [of s v] parse_render_raw [of v _ s] by (auto; metis version.surjective version.update_convs(5))

text \<open>A printed version parses back to itself: for every valid version and every list of
  valid build identifiers, parsing the printed form gives the version, with the printed form
  as its raw text.\<close>

theorem parse_render_version:
  assumes "valid_version v" "valid_idents False build"
  shows "parse_version (render_version v build) = Inr (v\<lparr>v_raw := render_version v build\<rparr>)"
  using assms by (intro parse_render_raw render_version_raw)

definition sample_version :: version where
  "sample_version = \<lparr>v_major = 1, v_minor = 20, v_patch = 3, v_pre = [''rc'', ''1''], v_raw = []\<rparr>"

theorem parse_render_version_witness:
  "parse_version (render_version sample_version [''build'', ''007'']) =
     Inr (sample_version\<lparr>v_raw := render_version sample_version [''build'', ''007'']\<rparr>)"
  by (rule parse_render_version; code_simp)

text \<open>C19: \<open>Compare\<close> is SemVer precedence: on versions whose identifiers are plain it is the
  three-way comparison of the reference keys, hence antisymmetric and 0 exactly for versions
  of equal precedence.\<close>

theorem compare_version_precedence:
  assumes "plain_version a" "plain_version b"
  shows "compare_version a b = three_way (version_key a) (version_key b) \<and>
    compare_version b a = - compare_version a b \<and>
    (compare_version a b = 0 \<longleftrightarrow> version_key a = version_key b)"
  using assms by (metis ver.cmp_key ver.cmp_antisym ver.cmp_zero)

theorem compare_version_precedence_witness:
  "compare_version sample_version (sample_version\<lparr>v_pre := [''rc'', ''1'', ''0'']\<rparr>) =
     three_way (version_key sample_version)
       (version_key (sample_version\<lparr>v_pre := [''rc'', ''1'', ''0'']\<rparr>))"
proof -
  have "plain_version sample_version" "plain_version (sample_version\<lparr>v_pre := [''rc'', ''1'', ''0'']\<rparr>)"
    by code_simp+
  then show ?thesis using compare_version_precedence by blast
qed

text \<open>Off the plain identifiers \<open>Compare\<close> is not an order: \<open>1.0.0--0\<close> and \<open>1.0.0-0\<close> are
  both accepted by \<open>ParseVersion\<close>, and each compares greater than the other, because \<open>-0\<close> is
  read as a number equal to 0.\<close>

theorem compare_version_signed_identifiers:
  "\<exists>a b. parse_version ''1.0.0--0'' = Inr a \<and> parse_version ''1.0.0-0'' = Inr b \<and>
     compare_version a b = 1 \<and> compare_version b a = 1"
proof -
  let ?v = "\<lambda>p r. \<lparr>v_major = 1, v_minor = 0, v_patch = 0, v_pre = [p], v_raw = r\<rparr>"
  have "parse_version ''1.0.0--0'' = Inr (?v ''-0'' ''1.0.0--0'')"
    "parse_version ''1.0.0-0'' = Inr (?v ''0'' ''1.0.0-0'')"
    "compare_version (?v ''-0'' ''1.0.0--0'') (?v ''0'' ''1.0.0-0'') = 1"
    "compare_version (?v ''0'' ''1.0.0-0'') (?v ''-0'' ''1.0.0--0'') = 1"
    by code_simp+
  then show ?thesis by blast
qed

end
