(* ===== verification/Runner.thy ===== *)
theory Runner
  imports Go_Strings
begin

text \<open>
  Commands and their effects (\<open>internal/command/runner.go\<close>).

  An effectful operation is a function from the history of the process, the list of the
  events so far, to its result and the longer history: \<open>'a io\<close>.  What the outside world
  answers is a \<open>machine\<close>, a record of arbitrary functions from the history and the request to
  the answer; every theorem about effectful code is for all machines, so it holds for every
  behaviour of the daemon, of other processes and of the file system, at any moment.  Events
  carry the answer, so a property of a history can speak of what the code had been told.
\<close>

section \<open>Events and machines\<close>

text \<open>What \<open>cmd.Run\<close> leaves: both outputs, its error, and the error of the context afterwards.\<close>

record outcome =
  oc_out :: string
  oc_err :: string
  oc_fail :: "string option"
  oc_ctx :: "string option"

text \<open>What a system call answers; \<open>Missing\<close> and \<open>Exists\<close> are the errors the code tells apart.\<close>

record file_info =
  fi_dir :: bool
  fi_symlink :: bool
  fi_regular :: bool
  fi_socket :: bool
  fi_uid :: int
  fi_size :: nat

datatype answer = Failed string | Missing | Exists | Text string | Info file_info | Flag bool

text \<open>
  An event is a captured command, a command run on the launcher's streams, a replacement of
  the process, a mutation lock taken (or refused) and released, a system call, or a message.
\<close>

datatype event =
    Captured "string list" outcome
  | Ran "string list" outcome
  | Replaced "string list" "string option"
  | Locked string bool
  | Unlocked string
  | Sys string "string list" answer
  | Said string "string list"

type_synonym history = "event list"

type_synonym 'a io = "history \<Rightarrow> 'a \<times> history"

record machine =
  m_exec :: "history \<Rightarrow> string list \<Rightarrow> outcome"
  m_look_path :: "history \<Rightarrow> string \<Rightarrow> string option"
  m_replace :: "history \<Rightarrow> string list \<Rightarrow> string option"
  m_lock :: "history \<Rightarrow> string \<Rightarrow> bool"
  m_sys :: "history \<Rightarrow> string \<Rightarrow> string list \<Rightarrow> answer"

definition ret :: "'a \<Rightarrow> 'a io" where
  "ret x h = (x, h)"

definition andThen :: "'a io \<Rightarrow> ('a \<Rightarrow> 'b io) \<Rightarrow> 'b io" where
  "andThen m f h = (case m h of (x, h') \<Rightarrow> f x h')"

text \<open>Sequence with the early return of an error.\<close>

definition andThenE :: "('e, 'a) result io \<Rightarrow> ('a \<Rightarrow> ('e, 'b) result io) \<Rightarrow> ('e, 'b) result io" where
  "andThenE m f = andThen m (\<lambda>r. case r of Inl e \<Rightarrow> ret (Inl e) | Inr v \<Rightarrow> f v)"

definition okE :: "'a \<Rightarrow> ('e, 'a) result io" where
  "okE v = ret (Inr v)"

definition failE :: "'e \<Rightarrow> ('e, 'a) result io" where
  "failE e = ret (Inl e)"

definition map_errE :: "('e \<Rightarrow> 'f) \<Rightarrow> ('e, 'a) result io \<Rightarrow> ('f, 'a) result io" where
  "map_errE g m = andThen m (\<lambda>r. ret (map_err g r))"

definition sys :: "('m) machine_scheme \<Rightarrow> string \<Rightarrow> string list \<Rightarrow> answer io" where
  "sys m name args h = (let a = m_sys m h name args in (a, h @ [Sys name args a]))"

definition say :: "string \<Rightarrow> string list \<Rightarrow> unit io" where
  "say topic args h = ((), h @ [Said topic args])"

text \<open>
  A mutation lock: one event for taking it (the machine says whether it is granted) and one
  for releasing it.
\<close>

definition take_lock :: "('m) machine_scheme \<Rightarrow> string \<Rightarrow> bool io" where
  "take_lock m path h = (let b = m_lock m h path in (b, h @ [Locked path b]))"

definition release_lock :: "string \<Rightarrow> unit io" where
  "release_lock path h = ((), h @ [Unlocked path])"

lemma ret_apply [simp]: "ret x h = (x, h)"
  by (simp add: ret_def)

lemma okE_apply [simp]: "okE v h = (Inr v, h)"
  by (simp add: okE_def)

lemma failE_apply [simp]: "failE e h = (Inl e, h)"
  by (simp add: failE_def)

lemma andThen_apply: "andThen m f h = (let (x, h') = m h in f x h')"
  by (simp add: andThen_def Let_def)

lemma andThen_pair [simp]: "m h = (x, h') \<Longrightarrow> andThen m f h = f x h'"
  by (simp add: andThen_def)

lemma andThenE_Inr [simp]: "m h = (Inr v, h') \<Longrightarrow> andThenE m f h = f v h'"
  by (simp add: andThenE_def andThen_def)

lemma andThenE_Inl [simp]: "m h = (Inl e, h') \<Longrightarrow> andThenE m f h = (Inl e, h')"
  by (simp add: andThenE_def andThen_def)

lemma andThenE_cases:
  assumes "andThenE m f h = (r, h'')"
  obtains e where "m h = (Inl e, h'')" "r = Inl e"
  | v h' where "m h = (Inr v, h')" "f v h' = (r, h'')"
  using assms by (cases "m h"; cases "fst (m h)") (auto simp: andThenE_def andThen_def)

lemma map_errE_cases:
  assumes "map_errE g m h = (r, h')"
  obtains e where "m h = (Inl e, h')" "r = Inl (g e)"
  | v where "m h = (Inr v, h')" "r = Inr v"
  using assms by (cases "m h"; cases "fst (m h)") (auto simp: map_errE_def andThen_def)

section \<open>Invariants of histories\<close>

text \<open>
  \<open>keeps P m\<close>: running \<open>m\<close> keeps \<open>P\<close> of the history.  The rules go through the combinators;
  \<open>appends Q m\<close> says that \<open>m\<close> only appends events satisfying \<open>Q\<close>.
\<close>

named_theorems io_rules \<open>rules for the events an operation appends\<close>

definition appends :: "(event \<Rightarrow> bool) \<Rightarrow> 'a io \<Rightarrow> bool" where
  "appends Q m \<longleftrightarrow> (\<forall>h. \<exists>es. snd (m h) = h @ es \<and> (\<forall>e \<in> set es. Q e))"

lemma appendsD:
  assumes "appends Q m" "m h = (x, h')"
  obtains es where "h' = h @ es" "\<forall>e \<in> set es. Q e"
  using assms unfolding appends_def by (metis snd_conv)

lemma appends_ret [io_rules]: "appends Q (ret x)"
  by (simp add: appends_def)

lemma appends_okE [io_rules]: "appends Q (okE x)"
  by (simp add: appends_def)

lemma appends_failE [io_rules]: "appends Q (failE x)"
  by (simp add: appends_def)

lemma appends_Pair [io_rules]: "appends Q (Pair x)"
  by (simp add: appends_def)

lemma appends_andThen [io_rules]:
  assumes "appends Q m" "\<And>x. appends Q (f x)"
  shows "appends Q (andThen m f)"
  unfolding appends_def
proof
  fix h
  obtain x h1 where m: "m h = (x, h1)" by fastforce
  obtain es where es: "h1 = h @ es" "\<forall>e \<in> set es. Q e" using assms(1) m by (rule appendsD)
  obtain y h2 where f: "f x h1 = (y, h2)" by fastforce
  obtain fs where fs: "h2 = h1 @ fs" "\<forall>e \<in> set fs. Q e" using assms(2) f by (rule appendsD)
  have "snd (andThen m f h) = h @ es @ fs \<and> (\<forall>e \<in> set (es @ fs). Q e)"
    using m f es fs by auto
  then show "\<exists>es. snd (andThen m f h) = h @ es \<and> (\<forall>e \<in> set es. Q e)" by blast
qed

lemma appends_andThenE [io_rules]:
  assumes "appends Q m" "\<And>x. appends Q (f x)"
  shows "appends Q (andThenE m f)"
  unfolding andThenE_def using assms by (intro appends_andThen) (auto split: sum.split intro: appends_ret)

text \<open>The continuation may use what is known of the results.\<close>

lemma appends_andThen_result:
  assumes "appends Q m" "\<And>h x h'. m h = (x, h') \<Longrightarrow> appends Q (f x)"
  shows "appends Q (andThen m f)"
  unfolding appends_def
proof
  fix h
  obtain x h1 where m: "m h = (x, h1)" by fastforce
  obtain es where es: "h1 = h @ es" "\<forall>e \<in> set es. Q e" using assms(1) m by (rule appendsD)
  obtain y h2 where f: "f x h1 = (y, h2)" by fastforce
  obtain fs where fs: "h2 = h1 @ fs" "\<forall>e \<in> set fs. Q e" using assms(2) [OF m] f by (rule appendsD)
  have "snd (andThen m f h) = h @ es @ fs \<and> (\<forall>e \<in> set (es @ fs). Q e)" using m f es fs by auto
  then show "\<exists>es. snd (andThen m f h) = h @ es \<and> (\<forall>e \<in> set es. Q e)" by blast
qed

lemma appends_andThenE_result:
  assumes "appends Q m" "\<And>h v h'. m h = (Inr v, h') \<Longrightarrow> appends Q (f v)"
  shows "appends Q (andThenE m f)"
  unfolding andThenE_def
  using assms by (intro appends_andThen_result) (auto split: sum.split intro: appends_ret)

lemma appends_map_errE [io_rules]: "appends Q m \<Longrightarrow> appends Q (map_errE g m)"
  unfolding map_errE_def by (intro appends_andThen appends_ret)

lemma appends_if [io_rules]: "(b \<Longrightarrow> appends Q m) \<Longrightarrow> (\<not> b \<Longrightarrow> appends Q n) \<Longrightarrow> appends Q (if b then m else n)"
  by simp

lemma appends_option [io_rules]:
  "appends Q m \<Longrightarrow> (\<And>v. appends Q (f v)) \<Longrightarrow> appends Q (case x of None \<Rightarrow> m | Some v \<Rightarrow> f v)"
  by (cases x) auto

lemma appends_sum [io_rules]:
  "(\<And>e. appends Q (f e)) \<Longrightarrow> (\<And>v. appends Q (g v)) \<Longrightarrow>
     appends Q (case x of Inl e \<Rightarrow> f e | Inr v \<Rightarrow> g v)"
  by (cases x) auto

lemma appends_prod [io_rules]: "(\<And>a b. appends Q (f a b)) \<Longrightarrow> appends Q (case p of (a, b) \<Rightarrow> f a b)"
  by (cases p) auto

lemma appends_let [io_rules]: "(\<And>x. appends Q (f x)) \<Longrightarrow> appends Q (let x = v in f x)"
  by simp

lemma appends_sys [io_rules]: "(\<And>a. Q (Sys name args a)) \<Longrightarrow> appends Q (sys m name args)"
  by (simp add: appends_def sys_def Let_def)

lemma appends_say [io_rules]: "Q (Said topic args) \<Longrightarrow> appends Q (say topic args)"
  by (simp add: appends_def say_def)

lemma appends_take_lock [io_rules]: "(\<And>b. Q (Locked path b)) \<Longrightarrow> appends Q (take_lock m path)"
  by (simp add: appends_def take_lock_def Let_def)

lemma appends_release_lock [io_rules]: "Q (Unlocked path) \<Longrightarrow> appends Q (release_lock path)"
  by (simp add: appends_def release_lock_def)

lemma appends_mono: "appends P m \<Longrightarrow> (\<And>e. P e \<Longrightarrow> Q e) \<Longrightarrow> appends Q m"
  unfolding appends_def by blast

section \<open>The runner\<close>

datatype cmd_error =
    EmptyCommand
  | ExecFailed string
  | ExecCancelled string string
  | LookPathFailed string

text \<open>\<open>commandError\<close>: an error of a cancelled context is joined to a failure, never to a success.\<close>

definition command_error :: "string option \<Rightarrow> string option \<Rightarrow> cmd_error option" where
  "command_error ctx err =
     (case err of
        None \<Rightarrow> None
      | Some e \<Rightarrow> (case ctx of None \<Rightarrow> Some (ExecFailed e) | Some c \<Rightarrow> Some (ExecCancelled e c)))"

definition empty_argv :: "string list \<Rightarrow> bool" where
  "empty_argv argv = (argv = [] \<or> hd argv = [])"

text \<open>\<open>ExecRunner.Capture\<close> returns the two outputs and the error separately.\<close>

definition runner_capture :: "('m) machine_scheme \<Rightarrow> string list \<Rightarrow> (string \<times> string \<times> cmd_error option) io" where
  "runner_capture m argv h =
     (if empty_argv argv then (([], [], Some EmptyCommand), h)
      else let r = m_exec m h argv in
        ((oc_out r, oc_err r, command_error (oc_ctx r) (oc_fail r)), h @ [Captured argv r]))"

definition runner_run :: "('m) machine_scheme \<Rightarrow> string list \<Rightarrow> cmd_error option io" where
  "runner_run m argv h =
     (if empty_argv argv then (Some EmptyCommand, h)
      else let r = m_exec m h argv in (command_error (oc_ctx r) (oc_fail r), h @ [Ran argv r]))"

text \<open>\<open>Replace\<close> only returns when the process was not replaced.\<close>

definition runner_replace :: "('m) machine_scheme \<Rightarrow> string list \<Rightarrow> cmd_error option io" where
  "runner_replace m argv h =
     (if empty_argv argv then (Some EmptyCommand, h)
      else case m_look_path m h (hd argv) of
        None \<Rightarrow> (Some (LookPathFailed (hd argv)), h)
      | Some path \<Rightarrow>
          let r = m_replace m h (path # tl argv) in
          (map_option ExecFailed r, h @ [Replaced argv r]))"

definition environment_without_compose :: "string list \<Rightarrow> string list" where
  "environment_without_compose environ = filter (\<lambda>item. \<not> has_prefix item ''COMPOSE_'') environ"

lemma appends_runner_run [io_rules]: "(\<And>r. Q (Ran argv r)) \<Longrightarrow> appends Q (runner_run m argv)"
  by (simp add: appends_def runner_run_def Let_def)

lemma command_error_ok [simp]: "command_error ctx None = None"
  by (simp add: command_error_def)

lemma command_error_None [simp]: "command_error ctx err = None \<longleftrightarrow> err = None"
  by (auto simp: command_error_def split: option.splits)

end
