(* ===== verification/Docker_Model.thy ===== *)
theory Docker_Model
  imports Runner "HOL-Library.Multiset"
begin

text \<open>
  Docker objects and the client that runs the \<open>docker\<close> command (\<open>internal/runtime/docker.go\<close>).
  The daemon's JSON is decoded by \<open>encoding/json\<close> into these records; the decoded value of an
  output is part of the model of the machine (a \<open>daemon\<close>), so nothing is assumed of it.
\<close>

section \<open>Objects\<close>

record bind_options =
  bo_propagation :: string
  bo_non_recursive :: bool
  bo_ro_non_recursive :: bool
  bo_ro_force_recursive :: bool
  bo_create_mountpoint :: bool

record mount =
  mt_type :: string
  mt_name :: string
  mt_source :: string
  mt_destination :: string
  mt_rw :: bool
  mt_mode :: string
  mt_propagation :: string
  mt_subpath :: string
  mt_bind_options :: bind_options
  mt_consistency :: string

record mount_definition =
  md_type :: string
  md_source :: string
  md_target :: string
  md_consistency :: string
  md_bind_options :: bind_options
  md_volume_subpath :: string

record container =
  c_id :: string
  c_image_id :: string
  c_name :: string
  c_created :: string
  c_image :: string
  c_labels :: labels
  c_env :: "string list"
  c_status :: string
  c_running :: bool
  c_paused :: bool
  c_restarting :: bool
  c_exit_code :: int
  c_started :: string
  c_mounts :: "mount list"
  c_host_mounts :: "mount_definition list"

record volume =
  vol_name :: string
  vol_driver :: string
  vol_mountpoint :: string
  vol_created_at :: string
  vol_labels :: labels

record network =
  net_id :: string
  net_name :: string
  net_driver :: string
  net_labels :: labels

record image =
  img_id :: string
  img_os :: string
  img_architecture :: string
  img_repo_digests :: "string list"
  img_labels :: labels
  img_volumes :: "string list"

definition clean_name :: "container \<Rightarrow> string" where
  "clean_name c = trim_prefix (c_name c) ''/''"

text \<open>
  A rendered Compose project (\<open>internal/compose/project.go\<close>): the image of each service, the
  volumes and networks, and the config hash of each service.
\<close>

record rendered_object =
  ro_name :: string
  ro_external :: bool

record rendered =
  rd_services :: "(string \<times> string) list"
  rd_volumes :: "(string \<times> rendered_object) list"
  rd_networks :: "(string \<times> rendered_object) list"
  rd_hashes :: labels

text \<open>A machine with a Docker daemon: what \<open>json.Unmarshal\<close> makes of an output (\<open>None\<close>: an error).\<close>

record daemon = machine +
  dec_containers :: "string \<Rightarrow> container list option"
  dec_volumes :: "string \<Rightarrow> volume list option"
  dec_networks :: "string \<Rightarrow> network list option"
  dec_images :: "string \<Rightarrow> image list option"
  dec_project :: "string \<Rightarrow> rendered option"

datatype docker_error =
    NotFound
  | CommandFailed "string list" cmd_error string
  | DecodeFailed string
  | WrongCount string nat string

section \<open>The client\<close>

definition is_not_found :: "string \<Rightarrow> bool" where
  "is_not_found stderr =
     (let text = to_lower stderr in
      contains_str text ''no such object'' \<or>
      contains_str text ''no such container'' \<or>
      contains_str text ''no such volume'' \<or>
      contains_str text ''no such network'' \<or>
      contains_str text ''no such image'' \<or>
      (contains_str text ''network '' \<and> contains_str text '' not found''))"

text \<open>
  \<open>sortedKeys\<close>: the inner loop moves the element at \<open>j\<close> down while it is smaller than its
  predecessor; it returns the array as a list.
\<close>

fun sift_down :: "string list \<Rightarrow> nat \<Rightarrow> string list" where
  "sift_down keys 0 = keys"
| "sift_down keys (Suc j) =
     (if keys ! Suc j < keys ! j
      then sift_down (keys[Suc j := keys ! j, j := keys ! Suc j]) j
      else keys)"

definition insertion_sort :: "string list \<Rightarrow> string list" where
  "insertion_sort keys = foldl sift_down keys [1..<length keys]"

definition sorted_keys :: "labels \<Rightarrow> string list" where
  "sorted_keys values = insertion_sort (keys_of values)"

text \<open>\<open>capture\<close> keeps the result beside the error, which names the command and the message.\<close>

definition docker_capture ::
  "daemon \<Rightarrow> string list \<Rightarrow> (string \<times> string \<times> docker_error option) io" where
  "docker_capture d argv =
     andThen (runner_capture d argv) (\<lambda>(out, err, failure).
       ret (out, err, map_option (\<lambda>e. CommandFailed (take 3 argv) e (trim_space err)) failure))"

definition docker_run :: "daemon \<Rightarrow> string list \<Rightarrow> (docker_error, unit) result io" where
  "docker_run d argv =
     andThen (runner_run d argv) (\<lambda>failure.
       case failure of None \<Rightarrow> okE () | Some e \<Rightarrow> failE (CommandFailed (take 3 argv) e []))"

definition inspect_containers ::
  "daemon \<Rightarrow> string list \<Rightarrow> (docker_error, container list) result io" where
  "inspect_containers d names =
     (if names = [] then okE []
      else andThen (docker_capture d ([''docker'', ''inspect'', ''--type'', ''container''] @ names))
        (\<lambda>(out, err, failure).
          case failure of
            Some e \<Rightarrow> if is_not_found err then failE NotFound else failE e
          | None \<Rightarrow>
              (case dec_containers d out of
                 None \<Rightarrow> failE (DecodeFailed ''container'')
               | Some containers \<Rightarrow> okE containers)))"

definition list_containers :: "daemon \<Rightarrow> (docker_error, container list) result io" where
  "list_containers d =
     andThen (docker_capture d [''docker'', ''ps'', ''-aq'', ''--no-trunc'']) (\<lambda>(out, err, failure).
       case failure of
         Some e \<Rightarrow> failE e
       | None \<Rightarrow> (let ids = str_fields out in if ids = [] then okE [] else inspect_containers d ids))"

text \<open>The inspections of one object: \<open>Inr None\<close> when the daemon says it does not exist.\<close>

definition inspect_container :: "daemon \<Rightarrow> string \<Rightarrow> (docker_error, container option) result io" where
  "inspect_container d name =
     andThen (inspect_containers d [name]) (\<lambda>r.
       case r of
         Inl e \<Rightarrow> if e = NotFound then okE None else failE e
       | Inr containers \<Rightarrow>
           if length containers \<noteq> 1 then failE (WrongCount ''container'' (length containers) name)
           else okE (Some (containers ! 0)))"

definition inspect_one ::
  "daemon \<Rightarrow> string list \<Rightarrow> (string \<Rightarrow> 'a list option) \<Rightarrow> string \<Rightarrow> string \<Rightarrow>
     (docker_error, 'a option) result io" where
  "inspect_one d argv decode kind name =
     andThen (docker_capture d argv) (\<lambda>(out, err, failure).
       case failure of
         Some e \<Rightarrow> if is_not_found err then okE None else failE e
       | None \<Rightarrow>
           (case decode out of
              None \<Rightarrow> failE (DecodeFailed kind)
            | Some objects \<Rightarrow>
                if length objects \<noteq> 1 then failE (WrongCount kind (length objects) name)
                else okE (Some (objects ! 0))))"

definition inspect_volume :: "daemon \<Rightarrow> string \<Rightarrow> (docker_error, volume option) result io" where
  "inspect_volume d name =
     inspect_one d [''docker'', ''volume'', ''inspect'', name] (dec_volumes d) ''volume'' name"

definition inspect_network :: "daemon \<Rightarrow> string \<Rightarrow> (docker_error, network option) result io" where
  "inspect_network d name =
     inspect_one d [''docker'', ''network'', ''inspect'', name] (dec_networks d) ''network'' name"

definition inspect_image :: "daemon \<Rightarrow> string \<Rightarrow> (docker_error, image option) result io" where
  "inspect_image d reference =
     inspect_one d [''docker'', ''image'', ''inspect'', reference] (dec_images d) ''image'' reference"

definition create_volume_argv :: "string \<Rightarrow> labels \<Rightarrow> string list" where
  "create_volume_argv name ls =
     [''docker'', ''volume'', ''create''] @
     concat (map (\<lambda>key. [''--label'', key @ ''='' @ label ls key]) (sorted_keys ls)) @ [name]"

definition create_volume :: "daemon \<Rightarrow> string \<Rightarrow> labels \<Rightarrow> (docker_error, unit) result io" where
  "create_volume d name ls = docker_run d (create_volume_argv name ls)"

definition remove_volume :: "daemon \<Rightarrow> string \<Rightarrow> (docker_error, unit) result io" where
  "remove_volume d name = docker_run d [''docker'', ''volume'', ''rm'', name]"

definition pull_image :: "daemon \<Rightarrow> string \<Rightarrow> cmd_error option io" where
  "pull_image d reference = runner_run d [''docker'', ''pull'', reference]"

definition start_container :: "daemon \<Rightarrow> string \<Rightarrow> (docker_error, unit) result io" where
  "start_container d name = docker_run d [''docker'', ''start'', name]"

definition stop_container :: "daemon \<Rightarrow> string \<Rightarrow> (docker_error, unit) result io" where
  "stop_container d name = docker_run d [''docker'', ''stop'', name]"

definition exec_capture ::
  "daemon \<Rightarrow> string \<Rightarrow> string list \<Rightarrow> (string \<times> string \<times> docker_error option) io" where
  "exec_capture d name args = docker_capture d ([''docker'', ''exec'', name] @ args)"

definition container_logs ::
  "daemon \<Rightarrow> string \<Rightarrow> int \<Rightarrow> (string \<times> string \<times> docker_error option) io" where
  "container_logs d name n =
     (let count = if n \<le> 0 then 80 else n in
      docker_capture d [''docker'', ''logs'', ''--tail'', itoa count, name])"

section \<open>What a client call appends and learns\<close>

lemma docker_capture_apply:
  "\<not> empty_argv argv \<Longrightarrow> docker_capture d argv h =
     (let r = m_exec d h argv in
      ((oc_out r, oc_err r, map_option (\<lambda>e. CommandFailed (take 3 argv) e (trim_space (oc_err r)))
          (command_error (oc_ctx r) (oc_fail r))), h @ [Captured argv r]))"
  by (simp add: docker_capture_def runner_capture_def andThen_def Let_def)

lemma docker_run_apply:
  "\<not> empty_argv argv \<Longrightarrow> docker_run d argv h =
     (let r = m_exec d h argv in
      (case command_error (oc_ctx r) (oc_fail r) of
         None \<Rightarrow> Inr () | Some e \<Rightarrow> Inl (CommandFailed (take 3 argv) e []), h @ [Ran argv r]))"
  by (simp add: docker_run_def runner_run_def andThen_def Let_def split: option.splits)

lemma appends_docker_capture [io_rules]:
  assumes "\<And>r. Q (Captured argv r)" shows "appends Q (docker_capture d argv)"
proof (cases "empty_argv argv")
  case True
  then show ?thesis by (simp add: appends_def docker_capture_def runner_capture_def andThen_def)
next
  case False
  with assms show ?thesis by (simp add: appends_def docker_capture_apply Let_def)
qed

lemma appends_docker_run [io_rules]:
  assumes "\<And>r. Q (Ran argv r)" shows "appends Q (docker_run d argv)"
proof (cases "empty_argv argv")
  case True
  then show ?thesis by (simp add: appends_def docker_run_def runner_run_def andThen_def)
next
  case False
  with assms show ?thesis by (simp add: appends_def docker_run_apply Let_def)
qed

text \<open>
  \<open>one_answer decode r\<close>: what the outcome of an inspection says about the object, \<open>Some None\<close>
  when it does not exist; \<open>None\<close> when the outcome is an error.
\<close>

definition one_answer :: "(string \<Rightarrow> 'a list option) \<Rightarrow> outcome \<Rightarrow> 'a option option" where
  "one_answer decode r =
     (if oc_fail r \<noteq> None then (if is_not_found (oc_err r) then Some None else None)
      else case decode (oc_out r) of
        None \<Rightarrow> None
      | Some objects \<Rightarrow> if length objects = 1 then Some (Some (objects ! 0)) else None)"

lemma inspect_one_result:
  assumes "\<not> empty_argv argv"
  shows "\<exists>r. snd (inspect_one d argv decode kind name h) = h @ [Captured argv (m_exec d h argv)] \<and>
     fst (inspect_one d argv decode kind name h) = r \<and>
     (case one_answer decode (m_exec d h argv) of None \<Rightarrow> \<exists>e. r = Inl e | Some v \<Rightarrow> r = Inr v)"
  using assms
  by (auto simp: inspect_one_def andThen_def docker_capture_apply Let_def one_answer_def
      split: option.splits)

lemma inspect_oneE:
  assumes "inspect_one d argv decode kind name h = (r, h')" "\<not> empty_argv argv"
  obtains "one_answer decode (m_exec d h argv) = None" "h' = h @ [Captured argv (m_exec d h argv)]"
    "\<exists>e. r = Inl e"
  | v where "one_answer decode (m_exec d h argv) = Some v"
    "h' = h @ [Captured argv (m_exec d h argv)]" "r = Inr v"
  using inspect_one_result [of argv d decode kind name h] assms by (auto split: option.splits)

abbreviation inspect_volume_argv :: "string \<Rightarrow> string list" where
  "inspect_volume_argv name \<equiv> [''docker'', ''volume'', ''inspect'', name]"

text \<open>\<open>volume_told d name v e\<close>: the event is an inspection of the volume that answered \<open>v\<close>.\<close>

definition volume_told :: "daemon \<Rightarrow> string \<Rightarrow> volume option \<Rightarrow> event \<Rightarrow> bool" where
  "volume_told d name v e =
     (case e of
        Captured argv r \<Rightarrow> argv = inspect_volume_argv name \<and> one_answer (dec_volumes d) r = Some v
      | _ \<Rightarrow> False)"

lemma inspect_volume_cases:
  assumes "inspect_volume d name h = (r, h')"
  obtains e ev where "r = Inl e" "h' = h @ [ev]" "\<exists>x. ev = Captured (inspect_volume_argv name) x"
  | v ev where "r = Inr v" "h' = h @ [ev]" "volume_told d name v ev"
    "\<exists>x. ev = Captured (inspect_volume_argv name) x"
proof -
  have ne: "\<not> empty_argv (inspect_volume_argv name)" by (simp add: empty_argv_def)
  from assms [unfolded inspect_volume_def] ne show thesis
    by (rule inspect_oneE) (use that in \<open>auto simp: volume_told_def\<close>)
qed

section \<open>The insertion sort\<close>

lemma sift_down_length [simp]: "length (sift_down keys j) = length keys"
  by (induction keys j rule: sift_down.induct) auto

lemma sift_down_mset: "j < length keys \<Longrightarrow> mset (sift_down keys j) = mset keys"
proof (induction keys j rule: sift_down.induct)
  case (2 keys j)
  then show ?case by (auto simp: mset_swap)
qed simp

lemma sift_down_drop: "drop (Suc j) (sift_down keys j) = drop (Suc j) keys"
proof (induction keys j rule: sift_down.induct)
  case (2 keys j)
  show ?case
  proof (cases "keys ! Suc j < keys ! j")
    case True
    let ?k = "keys[Suc j := keys ! j, j := keys ! Suc j]"
    have "drop (Suc (Suc j)) (sift_down ?k j) = drop (Suc (Suc j)) ?k"
      using 2 [OF True] by (metis drop_drop plus_1_eq_Suc)
    with True show ?thesis by simp
  qed simp
qed simp

text \<open>A sorted prefix stays sorted when the next element is moved into it.\<close>

lemma sift_down_sorted:
  assumes "j < length keys" "sorted (take j keys)"
  shows "sorted (take (Suc j) (sift_down keys j)) \<and>
    (\<forall>x. (\<forall>y \<in> set (take (Suc j) keys). y \<le> x) \<longrightarrow> (\<forall>y \<in> set (take (Suc j) (sift_down keys j)). y \<le> x))"
  using assms
proof (induction j arbitrary: keys)
  case 0
  then show ?case by (cases keys) auto
next
  case (Suc j)
  show ?case
  proof (cases "keys ! Suc j < keys ! j")
    case False
    have "sorted (take (Suc j) keys @ [keys ! Suc j])"
      using Suc.prems False by (auto simp: sorted_append take_Suc_conv_app_nth)
    with Suc.prems False show ?thesis by (simp add: take_Suc_conv_app_nth)
  next
    case True
    let ?a = "keys ! j" and ?b = "keys ! Suc j"
    let ?k = "keys[Suc j := ?a, j := ?b]"
    let ?r = "sift_down ?k j"
    have tk: "take (Suc j) keys = take j keys @ [?a]" using Suc.prems by (simp add: take_Suc_conv_app_nth)
    have srt: "sorted (take j keys)" and le: "\<forall>y \<in> set (take j keys). y \<le> ?a"
      using Suc.prems(2) unfolding tk by (auto simp: sorted_append)
    have tj: "take j ?k = take j keys" by simp
    have tsj: "take (Suc j) ?k = take j keys @ [?b]" using Suc.prems by (simp add: take_Suc_conv_app_nth)
    have IH: "sorted (take (Suc j) ?r)"
      "\<forall>x. (\<forall>y \<in> set (take (Suc j) ?k). y \<le> x) \<longrightarrow> (\<forall>y \<in> set (take (Suc j) ?r). y \<le> x)"
      using Suc.IH [of ?k] Suc.prems srt tj by auto
    have "?r ! Suc j = ?k ! Suc j"
      using sift_down_drop [of j ?k] Suc.prems
      by (metis Cons_nth_drop_Suc length_list_update list.inject sift_down_length)
    then have last: "?r ! Suc j = ?a" using Suc.prems by simp
    have "\<forall>y \<in> set (take (Suc j) ?k). y \<le> ?a"
      unfolding tsj using le True by (auto intro: less_imp_le)
    then have bound: "\<forall>y \<in> set (take (Suc j) ?r). y \<le> ?a" using IH(2) by blast
    have t2: "take (Suc (Suc j)) ?r = take (Suc j) ?r @ [?a]"
      using Suc.prems last by (simp add: take_Suc_conv_app_nth)
    have "take (Suc (Suc j)) keys = take j keys @ [?a, ?b]"
      using Suc.prems tk by (simp add: take_Suc_conv_app_nth)
    then have set2: "set (take (Suc (Suc j)) keys) = insert ?a (set (take (Suc j) ?k))"
      unfolding tsj by auto
    have "\<forall>y \<in> set (take (Suc (Suc j)) ?r). y \<le> x"
      if "\<forall>y \<in> set (take (Suc (Suc j)) keys). y \<le> x" for x
    proof -
      have "\<forall>y \<in> set (take (Suc j) ?r). y \<le> x" "?a \<le> x"
        using that IH(2) unfolding set2 by blast+
      then show ?thesis unfolding t2 by (auto simp del: take_Suc)
    qed
    moreover have "sorted (take (Suc (Suc j)) ?r)"
      unfolding t2 using IH(1) bound by (simp add: sorted_append)
    ultimately show ?thesis unfolding sift_down.simps using True by auto
  qed
qed

lemma insertion_sort_prefix:
  assumes "n \<le> length keys"
  shows "sorted (take n (foldl sift_down keys [1..<n])) \<and>
    mset (foldl sift_down keys [1..<n]) = mset keys \<and>
    length (foldl sift_down keys [1..<n]) = length keys"
  using assms
proof (induction n)
  case (Suc n)
  let ?r = "foldl sift_down keys [1..<n]"
  have IH: "sorted (take n ?r)" "mset ?r = mset keys" "length ?r = length keys"
    using Suc by auto
  show ?case
  proof (cases "n = 0")
    case True
    then show ?thesis by (cases keys) auto
  next
    case False
    then have "foldl sift_down keys [1..<Suc n] = sift_down ?r n" by simp
    then show ?thesis
      using IH Suc.prems sift_down_sorted [of n ?r] by (simp add: sift_down_mset)
  qed
qed simp

lemma insertion_sort_eq: "insertion_sort keys = sort keys"
proof -
  have "sorted (insertion_sort keys)" "mset (insertion_sort keys) = mset keys"
    using insertion_sort_prefix [of "length keys" keys] by (auto simp: insertion_sort_def)
  then show ?thesis by (metis properties_for_sort)
qed

lemma sorted_keys_eq: "sorted_keys ls = sorted_list_of_set (dom (map_of ls))"
proof -
  have "sorted_keys ls = sort (remdups (keys_of ls))"
    by (simp add: sorted_keys_def insertion_sort_eq distinct_remdups_id)
  then show ?thesis by (simp flip: sorted_list_of_set_sort_remdups)
qed

end
