(* ===== verification/Go_Path.thy ===== *)
theory Go_Path
  imports Go_Strings
begin

text \<open>
  Go's \<open>path\<close> and Unix \<open>path/filepath\<close>, as far as the program uses them: \<open>clean\<close>, \<open>path_join\<close>,
  \<open>is_abs\<close>, \<open>path_base\<close>, \<open>path_dir\<close>, \<open>path_rel\<close> and \<open>is_local\<close>.  A path is worked on as the
  list of its components; \<open>clean_step\<close> is one round of \<open>Clean\<close>'s loop over them, with the
  components written so far in reverse.  The lemmas give the normal form \<open>clean\<close> computes.
\<close>

section \<open>Cleaning\<close>

definition slash :: char where
  "slash = CHR ''/''"

definition is_abs :: "string \<Rightarrow> bool" where
  "is_abs s = (take 1 s = ''/'')"

definition clean_step :: "bool \<Rightarrow> string list \<Rightarrow> string \<Rightarrow> string list" where
  "clean_step rooted st c =
     (if c = [] \<or> c = ''.'' then st
      else if c = ''..'' then
        (case st of
          [] \<Rightarrow> (if rooted then [] else [''..''])
        | t # ts \<Rightarrow> (if t = ''..'' then ''..'' # st else ts))
      else c # st)"

definition clean_comps :: "bool \<Rightarrow> string \<Rightarrow> string list" where
  "clean_comps rooted s = rev (foldl (clean_step rooted) [] (split_char slash s))"

definition clean :: "string \<Rightarrow> string" where
  "clean s =
     (if s = [] then ''.''
      else let out = (if is_abs s then ''/'' else []) @ join_char slash (clean_comps (is_abs s) s)
           in if out = [] then ''.'' else out)"

definition path_join :: "string list \<Rightarrow> string" where
  "path_join es =
     (case dropWhile (\<lambda>e. e = []) es of [] \<Rightarrow> [] | e # es' \<Rightarrow> clean (join_char slash (e # es')))"

definition path_base :: "string \<Rightarrow> string" where
  "path_base s =
     (if s = [] then ''.''
      else let t = rev (dropWhile (\<lambda>c. c = slash) (rev s)); u = last (split_char slash t)
           in if u = [] then ''/'' else u)"

definition path_dir :: "string \<Rightarrow> string" where
  "path_dir s = clean (take (length s - length (last (split_char slash s))) s)"

definition is_local :: "string \<Rightarrow> bool" where
  "is_local s =
     (if is_abs s \<or> s = [] then False
      else let dots = list_ex (\<lambda>p. p = ''.'' \<or> p = ''..'') (split_char slash s);
               p = (if dots then clean s else s)
           in \<not> (p = ''..'' \<or> has_prefix p ''../''))"

fun rel_loop :: "string list \<Rightarrow> string list \<Rightarrow> bool \<times> string list \<times> string list" where
  "rel_loop (b # bs) (t # ts) =
     (if b = t then rel_loop bs ts else (b = ''..'', b # bs, t # ts))"
| "rel_loop bs ts = (False, bs, ts)"

definition rel_segs :: "string \<Rightarrow> string list" where
  "rel_segs s = (if s = [] then [] else if s = ''/'' then [[]] else split_char slash s)"

text \<open>\<open>filepath.Rel\<close>; \<open>None\<close> is its error.\<close>

definition path_rel :: "string \<Rightarrow> string \<Rightarrow> string option" where
  "path_rel basepath targpath =
     (let base = clean basepath; targ = clean targpath in
      if targ = base then Some ''.''
      else let base' = (if base = ''.'' then [] else base) in
        if is_abs base' \<noteq> is_abs targ then None
        else (case rel_loop (rel_segs base') (rel_segs targ) of
               (bad, bs, ts) \<Rightarrow>
                 if bad then None
                 else Some (join_char slash (replicate (length bs) ''..'' @ ts))))"

section \<open>The normal form\<close>

definition ordinary :: "string \<Rightarrow> bool" where
  "ordinary c \<longleftrightarrow> c \<noteq> [] \<and> c \<noteq> ''.'' \<and> c \<noteq> ''..'' \<and> slash \<notin> set c"

text \<open>What \<open>clean\<close> leaves: some \<open>..\<close> (none after a leading slash), then ordinary components.\<close>

definition normal_comps :: "bool \<Rightarrow> string list \<Rightarrow> bool" where
  "normal_comps rooted cs \<longleftrightarrow>
     (\<exists>k us. cs = replicate k ''..'' @ us \<and> list_all ordinary us \<and> (rooted \<longrightarrow> k = 0))"

lemma ordinary_simps [simp]: "\<not> ordinary []" "\<not> ordinary ''.''" "\<not> ordinary ''..''"
  by (simp_all add: ordinary_def)

lemma normal_comps_step:
  assumes "normal_comps r (rev st)" and "slash \<notin> set c"
  shows "normal_comps r (rev (clean_step r st c))"
proof -
  obtain k us where st: "rev st = replicate k ''..'' @ us" "list_all ordinary us" "r \<longrightarrow> k = 0"
    using assms(1) by (auto simp: normal_comps_def)
  consider "c = [] \<or> c = ''.''" | "c = ''..''" | "ordinary c"
    using assms(2) by (auto simp: ordinary_def)
  then show ?thesis
  proof cases
    case 1
    with assms(1) show ?thesis by (auto simp: clean_step_def)
  next
    case 2
    show ?thesis
    proof (cases us rule: rev_cases)
      case Nil
      then have "st = replicate k ''..''" using st(1) by (metis append_Nil2 rev_replicate rev_swap)
      then have "clean_step r st c = replicate (if r then 0 else Suc k) ''..''"
        using 2 st(3) by (cases k) (auto simp: clean_step_def)
      then show ?thesis
        unfolding normal_comps_def by (intro exI [of _ "if r then 0 else Suc k"] exI [of _ "[]"]) simp
    next
      case (snoc vs v)
      then have "st = v # rev (replicate k ''..'' @ vs)" using st(1)
        by (metis append_assoc rev_append rev_rev_ident rev_singleton_conv rev_swap append_Cons append_Nil)
      moreover have "v \<noteq> ''..''" using st(2) snoc by auto
      ultimately have "rev (clean_step r st c) = replicate k ''..'' @ vs"
        using 2 by (simp add: clean_step_def)
      with st snoc show ?thesis by (auto simp: normal_comps_def)
    qed
  next
    case 3
    then have "rev (clean_step r st c) = replicate k ''..'' @ (us @ [c])"
      using st(1) by (auto simp: clean_step_def)
    with st 3 show ?thesis
      unfolding normal_comps_def by (intro exI [of _ k] exI [of _ "us @ [c]"]) simp
  qed
qed

lemma normal_comps_Nil [simp]: "normal_comps r []"
  by (auto simp: normal_comps_def intro: exI [of _ 0])

lemma normal_clean_comps: "normal_comps r (clean_comps r s)"
proof -
  have "normal_comps r (rev (foldl (clean_step r) st cs))"
    if "normal_comps r (rev st)" "\<forall>c \<in> set cs. slash \<notin> set c" for st cs
    using that
  proof (induction cs arbitrary: st)
    case (Cons c cs)
    then show ?case by (simp add: normal_comps_step)
  qed simp
  then show ?thesis by (simp add: clean_comps_def split_no_sep)
qed

lemma slash_notin_dots [simp]: "slash \<notin> set ''..''" "slash \<noteq> CHR ''.''" "CHR ''.'' \<noteq> slash"
  by (simp_all add: slash_def)

lemma ordinaryD: "ordinary c \<Longrightarrow> slash \<notin> set c \<and> c \<noteq> [] \<and> c \<noteq> ''.'' \<and> c \<noteq> ''..''"
  by (simp add: ordinary_def)

lemma normal_no_slash:
  assumes "normal_comps r cs" "c \<in> set cs" shows "slash \<notin> set c \<and> c \<noteq> [] \<and> c \<noteq> ''.''"
proof -
  obtain k us where "cs = replicate k ''..'' @ us" "list_all ordinary us"
    using assms(1) by (auto simp: normal_comps_def)
  with assms(2) have "c = ''..'' \<or> ordinary c" by (auto simp: list_all_iff)
  then show ?thesis by (auto dest: ordinaryD)
qed

text \<open>Cleaning normal components changes nothing.\<close>

lemma foldl_ordinary:
  "list_all ordinary us \<Longrightarrow> foldl (clean_step r) st us = rev us @ st"
  by (induction us arbitrary: st) (auto simp: clean_step_def ordinary_def)

lemma foldl_dots: "foldl (clean_step False) (replicate n ''..'') (replicate k ''..'') = replicate (k + n) ''..''"
proof (induction k arbitrary: n)
  case (Suc k)
  have "clean_step False (replicate n ''..'') ''..'' = replicate (Suc n) ''..''"
    by (cases n) (auto simp: clean_step_def)
  with Suc [of "Suc n"] show ?case by simp
qed simp

lemma foldl_normal:
  assumes "normal_comps r cs" shows "foldl (clean_step r) [] cs = rev cs"
proof -
  obtain k us where cs: "cs = replicate k ''..'' @ us" "list_all ordinary us" "r \<longrightarrow> k = 0"
    using assms by (auto simp: normal_comps_def)
  show ?thesis
  proof (cases r)
    case True
    with cs show ?thesis by (simp add: foldl_ordinary)
  next
    case False
    with cs foldl_dots [of 0 k] show ?thesis by (simp add: foldl_ordinary)
  qed
qed

lemma clean_comps_join:
  assumes "normal_comps r cs" "cs \<noteq> []" shows "clean_comps r (join_char slash cs) = cs"
proof -
  have "split_char slash (join_char slash cs) = cs"
    using assms by (intro split_join) (auto dest: normal_no_slash)
  then show ?thesis using assms by (simp add: clean_comps_def foldl_normal)
qed

lemma join_not_abs:
  assumes "normal_comps r cs" shows "\<not> is_abs (join_char slash cs)"
proof (cases cs)
  case (Cons c cs')
  then have "c \<noteq> []" "slash \<notin> set c" using normal_no_slash [OF assms, of c] by auto
  with Cons show ?thesis by (cases cs'; cases c) (auto simp: is_abs_def slash_def)
qed (simp add: is_abs_def)

lemma join_normal_Nil: "normal_comps r cs \<Longrightarrow> join_char slash cs = [] \<longleftrightarrow> cs = []"
  by (cases cs; cases "tl cs") (auto dest: normal_no_slash)

lemma split_slash_Cons: "split_char slash (slash # s) = [] # split_char slash s"
  by simp

lemma clean_comps_slash: "clean_comps r (slash # s) = clean_comps r s"
  by (simp add: clean_comps_def clean_step_def)

lemma clean_comps_Nil [simp]: "clean_comps r [] = []"
  by (simp add: clean_comps_def clean_step_def)

lemma clean_comps_dot: "clean_comps r ''.'' = []"
  by (simp add: clean_comps_def clean_step_def slash_def)

lemma clean_cases:
  obtains (abs) cs where "normal_comps True cs" "clean s = slash # join_char slash cs" "is_abs s"
    | (rel) cs where "normal_comps False cs" "cs \<noteq> []" "clean s = join_char slash cs" "\<not> is_abs s"
    | (dot) "clean s = ''.''" "\<not> is_abs s"
proof (cases "is_abs s")
  case True
  then have "clean s = slash # join_char slash (clean_comps True s)"
    by (auto simp: clean_def is_abs_def slash_def)
  with True show ?thesis by (intro abs) (auto simp: normal_clean_comps)
next
  case False
  let ?cs = "clean_comps False s"
  show ?thesis
  proof (cases "?cs = []")
    case True
    with False show ?thesis by (intro dot) (auto simp: clean_def)
  next
    case cs: False
    have "s \<noteq> []" using cs by auto
    moreover have "join_char slash ?cs \<noteq> []" using cs by (simp add: join_normal_Nil [OF normal_clean_comps])
    ultimately have "clean s = join_char slash ?cs" using False by (simp add: clean_def)
    with cs False show ?thesis by (intro rel [of ?cs]) (auto simp: normal_clean_comps)
  qed
qed

lemma clean_nonempty [simp]: "clean s \<noteq> []"
  by (simp add: clean_def Let_def)

lemma is_abs_slash [simp]: "is_abs (slash # s)"
  by (simp add: is_abs_def slash_def)

lemma is_abs_clean [simp]: "is_abs (clean s) \<longleftrightarrow> is_abs s"
proof (cases s rule: clean_cases)
  case (abs cs)
  then show ?thesis by simp
next
  case (rel cs)
  then show ?thesis by (simp add: join_not_abs)
next
  case dot
  then show ?thesis by (simp add: is_abs_def)
qed

lemma clean_join_abs: "normal_comps True cs \<Longrightarrow> clean (slash # join_char slash cs) = slash # join_char slash cs"
proof -
  assume n: "normal_comps True cs"
  then have "clean_comps True (join_char slash cs) = cs"
    by (cases "cs = []") (simp_all add: clean_comps_join)
  then show ?thesis by (simp add: clean_def clean_comps_slash) (simp add: slash_def)
qed

lemma clean_join_rel:
  "normal_comps False cs \<Longrightarrow> cs \<noteq> [] \<Longrightarrow> clean (join_char slash cs) = join_char slash cs"
  by (simp add: clean_def clean_comps_join join_not_abs join_normal_Nil Let_def)

theorem clean_idem [simp]: "clean (clean s) = clean s"
proof (cases s rule: clean_cases)
  case (abs cs)
  then show ?thesis by (simp add: clean_join_abs)
next
  case (rel cs)
  then show ?thesis by (simp add: clean_join_rel)
next
  case dot
  then show ?thesis by (simp add: clean_def clean_comps_dot is_abs_def)
qed

lemma is_abs_path_join: "is_abs a \<Longrightarrow> is_abs (path_join (a # es))"
proof -
  assume "is_abs a"
  then obtain t where a: "a = slash # t" by (cases a) (auto simp: is_abs_def slash_def)
  then have "is_abs (join_char slash (a # es))" by (cases es) auto
  with a show ?thesis by (simp add: path_join_def)
qed

lemma clean_path_join: "path_join es \<noteq> [] \<Longrightarrow> clean (path_join es) = path_join es"
  by (cases "dropWhile (\<lambda>e. e = []) es") (simp_all add: path_join_def)

section \<open>Paths that stay inside a directory\<close>

lemma clean_ordinary:
  assumes "list_all ordinary cs" "cs \<noteq> []"
  shows "clean (join_char slash cs) = join_char slash cs"
  using assms by (intro clean_join_rel) (auto simp: normal_comps_def intro: exI [of _ 0])

lemma ordinary_normal: "list_all ordinary cs \<Longrightarrow> normal_comps r cs"
  by (auto simp: normal_comps_def intro: exI [of _ 0])

lemma is_local_ordinary:
  assumes "list_all ordinary (split_char slash s)"
  shows "is_local s" "clean s = s" "\<not> is_abs s"
proof -
  let ?cs = "split_char slash s"
  have s: "s = join_char slash ?cs" by simp
  show "clean s = s" by (subst (1 2) s) (rule clean_ordinary [OF assms], simp)
  show abs: "\<not> is_abs s" by (subst s) (rule join_not_abs [OF ordinary_normal [OF assms]])
  have "s \<noteq> []" using assms by (cases s) auto
  moreover have "\<not> list_ex (\<lambda>p. p = ''.'' \<or> p = ''..'') ?cs"
    using assms by (auto simp: list_ex_iff list_all_iff)
  moreover have "s \<noteq> ''..''" using assms by auto
  moreover have "\<not> has_prefix s ''../''"
  proof
    assume "has_prefix s ''../''"
    then obtain t where "s = ''..'' @ slash # t" by (auto simp: has_prefix_iff slash_def)
    then have "?cs = ''..'' # split_char slash t" using split_char_append [of slash "''..''" t] by simp
    with assms show False by simp
  qed
  ultimately show "is_local s" using abs by (simp add: is_local_def)
qed

lemma local_clean_ordinary:
  assumes "is_local s" "clean s = s" "s \<noteq> ''.''"
  shows "list_all ordinary (split_char slash s)"
proof -
  have "\<not> is_abs s" using assms(1) by (auto simp: is_local_def split: if_splits)
  then obtain cs where n: "normal_comps False cs" and cs: "cs \<noteq> []" "s = join_char slash cs"
    using assms(2,3) by (cases s rule: clean_cases) auto
  have sp: "split_char slash s = cs" unfolding cs(2)
    using n cs(1) by (intro split_join) (auto dest: normal_no_slash)
  obtain k us where k: "cs = replicate k ''..'' @ us" "list_all ordinary us"
    using n by (auto simp: normal_comps_def)
  have "k = 0"
  proof (rule ccontr)
    assume "k \<noteq> 0"
    then obtain cs' where "cs = ''..'' # cs'" using k by (cases k) auto
    then have "s = ''..'' \<or> has_prefix s ''../''"
      using cs(2) by (cases cs') (auto simp: slash_def)
    with assms(1,2) show False by (auto simp: is_local_def Let_def split: if_splits)
  qed
  with k sp show ?thesis by simp
qed

section \<open>Joining ordinary components to an absolute path\<close>

lemma split_char_snoc: "split_char c (s @ c # t) = split_char c s @ split_char c t"
proof (induction s)
  case (Cons a s)
  then show ?case by (cases "split_char c s") auto
qed simp

lemma clean_comps_clean: "is_abs s \<Longrightarrow> clean_comps True (clean s) = clean_comps True s"
proof -
  assume a: "is_abs s"
  then have "clean s = slash # join_char slash (clean_comps True s)"
    by (auto simp: clean_def is_abs_def slash_def)
  then show ?thesis
    using clean_comps_join [OF normal_clean_comps, of True s]
    by (cases "clean_comps True s = []") (simp_all add: clean_comps_slash)
qed

lemma clean_comps_snoc:
  "ordinary x \<Longrightarrow> clean_comps r (s @ slash # x) = clean_comps r s @ [x]"
  using ordinaryD [of x] by (simp add: clean_comps_def split_char_snoc split_char_id clean_step_def)

lemma join_char_snoc: "xs \<noteq> [] \<Longrightarrow> join_char c (xs @ [x]) = join_char c xs @ c # x"
  by (induction c xs rule: join_char.induct) auto

lemma clean_comps_join_ordinary:
  "list_all ordinary xs \<Longrightarrow> clean_comps r (join_char slash (s # xs)) = clean_comps r s @ xs"
proof (induction xs rule: rev_induct)
  case (snoc x xs)
  then have "join_char slash (s # xs @ [x]) = join_char slash (s # xs) @ slash # x"
    using join_char_snoc [of "s # xs" slash x] by simp
  with snoc show ?case by (simp add: clean_comps_snoc)
qed simp

lemma path_join_comps:
  assumes "is_abs root" "list_all ordinary xs"
  shows "clean_comps True (path_join (root # xs)) = clean_comps True root @ xs"
proof -
  have "root \<noteq> []" using assms(1) by (auto simp: is_abs_def)
  moreover have "is_abs (join_char slash (root # xs))"
    using assms(1) \<open>root \<noteq> []\<close> by (cases xs; cases root) (auto simp: is_abs_def)
  ultimately show ?thesis
    using assms by (simp add: path_join_def clean_comps_clean clean_comps_join_ordinary)
qed

lemma path_join_inject:
  assumes "is_abs root" "list_all ordinary xs" "list_all ordinary ys"
  shows "path_join (root # xs) = path_join (root # ys) \<longleftrightarrow> xs = ys"
  using path_join_comps [OF assms(1,2)] path_join_comps [OF assms(1,3)] by (metis same_append_eq)

end
