(* ===== verification/Sha256.thy ===== *)
theory Sha256
  imports Go_Strings "HOL-Library.Word"
begin

text \<open>
  \<open>crypto/sha256\<close> and \<open>encoding/hex\<close> of the standard library: FIPS 180-4 on 32-bit words, so
  that the identities, which are printed digests, are computed and not assumed.  Properties of
  the program only use what the locale \<open>digest\<close> states: a digest is 64 lower-case
  hexadecimal digits.
\<close>

unbundle bit_operations_syntax

type_synonym u32 = "32 word"

section \<open>The compression function\<close>

definition round_constants :: "u32 list" where
  "round_constants =
     [1116352408, 1899447441, 3049323471, 3921009573, 961987163, 1508970993, 2453635748, 2870763221,
      3624381080, 310598401, 607225278, 1426881987, 1925078388, 2162078206, 2614888103, 3248222580,
      3835390401, 4022224774, 264347078, 604807628, 770255983, 1249150122, 1555081692, 1996064986,
      2554220882, 2821834349, 2952996808, 3210313671, 3336571891, 3584528711, 113926993, 338241895,
      666307205, 773529912, 1294757372, 1396182291, 1695183700, 1986661051, 2177026350, 2456956037,
      2730485921, 2820302411, 3259730800, 3345764771, 3516065817, 3600352804, 4094571909, 275423344,
      430227734, 506948616, 659060556, 883997877, 958139571, 1322822218, 1537002063, 1747873779,
      1955562222, 2024104815, 2227730452, 2361852424, 2428436474, 2756734187, 3204031479, 3329325298]"

definition rotr :: "nat \<Rightarrow> u32 \<Rightarrow> u32" where
  "rotr n x = drop_bit n x OR push_bit (32 - n) x"

definition ch :: "u32 \<Rightarrow> u32 \<Rightarrow> u32 \<Rightarrow> u32" where
  "ch x y z = (x AND y) XOR (NOT x AND z)"

definition maj :: "u32 \<Rightarrow> u32 \<Rightarrow> u32 \<Rightarrow> u32" where
  "maj x y z = (x AND y) XOR (x AND z) XOR (y AND z)"

definition big_sigma0 :: "u32 \<Rightarrow> u32" where
  "big_sigma0 x = rotr 2 x XOR rotr 13 x XOR rotr 22 x"

definition big_sigma1 :: "u32 \<Rightarrow> u32" where
  "big_sigma1 x = rotr 6 x XOR rotr 11 x XOR rotr 25 x"

definition small_sigma0 :: "u32 \<Rightarrow> u32" where
  "small_sigma0 x = rotr 7 x XOR rotr 18 x XOR drop_bit 3 x"

definition small_sigma1 :: "u32 \<Rightarrow> u32" where
  "small_sigma1 x = rotr 17 x XOR rotr 19 x XOR drop_bit 10 x"

text \<open>The message schedule is extended one word at a time, the last words in front.\<close>

fun extend_schedule :: "nat \<Rightarrow> u32 list \<Rightarrow> u32 list" where
  "extend_schedule 0 ws = ws"
| "extend_schedule (Suc n) ws =
     extend_schedule n
       ((small_sigma1 (ws ! 1) + ws ! 6 + small_sigma0 (ws ! 14) + ws ! 15) # ws)"

definition schedule :: "u32 list \<Rightarrow> u32 list" where
  "schedule block = rev (extend_schedule 48 (rev block))"

type_synonym sha_state = "u32 \<times> u32 \<times> u32 \<times> u32 \<times> u32 \<times> u32 \<times> u32 \<times> u32"

fun sha_round :: "sha_state \<Rightarrow> u32 \<times> u32 \<Rightarrow> sha_state" where
  "sha_round (a, b, c, d, e, f, g, h) (k, w) =
     (let t1 = h + big_sigma1 e + ch e f g + k + w;
          t2 = big_sigma0 a + maj a b c
      in (t1 + t2, a, b, c, d + t1, e, f, g))"

fun add_state :: "sha_state \<Rightarrow> sha_state \<Rightarrow> sha_state" where
  "add_state (a, b, c, d, e, f, g, h) (a', b', c', d', e', f', g', h') =
     (a + a', b + b', c + c', d + d', e + e', f + f', g + g', h + h')"

definition compress :: "sha_state \<Rightarrow> u32 list \<Rightarrow> sha_state" where
  "compress st block = add_state st (foldl sha_round st (zip round_constants (schedule block)))"

section \<open>Padding and printing\<close>

definition be_word :: "string \<Rightarrow> u32" where
  "be_word bytes = word_of_nat (foldl (\<lambda>n c. 256 * n + of_char c) 0 bytes)"

fun be_bytes :: "nat \<Rightarrow> nat \<Rightarrow> string" where
  "be_bytes 0 n = []"
| "be_bytes (Suc k) n = be_bytes k (n div 256) @ [char_of (n mod 256)]"

definition pad_message :: "string \<Rightarrow> string" where
  "pad_message m =
     m @ [CHR 0x80] @ replicate ((119 - length m mod 64) mod 64) (CHR 0x00) @ be_bytes 8 (8 * length m)"

function chunks :: "nat \<Rightarrow> 'a list \<Rightarrow> 'a list list" where
  "chunks n xs = (if xs = [] \<or> n = 0 then [] else take n xs # chunks n (drop n xs))"
  by pat_completeness auto
termination
  by (relation "measure (\<lambda>(n, xs). length xs)") (auto simp: diff_less)

declare chunks.simps [simp del]

definition initial_state :: sha_state where
  "initial_state =
     (0x6a09e667, 0xbb67ae85, 0x3c6ef372, 0xa54ff53a, 0x510e527f, 0x9b05688c, 0x1f83d9ab, 0x5be0cd19)"

definition sha256 :: "string \<Rightarrow> sha_state" where
  "sha256 m = foldl compress initial_state
     (map (\<lambda>block. map be_word (chunks 4 block)) (chunks 64 (pad_message m)))"

definition hex_digit :: "nat \<Rightarrow> char" where
  "hex_digit n = (if n < 10 then char_of (48 + n) else char_of (87 + n))"

fun hex_word :: "nat \<Rightarrow> nat \<Rightarrow> string" where
  "hex_word 0 n = []"
| "hex_word (Suc k) n = hex_word k (n div 16) @ [hex_digit (n mod 16)]"

text \<open>\<open>hex.EncodeToString(sha256.Sum(nil))\<close>.\<close>

definition sha256_hex :: "string \<Rightarrow> string" where
  "sha256_hex m =
     (case sha256 m of (a, b, c, d, e, f, g, h) \<Rightarrow>
        concat (map (\<lambda>w. hex_word 8 (unat w)) [a, b, c, d, e, f, g, h]))"

section \<open>What the program relies on\<close>

definition lower_hex :: "char \<Rightarrow> bool" where
  "lower_hex c \<longleftrightarrow> is_digit c \<or> (CHR ''a'' \<le> c \<and> c \<le> CHR ''f'')"

lemma lower_hex_code:
  "lower_hex c \<longleftrightarrow> 48 \<le> (of_char c :: nat) \<and> (of_char c :: nat) \<le> 57 \<or>
     97 \<le> (of_char c :: nat) \<and> (of_char c :: nat) \<le> 102"
  by (simp add: lower_hex_def is_digit_code less_eq_char_def)

locale digest =
  fixes sum_hex :: "string \<Rightarrow> string"
  assumes sum_length: "length (sum_hex m) = 64"
    and sum_alphabet: "c \<in> set (sum_hex m) \<Longrightarrow> lower_hex c"
begin

lemma short_length: "length (take 7 (sum_hex m)) = 7"
  by (simp add: sum_length)

lemma short_alphabet: "c \<in> set (take 7 (sum_hex m)) \<Longrightarrow> lower_hex c"
  by (meson in_set_takeD sum_alphabet)

lemma sum_nonempty: "sum_hex m \<noteq> []"
  using sum_length [of m] by force

end

lemma hex_digit_lower_hex: "n < 16 \<Longrightarrow> lower_hex (hex_digit n)"
  by (simp add: hex_digit_def lower_hex_code)

lemma hex_word_length: "length (hex_word k n) = k"
  by (induction k arbitrary: n) auto

lemma hex_word_lower_hex: "c \<in> set (hex_word k n) \<Longrightarrow> lower_hex c"
  by (induction k arbitrary: n) (auto simp: hex_digit_lower_hex)

interpretation sha: digest sha256_hex
  by unfold_locales
    (auto simp: sha256_hex_def hex_word_length hex_word_lower_hex split: prod.splits)

end
