(* ===== verification/Identity.thy ===== *)
theory Identity
  imports Docker_Model Go_Path Sha256
begin

text \<open>
  Workspace, corral and host identities (\<open>internal/identity\<close>).  The file system and the
  account database are the record \<open>host_os\<close>, arbitrary functions of the model.
\<close>

section \<open>Workspace and corral identity (identity.go)\<close>

record workspace =
  ws_path :: string
  ws_base :: string
  ws_slug :: string
  ws_full_id :: string
  ws_short_id :: string
  ws_corral_id :: string
  ws_corral_short_id :: string
  ws_harness :: string
  ws_project :: string
  ws_generated :: bool

datatype identity_error =
    HarnessEmpty
  | CallerEmpty
  | AbsFailed
  | PhysicalFailed string
  | InspectFailed string
  | NotADirectory string
  | InvalidProject string

record host_os =
  os_getwd :: "string option"
  os_eval_symlinks :: "string \<Rightarrow> string option"
  os_stat_is_dir :: "string \<Rightarrow> bool option"
  os_user_name :: "string \<Rightarrow> string option"
  os_group_name :: "string \<Rightarrow> string option"

definition workspace_namespace :: string where
  "workspace_namespace = ''ai.infrasecture.hcorral.workspace.v1''"

definition corral_namespace :: string where
  "corral_namespace = ''ai.infrasecture.hcorral.corral.v1''"

definition project_char :: "char \<Rightarrow> bool" where
  "project_char c = (is_lower c \<or> is_digit c \<or> c = CHR ''_'' \<or> c = CHR ''-'')"

text \<open>The pattern \<open>^[a-z0-9][a-z0-9_-]{0,62}$\<close>.\<close>

definition project_pattern :: "string \<Rightarrow> bool" where
  "project_pattern p =
     (p \<noteq> [] \<and> length p \<le> 63 \<and> (is_lower (hd p) \<or> is_digit (hd p)) \<and> list_all project_char p)"

definition validate_project :: "string \<Rightarrow> (identity_error, unit) result" where
  "validate_project project =
     (if \<not> project_pattern project then Inl (InvalidProject project) else Inr ())"

text \<open>
  The loop of \<open>Slug\<close> with its builder and flag, over bytes: a rune outside ASCII takes the
  default branch, and so does each of its bytes, of which all but the first change nothing.
\<close>

fun slug_loop :: "string \<Rightarrow> bool \<Rightarrow> string \<Rightarrow> string" where
  "slug_loop b underscore [] = b"
| "slug_loop b underscore (r # rs) =
     (if is_upper r then slug_loop (b @ [lower_char r]) False rs
      else if is_lower r \<or> is_digit r then slug_loop (b @ [r]) False rs
      else if b \<noteq> [] \<and> \<not> underscore then slug_loop (b @ ''_'') True rs
      else slug_loop b underscore rs)"

definition trim_right_char :: "char \<Rightarrow> string \<Rightarrow> string" where
  "trim_right_char c s = rev (dropWhile (\<lambda>x. x = c) (rev s))"

definition trim_char :: "char \<Rightarrow> string \<Rightarrow> string" where
  "trim_char c s = trim_right_char c (dropWhile (\<lambda>x. x = c) s)"

definition slug_of :: "string \<Rightarrow> string" where
  "slug_of base =
     (let s1 = trim_char (CHR ''_'') (slug_loop [] False base);
          s2 = (if length s1 > 32 then trim_right_char (CHR ''_'') (take 32 s1) else s1)
      in if s2 = [] then ''workspace'' else s2)"

definition resolve_physical_path ::
  "host_os \<Rightarrow> string \<Rightarrow> string \<Rightarrow> (identity_error, string) result" where
  "resolve_physical_path os callerDir selectedPath =
     (if callerDir = [] then Inl CallerEmpty
      else let selected =
          (if selectedPath = [] then callerDir
           else if \<not> is_abs selectedPath then path_join [callerDir, selectedPath]
           else selectedPath) in
      case (if is_abs selected then Some (clean selected)
            else map_option (\<lambda>wd. path_join [wd, selected]) (os_getwd os)) of
        None \<Rightarrow> Inl AbsFailed
      | Some absolute \<Rightarrow>
          (case os_eval_symlinks os absolute of
             None \<Rightarrow> Inl (PhysicalFailed selected)
           | Some resolved \<Rightarrow>
               let physical = clean resolved in
               (case os_stat_is_dir os physical of
                  None \<Rightarrow> Inl (InspectFailed physical)
                | Some False \<Rightarrow> Inl (NotADirectory physical)
                | Some True \<Rightarrow> Inr physical)))"

text \<open>The messages whose digests are the two identities.\<close>

definition workspace_message :: "string \<Rightarrow> string" where
  "workspace_message path = workspace_namespace @ [CHR 0x00] @ path"

definition corral_message :: "string \<Rightarrow> string \<Rightarrow> string" where
  "corral_message path harness = corral_namespace @ [CHR 0x00] @ path @ [CHR 0x00] @ harness"

definition resolve ::
  "host_os \<Rightarrow> string \<Rightarrow> string \<Rightarrow> string \<Rightarrow> string \<Rightarrow> (identity_error, workspace) result" where
  "resolve os callerDir selectedPath harness projectOverride =
     (if harness = [] then Inl HarnessEmpty
      else bindE (resolve_physical_path os callerDir selectedPath) (\<lambda>path.
        let base = path_base path;
            slug = slug_of base;
            fullID = sha256_hex (workspace_message path);
            corralID = sha256_hex (corral_message path harness);
            generatedName = ''hcorral-'' @ slug @ ''-'' @ take 7 corralID;
            generated = (projectOverride = []);
            project = (if generated then generatedName else projectOverride)
        in bindE (validate_project project) (\<lambda>_.
          Inr \<lparr>ws_path = path, ws_base = base, ws_slug = slug, ws_full_id = fullID,
               ws_short_id = take 7 fullID, ws_corral_id = corralID,
               ws_corral_short_id = take 7 corralID, ws_harness = harness,
               ws_project = project, ws_generated = generated\<rparr>)))"

section \<open>Host identity (host.go)\<close>

record host_identity =
  hi_uid :: string
  hi_gid :: string
  hi_user :: string
  hi_group :: string
  hi_groups :: "string list"

definition group_name :: "host_os \<Rightarrow> string \<Rightarrow> string" where
  "group_name os gid =
     (case os_group_name os gid of
        Some n \<Rightarrow> if n \<noteq> [] then n else ''group-'' @ gid
      | None \<Rightarrow> ''group-'' @ gid)"

definition host_identity_of :: "host_os \<Rightarrow> int \<Rightarrow> int \<Rightarrow> int list \<Rightarrow> host_identity" where
  "host_identity_of os uid gid supplementary =
     (let u = itoa uid; g = itoa gid in
      \<lparr>hi_uid = u, hi_gid = g,
       hi_user = (case os_user_name os u of
                    Some n \<Rightarrow> if n \<noteq> [] then n else ''hcorral-'' @ u
                  | None \<Rightarrow> ''hcorral-'' @ u),
       hi_group = group_name os g,
       hi_groups = map (\<lambda>grp. itoa grp @ '':'' @ group_name os (itoa grp))
                     (sort (remdups (gid # supplementary)))\<rparr>)"

text \<open>\<open>CurrentHost\<close>: \<open>groups\<close> is the answer of \<open>os.Getgroups\<close>.\<close>

definition current_host :: "host_os \<Rightarrow> int list option \<Rightarrow> int \<Rightarrow> int \<Rightarrow> host_identity option" where
  "current_host os groups euid egid =
     (case groups of None \<Rightarrow> None | Some gs \<Rightarrow> Some (host_identity_of os euid egid gs))"

section \<open>Ownership labels (ownership.go)\<close>

definition label_workspace_id :: string where
  "label_workspace_id = ''ai.infrasecture.hcorral.workspace-id''"
definition label_workspace_scheme :: string where
  "label_workspace_scheme = ''ai.infrasecture.hcorral.workspace-id-scheme''"
definition label_corral_id :: string where
  "label_corral_id = ''ai.infrasecture.hcorral.corral-id''"
definition label_corral_scheme :: string where
  "label_corral_scheme = ''ai.infrasecture.hcorral.corral-id-scheme''"
definition label_harness_type :: string where
  "label_harness_type = ''ai.infrasecture.hcorral.harness.type''"
definition label_gui :: string where
  "label_gui = ''ai.infrasecture.hcorral.gui''"
definition label_runtime_schema :: string where
  "label_runtime_schema = ''ai.infrasecture.hcorral.runtime-schema''"
definition label_state_kind :: string where
  "label_state_kind = ''ai.infrasecture.hcorral.state-kind''"
definition label_compose_project :: string where
  "label_compose_project = ''com.docker.compose.project''"
definition label_compose_service :: string where
  "label_compose_service = ''com.docker.compose.service''"

datatype ownership_error =
    ForeignWorkspace string string string
  | WorkspaceScheme string string
  | ForeignCorral string string string
  | CorralScheme string string
  | ForeignHarness string string string
  | RuntimeSchema string string
  | ComposeOwnership string string

definition verify_container :: "container option \<Rightarrow> workspace \<Rightarrow> ownership_error option" where
  "verify_container co ws =
     (case co of
        None \<Rightarrow> None
      | Some c \<Rightarrow>
          let ls = c_labels c; n = clean_name c in
          if label ls label_workspace_id \<noteq> ws_full_id ws
          then Some (ForeignWorkspace n (label ls label_workspace_id) (ws_full_id ws))
          else if label ls label_workspace_scheme \<noteq> ''v1''
          then Some (WorkspaceScheme n (label ls label_workspace_scheme))
          else if label ls label_corral_id \<noteq> ws_corral_id ws
          then Some (ForeignCorral n (label ls label_corral_id) (ws_corral_id ws))
          else if label ls label_corral_scheme \<noteq> ''v1''
          then Some (CorralScheme n (label ls label_corral_scheme))
          else if label ls label_harness_type \<noteq> ws_harness ws
          then Some (ForeignHarness n (label ls label_harness_type) (ws_harness ws))
          else if label ls label_runtime_schema \<noteq> ''1''
          then Some (RuntimeSchema n (label ls label_runtime_schema))
          else if label ls label_compose_project \<noteq> ws_project ws \<or>
                  label ls label_compose_service \<noteq> ''hcorral''
          then Some (ComposeOwnership n (ws_project ws))
          else None)"

definition private_volume_labels :: "workspace \<Rightarrow> labels" where
  "private_volume_labels ws =
     [(label_workspace_id, ws_full_id ws), (label_workspace_scheme, ''v1''),
      (label_runtime_schema, ''1''), (label_state_kind, ''workspace-private'')]"

definition workspace_volume_name :: "workspace \<Rightarrow> string" where
  "workspace_volume_name ws = ''hcorral-'' @ ws_slug ws @ ''-'' @ ws_short_id ws"

definition shared_volume_labels :: labels where
  "shared_volume_labels = [(label_runtime_schema, ''1''), (label_state_kind, ''shared'')]"

section \<open>Mutation lock paths (lock\_unix.go)\<close>

datatype lock_error =
    LockProject identity_error
  | LockVolumeEmpty
  | RuntimeDirRelative
  | CacheHomeRelative
  | LockHomeUnknown
  | LockUnavailable string

record lock_env =
  le_darwin :: bool
  le_getenv :: "string \<Rightarrow> string"
  le_temp_dir :: string
  le_uid :: int
  le_home :: "string option"

definition lock_root :: "lock_env \<Rightarrow> (lock_error, string) result" where
  "lock_root env =
     (if le_darwin env then
        (let root = le_getenv env ''TMPDIR'';
             root' = (if root = [] then le_temp_dir env else root)
         in Inr (path_join [root', ''hcorral-'' @ itoa (le_uid env), ''locks'']))
      else let root = le_getenv env ''XDG_RUNTIME_DIR'' in
      if root \<noteq> [] then
        (if \<not> is_abs root then Inl RuntimeDirRelative
         else Inr (path_join [root, ''hcorral'', ''locks'']))
      else
        bindE (let cache = le_getenv env ''XDG_CACHE_HOME'' in
               if cache = [] then
                 (case le_home env of
                    None \<Rightarrow> Inl LockHomeUnknown
                  | Some home \<Rightarrow> Inr (path_join [home, ''.cache'']))
               else Inr cache)
          (\<lambda>cache.
             if \<not> is_abs cache then Inl CacheHomeRelative
             else Inr (path_join [cache, ''hcorral'', ''locks''])))"

definition lock_path :: "lock_env \<Rightarrow> string \<Rightarrow> (lock_error, string) result" where
  "lock_path env project =
     bindE (map_err LockProject (validate_project project)) (\<lambda>_.
       bindE (lock_root env) (\<lambda>root. Inr (path_join [root, project @ ''.lock''])))"

definition volume_lock_path :: "lock_env \<Rightarrow> string \<Rightarrow> (lock_error, string) result" where
  "volume_lock_path env vol =
     (if vol = [] then Inl LockVolumeEmpty
      else bindE (lock_root env) (\<lambda>root.
        Inr (path_join [root, ''volumes'', sha256_hex vol @ ''.lock''])))"

section \<open>Slugs\<close>

definition slug_char :: "char \<Rightarrow> bool" where
  "slug_char c \<longleftrightarrow> is_lower c \<or> is_digit c \<or> c = CHR ''_''"

definition no_double :: "string \<Rightarrow> bool" where
  "no_double s \<longleftrightarrow> successively (\<lambda>a b. \<not> (a = CHR ''_'' \<and> b = CHR ''_'')) s"

text \<open>What the builder holds at every moment of the loop, and what a slug is.\<close>

definition slug_prefix :: "string \<Rightarrow> bool" where
  "slug_prefix b \<longleftrightarrow> list_all slug_char b \<and> no_double b \<and> (b \<noteq> [] \<longrightarrow> hd b \<noteq> CHR ''_'')"

definition valid_slug :: "string \<Rightarrow> bool" where
  "valid_slug s \<longleftrightarrow> slug_prefix s \<and> s \<noteq> [] \<and> length s \<le> 32 \<and> last s \<noteq> CHR ''_''"

lemma lower_char_lower: "is_upper c \<Longrightarrow> is_lower (lower_char c)"
  by (simp add: lower_char_def char_class_code)

lemma underscore_class [simp]:
  "\<not> is_lower (CHR ''_'')" "\<not> is_digit (CHR ''_'')" "\<not> is_upper (CHR ''_'')"
  by (simp_all add: char_class_code)

lemma not_upper: "is_lower c \<or> is_digit c \<Longrightarrow> \<not> is_upper c"
  by (auto simp: char_class_code)

lemma no_double_append:
  "no_double (xs @ ys) \<longleftrightarrow> no_double xs \<and> no_double ys \<and>
     (xs = [] \<or> ys = [] \<or> \<not> (last xs = CHR ''_'' \<and> hd ys = CHR ''_''))"
  by (auto simp: no_double_def successively_append_iff)

lemma no_double_simps [simp]: "no_double []" "no_double [c]"
  by (simp_all add: no_double_def)

lemma slug_prefix_snoc:
  assumes "slug_prefix b" "is_lower c \<or> is_digit c \<or> c = CHR ''_'' \<and> b \<noteq> [] \<and> last b \<noteq> CHR ''_''"
  shows "slug_prefix (b @ [c])"
  using assms by (auto simp: slug_prefix_def slug_char_def no_double_append hd_append)

lemma slug_loop_prefix:
  "slug_prefix b \<Longrightarrow> u \<longleftrightarrow> b \<noteq> [] \<and> last b = CHR ''_'' \<Longrightarrow> slug_prefix (slug_loop b u s)"
proof (induction b u s rule: slug_loop.induct)
  case (2 b u r rs)
  have low: "is_upper r \<Longrightarrow> is_lower (lower_char r)" by (rule lower_char_lower)
  have nu: "is_lower c \<or> is_digit c \<Longrightarrow> c \<noteq> CHR ''_''" for c by auto
  show ?case
  proof (cases "is_upper r")
    case True
    with 2 low nu [of "lower_char r"] show ?thesis by (simp add: slug_prefix_snoc)
  next
    case up: False
    show ?thesis
    proof (cases "is_lower r \<or> is_digit r")
      case True
      with 2(2) [OF up True] 2(5) nu [of r] up show ?thesis by (auto simp: slug_prefix_snoc)
    next
      case False
      note IH = 2(3,4) [OF up False]
      show ?thesis
      proof (cases "b \<noteq> [] \<and> \<not> u")
        case True
        have "slug_prefix (b @ ''_'')" using True 2(5,6) by (intro slug_prefix_snoc) auto
        with IH(1) [OF True] True False up show ?thesis by simp
      next
        case skip: False
        with IH(2) 2(5,6) False up show ?thesis by auto
      qed
    qed
  qed
qed simp

lemma trim_right_prefix:
  obtains t where "s = trim_right_char c s @ t" "set t \<subseteq> {c}"
proof
  show "s = trim_right_char c s @ rev (takeWhile (\<lambda>x. x = c) (rev s))"
    unfolding trim_right_char_def by (metis rev_append rev_rev_ident takeWhile_dropWhile_id)
  show "set (rev (takeWhile (\<lambda>x. x = c) (rev s))) \<subseteq> {c}"
    by (auto dest: set_takeWhileD)
qed

lemma trim_right_last: "trim_right_char c s \<noteq> [] \<Longrightarrow> last (trim_right_char c s) \<noteq> c"
  unfolding trim_right_char_def by (metis (mono_tags) hd_dropWhile last_rev rev_is_Nil_conv)

lemma trim_right_id: "s \<noteq> [] \<Longrightarrow> last s \<noteq> c \<Longrightarrow> trim_right_char c s = s"
  by (cases s rule: rev_cases) (auto simp: trim_right_char_def)

lemma slug_prefix_append: "slug_prefix (s @ t) \<Longrightarrow> slug_prefix s"
  by (cases "s = []") (auto simp: slug_prefix_def no_double_append hd_append)

lemma slug_prefix_trim_right: "slug_prefix s \<Longrightarrow> slug_prefix (trim_right_char c s)"
  by (metis slug_prefix_append trim_right_prefix)

lemma slug_prefix_trim: "slug_prefix s \<Longrightarrow> slug_prefix (trim_char (CHR ''_'') s)"
  using slug_prefix_trim_right [of s "CHR ''_''"]
  by (cases s) (auto simp: trim_char_def slug_prefix_def)

lemma valid_workspace_slug: "valid_slug ''workspace''"
  by code_simp

lemma valid_slug_slug_of: "valid_slug (slug_of base)"
proof -
  define s1 where "s1 = trim_char (CHR ''_'') (slug_loop [] False base)"
  define s2 where "s2 = (if length s1 > 32 then trim_right_char (CHR ''_'') (take 32 s1) else s1)"
  have "slug_prefix []" by (simp add: slug_prefix_def)
  then have p1: "slug_prefix s1" unfolding s1_def by (intro slug_prefix_trim slug_loop_prefix) auto
  have l1: "s1 \<noteq> [] \<longrightarrow> last s1 \<noteq> CHR ''_''"
    unfolding s1_def trim_char_def using trim_right_last by blast
  have p2: "slug_prefix s2"
    using p1 slug_prefix_append [of "take 32 s1" "drop 32 s1"]
    by (simp add: s2_def slug_prefix_trim_right)
  have l2: "s2 \<noteq> [] \<longrightarrow> last s2 \<noteq> CHR ''_''"
    using l1 trim_right_last by (auto simp: s2_def)
  obtain t where "take 32 s1 = trim_right_char (CHR ''_'') (take 32 s1) @ t"
    by (rule trim_right_prefix)
  then have "length (trim_right_char (CHR ''_'') (take 32 s1)) \<le> length (take 32 s1)"
    by (metis length_append le_add1)
  then have len: "length s2 \<le> 32" by (auto simp: s2_def)
  have "slug_of base = (if s2 = [] then ''workspace'' else s2)"
    by (simp add: slug_of_def s1_def s2_def Let_def)
  then show ?thesis using p2 l2 len valid_workspace_slug by (simp add: valid_slug_def)
qed

lemma slug_loop_id:
  "slug_prefix (b @ s) \<Longrightarrow> u \<longleftrightarrow> b \<noteq> [] \<and> last b = CHR ''_'' \<Longrightarrow> slug_loop b u s = b @ s"
proof (induction s arbitrary: b u)
  case (Cons r rs)
  have step: "slug_loop (b @ [r]) (r = CHR ''_'') rs = b @ r # rs"
    using Cons.IH [of "b @ [r]" "r = CHR ''_''"] Cons.prems by simp
  have sc: "slug_char r" and nd: "no_double (b @ r # rs)" "b = [] \<longrightarrow> r \<noteq> CHR ''_''"
    using Cons.prems(1) by (auto simp: slug_prefix_def)
  show ?case
  proof (cases "r = CHR ''_''")
    case True
    with nd Cons.prems(2) have "b \<noteq> []" "\<not> u" by (auto simp: no_double_append)
    with True step show ?thesis by simp
  next
    case False
    with sc not_upper [of r] step show ?thesis by (auto simp: slug_char_def)
  qed
qed simp

lemma slug_of_valid: "valid_slug s \<Longrightarrow> slug_of s = s"
proof -
  assume v: "valid_slug s"
  then have "slug_loop [] False s = s" using slug_loop_id [of "[]" s False] by (simp add: valid_slug_def)
  moreover have "trim_char (CHR ''_'') s = s"
    using v by (cases s) (auto simp: trim_char_def valid_slug_def slug_prefix_def trim_right_id)
  ultimately show ?thesis using v by (simp add: slug_of_def valid_slug_def Let_def)
qed

lemma slug_char_project: "slug_char c \<Longrightarrow> project_char c"
  by (auto simp: slug_char_def project_char_def)

lemma lower_hex_project: "lower_hex c \<Longrightarrow> project_char c"
  by (auto simp: lower_hex_code project_char_def char_class_code)

text \<open>The generated name: valid as a Compose project, with exactly two hyphens.\<close>

lemma generated_project_valid:
  assumes "valid_slug slug" "length short = 7" "\<forall>c \<in> set short. lower_hex c"
  shows "project_pattern (''hcorral-'' @ slug @ ''-'' @ short)"
proof -
  have "list_all project_char ''hcorral-''" by code_simp
  moreover have "list_all project_char slug"
    using assms(1) slug_char_project by (auto simp: valid_slug_def slug_prefix_def list_all_iff)
  moreover have "list_all project_char short"
    using assms(3) lower_hex_project by (auto simp: list_all_iff)
  moreover have "project_char (CHR ''-'')" by (simp add: project_char_def)
  moreover have "is_lower (CHR ''h'')" by code_simp
  ultimately show ?thesis using assms(1,2) by (simp add: project_pattern_def valid_slug_def)
qed

section \<open>Ownership\<close>

text \<open>The labels of an owned container, as one statement.\<close>

definition owned_labels :: "labels \<Rightarrow> workspace \<Rightarrow> bool" where
  "owned_labels ls ws \<longleftrightarrow>
     label ls label_workspace_id = ws_full_id ws \<and> label ls label_workspace_scheme = ''v1'' \<and>
     label ls label_corral_id = ws_corral_id ws \<and> label ls label_corral_scheme = ''v1'' \<and>
     label ls label_harness_type = ws_harness ws \<and> label ls label_runtime_schema = ''1'' \<and>
     label ls label_compose_project = ws_project ws \<and>
     label ls label_compose_service = ''hcorral''"

lemma verify_container_None_iff:
  "verify_container (Some c) ws = None \<longleftrightarrow> owned_labels (c_labels c) ws"
  by (simp add: verify_container_def owned_labels_def Let_def)

section \<open>Identities are injective\<close>

lemma namespaces_no_nul: "CHR 0x00 \<notin> set workspace_namespace" "CHR 0x00 \<notin> set corral_namespace"
  by code_simp+

lemma append_sep_inject:
  assumes "c \<notin> set a" "c \<notin> set b" "a @ c # s = b @ c # t"
  shows "a = b \<and> s = t"
proof -
  have "takeWhile (\<lambda>x. x \<noteq> c) (a @ c # s) = a" "takeWhile (\<lambda>x. x \<noteq> c) (b @ c # t) = b"
    using assms(1,2) by (auto simp: takeWhile_append)
  with assms(3) have "a = b" by simp
  with assms(3) show ?thesis by simp
qed

lemma resolve_generated_project:
  assumes "resolve os caller sel harness [] = Inr w"
  shows "\<exists>slug short. ws_project w = ''hcorral-'' @ slug @ ''-'' @ short \<and> ws_slug w = slug \<and>
    short = ws_corral_short_id w \<and> valid_slug slug \<and> length short = 7 \<and>
    (\<forall>c \<in> set short. lower_hex c) \<and> project_pattern (ws_project w) \<and> ws_generated w"
  using assms generated_project_valid [OF valid_slug_slug_of sha.short_length]
  by (auto simp: resolve_def result_iff validate_project_def Let_def valid_slug_slug_of
      sha.short_alphabet sha.sum_length split: if_splits)

lemma resolve_generated_total:
  "is_ok (resolve os caller sel harness []) \<longleftrightarrow>
     harness \<noteq> [] \<and> is_ok (resolve_physical_path os caller sel)"
  using generated_project_valid [OF valid_slug_slug_of sha.short_length] sha.short_alphabet
  by (cases "resolve_physical_path os caller sel")
    (auto simp: resolve_def is_ok_bindE validate_project_def Let_def)

section \<open>Lock paths\<close>

lemma lock_root_abs: "lock_root env = Inr root \<Longrightarrow> \<not> le_darwin env \<Longrightarrow> is_abs root"
  by (auto simp: lock_root_def Let_def result_iff is_abs_path_join split: if_splits)

lemma ordinary_lock:
  assumes "slash \<notin> set p" shows "ordinary (p @ ''.lock'')"
  using assms by (cases p; cases "tl p") (auto simp: ordinary_def slash_def)

lemma project_no_slash: "project_pattern p \<Longrightarrow> slash \<notin> set p"
  by (auto simp: project_pattern_def list_all_iff project_char_def slash_def char_class_code)

lemma hex_no_slash: "slash \<notin> set (sha256_hex m)"
  using sha.sum_alphabet [of slash m] by (auto simp: slash_def lower_hex_code)

lemma project_lock_not_volume_lock:
  assumes "\<not> le_darwin env" "lock_path env p = Inr a" "volume_lock_path env v = Inr c"
  shows "a \<noteq> c"
proof -
  obtain root where r: "is_abs root" and a: "a = path_join [root, p @ ''.lock'']"
    and c: "c = path_join [root, ''volumes'', sha256_hex v @ ''.lock'']" and p: "project_pattern p"
    using assms lock_root_abs
    by (auto simp: lock_path_def volume_lock_path_def result_iff validate_project_def split: if_splits)
  have "ordinary (p @ ''.lock'')" "ordinary ''volumes''" "ordinary (sha256_hex v @ ''.lock'')"
    using p project_no_slash hex_no_slash ordinary_lock by (auto simp: ordinary_def slash_def)
  with r show ?thesis unfolding a c by (simp add: path_join_inject)
qed

section \<open>Sample data\<close>

definition linux_lock_env :: lock_env where
  "linux_lock_env = \<lparr>le_darwin = False,
     le_getenv = (\<lambda>k. if k = ''XDG_RUNTIME_DIR'' then ''/run/user/1000'' else []),
     le_temp_dir = ''/tmp'', le_uid = 1000, le_home = None\<rparr>"

section \<open>Properties\<close>

text \<open>\<open>Slug\<close> gives a non-empty name of at most 32 letters, digits and single underscores
  that neither starts nor ends with an underscore, whatever the basename; applied to its own
  result it changes nothing.\<close>

theorem slug_normal_form: "valid_slug (slug_of base) \<and> slug_of (slug_of base) = slug_of base"
  by (simp add: valid_slug_slug_of slug_of_valid)

text \<open>Without a project override \<open>Resolve\<close> fails only for an empty harness or an unusable
  path, never on the name it generates; and that name is \<open>hcorral-<slug>-<7 hex>\<close>, made of the
  slug of the directory and the first digits of the corral ID, and valid for Compose.\<close>

theorem resolve_generates_valid_project:
  "(is_ok (resolve os caller sel harness []) \<longleftrightarrow>
      harness \<noteq> [] \<and> is_ok (resolve_physical_path os caller sel)) \<and>
   (case resolve os caller sel harness [] of
      Inl e \<Rightarrow> True
    | Inr w \<Rightarrow>
        ws_project w = ''hcorral-'' @ ws_slug w @ ''-'' @ ws_corral_short_id w \<and>
        valid_slug (ws_slug w) \<and> length (ws_corral_short_id w) = 7 \<and>
        list_all lower_hex (ws_corral_short_id w) \<and> project_pattern (ws_project w) \<and> ws_generated w)"
  using resolve_generated_total resolve_generated_project
  by (fastforce simp: list_all_iff split: sum.split)

text \<open>The digested messages separate identities: for paths without a NUL byte (no POSIX path
  has one) two corral messages are equal only for the same path and harness, two workspace
  messages only for the same path, and no workspace message is a corral message.\<close>

theorem identity_messages_injective:
  assumes "CHR 0x00 \<notin> set p" "CHR 0x00 \<notin> set q"
  shows "(corral_message p h = corral_message q k \<longleftrightarrow> p = q \<and> h = k) \<and>
    (workspace_message p = workspace_message q \<longleftrightarrow> p = q) \<and>
    workspace_message p \<noteq> corral_message q k"
proof (intro conjI)
  show "corral_message p h = corral_message q k \<longleftrightarrow> p = q \<and> h = k"
    using assms by (auto simp: corral_message_def dest: append_sep_inject)
  show "workspace_message p = workspace_message q \<longleftrightarrow> p = q"
    by (auto simp: workspace_message_def)
  show "workspace_message p \<noteq> corral_message q k"
  proof
    assume "workspace_message p = corral_message q k"
    then have "workspace_namespace = corral_namespace"
      using append_sep_inject [OF namespaces_no_nul, of p "q @ CHR 0x00 # k"]
      by (simp add: workspace_message_def corral_message_def)
    then show False by (simp add: workspace_namespace_def corral_namespace_def)
  qed
qed

theorem identity_messages_injective_witness:
  "corral_message ''/w'' ''codex'' \<noteq> corral_message ''/w'' ''pi'' \<and>
   workspace_message ''/w'' \<noteq> corral_message ''/w'' ''pi''"
  using identity_messages_injective [of "''/w''" "''/w''" "''codex''" "''pi''"] by simp

text \<open>C3: \<open>VerifyContainer\<close> accepts a container exactly when all eight ownership labels match:
  the two IDs, their schemes, the harness, the runtime schema, and the Compose project and
  service; a missing container is accepted.\<close>

theorem verify_container_exact:
  "verify_container co ws = None \<longleftrightarrow>
     (case co of None \<Rightarrow> True | Some c \<Rightarrow> owned_labels (c_labels c) ws)"
  by (cases co) (simp_all add: verify_container_None_iff, simp add: verify_container_def)

text \<open>On Linux, two mutation locks are the same file only for the same project; a volume
  lock is never a project lock, and is the same file as another volume lock only when the
  digests of the two volume names are equal.\<close>

theorem lock_paths_separate:
  assumes "\<not> le_darwin env"
    and "lock_path env p = Inr a" "lock_path env q = Inr b"
    and "volume_lock_path env v = Inr c" "volume_lock_path env w = Inr d"
  shows "(a = b \<longleftrightarrow> p = q) \<and> a \<noteq> c \<and> (c = d \<longleftrightarrow> sha256_hex v = sha256_hex w)"
proof -
  obtain root where r: "lock_root env = Inr root" "is_abs root"
    and ab: "a = path_join [root, p @ ''.lock'']" "b = path_join [root, q @ ''.lock'']"
    and cd: "c = path_join [root, ''volumes'', sha256_hex v @ ''.lock'']"
      "d = path_join [root, ''volumes'', sha256_hex w @ ''.lock'']"
    and pq: "project_pattern p" "project_pattern q"
    using assms lock_root_abs
    by (auto simp: lock_path_def volume_lock_path_def result_iff validate_project_def split: if_splits)
  have o: "ordinary (p @ ''.lock'')" "ordinary (q @ ''.lock'')" "ordinary ''volumes''"
    "ordinary (sha256_hex m @ ''.lock'')" for m
    using pq project_no_slash hex_no_slash ordinary_lock by (auto simp: ordinary_def slash_def)
  show ?thesis unfolding ab cd using o r(2) by (simp add: path_join_inject)
qed

theorem lock_paths_separate_witness:
  "\<exists>a b c. lock_path linux_lock_env ''one'' = Inr a \<and> lock_path linux_lock_env ''two'' = Inr b \<and>
     volume_lock_path linux_lock_env ''one'' = Inr c \<and> a \<noteq> b \<and> a \<noteq> c"
proof -
  let ?v = "path_join [''/run/user/1000/hcorral/locks'', ''volumes'', sha256_hex ''one'' @ ''.lock'']"
  have r: "lock_root linux_lock_env = Inr ''/run/user/1000/hcorral/locks''" by code_simp
  have p: "lock_path linux_lock_env ''one'' = Inr ''/run/user/1000/hcorral/locks/one.lock''"
    "lock_path linux_lock_env ''two'' = Inr ''/run/user/1000/hcorral/locks/two.lock''"
    by code_simp+
  have v: "volume_lock_path linux_lock_env ''one'' = Inr ?v" by (simp add: volume_lock_path_def r)
  have "\<not> le_darwin linux_lock_env" by (simp add: linux_lock_env_def)
  from lock_paths_separate [OF this p v v]
  have "''/run/user/1000/hcorral/locks/one.lock'' \<noteq> ?v" by (rule conjunct2 [THEN conjunct1])
  with p v show ?thesis by (intro exI [of _ "''/run/user/1000/hcorral/locks/one.lock''"]
    exI [of _ "''/run/user/1000/hcorral/locks/two.lock''"] exI [of _ ?v] conjI) simp_all
qed

end
