(* ===== verification/Locks.thy ===== *)
theory Locks
  imports Identity
begin

text \<open>
  Taking and releasing the mutation locks (\<open>internal/identity/lock_unix.go\<close>).  The loop around
  \<open>flock\<close> is one \<open>Locked\<close> event, which says whether the lock was granted in the end; a caller
  that waits for ever has no result.  \<open>background\<close> is the context that is never cancelled.
\<close>

definition context_error :: "('m) machine_scheme \<Rightarrow> bool \<Rightarrow> bool io" where
  "context_error m background =
     (if background then ret False
      else andThen (sys m ''ctx.Err'' []) (\<lambda>a. ret (case a of Failed _ \<Rightarrow> True | _ \<Rightarrow> False)))"

definition physical_dir :: "answer \<Rightarrow> bool" where
  "physical_dir a = (case a of Info i \<Rightarrow> fi_dir i \<and> \<not> fi_symlink i | _ \<Rightarrow> False)"

definition failed :: "answer \<Rightarrow> bool" where
  "failed a = (a = Missing \<or> a = Exists \<or> (\<exists>e. a = Failed e))"

lemma failed_code [code]: "failed a = (case a of Failed _ \<Rightarrow> True | Missing \<Rightarrow> True | Exists \<Rightarrow> True | _ \<Rightarrow> False)"
  by (cases a) (auto simp: failed_def)

text \<open>The loop of \<open>secureLockDirectory\<close> over the components below \<open>current\<close>.\<close>

fun secure_components ::
  "('m) machine_scheme \<Rightarrow> string \<Rightarrow> string list \<Rightarrow> (lock_error, unit) result io" where
  "secure_components m current [] = okE ()"
| "secure_components m current (c # cs) =
     (let child = path_join [current, c] in
      andThen (sys m ''mkdir'' [child]) (\<lambda>a.
        if failed a \<and> a \<noteq> Exists then failE (LockUnavailable child)
        else andThen (sys m ''lstat'' [child]) (\<lambda>b.
          if \<not> physical_dir b then failE (LockUnavailable child)
          else secure_components m child cs)))"

definition secure_lock_directory ::
  "('m) machine_scheme \<Rightarrow> string \<Rightarrow> string list \<Rightarrow> (lock_error, unit) result io" where
  "secure_lock_directory m base components =
     andThen (sys m ''lstat'' [base]) (\<lambda>info.
     andThenE
       (if info = Missing then
          andThen (sys m ''mkdirall'' [base]) (\<lambda>a.
            if failed a then failE (LockUnavailable base)
            else andThen (sys m ''lstat'' [base]) okE)
        else okE info)
       (\<lambda>info'.
         if \<not> physical_dir info' then failE (LockUnavailable base)
         else secure_components m base components))"

definition acquire_lock_path ::
  "('m) machine_scheme \<Rightarrow> bool \<Rightarrow> string \<Rightarrow> (lock_error, string) result io" where
  "acquire_lock_path m background path =
     andThen (context_error m background) (\<lambda>cancelled.
     if cancelled then failE (LockUnavailable path)
     else let directory = path_dir path;
              base = path_dir (path_dir directory)
     in andThenE (secure_lock_directory m base [path_base (path_dir directory), path_base directory]) (\<lambda>_.
        andThen (sys m ''chmod'' [directory, ''0700'']) (\<lambda>a.
        if failed a then failE (LockUnavailable directory)
        else andThen (sys m ''open-nofollow'' [path, ''0600'']) (\<lambda>b.
        if failed b then failE (LockUnavailable path)
        else andThen (take_lock m path) (\<lambda>granted.
        if \<not> granted then andThen (sys m ''close'' [path]) (\<lambda>_. failE (LockUnavailable path))
        else andThen (context_error m background) (\<lambda>late.
        if late then andThen (release_lock path) (\<lambda>_. failE (LockUnavailable path))
        else andThen (sys m ''fchmod'' [path, ''0600'']) (\<lambda>c.
        if failed c then andThen (release_lock path) (\<lambda>_. failE (LockUnavailable path))
        else okE path)))))))"

definition acquire_lock_context ::
  "('m) machine_scheme \<Rightarrow> bool \<Rightarrow> lock_env \<Rightarrow> string \<Rightarrow> (lock_error, string) result io" where
  "acquire_lock_context m background env project =
     (case lock_path env project of
        Inl e \<Rightarrow> failE e
      | Inr path \<Rightarrow> acquire_lock_path m background path)"

definition acquire_lock :: "('m) machine_scheme \<Rightarrow> lock_env \<Rightarrow> string \<Rightarrow> (lock_error, string) result io" where
  "acquire_lock m env project = acquire_lock_context m True env project"

definition acquire_volume_lock ::
  "('m) machine_scheme \<Rightarrow> lock_env \<Rightarrow> string \<Rightarrow> (lock_error, string) result io" where
  "acquire_volume_lock m env vol =
     (case volume_lock_path env vol of
        Inl e \<Rightarrow> failE e
      | Inr path \<Rightarrow> acquire_lock_path m True path)"

text \<open>\<open>Lock.Close\<close>, with \<open>None\<close> for the nil lock.\<close>

definition lock_close :: "string option \<Rightarrow> unit io" where
  "lock_close lock = (case lock of None \<Rightarrow> ret () | Some path \<Rightarrow> release_lock path)"

section \<open>What taking a lock appends\<close>

definition lock_event :: "event \<Rightarrow> bool" where
  "lock_event e = (case e of Sys _ _ _ \<Rightarrow> True | Locked _ _ \<Rightarrow> True | Unlocked _ \<Rightarrow> True | _ \<Rightarrow> False)"

lemma appends_context_error [io_rules]: "(\<And>a. Q (Sys ''ctx.Err'' [] a)) \<Longrightarrow> appends Q (context_error m b)"
  unfolding context_error_def by (intro io_rules)

lemma appends_secure_components: "appends lock_event (secure_components m current cs)"
proof (induction cs arbitrary: current)
  case (Cons c cs)
  then show ?case
    unfolding secure_components.simps by (intro io_rules) (auto simp: lock_event_def)
qed (simp add: io_rules)

lemma appends_secure_lock_directory: "appends lock_event (secure_lock_directory m base cs)"
  unfolding secure_lock_directory_def
  by (intro io_rules appends_secure_components) (auto simp: lock_event_def)

lemma appends_acquire_lock_path: "appends lock_event (acquire_lock_path m bg path)"
  unfolding acquire_lock_path_def
  by (intro io_rules appends_secure_lock_directory) (auto simp: lock_event_def)

lemma appends_acquire_lock: "appends lock_event (acquire_lock m env project)"
  unfolding acquire_lock_def acquire_lock_context_def
  by (intro io_rules appends_acquire_lock_path)

lemma appends_acquire_volume_lock: "appends lock_event (acquire_volume_lock m env vol)"
  unfolding acquire_volume_lock_def by (intro io_rules appends_acquire_lock_path)

lemma appends_lock_close [io_rules]: "(\<And>p. Q (Unlocked p)) \<Longrightarrow> appends Q (lock_close lock)"
  unfolding lock_close_def by (intro io_rules)

text \<open>A granted lock: the path is known and the lock was taken and not given back since.\<close>

lemma andThen_result:
  assumes "andThen m f h = (r, h'')"
  obtains x h' where "m h = (x, h')" "f x h' = (r, h'')"
  using assms by (cases "m h") (auto simp: andThen_def)

definition holds_lock :: "string \<Rightarrow> history \<Rightarrow> bool" where
  "holds_lock path h \<longleftrightarrow> (\<exists>pre es. h = pre @ Locked path True # es \<and> Unlocked path \<notin> set es)"

lemma sys_pair: "sys m name args h = (a, h') \<Longrightarrow> h' = h @ [Sys name args a]"
  by (auto simp: sys_def Let_def)

lemma take_lock_pair: "take_lock m path h = (b, h') \<Longrightarrow> h' = h @ [Locked path b]"
  by (auto simp: take_lock_def Let_def)

lemma holds_lock_append: "holds_lock p h \<Longrightarrow> Unlocked p \<notin> set es \<Longrightarrow> holds_lock p (h @ es)"
  unfolding holds_lock_def by fastforce

lemma context_error_events:
  assumes "context_error m bg h = (b, h')" shows "\<exists>es. h' = h @ es \<and> (\<forall>e \<in> set es. \<forall>p. e \<noteq> Unlocked p)"
  using assms by (auto simp: context_error_def andThen_def sys_def Let_def split: if_splits)

lemma acquire_lock_path_holds:
  assumes "acquire_lock_path m bg path h = (Inr p, h')"
  shows "p = path \<and> holds_lock path h'"
proof -
  from assms obtain h1 h2 h3 late h4 a where
    l: "take_lock m path h1 = (True, h2)" "context_error m bg h2 = (late, h3)"
    "sys m ''fchmod'' [path, ''0600''] h3 = (a, h4)" and p: "p = path" "h' = h4"
    unfolding acquire_lock_path_def Let_def
    by (fastforce elim!: andThen_result andThenE_cases split: if_splits)
  have "holds_lock path h2"
    using take_lock_pair [OF l(1)] unfolding holds_lock_def by (intro exI [of _ h1] exI [of _ "[]"]) simp
  then have "holds_lock path h3" using context_error_events [OF l(2)] holds_lock_append by blast
  then show ?thesis using p sys_pair [OF l(3)] holds_lock_append [of path h3 "[Sys ''fchmod'' [path, ''0600''] a]"]
    by simp
qed

end
