(* ===== verification/Harness.thy ===== *)
theory Harness
  imports Go_Strings
begin

text \<open>
  The harness catalogue (\<open>internal/harness/catalog.go\<close>) and the test whether an image
  reference follows a moving tag (\<open>internal/runtime/image.go\<close>).
\<close>

section \<open>The catalogue\<close>

record harness_def =
  hd_type :: string
  hd_image :: string
  hd_command :: string
  hd_version_label :: string

definition builtins :: "(string \<times> harness_def) list" where
  "builtins =
     [(''codex'', \<lparr>hd_type = ''codex'',
        hd_image = ''ghcr.io/infrasecture/hcorral-codex:latest'',
        hd_command = ''codex'', hd_version_label = ''ai.infrasecture.hcorral.codex.version''\<rparr>),
      (''claude'', \<lparr>hd_type = ''claude'',
        hd_image = ''ghcr.io/infrasecture/hcorral-claude:latest'',
        hd_command = ''claude'', hd_version_label = ''ai.infrasecture.hcorral.claude.version''\<rparr>),
      (''pi'', \<lparr>hd_type = ''pi'',
        hd_image = ''ghcr.io/infrasecture/hcorral-pi:latest'',
        hd_command = ''pi'', hd_version_label = ''ai.infrasecture.hcorral.pi.version''\<rparr>)]"

definition normalize_harness :: "string \<Rightarrow> string" where
  "normalize_harness value = to_lower (trim_space value)"

definition lookup_harness :: "string \<Rightarrow> harness_def option" where
  "lookup_harness value = map_of builtins (normalize_harness value)"

definition default_image :: "string \<Rightarrow> string option" where
  "default_image value = map_option hd_image (lookup_harness value)"

definition is_built_in :: "string \<Rightarrow> bool" where
  "is_built_in value = (lookup_harness value \<noteq> None)"

section \<open>Image references\<close>

text \<open>\<open>name[strings.LastIndexByte(name, c)+1:]\<close>: what follows the last \<open>c\<close>.\<close>

definition after_last :: "char \<Rightarrow> string \<Rightarrow> string" where
  "after_last c s = last (split_char c s)"

definition is_latest :: "string \<Rightarrow> bool" where
  "is_latest reference =
     (if reference = [] \<or> CHR ''@'' \<in> set reference then False
      else let name = after_last (CHR ''/'') reference in
        CHR '':'' \<notin> set name \<or> after_last (CHR '':'') name = ''latest'')"

lemma after_last_id: "c \<notin> set s \<Longrightarrow> after_last c s = s"
  by (simp add: after_last_def split_char_id)

lemma split_char_append_gen: "split_char c (s @ c # t) = split_char c s @ split_char c t"
proof (induction s)
  case (Cons a s)
  then show ?case by (cases "split_char c s") auto
qed simp

lemma after_last_append: "c \<notin> set t \<Longrightarrow> after_last c (s @ c # t) = t"
  by (simp add: after_last_def split_char_append_gen split_char_id)

text \<open>A name with a tag follows \<open>latest\<close> exactly when the tag is \<open>latest\<close>; a port in the
  registry part is not mistaken for a tag; a digest is never moving.\<close>

lemma is_latest_tagged:
  assumes "CHR ''/'' \<notin> set name" "CHR ''/'' \<notin> set tag" "CHR '':'' \<notin> set tag"
    and "CHR ''@'' \<notin> set (repo @ name @ tag)"
  shows "is_latest (repo @ CHR ''/'' # name @ CHR '':'' # tag) \<longleftrightarrow> tag = ''latest''"
proof -
  have "after_last (CHR ''/'') (repo @ CHR ''/'' # (name @ CHR '':'' # tag)) = name @ CHR '':'' # tag"
    using assms by (intro after_last_append) auto
  with assms show ?thesis by (simp add: is_latest_def after_last_append Let_def)
qed

lemma is_latest_untagged:
  assumes "CHR ''/'' \<notin> set name" "CHR '':'' \<notin> set name" "CHR ''@'' \<notin> set (repo @ name)"
  shows "is_latest (repo @ CHR ''/'' # name)"
  using assms by (simp add: is_latest_def after_last_append Let_def)

lemma is_latest_digest: "CHR ''@'' \<in> set r \<Longrightarrow> \<not> is_latest r"
  by (simp add: is_latest_def)

section \<open>Properties\<close>

text \<open>\<open>IsLatest\<close> reads the tag of the last path component: a reference with a tag follows
  the moving tag exactly when the tag is \<open>latest\<close>, a reference without one follows it even
  when the registry part carries a port, and a digest pins whatever stands before it.\<close>

theorem is_latest_correct:
  assumes "CHR ''/'' \<notin> set name" "CHR '':'' \<notin> set name"
    and "CHR ''/'' \<notin> set tag" "CHR '':'' \<notin> set tag"
    and "CHR ''@'' \<notin> set (repo @ name @ tag)"
  shows "(is_latest (repo @ CHR ''/'' # name @ CHR '':'' # tag) \<longleftrightarrow> tag = ''latest'') \<and>
    is_latest (repo @ CHR ''/'' # name) \<and>
    \<not> is_latest (repo @ CHR ''/'' # name @ CHR ''@'' # digest)"
  using assms by (simp add: is_latest_tagged is_latest_untagged is_latest_digest)

theorem is_latest_correct_witness:
  "\<not> is_latest ''localhost:5000/tool:1.2'' \<and> is_latest ''localhost:5000/tool''"
  using is_latest_correct [of "''tool''" "''1.2''" "''localhost:5000''"] by simp

end
