(* ===== verification/Config.thy ===== *)
theory Config
  imports Harness Go_Path "HOL-Library.AList"
begin

text \<open>
  Configuration from the command line, the environment and the user's file
  (\<open>internal/config/config.go\<close>).  \<open>parse\<close> is \<open>Parse\<close>, cut where its sections are:
  \<open>initial_config\<close> (defaults and plain variables), \<open>apply_environment\<close>, the option loop
  \<open>parse_args\<close> over \<open>parse_step\<close>, and \<open>finish_config\<close>.  The file system, the TOML library and
  the JSON decoder of an array of strings are the record \<open>config_world\<close> of arbitrary functions.
\<close>

section \<open>Data\<close>

datatype state_mode = StateShared | StatePrivate | StateCustom

record gui_intent =
  gui_specified :: bool
  gui_mode :: string

record config =
  cfg_caller_dir :: string
  cfg_workspace :: string
  cfg_project_name :: string
  cfg_harness :: string
  cfg_image :: string
  cfg_config_file :: string
  cfg_warnings :: "string list"
  cfg_state_mode :: state_mode
  cfg_state_volume_name :: string
  cfg_state_specified :: bool
  cfg_gui :: gui_intent
  cfg_compose_command :: "string list"
  cfg_compose_files :: "string list"
  cfg_extra_volumes :: "string list"
  cfg_container_home :: string
  cfg_workdir :: string
  cfg_update_check :: bool
  cfg_auto_pull :: bool
  cfg_wait_timeout :: int
  cfg_progress_interval :: int
  cfg_session :: string
  cfg_auto_attach :: bool
  cfg_command :: "string list"
  cfg_platform :: string
  cfg_sources :: labels

record parse_options =
  po_caller_dir :: string
  po_home_dir :: string
  po_platform :: string
  po_getenv :: "(string \<Rightarrow> string) option"
  po_environ :: "string list option"

text \<open>\<open>fileConfig\<close>: the default harness, and the image of each \<open>[harness.<name>]\<close> table.\<close>

record file_config =
  fc_default_harness :: string
  fc_harness :: labels

datatype file_answer = FileMissing | FileUnreadable string | FileContent string

record config_world =
  cw_goos :: string
  cw_read_file :: "string \<Rightarrow> file_answer"
  cw_decode_toml :: "string \<Rightarrow> file_config option"
  cw_decode_strings :: "string \<Rightarrow> string list option"

datatype config_error =
    EnvironmentReaderNil
  | CallerDirectoryEmpty
  | HomeDirectoryEmpty
  | ConfigHomeRelative
  | ReadUserConfig string string
  | ParseUserConfig string
  | NotStringArray string
  | ArrayEmpty string
  | ArrayElement string
  | NotABool string string
  | NotPositive string string
  | PrivateConflictsVolume
  | RequiresValue string
  | MustNotBeEmpty string
  | GuiTwice
  | PrivateFlagConflict
  | StateVolumeEmpty
  | UnknownHarnessImage string
  | WorkspaceEmpty
  | HarnessInvalid string
  | ImageInvalid
  | ContainerHomeInvalid
  | IntervalExceedsTimeout
  | SessionInvalid
  | GuiModeInvalid string
  | GuiUnsupported string

section \<open>Helpers\<close>

definition session_char :: "char \<Rightarrow> bool" where
  "session_char c = (is_upper c \<or> is_lower c \<or> is_digit c \<or> c \<in> set ''_.-'')"

definition session_pattern :: "string \<Rightarrow> bool" where
  "session_pattern s = (1 \<le> length s \<and> length s \<le> 64 \<and> list_all session_char s)"

definition harness_pattern :: "string \<Rightarrow> bool" where
  "harness_pattern s =
     (s \<noteq> [] \<and> length s \<le> 32 \<and> is_lower (hd s) \<and>
      list_all (\<lambda>c. is_lower c \<or> is_digit c \<or> c = CHR ''_'') (tl s))"

definition known_environment :: "string list" where
  "known_environment =
     [''HCORRAL_HARNESS'', ''HCORRAL_IMAGE'', ''HCORRAL_WORKSPACE'',
      ''HCORRAL_PROJECT_NAME'', ''HCORRAL_STATE_VOLUME_NAME'', ''HCORRAL_PRIVATE_ENV'',
      ''HCORRAL_GUI'', ''HCORRAL_COMPOSE_COMMAND'', ''HCORRAL_COMPOSE_FILES'',
      ''HCORRAL_CONTAINER_HOME'', ''HCORRAL_WORKDIR'', ''HCORRAL_UPDATE_CHECK'',
      ''HCORRAL_WAIT_TIMEOUT_SECONDS'', ''HCORRAL_STARTUP_PROGRESS_INTERVAL_SECONDS'',
      ''HCORRAL_BYOBU_SESSION'', ''HCORRAL_AUTO_ATTACH'', ''HCORRAL_AUTO_PULL'']"

definition value_or :: "string \<Rightarrow> string \<Rightarrow> string" where
  "value_or value fallback = (if value = [] then fallback else value)"

definition source_of :: "bool \<Rightarrow> string" where
  "source_of fromEnvironment = (if fromEnvironment then ''environment'' else ''default'')"

definition appended_source :: "string \<Rightarrow> string" where
  "appended_source previous =
     (if previous = ''environment'' \<or> previous = ''environment+cli'' then ''environment+cli''
      else ''cli'')"

definition resolve_from_caller :: "string \<Rightarrow> string \<Rightarrow> string" where
  "resolve_from_caller caller value =
     (if is_abs value then clean value else clean (path_join [caller, value]))"

definition parse_bool :: "string \<Rightarrow> string \<Rightarrow> (config_error, bool) result" where
  "parse_bool name value =
     (if value = ''true'' then Inr True
      else if value = ''false'' then Inr False
      else Inl (NotABool name value))"

definition parse_positive_int :: "string \<Rightarrow> string \<Rightarrow> (config_error, int) result" where
  "parse_positive_int name value =
     (case atoi value of
        None \<Rightarrow> Inl (NotPositive name value)
      | Some n \<Rightarrow> if n \<le> 0 then Inl (NotPositive name value) else Inr n)"

definition parse_string_array ::
  "config_world \<Rightarrow> string \<Rightarrow> string \<Rightarrow> bool \<Rightarrow> (config_error, string list) result" where
  "parse_string_array w name value allowEmpty =
     (case cw_decode_strings w value of
        None \<Rightarrow> Inl (NotStringArray name)
      | Some result \<Rightarrow>
          if \<not> allowEmpty \<and> result = [] then Inl (ArrayEmpty name)
          else if list_ex (\<lambda>item. item = [] \<or> CHR 0x00 \<in> set item) result
          then Inl (ArrayElement name)
          else Inr result)"

text \<open>\<open>optionValue\<close>: \<open>rest\<close> is what follows the option; the result pairs the value with what is left.\<close>

definition option_value :: "string list \<Rightarrow> string \<Rightarrow> (config_error, string \<times> string list) result" where
  "option_value rest name =
     (case rest of
        [] \<Rightarrow> Inl (RequiresValue name)
      | v # next \<Rightarrow> if v = [] then Inl (MustNotBeEmpty name) else Inr (v, next))"

definition user_config_path :: "parse_options \<Rightarrow> (string \<Rightarrow> string) \<Rightarrow> (config_error, string) result" where
  "user_config_path options getenv =
     (if po_home_dir options = [] then Inl HomeDirectoryEmpty
      else if po_platform options = ''darwin''
      then Inr (path_join [po_home_dir options, ''Library'', ''Application Support'', ''hcorral'',
                           ''config.toml''])
      else let env = getenv ''XDG_CONFIG_HOME'';
               root = (if env = [] then path_join [po_home_dir options, ''.config''] else env)
           in if \<not> is_abs root then Inl ConfigHomeRelative
              else Inr (path_join [root, ''hcorral'', ''config.toml'']))"

definition read_user_config :: "config_world \<Rightarrow> string \<Rightarrow> (config_error, file_config) result" where
  "read_user_config w path =
     (case cw_read_file w path of
        FileMissing \<Rightarrow> Inr \<lparr>fc_default_harness = [], fc_harness = []\<rparr>
      | FileUnreadable e \<Rightarrow> Inl (ReadUserConfig path e)
      | FileContent content \<Rightarrow>
          (case cw_decode_toml w content of
             None \<Rightarrow> Inl (ParseUserConfig path)
           | Some result \<Rightarrow> Inr result))"

definition environment_key :: "string \<Rightarrow> string" where
  "environment_key entry = split2 (CHR ''='') entry ! 0"

definition unknown_environment_warnings :: "string list \<Rightarrow> string list" where
  "unknown_environment_warnings environ =
     (let seen = remdups (filter (\<lambda>key. has_prefix key ''HCORRAL_'' \<and> key \<notin> set known_environment)
                   (map environment_key environ))
      in map (\<lambda>key. ''unknown environment variable '' @ key @ '' was ignored'') (sort seen))"

definition set_source :: "string \<Rightarrow> string \<Rightarrow> config \<Rightarrow> config" where
  "set_source k v cfg = cfg\<lparr>cfg_sources := AList.update k v (cfg_sources cfg)\<rparr>"

section \<open>Parse: defaults and environment\<close>

definition initial_config ::
  "parse_options \<Rightarrow> (string \<Rightarrow> string) \<Rightarrow> string \<Rightarrow> file_config \<Rightarrow> string \<Rightarrow> config" where
  "initial_config options getenv platform file path =
     (let env = (\<lambda>name. getenv name \<noteq> []);
          selected =
            (if getenv ''HCORRAL_HARNESS'' \<noteq> [] then (getenv ''HCORRAL_HARNESS'', ''environment'')
             else if fc_default_harness file \<noteq> [] then (fc_default_harness file, ''user-config'')
             else (''codex'', ''default''))
      in \<lparr>cfg_caller_dir = po_caller_dir options,
          cfg_workspace = value_or (getenv ''HCORRAL_WORKSPACE'') (po_caller_dir options),
          cfg_project_name = getenv ''HCORRAL_PROJECT_NAME'',
          cfg_harness = fst selected,
          cfg_image = [],
          cfg_config_file = path,
          cfg_warnings = (case po_environ options of None \<Rightarrow> []
                          | Some environ \<Rightarrow> unknown_environment_warnings environ),
          cfg_state_mode = StateShared,
          cfg_state_volume_name = getenv ''HCORRAL_STATE_VOLUME_NAME'',
          cfg_state_specified = False,
          cfg_gui = \<lparr>gui_specified = False, gui_mode = []\<rparr>,
          cfg_compose_command = [''docker'', ''compose''],
          cfg_compose_files = [],
          cfg_extra_volumes = [],
          cfg_container_home = value_or (getenv ''HCORRAL_CONTAINER_HOME'') (po_home_dir options),
          cfg_workdir = getenv ''HCORRAL_WORKDIR'',
          cfg_update_check = True,
          cfg_auto_pull = True,
          cfg_wait_timeout = 30,
          cfg_progress_interval = 2,
          cfg_session = value_or (getenv ''HCORRAL_BYOBU_SESSION'') ''hcorral'',
          cfg_auto_attach = False,
          cfg_command = [],
          cfg_platform = platform,
          cfg_sources =
            [(''workspace'', source_of (env ''HCORRAL_WORKSPACE'')),
             (''project_name'', source_of (env ''HCORRAL_PROJECT_NAME'')),
             (''harness'', snd selected), (''image'', ''default''), (''state'', ''default''),
             (''gui'', ''default''),
             (''compose_command'', source_of (env ''HCORRAL_COMPOSE_COMMAND'')),
             (''compose_files'', source_of (env ''HCORRAL_COMPOSE_FILES'')),
             (''extra_volumes'', ''default''),
             (''container_home'', source_of (env ''HCORRAL_CONTAINER_HOME'')),
             (''workdir'', source_of (env ''HCORRAL_WORKDIR'')),
             (''update_check'', source_of (env ''HCORRAL_UPDATE_CHECK'')),
             (''wait_timeout'', source_of (env ''HCORRAL_WAIT_TIMEOUT_SECONDS'')),
             (''auto_pull'', source_of (env ''HCORRAL_AUTO_PULL'')),
             (''progress_interval'', source_of (env ''HCORRAL_STARTUP_PROGRESS_INTERVAL_SECONDS'')),
             (''session'', source_of (env ''HCORRAL_BYOBU_SESSION'')),
             (''auto_attach'', source_of (env ''HCORRAL_AUTO_ATTACH''))]\<rparr>)"

text \<open>\<open>if raw := options.Getenv(name); raw != "" { ... }\<close>.\<close>

definition when_env ::
  "(string \<Rightarrow> string) \<Rightarrow> string \<Rightarrow> (string \<Rightarrow> config \<Rightarrow> (config_error, config) result) \<Rightarrow>
     config \<Rightarrow> (config_error, config) result" where
  "when_env getenv name k cfg =
     (if getenv name = [] then Inr cfg else k (getenv name) cfg)"

definition env_private :: "string \<Rightarrow> config \<Rightarrow> (config_error, config) result" where
  "env_private raw cfg =
     bindE (parse_bool ''HCORRAL_PRIVATE_ENV'' raw) (\<lambda>priv.
       let cfg' = set_source ''state'' ''environment'' (cfg\<lparr>cfg_state_specified := True\<rparr>) in
       Inr (if priv then cfg'\<lparr>cfg_state_mode := StatePrivate\<rparr> else cfg'))"

definition env_state :: "(string \<Rightarrow> string) \<Rightarrow> config \<Rightarrow> (config_error, config) result" where
  "env_state getenv cfg0 =
     bindE (when_env getenv ''HCORRAL_PRIVATE_ENV'' env_private cfg0)
       (\<lambda>cfg.
         if cfg_state_volume_name cfg \<noteq> [] then
           (if cfg_state_mode cfg = StatePrivate then Inl PrivateConflictsVolume
            else Inr (set_source ''state'' ''environment''
                        (cfg\<lparr>cfg_state_specified := True, cfg_state_mode := StateCustom\<rparr>)))
         else Inr cfg)"

definition apply_environment ::
  "config_world \<Rightarrow> (string \<Rightarrow> string) \<Rightarrow> config \<Rightarrow> (config_error, config) result" where
  "apply_environment w getenv cfg0 =
     foldE (\<lambda>cfg step. step cfg) cfg0
       [when_env getenv ''HCORRAL_COMPOSE_COMMAND'' (\<lambda>raw cfg.
          bindE (parse_string_array w ''HCORRAL_COMPOSE_COMMAND'' raw False) (\<lambda>v.
            Inr (cfg\<lparr>cfg_compose_command := v\<rparr>))),
        when_env getenv ''HCORRAL_COMPOSE_FILES'' (\<lambda>raw cfg.
          bindE (parse_string_array w ''HCORRAL_COMPOSE_FILES'' raw True) (\<lambda>v.
            Inr (cfg\<lparr>cfg_compose_files := v\<rparr>))),
        env_state getenv,
        when_env getenv ''HCORRAL_GUI'' (\<lambda>raw cfg.
          Inr (set_source ''gui'' ''environment''
                 (cfg\<lparr>cfg_gui := \<lparr>gui_specified = True, gui_mode = raw\<rparr>\<rparr>))),
        when_env getenv ''HCORRAL_UPDATE_CHECK'' (\<lambda>raw cfg.
          bindE (parse_bool ''HCORRAL_UPDATE_CHECK'' raw) (\<lambda>v. Inr (cfg\<lparr>cfg_update_check := v\<rparr>))),
        when_env getenv ''HCORRAL_AUTO_PULL'' (\<lambda>raw cfg.
          bindE (parse_bool ''HCORRAL_AUTO_PULL'' raw) (\<lambda>v. Inr (cfg\<lparr>cfg_auto_pull := v\<rparr>))),
        when_env getenv ''HCORRAL_AUTO_ATTACH'' (\<lambda>raw cfg.
          bindE (parse_bool ''HCORRAL_AUTO_ATTACH'' raw) (\<lambda>v. Inr (cfg\<lparr>cfg_auto_attach := v\<rparr>))),
        when_env getenv ''HCORRAL_WAIT_TIMEOUT_SECONDS'' (\<lambda>raw cfg.
          bindE (parse_positive_int ''HCORRAL_WAIT_TIMEOUT_SECONDS'' raw) (\<lambda>v.
            Inr (cfg\<lparr>cfg_wait_timeout := v\<rparr>))),
        when_env getenv ''HCORRAL_STARTUP_PROGRESS_INTERVAL_SECONDS'' (\<lambda>raw cfg.
          bindE (parse_positive_int ''HCORRAL_STARTUP_PROGRESS_INTERVAL_SECONDS'' raw) (\<lambda>v.
            Inr (cfg\<lparr>cfg_progress_interval := v\<rparr>)))]"

section \<open>Parse: the option loop\<close>

text \<open>The loop's variables: the configuration and the three flags.\<close>

record arg_state =
  as_cfg :: config
  as_private :: bool
  as_state :: bool
  as_gui :: bool

definition on_cfg :: "string \<Rightarrow> string \<Rightarrow> (config \<Rightarrow> config) \<Rightarrow> arg_state \<Rightarrow> arg_state" where
  "on_cfg key src f st = st\<lparr>as_cfg := set_source key src (f (as_cfg st))\<rparr>"

definition set_gui :: "string \<Rightarrow> arg_state \<Rightarrow> (config_error, arg_state) result" where
  "set_gui mode st =
     (if as_gui st then Inl GuiTwice
      else Inr (on_cfg ''gui'' ''cli'' (\<lambda>c. c\<lparr>cfg_gui := \<lparr>gui_specified = True, gui_mode = mode\<rparr>\<rparr>)
                  (st\<lparr>as_gui := True\<rparr>)))"

text \<open>What each option with a value does with it.\<close>

datatype value_option =
    OptHarness | OptImage | OptWorkspace | OptProject | OptStateVolume | OptVolume | OptComposeFile

fun set_option :: "value_option \<Rightarrow> string \<Rightarrow> arg_state \<Rightarrow> arg_state" where
  "set_option OptHarness v st = on_cfg ''harness'' ''cli'' (\<lambda>c. c\<lparr>cfg_harness := v\<rparr>) st"
| "set_option OptImage v st = on_cfg ''image'' ''cli'' (\<lambda>c. c\<lparr>cfg_image := v\<rparr>) st"
| "set_option OptWorkspace v st = on_cfg ''workspace'' ''cli'' (\<lambda>c. c\<lparr>cfg_workspace := v\<rparr>) st"
| "set_option OptProject v st = on_cfg ''project_name'' ''cli'' (\<lambda>c. c\<lparr>cfg_project_name := v\<rparr>) st"
| "set_option OptStateVolume v st =
     on_cfg ''state'' ''cli'' (\<lambda>c. c\<lparr>cfg_state_volume_name := v\<rparr>) (st\<lparr>as_state := True\<rparr>)"
| "set_option OptVolume v st =
     on_cfg ''extra_volumes'' ''cli'' (\<lambda>c. c\<lparr>cfg_extra_volumes := cfg_extra_volumes c @ [v]\<rparr>) st"
| "set_option OptComposeFile v st =
     on_cfg ''compose_files'' (appended_source (label (cfg_sources (as_cfg st)) ''compose_files''))
       (\<lambda>c. c\<lparr>cfg_compose_files := cfg_compose_files c @ [v]\<rparr>) st"

text \<open>The cases of the \<open>switch\<close> in order: an option whose value follows, one with \<open>=\<close>, or another.\<close>

definition separate_option :: "string \<Rightarrow> value_option option" where
  "separate_option arg =
     (if arg = ''--harness'' then Some OptHarness
      else if arg = ''--image'' then Some OptImage
      else if arg = ''--workspace'' then Some OptWorkspace
      else if arg = ''--project-name'' then Some OptProject
      else if arg = ''--state-volume'' then Some OptStateVolume
      else if arg = ''-v'' \<or> arg = ''--volume'' then Some OptVolume
      else if arg = ''-f'' \<or> arg = ''--compose-file'' then Some OptComposeFile
      else None)"

definition joined_option :: "string \<Rightarrow> (value_option \<times> string) option" where
  "joined_option arg =
     (if has_prefix arg ''--harness='' then Some (OptHarness, trim_prefix arg ''--harness='')
      else if has_prefix arg ''--image='' then Some (OptImage, trim_prefix arg ''--image='')
      else if has_prefix arg ''--workspace='' then Some (OptWorkspace, trim_prefix arg ''--workspace='')
      else if has_prefix arg ''--project-name='' then Some (OptProject, trim_prefix arg ''--project-name='')
      else if has_prefix arg ''--state-volume='' then Some (OptStateVolume, trim_prefix arg ''--state-volume='')
      else if has_prefix arg ''--volume='' then Some (OptVolume, trim_prefix arg ''--volume='')
      else if has_prefix arg ''--compose-file='' then Some (OptComposeFile, trim_prefix arg ''--compose-file='')
      else None)"

definition set_command :: "string list \<Rightarrow> arg_state \<Rightarrow> arg_state" where
  "set_command cmd st = st\<lparr>as_cfg := (as_cfg st)\<lparr>cfg_command := cmd\<rparr>\<rparr>"

definition and_rest :: "string list \<Rightarrow> (config_error, arg_state) result \<Rightarrow>
    (config_error, arg_state \<times> string list) result" where
  "and_rest rest r = bindE r (\<lambda>st. Inr (st, rest))"

definition parse_step ::
  "arg_state \<Rightarrow> string \<Rightarrow> string list \<Rightarrow> (config_error, arg_state \<times> string list) result" where
  "parse_step st arg rest =
     (if arg = ''--'' then Inr (set_command rest st, [])
      else if arg = ''-h'' \<or> arg = ''--help'' then Inr (set_command [''help''] st, [])
      else case separate_option arg of
        Some opt \<Rightarrow> bindE (option_value rest arg) (\<lambda>(v, next). Inr (set_option opt v st, next))
      | None \<Rightarrow> (case joined_option arg of
        Some (opt, v) \<Rightarrow> Inr (set_option opt v st, rest)
      | None \<Rightarrow>
          if arg = ''--private-env'' then
            Inr (on_cfg ''state'' ''cli'' id (st\<lparr>as_private := True\<rparr>), rest)
          else if arg = ''--gui'' then and_rest rest (set_gui ''auto'' st)
          else if has_prefix arg ''--gui='' then and_rest rest (set_gui (trim_prefix arg ''--gui='') st)
          else if arg = ''--no-gui'' then and_rest rest (set_gui ''none'' st)
          else Inr (set_command (arg # rest) st, [])))"

lemma option_value_Inr [result_iff]:
  "option_value rest name = Inr (v, next) \<longleftrightarrow> rest = v # next \<and> v \<noteq> []"
  by (auto simp: option_value_def split: list.splits if_splits)

lemma and_rest_Inr [result_iff]: "and_rest rest r = Inr (st, next) \<longleftrightarrow> r = Inr st \<and> next = rest"
  by (auto simp: and_rest_def result_iff)

text \<open>Every case of the \<open>switch\<close> with what it leaves, as one inversion rule.\<close>

lemma parse_step_cases:
  assumes "parse_step st arg rest = Inr (st', next)"
  obtains cmd where "st' = set_command cmd st" "next = []"
  | opt v where "st' = set_option opt v st" "rest = v # next" "v \<noteq> []"
  | opt v where "st' = set_option opt v st" "next = rest" "joined_option arg = Some (opt, v)"
  | "st' = on_cfg ''state'' ''cli'' id (st\<lparr>as_private := True\<rparr>)" "next = rest"
  | mode where "set_gui mode st = Inr st'" "next = rest"
  using assms unfolding parse_step_def
  by (auto simp: result_iff split: if_splits option.splits)

lemma parse_step_shorter: "parse_step st arg rest = Inr (st', next) \<Longrightarrow> length next \<le> length rest"
  by (elim parse_step_cases) auto

function parse_args :: "arg_state \<Rightarrow> string list \<Rightarrow> (config_error, arg_state) result" where
  "parse_args st [] = Inr st"
| "parse_args st (arg # rest) =
     bindE (parse_step st arg rest) (\<lambda>p. parse_args (fst p) (snd p))"
  by pat_completeness auto
termination
proof (relation "measure (\<lambda>(st, args). length args)", goal_cases)
  case (2 st arg rest p)
  then show ?case using parse_step_shorter [of st arg rest "fst p" "snd p"] by (cases p) auto
qed simp

section \<open>Parse: completion\<close>

definition validate :: "config \<Rightarrow> config_error option" where
  "validate cfg =
     (if cfg_workspace cfg = [] then Some WorkspaceEmpty
      else if \<not> harness_pattern (cfg_harness cfg) then Some (HarnessInvalid (cfg_harness cfg))
      else if cfg_image cfg = [] \<or> CHR 0x00 \<in> set (cfg_image cfg) \<or>
              contains_any (cfg_image cfg) [CHR '' '', CHR 0x09, CHR 0x0D, CHR 0x0A]
      then Some ImageInvalid
      else if cfg_container_home cfg = [] \<or> \<not> is_abs (cfg_container_home cfg)
      then Some ContainerHomeInvalid
      else if cfg_progress_interval cfg > cfg_wait_timeout cfg then Some IntervalExceedsTimeout
      else if \<not> session_pattern (cfg_session cfg) then Some SessionInvalid
      else if gui_specified (cfg_gui cfg) then
        (if gui_mode (cfg_gui cfg) \<notin> {''none'', ''auto'', ''x11'', ''wayland''}
         then Some (GuiModeInvalid (gui_mode (cfg_gui cfg)))
         else if cfg_platform cfg = ''darwin'' \<and> gui_mode (cfg_gui cfg) \<noteq> ''none''
         then Some (GuiUnsupported (gui_mode (cfg_gui cfg)))
         else None)
      else None)"

definition apply_state_flags :: "arg_state \<Rightarrow> (config_error, config) result" where
  "apply_state_flags st =
     (let cfg = as_cfg st in
      if as_private st \<and> as_state st then Inl PrivateFlagConflict
      else let cfg1 = (if as_private st then
             cfg\<lparr>cfg_state_volume_name := [], cfg_state_mode := StatePrivate, cfg_state_specified := True\<rparr>
           else cfg)
      in if as_state st then
        (if cfg_state_volume_name cfg1 = [] then Inl StateVolumeEmpty
         else Inr (cfg1\<lparr>cfg_state_mode := StateCustom, cfg_state_specified := True\<rparr>))
      else Inr cfg1)"

text \<open>The image: the command line, then \<open>HCORRAL_IMAGE\<close>, then the file, then the catalogue.\<close>

definition select_image ::
  "(string \<Rightarrow> string) \<Rightarrow> file_config \<Rightarrow> config \<Rightarrow> (config_error, config) result" where
  "select_image getenv file cfg0 =
     (let cfg1 = (if cfg_image cfg0 = [] \<and> getenv ''HCORRAL_IMAGE'' \<noteq> []
                  then set_source ''image'' ''environment'' (cfg0\<lparr>cfg_image := getenv ''HCORRAL_IMAGE''\<rparr>)
                  else cfg0);
          selected = label (fc_harness file) (cfg_harness cfg1);
          cfg2 = (if cfg_image cfg1 = [] \<and> selected \<noteq> []
                  then set_source ''image'' ''user-config'' (cfg1\<lparr>cfg_image := selected\<rparr>)
                  else cfg1)
      in if cfg_image cfg2 = [] then
           (case default_image (cfg_harness cfg2) of
              Some value \<Rightarrow> Inr (cfg2\<lparr>cfg_image := value\<rparr>)
            | None \<Rightarrow> Inl (UnknownHarnessImage (cfg_harness cfg2)))
         else Inr cfg2)"

definition resolve_paths :: "config \<Rightarrow> config" where
  "resolve_paths cfg =
     (let caller = cfg_caller_dir cfg;
          ws = resolve_from_caller caller (cfg_workspace cfg)
      in cfg\<lparr>cfg_workspace := ws,
             cfg_workdir := (if cfg_workdir cfg = [] then ws
                             else resolve_from_caller caller (cfg_workdir cfg)),
             cfg_compose_files := map (resolve_from_caller caller) (cfg_compose_files cfg)\<rparr>)"

definition finish_config ::
  "(string \<Rightarrow> string) \<Rightarrow> file_config \<Rightarrow> arg_state \<Rightarrow> (config_error, config) result" where
  "finish_config getenv file st0 =
     (let st = st0\<lparr>as_cfg := (as_cfg st0)\<lparr>cfg_harness := normalize_harness (cfg_harness (as_cfg st0))\<rparr>\<rparr>
      in bindE (apply_state_flags st) (\<lambda>cfg1.
         bindE (select_image getenv file cfg1) (\<lambda>cfg2.
           case validate cfg2 of Some e \<Rightarrow> Inl e | None \<Rightarrow> Inr (resolve_paths cfg2))))"

definition parse :: "config_world \<Rightarrow> string list \<Rightarrow> parse_options \<Rightarrow> (config_error, config) result" where
  "parse w args options =
     (case po_getenv options of
        None \<Rightarrow> Inl EnvironmentReaderNil
      | Some getenv \<Rightarrow>
          if po_caller_dir options = [] then Inl CallerDirectoryEmpty
          else let platform = value_or (po_platform options) (cw_goos w);
                   options' = options\<lparr>po_platform := platform\<rparr>
          in bindE (user_config_path options' getenv) (\<lambda>path.
             bindE (read_user_config w path) (\<lambda>file.
             bindE (apply_environment w getenv (initial_config options' getenv platform file path)) (\<lambda>cfg.
             bindE (parse_args \<lparr>as_cfg = cfg, as_private = False, as_state = False, as_gui = False\<rparr> args)
               (\<lambda>st. finish_config getenv file st)))))"

section \<open>Invariants of the stages\<close>

text \<open>An explicit volume name and the custom mode go together.\<close>

definition state_ok :: "config \<Rightarrow> bool" where
  "state_ok cfg \<longleftrightarrow> (cfg_state_mode cfg = StateCustom \<longleftrightarrow> cfg_state_volume_name cfg \<noteq> []) \<and>
     (cfg_state_mode cfg \<noteq> StateShared \<longrightarrow> cfg_state_specified cfg)"

definition numbers_ok :: "string \<Rightarrow> string \<Rightarrow> config \<Rightarrow> bool" where
  "numbers_ok caller platform cfg \<longleftrightarrow>
     cfg_caller_dir cfg = caller \<and> cfg_platform cfg = platform \<and>
     0 < cfg_wait_timeout cfg \<and> 0 < cfg_progress_interval cfg"

lemma set_source_simps [simp]:
  "cfg_caller_dir (set_source k v c) = cfg_caller_dir c"
  "cfg_platform (set_source k v c) = cfg_platform c"
  "cfg_wait_timeout (set_source k v c) = cfg_wait_timeout c"
  "cfg_progress_interval (set_source k v c) = cfg_progress_interval c"
  "cfg_state_mode (set_source k v c) = cfg_state_mode c"
  "cfg_state_volume_name (set_source k v c) = cfg_state_volume_name c"
  "cfg_state_specified (set_source k v c) = cfg_state_specified c"
  "cfg_harness (set_source k v c) = cfg_harness c"
  "cfg_image (set_source k v c) = cfg_image c"
  "cfg_command (set_source k v c) = cfg_command c"
  by (simp_all add: set_source_def)

lemma when_env_keeps:
  assumes "when_env getenv name k cfg = Inr cfg'" "P cfg"
    and "\<And>raw c c'. k raw c = Inr c' \<Longrightarrow> P c \<Longrightarrow> P c'"
  shows "P cfg'"
  using assms by (auto simp: when_env_def split: if_splits)

lemma when_env_pure:
  assumes "when_env getenv name (\<lambda>raw c. Inr (f raw c)) cfg = Inr cfg'" "P cfg"
    and "\<And>raw c. P c \<Longrightarrow> P (f raw c)"
  shows "P cfg'"
  using assms by (auto simp: when_env_def split: if_splits)

lemma when_env_bind:
  assumes "when_env getenv name (\<lambda>raw c. bindE (m raw) (\<lambda>v. Inr (f v c))) cfg = Inr cfg'" "P cfg"
    and "\<And>raw v c. m raw = Inr v \<Longrightarrow> P c \<Longrightarrow> P (f v c)"
  shows "P cfg'"
  using assms by (auto simp: when_env_def bindE_Inr split: if_splits)

lemma parse_positive_int_pos: "parse_positive_int name v = Inr n \<Longrightarrow> 0 < n"
  by (auto simp: parse_positive_int_def split: option.splits if_splits)

lemma env_state_ok:
  assumes "env_state getenv cfg = Inr cfg'" "cfg_state_mode cfg = StateShared" "numbers_ok a b cfg"
  shows "state_ok cfg' \<and> numbers_ok a b cfg'"
proof -
  obtain c1 where c1: "when_env getenv ''HCORRAL_PRIVATE_ENV'' env_private cfg = Inr c1"
    and c2: "(if cfg_state_volume_name c1 \<noteq> [] then
         (if cfg_state_mode c1 = StatePrivate then Inl PrivateConflictsVolume
          else Inr (set_source ''state'' ''environment''
                      (c1\<lparr>cfg_state_specified := True, cfg_state_mode := StateCustom\<rparr>)))
       else Inr c1) = Inr cfg'"
    using assms(1) unfolding env_state_def bindE_Inr by (elim exE conjE) (rule that)
  let ?P = "\<lambda>c. (cfg_state_mode c \<noteq> StateShared \<longrightarrow> cfg_state_specified c) \<and>
      cfg_state_mode c \<noteq> StateCustom \<and> numbers_ok a b c"
  have "?P c1"
    using c1
  proof (rule when_env_keeps [where P = ?P])
    show "?P cfg" using assms(2,3) by simp
    show "?P c'" if "env_private raw c = Inr c'" "?P c" for raw c c'
    proof -
      from that(1) obtain priv where "c' = (let c1 = set_source ''state'' ''environment''
          (c\<lparr>cfg_state_specified := True\<rparr>) in if priv then c1\<lparr>cfg_state_mode := StatePrivate\<rparr> else c1)"
        unfolding env_private_def bindE_Inr by (auto simp: Let_def)
      with that(2) show ?thesis by (cases priv) (simp_all add: numbers_ok_def Let_def)
    qed
  qed
  with c2 show ?thesis by (auto simp: state_ok_def numbers_ok_def split: if_splits)
qed

lemma apply_environment_ok:
  assumes run: "apply_environment w getenv cfg = Inr cfg'"
    and "cfg_state_mode cfg = StateShared" "numbers_ok a b cfg"
  shows "state_ok cfg' \<and> numbers_ok a b cfg'"
proof -
  let ?P = "\<lambda>c. cfg_state_mode c = StateShared \<and> numbers_ok a b c"
  let ?Q = "\<lambda>c. state_ok c \<and> numbers_ok a b c"
  from run show ?thesis
    unfolding apply_environment_def foldE.simps bindE_Inr
  proof (elim exE conjE, goal_cases)
    case (1 c1 c2 c3 c4 c5 c6 c7 c8 c9)
    have p1: "?P c1" by (rule when_env_bind [OF 1(1), where P = ?P])
      (use assms(2,3) in \<open>simp_all add: numbers_ok_def\<close>)
    have p2: "?P c2" by (rule when_env_bind [OF 1(2), where P = ?P])
      (use p1 in \<open>simp_all add: numbers_ok_def\<close>)
    have q3: "?Q c3" using env_state_ok 1(3) p2 by blast
    have q4: "?Q c4" by (rule when_env_pure [OF 1(4), where P = ?Q])
      (use q3 in \<open>simp_all add: numbers_ok_def state_ok_def\<close>)
    have q5: "?Q c5" by (rule when_env_bind [OF 1(5), where P = ?Q])
      (use q4 in \<open>simp_all add: numbers_ok_def state_ok_def\<close>)
    have q6: "?Q c6" by (rule when_env_bind [OF 1(6), where P = ?Q])
      (use q5 in \<open>simp_all add: numbers_ok_def state_ok_def\<close>)
    have q7: "?Q c7" by (rule when_env_bind [OF 1(7), where P = ?Q])
      (use q6 in \<open>simp_all add: numbers_ok_def state_ok_def\<close>)
    have q8: "?Q c8" by (rule when_env_bind [OF 1(8), where P = ?Q])
      (use q7 in \<open>simp_all add: numbers_ok_def state_ok_def parse_positive_int_pos\<close>)
    have "?Q c9" by (rule when_env_bind [OF 1(9), where P = ?Q])
      (use q8 in \<open>simp_all add: numbers_ok_def state_ok_def parse_positive_int_pos\<close>)
    with 1 show ?thesis by simp
  qed
qed

definition args_ok :: "string \<Rightarrow> string \<Rightarrow> arg_state \<Rightarrow> bool" where
  "args_ok a b st \<longleftrightarrow> numbers_ok a b (as_cfg st) \<and> (\<not> as_state st \<longrightarrow> state_ok (as_cfg st)) \<and>
     (cfg_state_mode (as_cfg st) \<noteq> StateShared \<longrightarrow> cfg_state_specified (as_cfg st))"

lemma set_option_ok: "args_ok a b st \<Longrightarrow> args_ok a b (set_option opt v st)"
  by (cases opt) (auto simp: args_ok_def on_cfg_def numbers_ok_def state_ok_def)

lemma set_gui_ok: "set_gui mode st = Inr st' \<Longrightarrow> args_ok a b st \<Longrightarrow> args_ok a b st'"
  by (auto simp: args_ok_def set_gui_def on_cfg_def numbers_ok_def state_ok_def split: if_splits)

lemma parse_step_ok:
  assumes "parse_step st arg rest = Inr (st', next)" "args_ok a b st"
  shows "args_ok a b st'"
  using assms(1)
proof (cases rule: parse_step_cases)
  case (1 cmd)
  with assms(2) show ?thesis by (simp add: args_ok_def set_command_def numbers_ok_def state_ok_def)
next
  case 4
  with assms(2) show ?thesis by (simp add: args_ok_def on_cfg_def numbers_ok_def state_ok_def)
qed (use assms(2) set_option_ok set_gui_ok in auto)

lemma parse_args_ok: "parse_args st args = Inr st' \<Longrightarrow> args_ok a b st \<Longrightarrow> args_ok a b st'"
proof (induction st args rule: parse_args.induct)
  case (2 st arg rest)
  then obtain p where p: "parse_step st arg rest = Inr p" "parse_args (fst p) (snd p) = Inr st'"
    by (auto simp: result_iff)
  then have "args_ok a b (fst p)" using parse_step_ok [of st arg rest "fst p" "snd p"] 2(3) by simp
  with 2(1) p show ?case by blast
qed simp

section \<open>What Parse guarantees\<close>

definition image_ok :: "string \<Rightarrow> bool" where
  "image_ok s \<longleftrightarrow> s \<noteq> [] \<and> set s \<inter> {CHR 0x00, CHR '' '', CHR 0x09, CHR 0x0D, CHR 0x0A} = {}"

definition gui_ok :: "string \<Rightarrow> gui_intent \<Rightarrow> bool" where
  "gui_ok platform g \<longleftrightarrow>
     (gui_specified g \<longrightarrow> gui_mode g \<in> {''none'', ''auto'', ''x11'', ''wayland''} \<and>
        (platform = ''darwin'' \<longrightarrow> gui_mode g = ''none''))"

definition normal_path :: "string \<Rightarrow> bool" where
  "normal_path p \<longleftrightarrow> is_abs p \<and> clean p = p"

text \<open>The promise of \<open>Parse\<close> to the rest of the program.\<close>

definition config_ok :: "config \<Rightarrow> bool" where
  "config_ok cfg \<longleftrightarrow>
     harness_pattern (cfg_harness cfg) \<and> image_ok (cfg_image cfg) \<and>
     is_abs (cfg_container_home cfg) \<and> session_pattern (cfg_session cfg) \<and>
     0 < cfg_progress_interval cfg \<and> cfg_progress_interval cfg \<le> cfg_wait_timeout cfg \<and>
     gui_ok (cfg_platform cfg) (cfg_gui cfg) \<and> state_ok cfg \<and>
     normal_path (cfg_workspace cfg) \<and> normal_path (cfg_workdir cfg) \<and>
     list_all normal_path (cfg_compose_files cfg)"

lemma resolve_from_caller_normal: "is_abs caller \<Longrightarrow> normal_path (resolve_from_caller caller v)"
  by (simp add: resolve_from_caller_def normal_path_def is_abs_path_join)

lemma validate_None:
  assumes "validate cfg = None"
  shows "cfg_workspace cfg \<noteq> []" "harness_pattern (cfg_harness cfg)" "image_ok (cfg_image cfg)"
    "is_abs (cfg_container_home cfg)" "cfg_progress_interval cfg \<le> cfg_wait_timeout cfg"
    "session_pattern (cfg_session cfg)" "gui_ok (cfg_platform cfg) (cfg_gui cfg)"
  using assms unfolding validate_def image_ok_def gui_ok_def contains_any_iff
  by (auto split: if_splits)

lemma select_image_frame:
  assumes "select_image getenv file cfg = Inr cfg'"
  shows "state_ok cfg' = state_ok cfg \<and> numbers_ok a b cfg' = numbers_ok a b cfg"
  using assms by (auto simp: select_image_def Let_def state_ok_def numbers_ok_def
      split: if_splits option.splits)

lemma apply_state_flags_ok:
  assumes "apply_state_flags st = Inr cfg" "args_ok a b st"
  shows "state_ok cfg \<and> numbers_ok a b cfg"
  using assms by (auto simp: apply_state_flags_def args_ok_def state_ok_def numbers_ok_def Let_def
      split: if_splits)

lemma finish_config_ok:
  assumes run: "finish_config getenv file st = Inr cfg" and ok: "args_ok a b st" and a: "is_abs a"
  shows "config_ok cfg"
proof -
  let ?st = "st\<lparr>as_cfg := (as_cfg st)\<lparr>cfg_harness := normalize_harness (cfg_harness (as_cfg st))\<rparr>\<rparr>"
  obtain cfg1 cfg2 where c1: "apply_state_flags ?st = Inr cfg1"
    and c2: "select_image getenv file cfg1 = Inr cfg2" and v: "validate cfg2 = None"
    and cfg: "cfg = resolve_paths cfg2"
    using run by (auto simp: finish_config_def Let_def result_iff split: option.splits)
  have "args_ok a b ?st" using ok by (simp add: args_ok_def numbers_ok_def state_ok_def)
  then have "state_ok cfg1 \<and> numbers_ok a b cfg1" using apply_state_flags_ok c1 by blast
  then have 2: "state_ok cfg2 \<and> numbers_ok a b cfg2"
    using select_image_frame [OF c2] by simp
  show ?thesis
    using 2 validate_None [OF v] resolve_from_caller_normal [OF a]
    unfolding cfg config_ok_def resolve_paths_def Let_def
    by (simp add: numbers_ok_def state_ok_def list_all_iff)
qed

lemma initial_config_ok:
  "cfg_state_mode (initial_config opts g p f path) = StateShared \<and>
   numbers_ok (po_caller_dir opts) p (initial_config opts g p f path)"
  by (simp add: initial_config_def numbers_ok_def Let_def)

lemma parse_ok:
  assumes "parse w args options = Inr cfg" "is_abs (po_caller_dir options)"
  shows "config_ok cfg"
proof -
  let ?platform = "value_or (po_platform options) (cw_goos w)"
  let ?options = "options\<lparr>po_platform := ?platform\<rparr>"
  obtain getenv path fc cfg1 st where g: "po_getenv options = Some getenv"
    and e: "apply_environment w getenv (initial_config ?options getenv ?platform fc path) = Inr cfg1"
    and a: "parse_args \<lparr>as_cfg = cfg1, as_private = False, as_state = False, as_gui = False\<rparr> args = Inr st"
    and f: "finish_config getenv fc st = Inr cfg"
    using assms(1) by (auto simp: parse_def Let_def result_iff split: option.splits if_splits)
  have "state_ok cfg1 \<and> numbers_ok (po_caller_dir options) ?platform cfg1"
    using apply_environment_ok [OF e, of "po_caller_dir options" ?platform]
      initial_config_ok [of ?options getenv ?platform fc path] by simp
  then have "args_ok (po_caller_dir options) ?platform
      \<lparr>as_cfg = cfg1, as_private = False, as_state = False, as_gui = False\<rparr>"
    by (simp add: args_ok_def state_ok_def)
  then have "args_ok (po_caller_dir options) ?platform st" by (rule parse_args_ok [OF a])
  then show ?thesis using finish_config_ok [OF f _ assms(2)] by blast
qed

section \<open>The command\<close>

lemma command_frame [simp]:
  "cfg_command (as_cfg (set_option opt v st)) = cfg_command (as_cfg st)"
  "cfg_command (as_cfg (set_command cmd st)) = cmd"
  by (cases opt) (simp_all add: on_cfg_def set_command_def)

lemma set_gui_command: "set_gui mode st = Inr st' \<Longrightarrow> cfg_command (as_cfg st') = cfg_command (as_cfg st)"
  by (auto simp: set_gui_def on_cfg_def split: if_splits)

lemma parse_step_command:
  assumes "parse_step st arg rest = Inr (st', next)"
  shows "cfg_command (as_cfg st') = cfg_command (as_cfg st) \<and> (\<exists>pre. rest = pre @ next) \<or>
    next = [] \<and> cfg_command (as_cfg st') \<in> {[''help''], rest, arg # rest}"
  using assms unfolding parse_step_def
  by (auto simp: result_iff set_gui_command on_cfg_def set_command_def split: if_splits option.splits)

lemma parse_args_command:
  "parse_args st args = Inr st' \<Longrightarrow> cfg_command (as_cfg st) = [] \<Longrightarrow>
     cfg_command (as_cfg st') = [''help''] \<or> (\<exists>pre. args = pre @ cfg_command (as_cfg st'))"
proof (induction st args rule: parse_args.induct)
  case (2 st arg rest)
  then obtain st1 rest1 where p: "parse_step st arg rest = Inr (st1, rest1)" "parse_args st1 rest1 = Inr st'"
    by (auto simp: result_iff)
  from parse_step_command [OF p(1)] show ?case
  proof (elim disjE conjE exE)
    fix pre assume c: "cfg_command (as_cfg st1) = cfg_command (as_cfg st)" "rest = pre @ rest1"
    have "cfg_command (as_cfg st') = [''help''] \<or> (\<exists>pre. rest1 = pre @ cfg_command (as_cfg st'))"
      using 2(1) [OF p(1)] p(2) c(1) 2(3) by simp
    with c(2) show ?thesis by (metis append_Cons append_assoc)
  next
    assume n: "rest1 = []" and c: "cfg_command (as_cfg st1) \<in> {[''help''], rest, arg # rest}"
    with p(2) have "st' = st1" by simp
    with c show ?thesis by (metis append_Cons append_Nil insertE singletonD)
  qed
qed simp

section \<open>Properties\<close>

text \<open>C28: \<open>Parse\<close> only returns configurations the program may rely on: a canonical harness name,
  an image reference without white space, an absolute container home, a usable session name,
  positive limits with the progress interval within the timeout, a supported GUI mode, a
  volume name exactly in the custom state mode, and absolute clean paths.\<close>

theorem parse_config_ok:
  assumes "parse w args options = Inr cfg" "is_abs (po_caller_dir options)"
  shows "config_ok cfg"
  using assms by (rule parse_ok)

definition sample_world :: config_world where
  "sample_world = \<lparr>cw_goos = ''linux'', cw_read_file = (\<lambda>p. FileMissing),
     cw_decode_toml = (\<lambda>s. None), cw_decode_strings = (\<lambda>s. None)\<rparr>"

definition sample_options :: parse_options where
  "sample_options = \<lparr>po_caller_dir = ''/work'', po_home_dir = ''/home/u'', po_platform = [],
     po_getenv = Some (\<lambda>k. if k = ''HCORRAL_WORKDIR'' then ''sub'' else []), po_environ = None\<rparr>"

theorem parse_config_ok_witness:
  "\<exists>cfg. parse sample_world [''--private-env'', ''--gui'', ''--'', ''up''] sample_options = Inr cfg \<and>
     config_ok cfg"
proof -
  have "is_ok (parse sample_world [''--private-env'', ''--gui'', ''--'', ''up''] sample_options)"
    by code_simp
  then obtain cfg where
    "parse sample_world [''--private-env'', ''--gui'', ''--'', ''up''] sample_options = Inr cfg"
    by (auto simp: is_ok_iff)
  moreover have "is_abs (po_caller_dir sample_options)" by code_simp
  ultimately show ?thesis using parse_config_ok by blast
qed

text \<open>The image is the first non-empty one of the command line, \<open>HCORRAL_IMAGE\<close>, the user's
  file and the catalogue, for the selected harness; with none of them \<open>Parse\<close> fails.\<close>

theorem select_image_precedence:
  "(case select_image getenv file cfg of Inl e \<Rightarrow> None | Inr c \<Rightarrow> Some (cfg_image c)) =
     (case find (\<lambda>s. s \<noteq> [])
        [cfg_image cfg, getenv ''HCORRAL_IMAGE'', label (fc_harness file) (cfg_harness cfg)] of
        Some s \<Rightarrow> Some s
      | None \<Rightarrow> default_image (cfg_harness cfg))"
  by (auto simp: select_image_def Let_def split: option.splits)

text \<open>The command of a successful option loop is \<open>help\<close> or, byte for byte, the end of the
  argument list: no argument of the command is dropped, reordered or read as an option.\<close>

theorem parse_args_command_verbatim:
  assumes "parse_args st args = Inr st'" "cfg_command (as_cfg st) = []"
  shows "cfg_command (as_cfg st') = [''help''] \<or> (\<exists>pre. args = pre @ cfg_command (as_cfg st'))"
  using assms by (rule parse_args_command)

definition sample_arg_state :: arg_state where
  "sample_arg_state = \<lparr>as_cfg = initial_config sample_options (\<lambda>k. []) ''linux''
       \<lparr>fc_default_harness = [], fc_harness = []\<rparr> [], as_private = False,
     as_state = False, as_gui = False\<rparr>"

theorem parse_args_command_verbatim_witness:
  "\<exists>st'. parse_args sample_arg_state [''-v'', ''a:b'', ''exec'', ''--gui''] = Inr st' \<and>
     (cfg_command (as_cfg st') = [''help''] \<or>
      (\<exists>pre. [''-v'', ''a:b'', ''exec'', ''--gui''] = pre @ cfg_command (as_cfg st')))"
proof -
  have "cfg_command (as_cfg sample_arg_state) = []" by (simp add: sample_arg_state_def initial_config_def Let_def)
  moreover obtain st' where "parse_args sample_arg_state [''-v'', ''a:b'', ''exec'', ''--gui''] = Inr st'"
    by (simp add: parse_step_def separate_option_def joined_option_def option_value_def)
  ultimately show ?thesis using parse_args_command_verbatim by blast
qed

text \<open>An empty \<open>--image=\<close> is accepted, falls through to the catalogue image, and is still
  reported as coming from the command line.\<close>

theorem empty_image_option_source:
  "\<exists>cfg. parse sample_world [''--image=''] sample_options = Inr cfg \<and>
     Some (cfg_image cfg) = default_image ''codex'' \<and> label (cfg_sources cfg) ''image'' = ''cli''"
proof -
  have "(case parse sample_world [''--image=''] sample_options of Inl e \<Rightarrow> False
         | Inr cfg \<Rightarrow> Some (cfg_image cfg) = default_image ''codex'' \<and>
             label (cfg_sources cfg) ''image'' = ''cli'')"
    by code_simp
  then show ?thesis by (cases "parse sample_world [''--image=''] sample_options") auto
qed

end
