(* ===== verification/Compose.thy ===== *)
theory Compose
  imports Locks Config
begin

text \<open>
  Compose invocations, extra mounts, materialised assets and project commands
  (\<open>internal/compose\<close>).  \<open>surroundings\<close> is what the process finds around it: accounts,
  environment, home and platform, the embedded asset files, and the JSON text that
  \<open>encoding/json\<close> gives for a mount overlay.
\<close>

section \<open>Data\<close>

record invocation =
  inv_prefix :: "string list"
  inv_files :: "string list"
  inv_project :: string
  inv_directory :: string
  inv_env :: "string list"

record asset_paths =
  ap_base :: string
  ap_x11 :: string
  ap_wayland :: string

text \<open>The overlay document: the volumes of the service, and the external volumes by logical name.\<close>

record overlay =
  ov_volumes :: "string list"
  ov_external :: labels

record surroundings =
  su_os :: host_os
  su_groups :: "int list option"
  su_euid :: int
  su_egid :: int
  su_environ :: "string list"
  su_getenv :: "string \<Rightarrow> string"
  su_home :: "string option"
  su_platform :: string
  su_asset :: "string \<Rightarrow> string option"
  su_marshal :: "overlay \<Rightarrow> string"

datatype compose_error =
    GroupsUnavailable
  | VolumeSpecInvalid string
  | VolumeSpecShape string
  | VolumeTargetRelative string
  | HomeUnknown
  | VolumeModeEmpty
  | CacheRelative
  | PathRefused string
  | AssetMissing string
  | AssetUnexpected string
  | SystemFailed string string
  | ComposeFailed string cmd_error
  | RenderUndecodable

section \<open>Invocations (argv.go)\<close>

definition entry_key :: "string \<Rightarrow> string" where
  "entry_key entry = fst (cut_char (CHR ''='') entry)"

definition merge_environment :: "string list \<Rightarrow> labels \<Rightarrow> string list" where
  "merge_environment environ managed =
     filter (\<lambda>entry. \<not> has_prefix (entry_key entry) ''COMPOSE_'' \<and> \<not> has_key managed (entry_key entry)) environ @
     map (\<lambda>key. key @ ''='' @ label managed key) (keys_of managed)"

definition format_bool :: "bool \<Rightarrow> string" where
  "format_bool b = (if b then ''true'' else ''false'')"

definition managed_environment :: "config \<Rightarrow> workspace \<Rightarrow> host_identity \<Rightarrow> string \<Rightarrow> labels" where
  "managed_environment cfg ws current stateVolume =
     [(''HCORRAL_LAUNCHED_BY_WRAPPER'', ''1''),
      (''HCORRAL_WORKSPACE'', cfg_workspace cfg),
      (''HCORRAL_WORKSPACE_ID'', ws_full_id ws),
      (''HCORRAL_CORRAL_ID'', ws_corral_id ws),
      (''HCORRAL_HARNESS_TYPE'', ws_harness ws),
      (''HCORRAL_CONTAINER_NAME'', ws_project ws),
      (''HCORRAL_IMAGE'', cfg_image cfg),
      (''HCORRAL_STATE_VOLUME_NAME'', stateVolume),
      (''HCORRAL_HOST_UID'', hi_uid current),
      (''HCORRAL_HOST_GID'', hi_gid current),
      (''HCORRAL_HOST_USER'', hi_user current),
      (''HCORRAL_HOST_GROUP'', hi_group current),
      (''HCORRAL_HOST_GROUPS'', join_char (CHR '','') (hi_groups current)),
      (''HCORRAL_CONTAINER_HOME'', cfg_container_home cfg),
      (''HCORRAL_WORKDIR'', cfg_workdir cfg),
      (''HCORRAL_BYOBU_SESSION'', cfg_session cfg),
      (''HCORRAL_AUTO_ATTACH'', format_bool (cfg_auto_attach cfg)),
      (''HCORRAL_ATTACH_HINT'', ''hcorral''),
      (''HCORRAL_GUI_MODE'', ''none'')]"

definition set_all :: "labels \<Rightarrow> labels \<Rightarrow> labels" where
  "set_all changes m = fold (\<lambda>k. AList.update k (label changes k)) (keys_of changes) m"

definition new_invocation ::
  "surroundings \<Rightarrow> config \<Rightarrow> workspace \<Rightarrow> asset_paths \<Rightarrow> string \<Rightarrow> labels \<Rightarrow>
     (compose_error, invocation) result" where
  "new_invocation su cfg ws paths guiFile guiEnv =
     (let stateVolume =
        (if cfg_state_volume_name cfg \<noteq> [] then cfg_state_volume_name cfg
         else if cfg_state_mode cfg = StatePrivate then workspace_volume_name ws
         else ''hcorral_state'')
      in case current_host (su_os su) (su_groups su) (su_euid su) (su_egid su) of
        None \<Rightarrow> Inl GroupsUnavailable
      | Some current \<Rightarrow>
          Inr \<lparr>inv_prefix = cfg_compose_command cfg,
               inv_files = ap_base paths # (if guiFile \<noteq> [] then [guiFile] else []) @ cfg_compose_files cfg,
               inv_project = ws_project ws,
               inv_directory = ws_path ws,
               inv_env = merge_environment (su_environ su)
                 (set_all guiEnv (managed_environment cfg ws current stateVolume))\<rparr>)"

definition invocation_args :: "invocation \<Rightarrow> string list \<Rightarrow> string list" where
  "invocation_args i composeArgs =
     inv_prefix i @ [''-p'', inv_project i, ''--project-directory'', inv_directory i] @
     concat (map (\<lambda>file. [''-f'', file]) (inv_files i)) @ composeArgs"

section \<open>Extra mounts (mounts.go)\<close>

definition extra_volume_logical_name :: "string \<Rightarrow> string" where
  "extra_volume_logical_name name = ''hcorral_extra_'' @ take 12 (sha256_hex name)"

text \<open>The chain of cases that resolves the source of a mount.\<close>

definition mount_source :: "string option \<Rightarrow> string \<Rightarrow> string \<Rightarrow> (compose_error, string) result" where
  "mount_source home caller source =
     (if source = ''~'' then try_opt HomeUnknown home
      else if has_prefix source ''~/'' then
        bindE (try_opt HomeUnknown home) (\<lambda>hm. Inr (path_join [hm, drop 2 source]))
      else if source = ''.'' \<or> source = ''..'' \<or> has_prefix source ''./'' \<or> has_prefix source ''../'' then
        Inr (clean (path_join [caller, source]))
      else if \<not> is_abs source \<and> CHR ''/'' \<in> set source then
        Inr (clean (path_join [caller, source]))
      else Inr source)"

definition normalize_mount ::
  "string option \<Rightarrow> string \<Rightarrow> string \<Rightarrow> (compose_error, string \<times> string) result" where
  "normalize_mount home caller specification =
     (if specification = [] \<or> contains_any specification [CHR 0x00, CHR 0x0D, CHR 0x0A]
      then Inl (VolumeSpecInvalid specification)
      else let parts = split_char (CHR '':'') specification in
      if length parts < 2 \<or> length parts > 3 \<or> parts ! 0 = [] \<or> parts ! 1 = []
      then Inl (VolumeSpecShape specification)
      else let target = clean (parts ! 1) in
      if \<not> is_abs target then Inl (VolumeTargetRelative (parts ! 1))
      else bindE (mount_source home caller (parts ! 0)) (\<lambda>source.
        if length parts = 3 then
          (if parts ! 2 = [] then Inl VolumeModeEmpty
           else Inr (source @ '':'' @ target @ '':'' @ parts ! 2, target))
        else Inr (source @ '':'' @ target, target)))"

text \<open>One pass of the loop of \<open>ExtraMountOverlay\<close>.\<close>

definition add_mount ::
  "string option \<Rightarrow> string \<Rightarrow> overlay \<Rightarrow> string \<Rightarrow> (compose_error, overlay) result" where
  "add_mount home caller ov specification =
     bindE (normalize_mount home caller specification) (\<lambda>(normalized, target).
       let parts = split_char (CHR '':'') normalized in
       if is_abs (parts ! 0) then Inr (ov\<lparr>ov_volumes := ov_volumes ov @ [normalized]\<rparr>)
       else let logical = extra_volume_logical_name (parts ! 0) in
         Inr (ov\<lparr>ov_volumes := ov_volumes ov @ [join_char (CHR '':'') (parts[0 := logical])],
                ov_external := AList.update logical (parts ! 0) (ov_external ov)\<rparr>))"

definition overlay_document ::
  "string option \<Rightarrow> string \<Rightarrow> string list \<Rightarrow> (compose_error, overlay) result" where
  "overlay_document home caller specifications =
     foldE (add_mount home caller) \<lparr>ov_volumes = [], ov_external = []\<rparr> specifications"

section \<open>Directories and files (assets.go, mounts.go)\<close>

text \<open>
  The loop of \<open>secureMkdirAll\<close> from a path up to the root.  The fuel is the length of the path:
  the parent of a clean path other than the root is shorter.
\<close>

fun secure_walk :: "('m) machine_scheme \<Rightarrow> nat \<Rightarrow> string \<Rightarrow> (compose_error, unit) result io" where
  "secure_walk m 0 current = failE (PathRefused current)"
| "secure_walk m (Suc n) current =
     andThen (sys m ''lstat'' [current]) (\<lambda>info.
       if failed info then failE (SystemFailed ''lstat'' current)
       else if \<not> physical_dir info then failE (PathRefused current)
       else let parent = path_dir current in
         if parent = current then okE () else secure_walk m n parent)"

definition secure_mkdir_all :: "('m) machine_scheme \<Rightarrow> string \<Rightarrow> (compose_error, unit) result io" where
  "secure_mkdir_all m path =
     andThen (sys m ''mkdirall'' [path, ''0700'']) (\<lambda>a.
       if failed a then failE (SystemFailed ''mkdirall'' path)
       else andThenE (secure_walk m (Suc (length path)) path) (\<lambda>_.
         andThen (sys m ''chmod'' [path, ''0700'']) (\<lambda>b.
           if failed b then failE (SystemFailed ''chmod'' path) else okE ())))"

definition generated_directory :: "('m) machine_scheme \<Rightarrow> surroundings \<Rightarrow> (compose_error, string) result io" where
  "generated_directory m su =
     (case (let env = su_getenv su ''XDG_CACHE_HOME'' in
            if env \<noteq> [] then Inr env
            else bindE (try_opt HomeUnknown (su_home su)) (\<lambda>home. Inr (path_join [home, ''.cache'']))) of
        Inl e \<Rightarrow> failE e
      | Inr root \<Rightarrow>
          if \<not> is_abs root then failE CacheRelative
          else let directory = path_join [root, ''hcorral'', ''generated''] in
            andThenE (secure_mkdir_all m directory) (\<lambda>_. okE directory))"

text \<open>
  A new temporary file: \<open>CreateTemp\<close> names it, and the steps that follow (a request and its
  arguments) run in order until one fails; then the file is removed.
\<close>

definition new_temp :: "('m) machine_scheme \<Rightarrow> string \<Rightarrow> string \<Rightarrow> (compose_error, string) result io" where
  "new_temp m directory pattern =
     andThen (sys m ''createtemp'' [directory, pattern]) (\<lambda>a.
       case a of Text path \<Rightarrow> okE path | _ \<Rightarrow> failE (SystemFailed ''createtemp'' directory))"

fun temp_steps ::
  "('m) machine_scheme \<Rightarrow> string \<Rightarrow> (string \<times> string list) list \<Rightarrow> (compose_error, unit) result io" where
  "temp_steps m path [] = okE ()"
| "temp_steps m path ((name, args) # steps) =
     andThen (sys m name (path # args)) (\<lambda>a.
       if failed a then
         andThen (if name = ''close'' then ret a else sys m ''close'' [path]) (\<lambda>_.
         andThen (sys m ''remove'' [path]) (\<lambda>_. failE (SystemFailed name path)))
       else temp_steps m path steps)"

text \<open>\<open>ExtraMountOverlay\<close>: the path of the generated file, empty when there are no extra mounts.\<close>

definition extra_mount_overlay ::
  "('m) machine_scheme \<Rightarrow> surroundings \<Rightarrow> config \<Rightarrow> (compose_error, string) result io" where
  "extra_mount_overlay m su cfg =
     (if cfg_extra_volumes cfg = [] then okE []
      else case overlay_document (su_home su) (cfg_caller_dir cfg) (cfg_extra_volumes cfg) of
        Inl e \<Rightarrow> failE e
      | Inr document \<Rightarrow>
          andThenE (generated_directory m su) (\<lambda>cache.
          andThenE (new_temp m cache ''mounts.*.json'') (\<lambda>path.
          andThenE (temp_steps m path
              [(''fchmod'', [''0600'']), (''write'', [su_marshal su document]), (''close'', [])]) (\<lambda>_.
            okE path))))"

definition cleanup_generated :: "('m) machine_scheme \<Rightarrow> string \<Rightarrow> unit io" where
  "cleanup_generated m path =
     (if path = [] then ret () else andThen (sys m ''remove'' [path]) (\<lambda>_. ret ()))"

text \<open>\<open>Materializer{}.cacheRoot\<close>: no explicit cache home, the platform of the process.\<close>

definition cache_root :: "surroundings \<Rightarrow> (compose_error, string) result" where
  "cache_root su =
     bindE (try_opt HomeUnknown (su_home su)) (\<lambda>home.
       if su_platform su = ''darwin''
       then Inr (path_join [home, ''Library'', ''Caches'', ''hcorral'', ''compose'', ''v1''])
       else let xdg = su_getenv su ''XDG_CACHE_HOME'' in
       if xdg \<noteq> [] then
         (if \<not> is_abs xdg then Inl CacheRelative
          else Inr (path_join [xdg, ''hcorral'', ''compose'', ''v1'']))
       else Inr (path_join [home, ''.cache'', ''hcorral'', ''compose'', ''v1'']))"

definition read_equals :: "answer \<Rightarrow> string \<Rightarrow> bool" where
  "read_equals a content = (case a of Text t \<Rightarrow> t = content | _ \<Rightarrow> False)"

text \<open>
  \<open>materializeOne\<close>: an existing file is checked and protected; a new one is written to a
  temporary file and renamed, and the deferred removal of the temporary path always runs.
\<close>

definition check_cached ::
  "('m) machine_scheme \<Rightarrow> string \<Rightarrow> string \<Rightarrow> file_info \<Rightarrow> (compose_error, string) result io" where
  "check_cached m path content info =
     (if \<not> fi_regular info \<or> fi_symlink info then failE (PathRefused path)
      else andThen (sys m ''readfile'' [path]) (\<lambda>existing.
        case existing of
          Text t \<Rightarrow>
            if t \<noteq> content then failE (AssetUnexpected path)
            else andThen (sys m ''chmod'' [path, ''0600'']) (\<lambda>a.
              if failed a then failE (SystemFailed ''chmod'' path) else okE path)
        | _ \<Rightarrow> failE (SystemFailed ''readfile'' path)))"

fun asset_steps ::
  "('m) machine_scheme \<Rightarrow> string \<Rightarrow> (string \<times> string list) list \<Rightarrow> (compose_error, unit) result io" where
  "asset_steps m path [] = okE ()"
| "asset_steps m path ((name, args) # steps) =
     andThen (sys m name (path # args)) (\<lambda>a.
       if failed a then
         andThen (if name = ''close'' then ret a else sys m ''close'' [path]) (\<lambda>_.
           failE (SystemFailed name path))
       else asset_steps m path steps)"

definition install_asset ::
  "('m) machine_scheme \<Rightarrow> string \<Rightarrow> string \<Rightarrow> string \<Rightarrow> (compose_error, string) result io" where
  "install_asset m temporaryPath path content =
     andThenE (asset_steps m temporaryPath
         [(''fchmod'', [''0600'']), (''write'', [content]), (''sync'', []), (''close'', [])]) (\<lambda>_.
       andThen (sys m ''rename'' [temporaryPath, path]) (\<lambda>a.
         if failed a then
           andThen (sys m ''readfile'' [path]) (\<lambda>existing.
             if read_equals existing content then okE path else failE (SystemFailed ''rename'' path))
         else okE path))"

definition materialize_one ::
  "('m) machine_scheme \<Rightarrow> string \<Rightarrow> string \<Rightarrow> string \<Rightarrow> (compose_error, string) result io" where
  "materialize_one m root name content =
     (let directory = path_join [root, sha256_hex content] in
      andThenE (secure_mkdir_all m directory) (\<lambda>_.
        let path = path_join [directory, name] in
        andThen (sys m ''lstat'' [path]) (\<lambda>a.
          case a of
            Info info \<Rightarrow> check_cached m path content info
          | Missing \<Rightarrow>
              andThenE (new_temp m directory (''.'' @ name @ ''.*'')) (\<lambda>temporaryPath.
                andThen (install_asset m temporaryPath path content) (\<lambda>r.
                andThen (sys m ''remove'' [temporaryPath]) (\<lambda>_. ret r)))
          | _ \<Rightarrow> failE (SystemFailed ''lstat'' path))))"

definition materialize_named ::
  "('m) machine_scheme \<Rightarrow> surroundings \<Rightarrow> string \<Rightarrow> string \<Rightarrow> (compose_error, string) result io" where
  "materialize_named m su root name =
     (case su_asset su name of
        None \<Rightarrow> failE (AssetMissing name)
      | Some content \<Rightarrow> materialize_one m root name content)"

text \<open>\<open>Materialize\<close>; Go visits the three assets in any order.\<close>

definition materialize :: "('m) machine_scheme \<Rightarrow> surroundings \<Rightarrow> (compose_error, asset_paths) result io" where
  "materialize m su =
     (case cache_root su of
        Inl e \<Rightarrow> failE e
      | Inr root \<Rightarrow>
          andThenE (materialize_named m su root ''compose.yaml'') (\<lambda>base.
          andThenE (materialize_named m su root ''gui-x11.yaml'') (\<lambda>x11.
          andThenE (materialize_named m su root ''gui-wayland.yaml'') (\<lambda>wayland.
            okE \<lparr>ap_base = base, ap_x11 = x11, ap_wayland = wayland\<rparr>))))"

section \<open>Project commands (project.go)\<close>

definition first_arg :: "string list \<Rightarrow> string" where
  "first_arg values = (if values = [] then ''command'' else hd values)"

definition project_capture ::
  "daemon \<Rightarrow> invocation \<Rightarrow> string list \<Rightarrow> (string \<times> compose_error option) io" where
  "project_capture d i args =
     andThen (runner_capture d (invocation_args i args)) (\<lambda>(out, err, failure).
       ret (out, map_option (ComposeFailed (first_arg args)) failure))"

definition project_run :: "daemon \<Rightarrow> invocation \<Rightarrow> string list \<Rightarrow> (compose_error, unit) result io" where
  "project_run d i args =
     andThen (runner_run d (invocation_args i args)) (\<lambda>failure.
       case failure of None \<Rightarrow> okE () | Some e \<Rightarrow> failE (ComposeFailed (first_arg args) e))"

definition project_replace :: "daemon \<Rightarrow> invocation \<Rightarrow> string list \<Rightarrow> cmd_error option io" where
  "project_replace d i args = runner_replace d (invocation_args i args)"

text \<open>The lines of \<open>config --hash\<close> with exactly two fields, later ones replacing earlier ones.\<close>

definition parse_hashes :: "string \<Rightarrow> labels" where
  "parse_hashes out =
     fold (\<lambda>line m. case str_fields line of [service, hash] \<Rightarrow> AList.update service hash m | _ \<Rightarrow> m)
       (split_char (CHR 0x0A) (trim_space out)) []"

definition project_hashes :: "daemon \<Rightarrow> invocation \<Rightarrow> labels io" where
  "project_hashes d i =
     andThen (project_capture d i [''config'', ''--hash'', ''*'']) (\<lambda>(out, failure).
       ret (if failure \<noteq> None then [] else parse_hashes out))"

definition project_render :: "daemon \<Rightarrow> invocation \<Rightarrow> (compose_error, rendered) result io" where
  "project_render d i =
     andThen (project_capture d i [''config'', ''--format'', ''json'']) (\<lambda>(out, failure).
       case failure of
         Some e \<Rightarrow> failE e
       | None \<Rightarrow>
           (case dec_project d out of
              None \<Rightarrow> failE RenderUndecodable
            | Some document \<Rightarrow>
                andThen (project_hashes d i) (\<lambda>hashes. okE (document\<lparr>rd_hashes := hashes\<rparr>))))"

section \<open>The environment of a Compose command\<close>

lemma entry_key_append: "CHR ''='' \<notin> set k \<Longrightarrow> entry_key (k @ ''='' @ v) = k"
  using cut_char_found [of "CHR ''=''" k v] by (simp add: entry_key_def)

lemma keys_set_all: "set (keys_of (set_all changes m)) = set (keys_of changes) \<union> set (keys_of m)"
proof -
  have "set (map fst (fold (\<lambda>k. AList.update k (f k)) ks m)) = set ks \<union> set (map fst m)" for f ks
    by (induction ks arbitrary: m) (auto simp: dom_update)
  then show ?thesis by (simp add: set_all_def keys_of_def)
qed

lemma managed_entries:
  assumes "distinct ks" "\<forall>k \<in> set ks. CHR ''='' \<notin> set k"
  shows "filter (\<lambda>e. entry_key e = k) (map (\<lambda>key. key @ ''='' @ f key) ks) =
    (if k \<in> set ks then [k @ ''='' @ f k] else [])"
  using assms
proof (induction ks)
  case (Cons x ks)
  then have "entry_key (x @ ''='' @ f x) = x" by (intro entry_key_append) simp
  with Cons show ?case by (cases "x = k") (simp_all del: append.simps append_Cons)
qed simp

lemma kept_entries:
  "filter (\<lambda>e. entry_key e = k) (filter (\<lambda>entry. \<not> has_prefix (entry_key entry) p \<and>
      \<not> has_key managed (entry_key entry)) environ) =
    (if has_prefix k p \<or> has_key managed k then [] else filter (\<lambda>e. entry_key e = k) environ)"
  by (induction environ) auto

lemma merge_environment_key:
  assumes "\<forall>k \<in> set (keys_of managed). CHR ''='' \<notin> set k"
  shows "filter (\<lambda>e. entry_key e = k) (merge_environment environ managed) =
    (if has_key managed k then [k @ ''='' @ label managed k]
     else if has_prefix k ''COMPOSE_'' then [] else filter (\<lambda>e. entry_key e = k) environ)"
proof -
  have "has_key managed k \<longleftrightarrow> k \<in> set (keys_of managed)" by (simp add: has_key_iff)
  then show ?thesis
    unfolding merge_environment_def filter_append kept_entries managed_entries [OF distinct_keys_of assms]
    by simp
qed

section \<open>Mount specifications\<close>

lemma contains_slash_char: "is_abs s \<Longrightarrow> CHR ''/'' \<in> set s"
  by (cases s) (auto simp: is_abs_def)

lemma mount_source_shape:
  assumes "mount_source home caller source = Inr src" "is_abs caller" "\<forall>hm. home = Some hm \<longrightarrow> is_abs hm"
  shows "is_abs src \<or> src = source \<and> CHR ''/'' \<notin> set src"
  using assms by (auto simp: mount_source_def result_iff is_abs_path_join split: if_splits)

lemma normalize_mount_shape:
  assumes run: "normalize_mount home caller spec = Inr (norm, target)"
    and abs: "is_abs caller" "\<forall>hm. home = Some hm \<longrightarrow> is_abs hm"
  shows "is_abs target \<and> clean target = target \<and>
    (\<exists>src mode. (is_abs src \<or> CHR ''/'' \<notin> set src) \<and>
       (norm = src @ '':'' @ target \<or> mode \<noteq> [] \<and> CHR '':'' \<notin> set mode \<and> norm = src @ '':'' @ target @ '':'' @ mode))"
proof -
  define parts where "parts = split_char (CHR '':'') spec"
  have t: "target = clean (parts ! 1)" "is_abs target" and len: "2 \<le> length parts" "length parts \<le> 3"
    using run unfolding normalize_mount_def Let_def parts_def [symmetric]
    by (auto simp: result_iff split: if_splits)
  obtain src where src: "mount_source home caller (parts ! 0) = Inr src"
    and norm: "length parts = 3 \<and> parts ! 2 \<noteq> [] \<and> norm = src @ '':'' @ target @ '':'' @ parts ! 2 \<or>
      length parts \<noteq> 3 \<and> norm = src @ '':'' @ target"
    using run t unfolding normalize_mount_def Let_def parts_def [symmetric]
    by (auto simp: result_iff split: if_splits)
  have "length parts = 3 \<Longrightarrow> CHR '':'' \<notin> set (parts ! 2)"
    using split_no_sep [of "parts ! 2" "CHR '':''" spec] by (simp add: parts_def)
  with norm mount_source_shape [OF src abs] t show ?thesis by auto
qed

section \<open>No temporary file is left behind\<close>

definition creates_temp :: "event \<Rightarrow> bool" where
  "creates_temp e \<longleftrightarrow> (\<exists>args a. e = Sys ''createtemp'' args a)"

lemma appends_secure_walk: "appends (\<lambda>e. \<not> creates_temp e) (secure_walk m n p)"
proof (induction n arbitrary: p)
  case (Suc n)
  then show ?case unfolding secure_walk.simps by (intro io_rules) (auto simp: creates_temp_def)
qed (simp add: io_rules)

lemma appends_generated_directory: "appends (\<lambda>e. \<not> creates_temp e) (generated_directory m su)"
  unfolding generated_directory_def secure_mkdir_all_def
  by (intro io_rules appends_secure_walk) (auto simp: creates_temp_def)

lemma temp_steps_cleanup:
  assumes "temp_steps m path steps h = (r, h')" "\<forall>s \<in> set steps. fst s \<noteq> ''createtemp''"
  shows "\<exists>es. h' = h @ es \<and> (\<forall>e \<in> set es. \<not> creates_temp e) \<and>
    (r = Inr () \<or> (\<exists>a. Sys ''remove'' [path] a \<in> set es))"
  using assms
proof (induction m path steps arbitrary: h rule: temp_steps.induct)
  case (2 m path name args steps)
  let ?a = "m_sys m h name (path # args)"
  let ?h1 = "h @ [Sys name (path # args) ?a]"
  show ?case
  proof (cases "failed ?a")
    case False
    with 2(2) have "temp_steps m path steps ?h1 = (r, h')" by (simp add: andThen_def sys_def Let_def)
    from 2(1) [OF False this] 2(3) obtain es where "h' = ?h1 @ es" "\<forall>e \<in> set es. \<not> creates_temp e"
      "r = Inr () \<or> (\<exists>a. Sys ''remove'' [path] a \<in> set es)" by auto
    then show ?thesis using 2(3)
      by (intro exI [of _ "Sys name (path # args) ?a # es"]) (auto simp: creates_temp_def)
  next
    case True
    with 2(2) have "\<exists>es b. h' = ?h1 @ es @ [Sys ''remove'' [path] b] \<and> (\<forall>e \<in> set es. \<not> creates_temp e)"
      by (auto simp: andThen_def sys_def Let_def creates_temp_def split: if_splits)
    then obtain es b where "h' = ?h1 @ es @ [Sys ''remove'' [path] b]" "\<forall>e \<in> set es. \<not> creates_temp e" by blast
    then show ?thesis using 2(3)
      by (intro exI [of _ "Sys name (path # args) ?a # es @ [Sys ''remove'' [path] b]"]) (auto simp: creates_temp_def)
  qed
qed simp

lemma new_temp_events:
  assumes "new_temp m dir pat h = (r, h')"
  obtains a where "h' = h @ [Sys ''createtemp'' [dir, pat] a]"
    "case r of Inr path \<Rightarrow> a = Text path | Inl _ \<Rightarrow> \<forall>path. a \<noteq> Text path"
  using assms by (auto simp: new_temp_def andThen_def sys_def Let_def split: answer.splits)

lemma extra_mount_overlay_cleanup:
  assumes run: "extra_mount_overlay m su cfg h = (Inl e, h')"
  shows "\<exists>es. h' = h @ es \<and> (\<forall>pre args path post. es = pre @ Sys ''createtemp'' args (Text path) # post \<longrightarrow>
    (\<exists>a. Sys ''remove'' [path] a \<in> set post))"
proof -
  have quiet: ?thesis if "h' = h @ es" "\<forall>x \<in> set es. \<not> creates_temp x" for es
    using that by (intro exI [of _ es]) (auto simp: creates_temp_def)
  show ?thesis
  proof (cases "overlay_document (su_home su) (cfg_caller_dir cfg) (cfg_extra_volumes cfg)")
    case (Inl x)
    with run have "h' = h @ []" by (auto simp: extra_mount_overlay_def split: if_splits)
    then show ?thesis by (rule quiet) simp
  next
    case (Inr document)
    let ?steps = "[(''fchmod'', [''0600'']), (''write'', [su_marshal su document]), (''close'', [])]"
    from run Inr have "andThenE (generated_directory m su) (\<lambda>cache.
        andThenE (new_temp m cache ''mounts.*.json'') (\<lambda>path.
        andThenE (temp_steps m path ?steps) (\<lambda>_. okE path))) h = (Inl e, h')"
      by (auto simp: extra_mount_overlay_def split: if_splits)
    then show ?thesis
    proof (cases rule: andThenE_cases)
      case (1 e')
      from appendsD [OF appends_generated_directory 1(1)] quiet show ?thesis by blast
    next
      case (2 cache h1)
      obtain gs where gs: "h1 = h @ gs" "\<forall>x \<in> set gs. \<not> creates_temp x"
        using appendsD [OF appends_generated_directory 2(1)] .
      from 2(2) show ?thesis
      proof (cases rule: andThenE_cases)
        case (1 e')
        from 1(1) obtain a where a: "h' = h1 @ [Sys ''createtemp'' [cache, ''mounts.*.json''] a]" "\<forall>path. a \<noteq> Text path"
          by (rule new_temp_events) simp
        show ?thesis
        proof (intro exI [of _ "gs @ [Sys ''createtemp'' [cache, ''mounts.*.json''] a]"] conjI allI impI)
          show "h' = h @ gs @ [Sys ''createtemp'' [cache, ''mounts.*.json''] a]" using a gs by simp
          fix pre args path post
          assume eq: "gs @ [Sys ''createtemp'' [cache, ''mounts.*.json''] a] = pre @ Sys ''createtemp'' args (Text path) # post"
          have "Sys ''createtemp'' args (Text path) \<notin> set gs" using gs(2) by (auto simp: creates_temp_def)
          from append_split_left [OF eq this] a(2) show "\<exists>a. Sys ''remove'' [path] a \<in> set post"
            by (auto simp: Cons_eq_append_conv)
        qed
      next
        case new: (2 tmp h2)
        from new(1) obtain a where a: "h2 = h1 @ [Sys ''createtemp'' [cache, ''mounts.*.json''] (Text tmp)]"
          by (rule new_temp_events) simp
        from new(2) obtain e' where t: "temp_steps m tmp ?steps h2 = (Inl e', h')"
          by (elim andThenE_cases) auto
        obtain es b where es: "h' = h2 @ es" "\<forall>x \<in> set es. \<not> creates_temp x" "Sys ''remove'' [tmp] b \<in> set es"
          using temp_steps_cleanup [OF t] by auto
        show ?thesis
        proof (intro exI [of _ "gs @ Sys ''createtemp'' [cache, ''mounts.*.json''] (Text tmp) # es"] conjI allI impI)
          show "h' = h @ gs @ Sys ''createtemp'' [cache, ''mounts.*.json''] (Text tmp) # es" using a gs es by simp
          fix pre args path post
          assume eq: "gs @ Sys ''createtemp'' [cache, ''mounts.*.json''] (Text tmp) # es =
            pre @ Sys ''createtemp'' args (Text path) # post"
          have no: "Sys ''createtemp'' args (Text path) \<notin> set gs" "Sys ''createtemp'' args (Text path) \<notin> set es"
            using gs(2) es(2) by (auto simp: creates_temp_def)
          from append_split_left [OF eq no(1)] no(2) have "path = tmp" "post = es"
            by (auto simp: Cons_eq_append_conv)
          with es(3) show "\<exists>a. Sys ''remove'' [path] a \<in> set post" by blast
        qed
      qed
    qed
  qed
qed

text \<open>
  A caller directory with a colon: the source of a relative mount is not expressible in the
  short syntax, and the generated entry has three fields where the user wrote two.
\<close>

lemma mount_source_with_colon:
  "normalize_mount None ''/a:b'' ''./x:/t'' = Inr (''/a:b/x:/t'', ''/t'') \<and>
   split_char (CHR '':'') ''/a:b/x:/t'' = [''/a'', ''b/x'', ''/t'']"
  by code_simp

text \<open>A Linux process without accounts or files, for concrete runs.\<close>

definition plain_surroundings :: surroundings where
  "plain_surroundings = \<lparr>su_os = \<lparr>os_getwd = None, os_eval_symlinks = (\<lambda>p. None), os_stat_is_dir = (\<lambda>p. None),
       os_user_name = (\<lambda>u. None), os_group_name = (\<lambda>g. None)\<rparr>,
     su_groups = None, su_euid = 0, su_egid = 0, su_environ = [],
     su_getenv = (\<lambda>k. if k = ''XDG_CACHE_HOME'' then ''/c'' else []), su_home = None,
     su_platform = ''linux'', su_asset = (\<lambda>n. None), su_marshal = (\<lambda>d. ''{}'')\<rparr>"

section \<open>Properties\<close>

text \<open>The environment of a Compose command: each managed variable appears exactly once, with
  its managed value, whatever the caller's environment says; no \<open>COMPOSE_\<close> variable of the
  caller gets through; and every other variable is passed on unchanged.\<close>

theorem merge_environment_exact:
  assumes "\<forall>k \<in> set (keys_of managed). CHR ''='' \<notin> set k"
  shows "filter (\<lambda>e. entry_key e = k) (merge_environment environ managed) =
    (if has_key managed k then [k @ ''='' @ label managed k]
     else if has_prefix k ''COMPOSE_'' then [] else filter (\<lambda>e. entry_key e = k) environ)"
  using assms by (rule merge_environment_key)

theorem merge_environment_exact_witness:
  "filter (\<lambda>e. entry_key e = ''A'') (merge_environment [''A=1'', ''COMPOSE_FILE=x'', ''B=2''] [(''A'', ''9'')]) =
    [''A=9'']"
proof -
  have "\<forall>k \<in> set (keys_of [(''A'', ''9'')]). CHR ''='' \<notin> set k" by code_simp
  from merge_environment_exact [OF this, of "''A''" "[''A=1'', ''COMPOSE_FILE=x'', ''B=2'']"]
  show ?thesis by (simp add: has_key_def label_def)
qed

text \<open>\<open>normalizeMount\<close> returns an absolute clean target and an entry \<open>source:target\<close> or
  \<open>source:target:mode\<close> whose source is an absolute path or a plain volume name, and whose mode
  is not empty.\<close>

theorem normalize_mount_correct:
  assumes "normalize_mount home caller spec = Inr (norm, target)"
    and "is_abs caller" "\<forall>hm. home = Some hm \<longrightarrow> is_abs hm"
  shows "is_abs target \<and> clean target = target \<and>
    (\<exists>src mode. (is_abs src \<or> CHR ''/'' \<notin> set src) \<and>
       (norm = src @ '':'' @ target \<or> mode \<noteq> [] \<and> CHR '':'' \<notin> set mode \<and> norm = src @ '':'' @ target @ '':'' @ mode))"
  using assms by (rule normalize_mount_shape)

theorem normalize_mount_correct_witness:
  "normalize_mount (Some ''/home/u'') ''/work'' ''~/data:/x/../srv:ro'' = Inr (''/home/u/data:/srv:ro'', ''/srv'') \<and>
   clean ''/srv'' = ''/srv''"
proof -
  have run: "normalize_mount (Some ''/home/u'') ''/work'' ''~/data:/x/../srv:ro'' = Inr (''/home/u/data:/srv:ro'', ''/srv'')"
    by code_simp
  have "is_abs ''/work''" "\<forall>hm. Some ''/home/u'' = Some hm \<longrightarrow> is_abs hm" by (simp_all add: is_abs_def)
  from normalize_mount_correct [OF run this] run show ?thesis by blast
qed


definition full_disk :: machine where
  "full_disk = \<lparr>m_exec = (\<lambda>h a. \<lparr>oc_out = [], oc_err = [], oc_fail = None, oc_ctx = None\<rparr>),
     m_look_path = (\<lambda>h s. None), m_replace = (\<lambda>h a. None), m_lock = (\<lambda>h p. True),
     m_sys = (\<lambda>h n a. if n = ''createtemp'' then Text ''/c/tmp''
        else if n = ''write'' then Failed ''no space left''
        else if n = ''lstat'' then Info \<lparr>fi_dir = True, fi_symlink = False, fi_regular = False,
          fi_socket = False, fi_uid = 0, fi_size = 0\<rparr>
        else Flag True)\<rparr>"

definition mount_config :: config where
  "mount_config = (initial_config \<lparr>po_caller_dir = ''/w'', po_home_dir = ''/h'', po_platform = ''linux'',
     po_getenv = None, po_environ = None\<rparr> (\<lambda>k. []) ''linux'' \<lparr>fc_default_harness = [], fc_harness = []\<rparr> [])
     \<lparr>cfg_extra_volumes := [''/a:/b'']\<rparr>"


end
