(* ===== verification/State.thy ===== *)
theory State
  imports Compose
begin

text \<open>
  The state volume (\<open>internal/app/state.go\<close>): its name, its creation under the volume lock, the
  read-only ownership checks, and the plan for removing it.  Go ranges over the rendered volumes
  and networks in any order; the theorems hold for every order of the lists.
\<close>

datatype state_error =
    StateDocker docker_error
  | StateLock lock_error
  | CustomVolumeConflict string string
  | PrivateVolumeForeign string
  | SharedVolumeForeign string
  | RefuseForeignVolume string
  | RefuseReferenced string "string list"
  | ObjectUnnamed string string
  | ObjectForeign string string string

abbreviation (input) labels_of :: "volume option \<Rightarrow> labels" where
  "labels_of v \<equiv> (case v of None \<Rightarrow> [] | Some x \<Rightarrow> vol_labels x)"

definition shared_state_name :: string where
  "shared_state_name = ''hcorral_state''"

definition state_volume_name :: "config \<Rightarrow> workspace \<Rightarrow> string" where
  "state_volume_name cfg ws =
     (if cfg_state_volume_name cfg \<noteq> [] then cfg_state_volume_name cfg
      else if cfg_state_mode cfg = StatePrivate then workspace_volume_name ws
      else shared_state_name)"

definition private_labels_exact :: "labels \<Rightarrow> workspace \<Rightarrow> bool" where
  "private_labels_exact ls ws =
     (label ls label_workspace_id = ws_full_id ws \<and> label ls label_state_kind = ''workspace-private'' \<and>
      label ls label_runtime_schema = ''1'')"

definition shared_labels_exact :: "labels \<Rightarrow> bool" where
  "shared_labels_exact ls =
     (label ls label_state_kind = ''shared'' \<and> label ls label_runtime_schema = ''1'')"

text \<open>The \<open>switch\<close> of \<open>validateStateOwnership\<close>.\<close>

definition check_state_labels :: "config \<Rightarrow> workspace \<Rightarrow> string \<Rightarrow> labels \<Rightarrow> state_error option" where
  "check_state_labels cfg ws name ls =
     (case cfg_state_mode cfg of
        StateCustom \<Rightarrow>
          (let owner = label ls label_workspace_id in
           if owner \<noteq> [] \<and> owner \<noteq> ws_full_id ws then Some (CustomVolumeConflict name owner) else None)
      | StatePrivate \<Rightarrow>
          if \<not> private_labels_exact ls ws then Some (PrivateVolumeForeign name) else None
      | StateShared \<Rightarrow>
          if \<not> shared_labels_exact ls then Some (SharedVolumeForeign name) else None)"

definition validate_state_ownership ::
  "daemon \<Rightarrow> config \<Rightarrow> workspace \<Rightarrow> (state_error, unit) result io" where
  "validate_state_ownership d cfg ws =
     (let name = state_volume_name cfg ws in
      andThenE (map_errE StateDocker (inspect_volume d name)) (\<lambda>vol.
        case vol of
          None \<Rightarrow> okE ()
        | Some v \<Rightarrow>
            (case check_state_labels cfg ws name (vol_labels v) of
               Some e \<Rightarrow> failE e
             | None \<Rightarrow> okE ())))"

text \<open>The body of \<open>ensureState\<close> after the lock.\<close>

definition ensure_state_body ::
  "daemon \<Rightarrow> config \<Rightarrow> workspace \<Rightarrow> (state_error, unit) result io" where
  "ensure_state_body d cfg ws =
     andThenE (validate_state_ownership d cfg ws) (\<lambda>_.
       let name = state_volume_name cfg ws in
       andThenE (map_errE StateDocker (inspect_volume d name)) (\<lambda>vol.
         case cfg_state_mode cfg of
           StateCustom \<Rightarrow>
             if vol = None then map_errE StateDocker (create_volume d name []) else okE ()
         | StatePrivate \<Rightarrow>
             if vol = None then
               andThenE (map_errE StateDocker (create_volume d name (private_volume_labels ws))) (\<lambda>_.
                 validate_state_ownership d cfg ws)
             else okE ()
         | StateShared \<Rightarrow>
             if vol = None then
               andThenE (map_errE StateDocker (create_volume d name shared_volume_labels)) (\<lambda>_.
                 validate_state_ownership d cfg ws)
             else okE ()))"

text \<open>The deferred \<open>lock.Close()\<close> runs after every way out of the body.\<close>

definition ensure_state ::
  "daemon \<Rightarrow> lock_env \<Rightarrow> config \<Rightarrow> workspace \<Rightarrow> (state_error, unit) result io" where
  "ensure_state d env cfg ws =
     (if cfg_state_mode cfg \<noteq> StateCustom then
        andThenE (map_errE StateLock (acquire_volume_lock d env (state_volume_name cfg ws))) (\<lambda>lock.
          andThen (ensure_state_body d cfg ws) (\<lambda>r.
          andThen (lock_close (Some lock)) (\<lambda>_. ret r)))
      else ensure_state_body d cfg ws)"

definition references_volume :: "container \<Rightarrow> string \<Rightarrow> bool" where
  "references_volume c name = list_ex (\<lambda>m. mt_type m = ''volume'' \<and> mt_name m = name) (c_mounts c)"

definition plan_managed_state_removal ::
  "daemon \<Rightarrow> config \<Rightarrow> workspace \<Rightarrow> container list \<Rightarrow> (state_error, bool \<times> string) result io" where
  "plan_managed_state_removal d cfg ws containers =
     (let name = state_volume_name cfg ws in
      if cfg_state_mode cfg \<noteq> StatePrivate then okE (False, name)
      else andThenE (map_errE StateDocker (inspect_volume d name)) (\<lambda>vol.
        case vol of
          None \<Rightarrow> okE (False, name)
        | Some v \<Rightarrow>
            if \<not> private_labels_exact (vol_labels v) ws then failE (RefuseForeignVolume name)
            else let references = map clean_name (filter (\<lambda>c. references_volume c name \<and>
                     label (c_labels c) label_compose_project \<noteq> ws_project ws) containers)
            in if references \<noteq> [] then failE (RefuseReferenced name (sort references))
               else okE (True, name)))"

definition label_compose_volume :: string where
  "label_compose_volume = ''com.docker.compose.volume''"

definition label_compose_network :: string where
  "label_compose_network = ''com.docker.compose.network''"

text \<open>One pass of each loop; \<open>inspect\<close> gives the labels of an existing object.\<close>

definition check_compose_object ::
  "(string \<Rightarrow> (docker_error, labels option) result io) \<Rightarrow> string \<Rightarrow> workspace \<Rightarrow>
     string \<times> rendered_object \<Rightarrow> (state_error, unit) result io" where
  "check_compose_object inspect key ws entry =
     (let logicalName = fst entry; definition_name = ro_name (snd entry) in
      if ro_external (snd entry) then okE ()
      else if definition_name = [] then failE (ObjectUnnamed key logicalName)
      else andThenE (map_errE StateDocker (inspect definition_name)) (\<lambda>found.
        case found of
          None \<Rightarrow> okE ()
        | Some ls \<Rightarrow>
            if label ls label_compose_project \<noteq> ws_project ws \<or> label ls key \<noteq> logicalName
            then failE (ObjectForeign key definition_name logicalName)
            else okE ()))"

fun check_all :: "('a \<Rightarrow> ('e, unit) result io) \<Rightarrow> 'a list \<Rightarrow> ('e, unit) result io" where
  "check_all f [] = okE ()"
| "check_all f (x # xs) = andThenE (f x) (\<lambda>_. check_all f xs)"

definition volume_label_lookup :: "daemon \<Rightarrow> string \<Rightarrow> (docker_error, labels option) result io" where
  "volume_label_lookup d name = andThenE (inspect_volume d name) (\<lambda>v. okE (map_option vol_labels v))"

definition network_label_lookup :: "daemon \<Rightarrow> string \<Rightarrow> (docker_error, labels option) result io" where
  "network_label_lookup d name = andThenE (inspect_network d name) (\<lambda>v. okE (map_option net_labels v))"

definition validate_compose_volume_ownership ::
  "daemon \<Rightarrow> rendered \<Rightarrow> workspace \<Rightarrow> (state_error, unit) result io" where
  "validate_compose_volume_ownership d rd ws =
     check_all (check_compose_object (volume_label_lookup d) label_compose_volume ws) (rd_volumes rd)"

definition validate_compose_network_ownership ::
  "daemon \<Rightarrow> rendered \<Rightarrow> workspace \<Rightarrow> (state_error, unit) result io" where
  "validate_compose_network_ownership d rd ws =
     check_all (check_compose_object (network_label_lookup d) label_compose_network ws) (rd_networks rd)"

record removal_targets =
  rt_volumes :: "string list"
  rt_networks :: "string list"
  rt_external_volumes :: "string list"
  rt_external_networks :: "string list"

definition rendered_removal_targets :: "rendered \<Rightarrow> string \<Rightarrow> removal_targets" where
  "rendered_removal_targets rd stateName =
     (let volumes = filter (\<lambda>v. ro_name v \<noteq> stateName) (map snd (rd_volumes rd));
          networks = map snd (rd_networks rd);
          names = (\<lambda>ext xs. sort (map ro_name (filter (\<lambda>v. ro_external v = ext) xs)))
      in \<lparr>rt_volumes = names False volumes, rt_networks = names False networks,
          rt_external_volumes = names True volumes, rt_external_networks = names True networks\<rparr>)"

section \<open>What the checks have seen\<close>

definition inspects :: "string \<Rightarrow> event \<Rightarrow> bool" where
  "inspects name e \<longleftrightarrow> (\<exists>r. e = Captured (inspect_volume_argv name) r)"

lemma inspects_not_run: "inspects name e \<Longrightarrow> e \<noteq> Ran argv r"
  by (auto simp: inspects_def)

lemma inspect_volumeE:
  assumes "map_errE StateDocker (inspect_volume d name) h = (r, h')"
  obtains e ev where "r = Inl e" "h' = h @ [ev]" "inspects name ev"
  | v ev where "r = Inr v" "h' = h @ [ev]" "inspects name ev" "volume_told d name v ev"
  using assms
proof (cases rule: map_errE_cases)
  case (1 e)
  from 1(1) show ?thesis
    by (cases rule: inspect_volume_cases) (use 1 that(1) in \<open>auto simp: inspects_def\<close>)
next
  case (2 v)
  from 2(1) show ?thesis
    by (cases rule: inspect_volume_cases) (use 2 that(2) in \<open>auto simp: inspects_def\<close>)
qed

text \<open>An observation that the mode of the configuration accepts.\<close>

definition state_accepts :: "config \<Rightarrow> workspace \<Rightarrow> volume option \<Rightarrow> bool" where
  "state_accepts cfg ws vol \<longleftrightarrow>
     (case vol of
        None \<Rightarrow> True
      | Some v \<Rightarrow> check_state_labels cfg ws (state_volume_name cfg ws) (vol_labels v) = None)"

lemma validate_state_result:
  assumes "validate_state_ownership d cfg ws h = (r, h')"
  shows "\<exists>ev. h' = h @ [ev] \<and> inspects (state_volume_name cfg ws) ev \<and>
    (r = Inr () \<longrightarrow> (\<exists>v. volume_told d (state_volume_name cfg ws) v ev \<and> state_accepts cfg ws v))"
proof -
  let ?n = "state_volume_name cfg ws"
  from assms [unfolded validate_state_ownership_def Let_def] show ?thesis
  proof (cases rule: andThenE_cases)
    case (1 e)
    from 1(1) show ?thesis by (rule inspect_volumeE) (use 1 in auto)
  next
    case (2 v h1)
    from 2(1) obtain ev where ev: "h1 = h @ [ev]" "inspects ?n ev" "volume_told d ?n v ev"
      by (rule inspect_volumeE) auto
    have "h' = h1" "r = Inr () \<longrightarrow> state_accepts cfg ws v"
      using 2(2) by (auto simp: state_accepts_def split: option.splits)
    with ev show ?thesis by blast
  qed
qed

lemma validate_state_cases:
  assumes "validate_state_ownership d cfg ws h = (r, h')"
  obtains ev where "h' = h @ [ev]" "inspects (state_volume_name cfg ws) ev"
  using validate_state_result [OF assms] by blast

lemma create_volume_ran:
  assumes "map_errE StateDocker (create_volume d name ls) h = (r, h')"
  obtains res where "h' = h @ [Ran (create_volume_argv name ls) res]"
proof -
  have "\<not> empty_argv (create_volume_argv name ls)" by (simp add: create_volume_argv_def empty_argv_def)
  then show ?thesis using assms that
    by (auto simp: create_volume_def map_errE_def andThen_def docker_run_apply Let_def split: prod.splits)
qed

text \<open>
  \<open>create_guarded d name es\<close>: the only commands run are creations of the volume \<open>name\<close>, each
  right after an inspection that said the volume did not exist.
\<close>

definition create_guarded :: "daemon \<Rightarrow> string \<Rightarrow> event list \<Rightarrow> bool" where
  "create_guarded d name es \<longleftrightarrow>
     (\<forall>pre argv r post. es = pre @ Ran argv r # post \<longrightarrow>
        (\<exists>ls. argv = create_volume_argv name ls) \<and> pre \<noteq> [] \<and> volume_told d name None (last pre))"

lemma create_guarded_inspects: "\<forall>e \<in> set es. inspects name e \<Longrightarrow> create_guarded d name es"
  unfolding create_guarded_def inspects_def by auto

lemma create_guarded_shape:
  assumes "inspects name a" "inspects name b" "volume_told d name None b" "\<forall>e \<in> set es. inspects name e"
  shows "create_guarded d name (a # b # Ran (create_volume_argv name ls) r # es)"
  unfolding create_guarded_def
proof (intro allI impI)
  fix pre argv s post
  assume eq: "a # b # Ran (create_volume_argv name ls) r # es = pre @ Ran argv s # post"
  have no: "Ran argv s \<notin> set es" using assms(4) by (auto simp: inspects_def)
  have "pre = [a, b] \<and> argv = create_volume_argv name ls"
    using eq assms(1,2) no by (auto simp: Cons_eq_append_conv inspects_def)
  with assms(3) show "(\<exists>ls. argv = create_volume_argv name ls) \<and> pre \<noteq> [] \<and> volume_told d name None (last pre)"
    by auto
qed

lemma ensure_state_body_events:
  assumes "ensure_state_body d cfg ws h = (r, h')"
  shows "\<exists>es. h' = h @ es \<and> create_guarded d (state_volume_name cfg ws) es \<and>
    (\<forall>e \<in> set es. inspects (state_volume_name cfg ws) e \<or> (\<exists>a x. e = Ran a x))"
    (is "?thesis")
proof -
  let ?n = "state_volume_name cfg ws"
  have single: ?thesis if "h' = h @ [a]" "inspects ?n a" for a
    using that by (intro exI [of _ "[a]"]) (auto intro: create_guarded_inspects)
  have found: ?thesis if "h' = h @ [a, b]" "inspects ?n a" "inspects ?n b" for a b
    using that by (intro exI [of _ "[a, b]"]) (auto intro: create_guarded_inspects)
  have created: ?thesis
    if "h' = h @ a # b # Ran (create_volume_argv ?n ls) x # es" "inspects ?n a" "inspects ?n b"
      "volume_told d ?n None b" "\<forall>e \<in> set es. inspects ?n e" for a b ls x es
    using that by (intro exI [of _ "a # b # Ran (create_volume_argv ?n ls) x # es"])
      (auto intro: create_guarded_shape)
  from assms [unfolded ensure_state_body_def Let_def] show ?thesis
  proof (cases rule: andThenE_cases)
    case (1 e)
    then show ?thesis
      using single by (elim validate_state_cases) auto
  next
    case (2 u h1)
    from 2(1) obtain a where a: "h1 = h @ [a]" "inspects ?n a" by (rule validate_state_cases)
    from 2(2) show ?thesis
    proof (cases rule: andThenE_cases)
      case (1 e)
      from 1(1) show ?thesis by (rule inspect_volumeE) (use a found in auto)
    next
      case inner: (2 vol h2)
      from inner(1) obtain b where b: "h2 = h1 @ [b]" "inspects ?n b" "volume_told d ?n vol b"
        by (rule inspect_volumeE) auto
      show ?thesis
      proof (cases vol)
        case (Some v)
        with inner(2) have "h' = h2" by (auto split: state_mode.splits)
        with a b found show ?thesis by auto
      next
        case None
        have step: ?thesis if run: "andThenE (map_errE StateDocker (create_volume d ?n ls))
            (\<lambda>_. validate_state_ownership d cfg ws) h2 = (r, h')" for ls
          using run
        proof (cases rule: andThenE_cases)
          case (1 e)
          from 1(1) obtain x where "h' = h2 @ [Ran (create_volume_argv ?n ls) x]" by (rule create_volume_ran)
          with a b None created [of a b ls x "[]"] show ?thesis by auto
        next
          case (2 u h3)
          from 2(1) obtain x where x: "h3 = h2 @ [Ran (create_volume_argv ?n ls) x]" by (rule create_volume_ran)
          from 2(2) obtain c where "h' = h3 @ [c]" "inspects ?n c" by (rule validate_state_cases)
          with x a b None created [of a b ls x "[c]"] show ?thesis by auto
        qed
        have alone: ?thesis if run: "map_errE StateDocker (create_volume d ?n ls) h2 = (r, h')" for ls
        proof -
          from run obtain x where "h' = h2 @ [Ran (create_volume_argv ?n ls) x]" by (rule create_volume_ran)
          with a b None created [of a b ls x "[]"] show ?thesis by auto
        qed
        show ?thesis using inner(2) None step alone by (auto split: state_mode.splits)
      qed
    qed
  qed
qed

text \<open>The whole operation, with the lock around the body.\<close>

lemma lock_event_not_run: "lock_event e \<Longrightarrow> e \<noteq> Ran a x"
  by (auto simp: lock_event_def)

lemma create_guarded_split:
  assumes "create_guarded d n es" "\<forall>e \<in> set ls. lock_event e" "\<forall>e \<in> set rs. lock_event e"
    and "ls @ es @ rs = pre @ Ran argv x # post"
  obtains pre' post' where "pre = ls @ pre'" "es = pre' @ Ran argv x # post'" "pre' \<noteq> []"
    "\<exists>labs. argv = create_volume_argv n labs" "volume_told d n None (last pre')"
proof -
  have nl: "Ran argv x \<notin> set ls" "Ran argv x \<notin> set rs" using assms(2,3) lock_event_not_run by blast+
  obtain pre' where p: "pre = ls @ pre'" "es @ rs = pre' @ Ran argv x # post"
    using append_split_left [OF assms(4) nl(1)] by blast
  obtain post' where q: "es = pre' @ Ran argv x # post'"
    using append_split_right [OF p(2) nl(2)] by blast
  have "(\<exists>ls. argv = create_volume_argv n ls) \<and> pre' \<noteq> [] \<and> volume_told d n None (last pre')"
    using assms(1) [unfolded create_guarded_def, rule_format, OF q] .
  then show thesis by (intro that [OF p(1) q]) simp_all
qed

lemma ensure_state_events:
  assumes run: "ensure_state d env cfg ws h = (r, h')"
  shows "\<exists>es. h' = h @ es \<and>
    (\<forall>pre argv x post. es = pre @ Ran argv x # post \<longrightarrow>
       (\<exists>ls. argv = create_volume_argv (state_volume_name cfg ws) ls) \<and> pre \<noteq> [] \<and>
       volume_told d (state_volume_name cfg ws) None (last pre) \<and>
       (cfg_state_mode cfg \<noteq> StateCustom \<longrightarrow>
          (\<exists>p. volume_lock_path env (state_volume_name cfg ws) = Inr p \<and> holds_lock p (h @ pre))))"
proof (cases "cfg_state_mode cfg = StateCustom")
  case True
  with run have "ensure_state_body d cfg ws h = (r, h')" by (simp add: ensure_state_def)
  from ensure_state_body_events [OF this] True show ?thesis unfolding create_guarded_def by blast
next
  case False
  let ?n = "state_volume_name cfg ws"
  let ?lock = "map_errE StateLock (acquire_volume_lock d env ?n)"
  have aq: "appends lock_event ?lock" by (intro io_rules appends_acquire_volume_lock)
  have shape: ?thesis if "h' = h @ ls" "\<forall>e \<in> set ls. lock_event e" for ls
    using that lock_event_not_run by (intro exI [of _ ls]) fastforce
  from run False have "andThenE ?lock (\<lambda>lock. andThen (ensure_state_body d cfg ws) (\<lambda>r.
      andThen (lock_close (Some lock)) (\<lambda>_. ret r))) h = (r, h')"
    by (simp add: ensure_state_def)
  then show ?thesis
  proof (cases rule: andThenE_cases)
    case (1 e)
    from appendsD [OF aq 1(1)] shape show ?thesis by blast
  next
    case (2 p h1)
    obtain ls where ls: "h1 = h @ ls" "\<forall>e \<in> set ls. lock_event e" using appendsD [OF aq 2(1)] .
    have p: "volume_lock_path env ?n = Inr p" "holds_lock p h1"
    proof -
      from 2(1) have "acquire_volume_lock d env ?n h = (Inr p, h1)" by (elim map_errE_cases) auto
      then obtain path where q: "volume_lock_path env ?n = Inr path"
        "acquire_lock_path d True path h = (Inr p, h1)"
        by (auto simp: acquire_volume_lock_def split: sum.splits)
      from acquire_lock_path_holds [OF q(2)] q(1)
      show "volume_lock_path env ?n = Inr p" "holds_lock p h1" by auto
    qed
    from 2(2) obtain r1 h2 where b: "ensure_state_body d cfg ws h1 = (r1, h2)" "h' = h2 @ [Unlocked p]"
      by (elim andThen_result) (auto simp: lock_close_def release_lock_def)
    obtain es where es: "h2 = h1 @ es" "create_guarded d ?n es"
      "\<forall>e \<in> set es. inspects ?n e \<or> (\<exists>a x. e = Ran a x)"
      using ensure_state_body_events [OF b(1)] by blast
    show ?thesis
    proof (intro exI [of _ "ls @ es @ [Unlocked p]"] conjI allI impI)
      show "h' = h @ ls @ es @ [Unlocked p]" using b ls es by simp
      fix pre argv x post
      assume "ls @ es @ [Unlocked p] = pre @ Ran argv x # post"
      then obtain pre' post' where q: "pre = ls @ pre'" "es = pre' @ Ran argv x # post'" "pre' \<noteq> []"
        "\<exists>labs. argv = create_volume_argv ?n labs" "volume_told d ?n None (last pre')"
        by (rule create_guarded_split [OF es(2) ls(2), rotated]) (simp_all add: lock_event_def)
      show "\<exists>ls. argv = create_volume_argv ?n ls" using q(4) .
      show "pre \<noteq> []" "volume_told d ?n None (last pre)" using q by auto
      have "Unlocked p \<notin> set pre'" using es(3) q(2) by (auto simp: inspects_def)
      then have "holds_lock p (h @ pre)" using holds_lock_append [OF p(2)] ls(1) q(1) by simp
      with p(1) show "\<exists>p. volume_lock_path env ?n = Inr p \<and> holds_lock p (h @ pre)" by blast
    qed
  qed
qed

text \<open>The removal plan only says yes to an exactly labelled volume without foreign references.\<close>

lemma plan_removal_yes:
  assumes "plan_managed_state_removal d cfg ws containers h = (Inr (True, n), h')"
  shows "cfg_state_mode cfg = StatePrivate \<and> n = state_volume_name cfg ws \<and>
    (\<exists>ev v. h' = h @ [ev] \<and> volume_told d n (Some v) ev \<and> private_labels_exact (vol_labels v) ws) \<and>
    (\<forall>c \<in> set containers. references_volume c n \<longrightarrow> label (c_labels c) label_compose_project = ws_project ws)"
proof -
  let ?n = "state_volume_name cfg ws"
  have m: "cfg_state_mode cfg = StatePrivate"
    using assms by (auto simp: plan_managed_state_removal_def Let_def split: if_splits)
  let ?refs = "map clean_name (filter (\<lambda>c. references_volume c ?n \<and>
      label (c_labels c) label_compose_project \<noteq> ws_project ws) containers)"
  have "andThenE (map_errE StateDocker (inspect_volume d ?n)) (\<lambda>vol.
        case vol of
          None \<Rightarrow> okE (False, ?n)
        | Some v \<Rightarrow>
            if \<not> private_labels_exact (vol_labels v) ws then failE (RefuseForeignVolume ?n)
            else if ?refs \<noteq> [] then failE (RefuseReferenced ?n (sort ?refs)) else okE (True, ?n)) h = (Inr (True, n), h')"
    using assms unfolding plan_managed_state_removal_def Let_def by (simp only: m simp_thms if_False)
  then obtain vol h1 where v: "map_errE StateDocker (inspect_volume d ?n) h = (Inr vol, h1)"
    and k: "(case vol of None \<Rightarrow> okE (False, ?n)
        | Some v \<Rightarrow>
            if \<not> private_labels_exact (vol_labels v) ws then failE (RefuseForeignVolume ?n)
            else if ?refs \<noteq> [] then failE (RefuseReferenced ?n (sort ?refs)) else okE (True, ?n)) h1 = (Inr (True, n), h')"
    by (elim andThenE_cases) auto
  from v obtain ev where ev: "h1 = h @ [ev]" "volume_told d ?n vol ev" by (rule inspect_volumeE) auto
  from k obtain w where w: "vol = Some w" "private_labels_exact (vol_labels w) ws" "?refs = []" "n = ?n" "h' = h1"
    by (auto split: option.splits if_splits)
  from w(3) have "\<forall>c \<in> set containers. references_volume c ?n \<longrightarrow>
      label (c_labels c) label_compose_project = ws_project ws"
    by (simp add: filter_empty_conv)
  with m ev w show ?thesis by blast
qed

section \<open>Compose objects\<close>

lemma check_all_pass:
  assumes "check_all f xs h = (Inr (), h')"
    and "\<And>x h h'. f x h = (Inr (), h') \<Longrightarrow> \<exists>es. h' = h @ es \<and> P x es"
    and "\<And>x es fs. P x es \<Longrightarrow> P x (es @ fs)" "\<And>x es fs. P x es \<Longrightarrow> P x (fs @ es)"
  shows "\<exists>es. h' = h @ es \<and> (\<forall>x \<in> set xs. P x es)"
  using assms(1)
proof (induction xs arbitrary: h)
  case (Cons x xs)
  from Cons.prems obtain h1 where 1: "f x h = (Inr (), h1)" "check_all f xs h1 = (Inr (), h')"
    unfolding check_all.simps by (elim andThenE_cases) auto
  from assms(2) [OF 1(1)] Cons.IH [OF 1(2)] obtain es fs where
    "h1 = h @ es" "P x es" "h' = h1 @ fs" "\<forall>y \<in> set xs. P y fs" by blast
  then show ?case using assms(3,4) by (intro exI [of _ "es @ fs"]) auto
qed simp

text \<open>An object the check lets pass: external, or named and, if it exists, labelled exactly.\<close>

definition object_cleared ::
  "(string \<Rightarrow> labels option \<Rightarrow> event \<Rightarrow> bool) \<Rightarrow> string \<Rightarrow> workspace \<Rightarrow> string \<times> rendered_object \<Rightarrow>
     event list \<Rightarrow> bool" where
  "object_cleared told key ws entry es \<longleftrightarrow>
     ro_external (snd entry) \<or>
     ro_name (snd entry) \<noteq> [] \<and>
     (\<exists>ev \<in> set es. \<exists>found. told (ro_name (snd entry)) found ev \<and>
        (case found of None \<Rightarrow> True
         | Some ls \<Rightarrow> label ls label_compose_project = ws_project ws \<and> label ls key = fst entry))"

text \<open>
  The interface the loop relies on: a lookup that succeeds appends exactly one event, which
  tells what it returned.  Volumes and networks both provide it.
\<close>

locale label_lookup =
  fixes inspect :: "string \<Rightarrow> (docker_error, labels option) result io"
    and told :: "string \<Rightarrow> labels option \<Rightarrow> event \<Rightarrow> bool"
  assumes inspect_told: "inspect name h = (Inr found, h') \<Longrightarrow> \<exists>ev. h' = h @ [ev] \<and> told name found ev"
begin

lemma check_object_pass:
  assumes "check_compose_object inspect key ws entry h = (Inr (), h')"
  shows "\<exists>es. h' = h @ es \<and> object_cleared told key ws entry es"
proof (cases "ro_external (snd entry)")
  case True
  with assms show ?thesis by (simp add: check_compose_object_def object_cleared_def)
next
  case False
  let ?n = "ro_name (snd entry)"
  let ?k = "\<lambda>found. case found of None \<Rightarrow> okE ()
        | Some ls \<Rightarrow> if label ls label_compose_project \<noteq> ws_project ws \<or> label ls key \<noteq> fst entry
            then failE (ObjectForeign key ?n (fst entry)) else okE ()"
  have ne: "?n \<noteq> []"
    using assms False by (auto simp: check_compose_object_def Let_def split: if_splits)
  have run: "andThenE (map_errE StateDocker (inspect ?n)) ?k h = (Inr (), h')"
    using assms unfolding check_compose_object_def Let_def by (simp only: False ne if_False)
  from run obtain found h1 where 1: "map_errE StateDocker (inspect ?n) h = (Inr found, h1)"
    and 2: "?k found h1 = (Inr (), h')" by (elim andThenE_cases) auto
  from 1 have "inspect ?n h = (Inr found, h1)" by (elim map_errE_cases) auto
  then obtain ev where "h1 = h @ [ev]" "told ?n found ev" using inspect_told by blast
  with 2 ne show ?thesis
    by (intro exI [of _ "[ev]"]) (auto simp: object_cleared_def split: option.splits if_splits)
qed

lemma check_objects_pass:
  assumes "check_all (check_compose_object inspect key ws) entries h = (Inr (), h')"
  shows "\<exists>es. h' = h @ es \<and> (\<forall>entry \<in> set entries. object_cleared told key ws entry es)"
  using assms
proof (rule check_all_pass)
  show "\<exists>es. h' = h @ es \<and> object_cleared told key ws x es"
    if "check_compose_object inspect key ws x h = (Inr (), h')" for x h h'
    using that by (rule check_object_pass)
qed (auto simp: object_cleared_def)

end

definition volume_labels_told :: "daemon \<Rightarrow> string \<Rightarrow> labels option \<Rightarrow> event \<Rightarrow> bool" where
  "volume_labels_told d name ls ev \<longleftrightarrow> (\<exists>v. volume_told d name v ev \<and> ls = map_option vol_labels v)"

text \<open>\<open>network_labels_told\<close>: the event is an inspection of the network that answered these labels.\<close>

definition network_labels_told :: "daemon \<Rightarrow> string \<Rightarrow> labels option \<Rightarrow> event \<Rightarrow> bool" where
  "network_labels_told d name ls ev \<longleftrightarrow>
     (\<exists>r v. ev = Captured [''docker'', ''network'', ''inspect'', name] r \<and>
        one_answer (dec_networks d) r = Some v \<and> ls = map_option net_labels v)"

interpretation volumes: label_lookup "volume_label_lookup d" "volume_labels_told d" for d
proof unfold_locales
  fix name h found h'
  assume "volume_label_lookup d name h = (Inr found, h')"
  then obtain w h1 where "inspect_volume d name h = (Inr w, h1)" "found = map_option vol_labels w" "h' = h1"
    unfolding volume_label_lookup_def by (elim andThenE_cases) auto
  then show "\<exists>ev. h' = h @ [ev] \<and> volume_labels_told d name found ev"
    by (auto elim!: inspect_volume_cases simp: volume_labels_told_def)
qed

interpretation networks: label_lookup "network_label_lookup d" "network_labels_told d" for d
proof unfold_locales
  fix name h found h'
  assume "network_label_lookup d name h = (Inr found, h')"
  then obtain w h1 where "inspect_network d name h = (Inr w, h1)" "found = map_option net_labels w" "h' = h1"
    unfolding network_label_lookup_def by (elim andThenE_cases) auto
  moreover have "\<not> empty_argv [''docker'', ''network'', ''inspect'', name]" by (simp add: empty_argv_def)
  ultimately show "\<exists>ev. h' = h @ [ev] \<and> network_labels_told d name found ev"
    unfolding inspect_network_def by (auto elim!: inspect_oneE simp: network_labels_told_def)
qed

section \<open>A volume that appears between the two inspections\<close>

definition foreign_volume :: "workspace \<Rightarrow> volume" where
  "foreign_volume ws = \<lparr>vol_name = [], vol_driver = [], vol_mountpoint = [], vol_created_at = [],
     vol_labels = [(label_workspace_id, ws_full_id ws @ ''x'')]\<rparr>"

text \<open>A daemon that first knows no volume, and from then on a volume of another workspace.\<close>

definition late_volume_daemon :: "workspace \<Rightarrow> daemon" where
  "late_volume_daemon ws =
     \<lparr>m_exec = (\<lambda>h argv.
        if h = [] then \<lparr>oc_out = [], oc_err = ''Error: no such volume'', oc_fail = Some ''exit status 1'', oc_ctx = None\<rparr>
        else \<lparr>oc_out = [], oc_err = [], oc_fail = None, oc_ctx = None\<rparr>),
      m_look_path = (\<lambda>h s. None), m_replace = (\<lambda>h a. None), m_lock = (\<lambda>h p. True),
      m_sys = (\<lambda>h n a. Missing),
      dec_containers = (\<lambda>s. None), dec_volumes = (\<lambda>s. Some [foreign_volume ws]),
      dec_networks = (\<lambda>s. None), dec_images = (\<lambda>s. None), dec_project = (\<lambda>s. None)\<rparr>"

lemma foreign_volume_rejected:
  "check_state_labels cfg ws name (vol_labels (foreign_volume ws)) \<noteq> None"
  by (cases "cfg_state_mode cfg")
    (simp_all add: check_state_labels_def foreign_volume_def private_labels_exact_def shared_labels_exact_def
      label_def label_workspace_id_def label_state_kind_def Let_def)

lemma late_not_found: "is_not_found ''Error: no such volume''"
  by code_simp

section \<open>Sample data\<close>

definition sample_cfg :: config where
  "sample_cfg = (initial_config \<lparr>po_caller_dir = ''/w'', po_home_dir = ''/h'', po_platform = ''linux'',
     po_getenv = None, po_environ = None\<rparr> (\<lambda>k. []) ''linux'' \<lparr>fc_default_harness = [], fc_harness = []\<rparr> [])
     \<lparr>cfg_state_volume_name := ''data'', cfg_state_mode := StateCustom\<rparr>"

definition sample_ws :: workspace where
  "sample_ws = \<lparr>ws_path = ''/w'', ws_base = ''w'', ws_slug = ''w'', ws_full_id = ''id'', ws_short_id = ''id'',
     ws_corral_id = ''c'', ws_corral_short_id = ''c'', ws_harness = ''codex'', ws_project = ''p'', ws_generated = False\<rparr>"

definition empty_daemon :: daemon where
  "empty_daemon = (late_volume_daemon sample_ws)
     \<lparr>m_exec := (\<lambda>h argv. if has_prefix (join_str '' '' argv) ''docker volume create''
        then \<lparr>oc_out = [], oc_err = [], oc_fail = None, oc_ctx = None\<rparr>
        else \<lparr>oc_out = [], oc_err = ''no such volume'', oc_fail = Some ''1'', oc_ctx = None\<rparr>)\<rparr>"

definition owning_daemon :: daemon where
  "owning_daemon = (late_volume_daemon sample_ws)
     \<lparr>m_exec := (\<lambda>h argv. \<lparr>oc_out = [], oc_err = [], oc_fail = None, oc_ctx = None\<rparr>),
      dec_volumes := (\<lambda>s. Some [(foreign_volume sample_ws)\<lparr>vol_labels := private_volume_labels sample_ws\<rparr>])\<rparr>"

section \<open>Properties\<close>

text \<open>C21: \<open>ensureState\<close> never creates a volume it was not told is absent.  Whatever the daemon
  answers and whatever else runs in between, the only commands it runs are creations of the
  selected volume; right before each of them an inspection answered that the volume does not
  exist; and, unless the volume is user-managed, this launcher holds the volume's lock then.\<close>

theorem ensure_state_guarded:
  assumes "ensure_state d env cfg ws h = (r, h')"
  shows "\<exists>es. h' = h @ es \<and>
    (\<forall>pre argv x post. es = pre @ Ran argv x # post \<longrightarrow>
       (\<exists>ls. argv = create_volume_argv (state_volume_name cfg ws) ls) \<and> pre \<noteq> [] \<and>
       volume_told d (state_volume_name cfg ws) None (last pre) \<and>
       (cfg_state_mode cfg \<noteq> StateCustom \<longrightarrow>
          (\<exists>p. volume_lock_path env (state_volume_name cfg ws) = Inr p \<and> holds_lock p (h @ pre))))"
  using assms by (rule ensure_state_events)

theorem ensure_state_guarded_witness:
  "\<exists>pre x. snd (ensure_state empty_daemon linux_lock_env sample_cfg sample_ws []) =
     pre @ [Ran [''docker'', ''volume'', ''create'', ''data''] x] \<and>
     volume_told empty_daemon ''data'' None (last pre)"
proof -
  obtain r h' where run: "ensure_state empty_daemon linux_lock_env sample_cfg sample_ws [] = (r, h')"
    by fastforce
  have nf: "is_not_found ''no such volume''" by code_simp
  have n: "state_volume_name sample_cfg sample_ws = ''data''"
    by (simp add: state_volume_name_def sample_cfg_def)
  have mode: "cfg_state_mode sample_cfg = StateCustom" by (simp add: sample_cfg_def)
  have "\<exists>a b x. h' = [a, b, Ran [''docker'', ''volume'', ''create'', ''data''] x]"
    using run nf
    by (auto simp: ensure_state_def ensure_state_body_def validate_state_ownership_def n mode Let_def
        inspect_volume_def inspect_one_def docker_capture_apply andThenE_def andThen_def
        map_errE_def empty_argv_def empty_daemon_def late_volume_daemon_def command_error_def
        create_volume_def create_volume_argv_def docker_run_apply sorted_keys_def insertion_sort_def keys_of_def)
  then obtain a b x where h': "h' = [a, b] @ Ran [''docker'', ''volume'', ''create'', ''data''] x # []" by auto
  from ensure_state_guarded [OF run] obtain es where es: "h' = [] @ es"
    "\<forall>pre argv x post. es = pre @ Ran argv x # post \<longrightarrow> volume_told empty_daemon ''data'' None (last pre)"
    unfolding n by blast
  have "volume_told empty_daemon ''data'' None (last [a, b])" using es h' by (metis append_Nil)
  with run h' show ?thesis by (intro exI [of _ "[a, b]"] exI [of _ x]) simp
qed



text \<open>Before a Compose command, the two ownership checks pass only when every volume and
  network the project would own has a concrete name and was inspected, and either does not
  exist or carries exactly the labels of this project and of that logical object.\<close>

theorem compose_objects_owned:
  assumes "validate_compose_volume_ownership d rd ws h = (Inr (), h1)"
    and "validate_compose_network_ownership d rd ws h1 = (Inr (), h2)"
  shows "\<exists>es fs. h1 = h @ es \<and> h2 = h1 @ fs \<and>
    (\<forall>entry \<in> set (rd_volumes rd). object_cleared (volume_labels_told d) label_compose_volume ws entry es) \<and>
    (\<forall>entry \<in> set (rd_networks rd). object_cleared (network_labels_told d) label_compose_network ws entry fs)"
  using volumes.check_objects_pass [OF assms(1) [unfolded validate_compose_volume_ownership_def]]
    networks.check_objects_pass [OF assms(2) [unfolded validate_compose_network_ownership_def]]
  by blast

theorem compose_objects_owned_witness:
  "\<exists>h1 h2. validate_compose_volume_ownership empty_daemon
      \<lparr>rd_services = [], rd_volumes = [(''cache'', \<lparr>ro_name = ''p_cache'', ro_external = False\<rparr>)],
       rd_networks = [], rd_hashes = []\<rparr> sample_ws [] = (Inr (), h1) \<and>
     object_cleared (volume_labels_told empty_daemon) label_compose_volume sample_ws
       (''cache'', \<lparr>ro_name = ''p_cache'', ro_external = False\<rparr>) h1"
proof -
  let ?rd = "\<lparr>rd_services = [], rd_volumes = [(''cache'', \<lparr>ro_name = ''p_cache'', ro_external = False\<rparr>)],
       rd_networks = [], rd_hashes = []\<rparr>"
  have nf: "is_not_found ''no such volume''" by code_simp
  then obtain h1 where run: "validate_compose_volume_ownership empty_daemon ?rd sample_ws [] = (Inr (), h1)"
    by (simp add: validate_compose_volume_ownership_def check_compose_object_def volume_label_lookup_def
        Let_def andThenE_def andThen_def map_errE_def inspect_volume_def inspect_one_def docker_capture_apply
        empty_argv_def empty_daemon_def late_volume_daemon_def command_error_def)
  have "validate_compose_network_ownership empty_daemon ?rd sample_ws h1 = (Inr (), h1)"
    by (simp add: validate_compose_network_ownership_def)
  from compose_objects_owned [OF run this] show ?thesis using run by auto
qed

text \<open>\<open>ensureState\<close> can accept a foreign volume.  In every mode there is a daemon for which it
  reports success although its last inspection, after which it did nothing more, had shown a
  volume that its own ownership check rejects: a volume that appears between the check and the
  second inspection is used without a check.\<close>

theorem ensure_state_accepts_late_volume:
  "\<exists>d ev ev' v. ensure_state_body d cfg ws [] = (Inr (), [ev, ev']) \<and>
     volume_told d (state_volume_name cfg ws) (Some v) ev' \<and>
     check_state_labels cfg ws (state_volume_name cfg ws) (vol_labels v) \<noteq> None"
proof -
  let ?d = "late_volume_daemon ws"
  have "\<exists>ev ev'. ensure_state_body ?d cfg ws [] = (Inr (), [ev, ev']) \<and>
      volume_told ?d (state_volume_name cfg ws) (Some (foreign_volume ws)) ev'"
    using late_not_found
    by (cases "cfg_state_mode cfg")
      (simp_all add: ensure_state_body_def validate_state_ownership_def Let_def andThenE_def andThen_def
        map_errE_def inspect_volume_def inspect_one_def docker_capture_apply empty_argv_def
        late_volume_daemon_def command_error_def volume_told_def one_answer_def)
  with foreign_volume_rejected show ?thesis by blast
qed

end
