(* ===== verification/Gui.thy ===== *)
theory Gui
  imports Compose
begin

text \<open>
  Desktop forwarding (\<open>internal/gui/gui.go\<close>, \<open>internal/gui/gui_linux.go\<close>): the read-only
  discovery of a display and the preparation of the copied X11 credential.
\<close>

datatype gui_error =
    UnsupportedMode string
  | ContextUnavailable cmd_error
  | RemoteEngine string
  | EngineUnverified cmd_error
  | DesktopEngine
  | DisplayNotLocal string
  | SocketMissing string
  | SocketUnreadable string
  | NotASocket string
  | SocketNotWritable string
  | SocketForeign string int
  | WaylandDisplayMissing
  | WaylandDisplayPath
  | RuntimeDirInvalid
  | StateHomeUnknown
  | StateHomeRelative
  | CredentialsUnreadable string
  | CredentialsMalformed
  | CredentialDirectory lock_error
  | CredentialStep string string
  | CredentialEmpty

datatype gui_reason = NoReason | DisabledExplicitly | OverSsh | NoDisplay | BecauseOf gui_error

record selection =
  sel_mode :: string
  sel_file :: string
  sel_env :: labels
  sel_reason :: gui_reason
  sel_authority :: string
  sel_state_home :: string
  sel_project :: string

definition headless :: "gui_reason \<Rightarrow> selection" where
  "headless reason = \<lparr>sel_mode = ''none'', sel_file = [], sel_env = [(''HCORRAL_GUI_MODE'', ''none'')],
     sel_reason = reason, sel_authority = [], sel_state_home = [], sel_project = []\<rparr>"

section \<open>Discovery\<close>

text \<open>
  The display number of \<open>x11DisplayPattern\<close>: an optional \<open>unix\<close> or \<open>unix/\<close>, a colon, digits,
  and optionally a dot and digits.
\<close>

definition x11_display :: "string \<Rightarrow> string option" where
  "x11_display display =
     (case cut_char (CHR '':'') display of (host, rest, found) \<Rightarrow>
        case cut_char (CHR ''.'') rest of (number, screen, dotted) \<Rightarrow>
          if found \<and> host \<in> {[], ''unix'', ''unix/''} \<and> number \<noteq> [] \<and> all_digits number \<and>
             (\<not> dotted \<or> screen \<noteq> [] \<and> all_digits screen)
          then Some number else None)"

definition require_local_engine :: "daemon \<Rightarrow> surroundings \<Rightarrow> (gui_error, unit) result io" where
  "require_local_engine d su =
     (let host = su_getenv su ''DOCKER_HOST'';
          selectedContext = su_getenv su ''DOCKER_CONTEXT''
      in andThenE
        (if selectedContext \<noteq> [] \<or> host = [] then
           andThen (runner_capture d ([''docker'', ''context'', ''inspect''] @
               (if selectedContext \<noteq> [] then [selectedContext] else []) @
               [''--format'', ''{{.Endpoints.docker.Host}}'']))
             (\<lambda>(out, err, failure). case failure of
                Some e \<Rightarrow> failE (ContextUnavailable e)
              | None \<Rightarrow> okE (trim_space out))
         else okE host)
        (\<lambda>endpoint.
           if \<not> has_prefix endpoint ''unix:///'' then failE (RemoteEngine endpoint)
           else andThen (runner_capture d [''docker'', ''info'', ''--format'', ''{{.OperatingSystem}}''])
             (\<lambda>(out, err, failure). case failure of
                Some e \<Rightarrow> failE (EngineUnverified e)
              | None \<Rightarrow>
                  (let daemonOS = trim_space out in
                   if daemonOS = [] \<or> contains_str (to_lower daemonOS) ''docker desktop''
                   then failE DesktopEngine else okE ()))))"

definition require_socket :: "daemon \<Rightarrow> string \<Rightarrow> (gui_error, unit) result io" where
  "require_socket d path =
     andThen (sys d ''stat'' [path]) (\<lambda>a.
       case a of
         Info info \<Rightarrow>
           if \<not> fi_socket info then failE (NotASocket path)
           else andThen (sys d ''access'' [path, ''2'']) (\<lambda>b.
             if failed b then failE (SocketNotWritable path) else okE ())
       | Missing \<Rightarrow> failE (SocketMissing path)
       | _ \<Rightarrow> failE (SocketUnreadable path))"

definition require_socket_owned_by :: "daemon \<Rightarrow> string \<Rightarrow> int \<Rightarrow> (gui_error, unit) result io" where
  "require_socket_owned_by d path uid =
     andThenE (require_socket d path) (\<lambda>_.
       andThen (sys d ''stat'' [path]) (\<lambda>a.
         case a of
           Info info \<Rightarrow> if fi_uid info \<noteq> uid then failE (SocketForeign path uid) else okE ()
         | _ \<Rightarrow> failE (SocketUnreadable path)))"

definition replace_family :: "string \<Rightarrow> string" where
  "replace_family line = ''ffff'' @ drop 4 line"

definition x_authority :: "daemon \<Rightarrow> surroundings \<Rightarrow> string \<Rightarrow> (gui_error, string \<times> string) result io" where
  "x_authority d su display =
     (case (let env = su_getenv su ''XDG_STATE_HOME''; home = su_getenv su ''HOME'' in
            if env \<noteq> [] then Inr env
            else if home = [] then Inl StateHomeUnknown
            else Inr (path_join [home, ''.local'', ''state''])) of
        Inl e \<Rightarrow> failE e
      | Inr stateHome \<Rightarrow>
          if \<not> is_abs stateHome then failE StateHomeRelative
          else andThen (runner_capture d [''xauth'', ''nlist'', display]) (\<lambda>(out, err, failure).
            if failure \<noteq> None \<or> trim_space out = [] then failE (CredentialsUnreadable display)
            else let ls = split_char (CHR 0x0A) (trim_space out) in
              if list_ex (\<lambda>l. length l < 4) ls then failE CredentialsMalformed
              else okE (stateHome, join_char (CHR 0x0A) (map replace_family ls) @ [CHR 0x0A])))"

definition x11_selection ::
  "daemon \<Rightarrow> surroundings \<Rightarrow> workspace \<Rightarrow> asset_paths \<Rightarrow> (gui_error, selection) result io" where
  "x11_selection d su ws assets =
     (let display = su_getenv su ''DISPLAY'' in
      case x11_display display of
        None \<Rightarrow> failE (DisplayNotLocal display)
      | Some number \<Rightarrow>
          let socket = ''/tmp/.X11-unix/X'' @ number in
          andThenE (require_socket d socket) (\<lambda>_.
          andThenE (x_authority d su display) (\<lambda>(stateHome, authority).
            okE \<lparr>sel_mode = ''x11'', sel_file = ap_x11 assets,
              sel_env =
                [(''HCORRAL_GUI_MODE'', ''x11''), (''HCORRAL_X11_DISPLAY'', display),
                 (''HCORRAL_X11_SOCKET'', socket),
                 (''HCORRAL_X11_AUTHORITY'', path_join [stateHome, ''hcorral'', ''gui'', ws_project ws, ''xauthority''])],
              sel_reason = NoReason, sel_authority = authority, sel_state_home = stateHome,
              sel_project = ws_project ws\<rparr>)))"

definition wayland_selection ::
  "daemon \<Rightarrow> surroundings \<Rightarrow> asset_paths \<Rightarrow> (gui_error, selection) result io" where
  "wayland_selection d su assets =
     (let display = su_getenv su ''WAYLAND_DISPLAY'';
          runtimeDir = su_getenv su ''XDG_RUNTIME_DIR'' in
      if display = [] \<or> contains_any display [CHR 0x00, CHR 0x0D, CHR 0x0A] then failE WaylandDisplayMissing
      else case (if is_abs display then Inr (clean display)
                 else if CHR ''/'' \<in> set display then Inl WaylandDisplayPath
                 else if runtimeDir = [] \<or> \<not> is_abs runtimeDir then Inl RuntimeDirInvalid
                 else Inr (path_join [runtimeDir, display])) of
        Inl e \<Rightarrow> failE e
      | Inr socket \<Rightarrow>
          andThenE (require_socket_owned_by d socket (su_euid su)) (\<lambda>_.
            okE \<lparr>sel_mode = ''wayland'', sel_file = ap_wayland assets,
              sel_env = [(''HCORRAL_GUI_MODE'', ''wayland''), (''HCORRAL_WAYLAND_SOCKET'', socket)],
              sel_reason = NoReason, sel_authority = [], sel_state_home = [], sel_project = []\<rparr>))"

definition resolve_platform ::
  "daemon \<Rightarrow> surroundings \<Rightarrow> string \<Rightarrow> workspace \<Rightarrow> asset_paths \<Rightarrow> (gui_error, selection) result io" where
  "resolve_platform d su mode ws assets =
     andThenE (require_local_engine d su) (\<lambda>_.
       if mode = ''auto'' then
         andThen (wayland_selection d su assets) (\<lambda>r.
           case r of Inr sel \<Rightarrow> okE sel | Inl e \<Rightarrow> x11_selection d su ws assets)
       else if mode = ''x11'' then x11_selection d su ws assets
       else if mode = ''wayland'' then wayland_selection d su assets
       else failE (UnsupportedMode mode))"

definition discover ::
  "daemon \<Rightarrow> surroundings \<Rightarrow> gui_intent \<Rightarrow> workspace \<Rightarrow> asset_paths \<Rightarrow> (gui_error, selection) result io" where
  "discover d su intent ws assets =
     (if gui_mode intent = ''none'' then okE (headless DisabledExplicitly)
      else if \<not> gui_specified intent \<and> (su_getenv su ''SSH_CONNECTION'' \<noteq> [] \<or>
              su_getenv su ''SSH_CLIENT'' \<noteq> [] \<or> su_getenv su ''SSH_TTY'' \<noteq> [])
      then okE (headless OverSsh)
      else if \<not> gui_specified intent \<and> su_getenv su ''WAYLAND_DISPLAY'' = [] \<and> su_getenv su ''DISPLAY'' = []
      then okE (headless NoDisplay)
      else andThen (resolve_platform d su (if gui_specified intent then gui_mode intent else ''auto'') ws assets) (\<lambda>r.
        case r of
          Inl e \<Rightarrow> if \<not> gui_specified intent then okE (headless (BecauseOf e)) else failE e
        | Inr sel \<Rightarrow> okE sel))"

section \<open>Preparation\<close>

definition secure_state_directory :: "daemon \<Rightarrow> string \<Rightarrow> string list \<Rightarrow> (gui_error, unit) result io" where
  "secure_state_directory d root components =
     map_errE CredentialDirectory (secure_lock_directory d root components)"

text \<open>What follows the creation of the temporary file; its removal is deferred by the caller.\<close>

definition install_credential :: "daemon \<Rightarrow> string \<Rightarrow> string \<Rightarrow> (gui_error, unit) result io" where
  "install_credential d temporaryPath target =
     andThen (runner_run d [''xauth'', ''-f'', temporaryPath, ''nmerge'', ''-'']) (\<lambda>failure.
       if failure \<noteq> None then failE (CredentialStep ''xauth'' temporaryPath)
       else andThen (sys d ''stat'' [temporaryPath]) (\<lambda>a.
         case a of
           Info info \<Rightarrow>
             if fi_size info = 0 then failE CredentialEmpty
             else andThen (sys d ''rename'' [temporaryPath, target]) (\<lambda>b.
               if failed b then failE (CredentialStep ''rename'' target)
               else andThen (sys d ''chmod'' [target, ''0600'']) (\<lambda>c.
                 if failed c then failE (CredentialStep ''chmod'' target) else okE ()))
         | _ \<Rightarrow> failE CredentialEmpty))"

definition gui_prepare :: "daemon \<Rightarrow> selection \<Rightarrow> (gui_error, unit) result io" where
  "gui_prepare d sel =
     (if sel_mode sel \<noteq> ''x11'' \<or> sel_authority sel = [] then okE ()
      else let directory = path_join [sel_state_home sel, ''hcorral'', ''gui'', sel_project sel] in
      andThenE (secure_state_directory d (sel_state_home sel) [''hcorral'', ''gui'', sel_project sel]) (\<lambda>_.
        andThen (sys d ''chmod'' [directory, ''0700'']) (\<lambda>a.
          if failed a then failE (CredentialStep ''chmod'' directory)
          else andThenE (map_errE (\<lambda>e. CredentialStep ''createtemp'' directory)
              (new_temp d directory ''xauthority.*'')) (\<lambda>temporaryPath.
            andThenE (map_errE (\<lambda>e. CredentialStep ''createtemp'' temporaryPath)
              (temp_steps d temporaryPath [(''fchmod'', [''0600'']), (''close'', [])])) (\<lambda>_.
            andThen (install_credential d temporaryPath (path_join [directory, ''xauthority''])) (\<lambda>r.
            andThen (sys d ''remove'' [temporaryPath]) (\<lambda>_. ret r)))))))"

section \<open>Discovery only reads\<close>

definition read_only :: "event \<Rightarrow> bool" where
  "read_only e = (case e of
       Captured argv r \<Rightarrow> True
     | Sys name args a \<Rightarrow> name = ''stat'' \<or> name = ''access''
     | _ \<Rightarrow> False)"

lemma appends_runner_capture [io_rules]:
  "(\<And>r. Q (Captured argv r)) \<Longrightarrow> appends Q (runner_capture m argv)"
  by (simp add: appends_def runner_capture_def Let_def)

lemma appends_require_local_engine: "appends read_only (require_local_engine d su)"
  unfolding require_local_engine_def Let_def
  by (intro io_rules) (simp_all add: read_only_def)

lemma appends_require_socket: "appends read_only (require_socket d p)"
  unfolding require_socket_def
  by (intro io_rules) (auto simp: read_only_def io_rules split: answer.split intro!: io_rules)

lemma appends_require_socket_owned_by: "appends read_only (require_socket_owned_by d p u)"
  unfolding require_socket_owned_by_def
  by (intro io_rules appends_require_socket) (auto simp: read_only_def split: answer.split intro!: io_rules)

lemma appends_x_authority: "appends read_only (x_authority d su display)"
  unfolding x_authority_def Let_def by (intro io_rules) (simp_all add: read_only_def)

lemma appends_x11_selection: "appends read_only (x11_selection d su ws assets)"
  unfolding x11_selection_def Let_def
  by (intro io_rules appends_require_socket appends_x_authority)

lemma appends_wayland_selection: "appends read_only (wayland_selection d su assets)"
  unfolding wayland_selection_def Let_def
  by (intro io_rules appends_require_socket_owned_by)

lemma appends_discover: "appends read_only (discover d su intent ws assets)"
  unfolding discover_def resolve_platform_def
  by (intro io_rules appends_require_local_engine appends_x11_selection appends_wayland_selection)

section \<open>What a forwarding selection rests on\<close>

definition engine_verified :: "event list \<Rightarrow> bool" where
  "engine_verified es \<longleftrightarrow>
     (\<exists>r. Captured [''docker'', ''info'', ''--format'', ''{{.OperatingSystem}}''] r \<in> set es \<and>
        oc_fail r = None \<and> trim_space (oc_out r) \<noteq> [] \<and>
        \<not> contains_str (to_lower (trim_space (oc_out r))) ''docker desktop'')"

definition socket_verified :: "string \<Rightarrow> event list \<Rightarrow> bool" where
  "socket_verified path es \<longleftrightarrow>
     (\<exists>info a. Sys ''stat'' [path] (Info info) \<in> set es \<and> fi_socket info \<and>
        Sys ''access'' [path, ''2''] a \<in> set es \<and> \<not> failed a)"

lemma verified_append:
  "engine_verified es \<or> engine_verified fs \<Longrightarrow> engine_verified (es @ fs)"
  "socket_verified p es \<or> socket_verified p fs \<Longrightarrow> socket_verified p (es @ fs)"
  unfolding engine_verified_def socket_verified_def by (simp; blast)+

text \<open>
  \<open>yields m P\<close>: whenever \<open>m\<close> succeeds with \<open>v\<close>, it has appended events \<open>es\<close> with \<open>P v es\<close>.
\<close>

definition yields :: "('e, 'a) result io \<Rightarrow> ('a \<Rightarrow> event list \<Rightarrow> bool) \<Rightarrow> bool" where
  "yields m P \<longleftrightarrow> (\<forall>h v h'. m h = (Inr v, h') \<longrightarrow> (\<exists>es. h' = h @ es \<and> P v es))"

lemma yieldsD: "yields m P \<Longrightarrow> m h = (Inr v, h') \<Longrightarrow> \<exists>es. h' = h @ es \<and> P v es"
  by (auto simp: yields_def)

lemma yields_okE: "P v [] \<Longrightarrow> yields (okE v) P"
  by (simp add: yields_def)

lemma yields_failE: "yields (failE e) P"
  by (simp add: yields_def)

lemma yields_andThenE:
  assumes "yields m P" "\<And>v. yields (f v) (\<lambda>w fs. \<forall>es. P v es \<longrightarrow> Q w (es @ fs))"
  shows "yields (andThenE m f) Q"
  unfolding yields_def
proof (intro allI impI)
  fix h w h'
  assume "andThenE m f h = (Inr w, h')"
  then obtain v h1 where 1: "m h = (Inr v, h1)" "f v h1 = (Inr w, h')" by (elim andThenE_cases) auto
  obtain es where "h1 = h @ es" "P v es" using yieldsD [OF assms(1) 1(1)] by blast
  moreover obtain fs where "h' = h1 @ fs" "\<forall>es. P v es \<longrightarrow> Q w (es @ fs)"
    using yieldsD [OF assms(2) 1(2)] by blast
  ultimately show "\<exists>es. h' = h @ es \<and> Q w es" by (intro exI [of _ "es @ fs"]) simp
qed

lemma yields_mono: "yields m P \<Longrightarrow> (\<And>v es. P v es \<Longrightarrow> Q v es) \<Longrightarrow> yields m Q"
  unfolding yields_def by blast

lemma runner_capture_apply:
  "\<not> empty_argv argv \<Longrightarrow> runner_capture m argv h =
     ((oc_out (m_exec m h argv), oc_err (m_exec m h argv),
       command_error (oc_ctx (m_exec m h argv)) (oc_fail (m_exec m h argv))), h @ [Captured argv (m_exec m h argv)])"
  by (simp add: runner_capture_def Let_def)

lemma yields_require_local_engine: "yields (require_local_engine d su) (\<lambda>_. engine_verified)"
  unfolding require_local_engine_def Let_def
proof (rule yields_andThenE)
  show "yields (if su_getenv su ''DOCKER_CONTEXT'' \<noteq> [] \<or> su_getenv su ''DOCKER_HOST'' = [] then
       andThen (runner_capture d ([''docker'', ''context'', ''inspect''] @
           (if su_getenv su ''DOCKER_CONTEXT'' \<noteq> [] then [su_getenv su ''DOCKER_CONTEXT''] else []) @
           [''--format'', ''{{.Endpoints.docker.Host}}'']))
         (\<lambda>(out, err, failure). case failure of
            Some e \<Rightarrow> failE (ContextUnavailable e) | None \<Rightarrow> okE (trim_space out))
     else okE (su_getenv su ''DOCKER_HOST'')) (\<lambda>_ _. True)"
    by (auto simp: yields_def andThen_def runner_capture_def Let_def split: option.splits if_splits)
next
  show "yields (if \<not> has_prefix endpoint ''unix:///'' then failE (RemoteEngine endpoint)
     else andThen (runner_capture d [''docker'', ''info'', ''--format'', ''{{.OperatingSystem}}''])
       (\<lambda>(out, err, failure). case failure of
          Some e \<Rightarrow> failE (EngineUnverified e)
        | None \<Rightarrow>
            if trim_space out = [] \<or> contains_str (to_lower (trim_space out)) ''docker desktop''
            then failE DesktopEngine else okE ()))
     (\<lambda>_ fs. \<forall>es. True \<longrightarrow> engine_verified (es @ fs))" for endpoint
    by (auto simp: yields_def andThen_def runner_capture_apply empty_argv_def engine_verified_def
        split: option.splits if_splits)
qed

lemma yields_require_socket: "yields (require_socket d p) (\<lambda>_. socket_verified p)"
  by (auto simp: yields_def require_socket_def andThen_def sys_def Let_def socket_verified_def
      split: answer.splits if_splits)

lemma yields_require_socket_owned_by: "yields (require_socket_owned_by d p u) (\<lambda>_. socket_verified p)"
  unfolding require_socket_owned_by_def
  by (rule yields_andThenE [OF yields_require_socket])
    (auto simp: yields_def andThen_def sys_def Let_def verified_append split: answer.splits if_splits)

text \<open>The socket a selection forwards, by mode.\<close>

definition forwarded_socket :: "selection \<Rightarrow> string" where
  "forwarded_socket sel =
     label (sel_env sel) (if sel_mode sel = ''x11'' then ''HCORRAL_X11_SOCKET'' else ''HCORRAL_WAYLAND_SOCKET'')"

lemma yields_x11_selection:
  "yields (x11_selection d su ws assets) (\<lambda>sel. socket_verified (forwarded_socket sel))"
proof -
  have any: "yields (x_authority d su display) (\<lambda>_ _. True)" for display
    using appends_x_authority [of d su display]
    by (auto simp: yields_def) (metis appendsD)
  show ?thesis
  proof (cases "x11_display (su_getenv su ''DISPLAY'')")
    case None
    then show ?thesis by (simp add: x11_selection_def Let_def yields_failE)
  next
    case (Some number)
    then show ?thesis
      unfolding x11_selection_def Let_def
      by (simp, intro yields_andThenE [OF yields_require_socket] yields_andThenE [OF any])
        (auto intro!: yields_okE simp: forwarded_socket_def label_def verified_append split: prod.split)
  qed
qed

lemma yields_wayland_selection:
  "yields (wayland_selection d su assets) (\<lambda>sel. socket_verified (forwarded_socket sel))"
  unfolding wayland_selection_def Let_def
  by (auto intro!: yields_failE yields_andThenE [OF yields_require_socket_owned_by] yields_okE
      simp: forwarded_socket_def label_def verified_append split: sum.split)

lemma yields_auto:
  assumes "yields m P" "yields n P" "appends Q m" "\<And>v es fs. P v fs \<Longrightarrow> P v (es @ fs)"
  shows "yields (andThen m (\<lambda>r. case r of Inr sel \<Rightarrow> okE sel | Inl e \<Rightarrow> n)) P"
  unfolding yields_def
proof (intro allI impI)
  fix h v h'
  assume "andThen m (\<lambda>r. case r of Inr sel \<Rightarrow> okE sel | Inl e \<Rightarrow> n) h = (Inr v, h')"
  then obtain r h1 where m: "m h = (r, h1)" and k: "(case r of Inr sel \<Rightarrow> okE sel | Inl e \<Rightarrow> n) h1 = (Inr v, h')"
    by (elim andThen_result)
  show "\<exists>es. h' = h @ es \<and> P v es"
  proof (cases r)
    case (Inr sel)
    with m k yieldsD [OF assms(1)] show ?thesis by auto
  next
    case (Inl e)
    obtain es where "h1 = h @ es" using appendsD [OF assms(3) m] by blast
    with Inl k yieldsD [OF assms(2)] assms(4) show ?thesis by (metis append_assoc old.sum.simps(5))
  qed
qed

lemma yields_resolve_platform:
  "yields (resolve_platform d su mode ws assets)
     (\<lambda>sel es. engine_verified es \<and> socket_verified (forwarded_socket sel) es)"
proof -
  let ?P = "\<lambda>sel. socket_verified (forwarded_socket sel)"
  have step: "yields m (\<lambda>sel fs. \<forall>es. engine_verified es \<longrightarrow> engine_verified (es @ fs) \<and> ?P sel (es @ fs))"
    if "yields m ?P" for m :: "(gui_error, selection) result io"
    using that by (rule yields_mono) (simp add: verified_append)
  have automatic: "yields (andThen (wayland_selection d su assets) (\<lambda>r.
           case r of Inr sel \<Rightarrow> okE sel | Inl e \<Rightarrow> x11_selection d su ws assets)) ?P"
    by (rule yields_auto [OF yields_wayland_selection yields_x11_selection appends_wayland_selection])
      (simp add: verified_append)
  show ?thesis
    unfolding resolve_platform_def
    by (rule yields_andThenE [OF yields_require_local_engine])
      (auto intro!: step automatic yields_x11_selection yields_wayland_selection yields_failE)
qed

lemma discover_verified:
  assumes "discover d su intent ws assets h = (Inr sel, h')" "sel_mode sel \<noteq> ''none''"
  shows "\<exists>es. h' = h @ es \<and> list_all read_only es \<and> engine_verified es \<and>
    socket_verified (forwarded_socket sel) es"
proof -
  obtain es where es: "h' = h @ es" "\<forall>e \<in> set es. read_only e"
    using appendsD [OF appends_discover assms(1)] .
  have "resolve_platform d su (if gui_specified intent then gui_mode intent else ''auto'') ws assets h = (Inr sel, h')"
    using assms unfolding discover_def
    by (auto simp: headless_def elim!: andThen_result split: if_splits sum.splits)
  from yieldsD [OF yields_resolve_platform this] es show ?thesis by (auto simp: list_all_iff)
qed

section \<open>Properties\<close>


definition desktop_daemon :: daemon where
  "desktop_daemon =
     \<lparr>m_exec = (\<lambda>h argv. \<lparr>oc_out = ''Ubuntu'', oc_err = [], oc_fail = None, oc_ctx = None\<rparr>),
      m_look_path = (\<lambda>h s. None), m_replace = (\<lambda>h a. None), m_lock = (\<lambda>h p. True),
      m_sys = (\<lambda>h n a. Info \<lparr>fi_dir = False, fi_symlink = False, fi_regular = False, fi_socket = True,
        fi_uid = 0, fi_size = 0\<rparr>),
      dec_containers = (\<lambda>s. None), dec_volumes = (\<lambda>s. None), dec_networks = (\<lambda>s. None),
      dec_images = (\<lambda>s. None), dec_project = (\<lambda>s. None)\<rparr>"

definition desktop_surroundings :: surroundings where
  "desktop_surroundings = plain_surroundings
     \<lparr>su_getenv := (\<lambda>k. if k = ''WAYLAND_DISPLAY'' then ''/run/w'' else if k = ''DOCKER_HOST'' then ''unix:///d'' else [])\<rparr>"

definition desktop_assets :: asset_paths where
  "desktop_assets = \<lparr>ap_base = ''b'', ap_x11 = ''x'', ap_wayland = ''w''\<rparr>"

definition desktop_workspace :: workspace where
  "desktop_workspace = \<lparr>ws_path = ''/w'', ws_base = ''w'', ws_slug = ''w'', ws_full_id = ''id'', ws_short_id = ''id'',
     ws_corral_id = ''c'', ws_corral_short_id = ''c'', ws_harness = ''codex'', ws_project = ''p'', ws_generated = False\<rparr>"


end
