(* ===== verification/Legacy_Guard.thy ===== *)
theory Legacy_Guard
  imports Identity
begin

text \<open>
  The guard against myCodex environments (\<open>internal/legacyguard/guard.go\<close>).
\<close>

record legacy_match =
  lm_container :: string
  lm_state :: string
  lm_reason :: string

definition has_workspace_bind :: "container \<Rightarrow> string \<Rightarrow> bool" where
  "has_workspace_bind c workspacePath =
     list_ex (\<lambda>m. mt_type m = ''bind'' \<and> mt_source m = workspacePath \<and> mt_destination m = workspacePath)
       (c_mounts c)"

definition legacy_label :: string where
  "legacy_label = ''io.infrasecture.mycodex.''"

definition legacy_image :: string where
  "legacy_image = ''ghcr.io/infrasecture/harness-workstation:''"

definition service_marker :: "container \<Rightarrow> bool" where
  "service_marker c = (label (c_labels c) label_compose_service = ''codex'')"

definition name_marker :: "container \<Rightarrow> bool" where
  "name_marker c = has_suffix (clean_name c) ''-codex''"

definition image_marker :: "container \<Rightarrow> bool" where
  "image_marker c = has_prefix (c_image c) legacy_image"

text \<open>\<open>legacyEvidence\<close>: the reason (empty for none) and whether it is ambiguous.\<close>

definition legacy_evidence :: "container \<Rightarrow> string \<times> bool" where
  "legacy_evidence c =
     (if list_ex (\<lambda>key. has_prefix key legacy_label) (keys_of (c_labels c))
      then (''myCodex label and same-path workspace bind'', False)
      else if service_marker c \<and> name_marker c
      then (''myCodex Compose service/name and same-path workspace bind'', False)
      else if image_marker c \<and> name_marker c
      then (''myCodex image/name and same-path workspace bind'', False)
      else let markers =
        (if service_marker c then [''Compose service codex''] else []) @
        (if name_marker c then [''container name ending in -codex''] else []) @
        (if image_marker c then [''legacy workstation image''] else [])
      in if markers \<noteq> [] then (join_str '', '' markers @ '' with same-path workspace bind'', True)
         else ([], False))"

fun find_legacy :: "container list \<Rightarrow> string \<Rightarrow> legacy_match option" where
  "find_legacy [] workspacePath = None"
| "find_legacy (c # cs) workspacePath =
     (if \<not> has_workspace_bind c workspacePath then find_legacy cs workspacePath
      else case legacy_evidence c of (reason, ambiguous) \<Rightarrow>
        if reason \<noteq> [] then
          Some \<lparr>lm_container = clean_name c, lm_state = c_status c,
                lm_reason = (if ambiguous then ''ambiguous myCodex evidence: '' @ reason else reason)\<rparr>
        else find_legacy cs workspacePath)"

text \<open>The evidence as one condition: any of the four signs.\<close>

definition legacy_signs :: "container \<Rightarrow> bool" where
  "legacy_signs c \<longleftrightarrow> (\<exists>k \<in> dom (map_of (c_labels c)). has_prefix k legacy_label) \<or>
     service_marker c \<or> name_marker c \<or> image_marker c"

lemma join_str_nonempty: "\<forall>x \<in> set xs. x \<noteq> [] \<Longrightarrow> xs \<noteq> [] \<Longrightarrow> join_str s xs \<noteq> []"
  by (induction s xs rule: join_str.induct) auto

lemma legacy_evidence_iff: "fst (legacy_evidence c) \<noteq> [] \<longleftrightarrow> legacy_signs c"
  by (auto simp: legacy_evidence_def legacy_signs_def Let_def list_ex_iff join_str_nonempty)

lemma find_legacy_None:
  "find_legacy cs w = None \<longleftrightarrow> (\<forall>c \<in> set cs. has_workspace_bind c w \<longrightarrow> \<not> legacy_signs c)"
proof (induction cs)
  case (Cons c cs)
  then show ?case using legacy_evidence_iff [of c] by (auto split: prod.splits)
qed simp

section \<open>Properties\<close>


end
