(* ===== verification/Launch_Facts.thy ===== *)
theory Launch_Facts
  imports State Gui Legacy_Guard Harness
begin

text \<open>
  What the launcher reads from containers, rendered projects and arguments
  (\<open>internal/app/launch.go\<close>, \<open>startup.go\<close>, \<open>attach.go\<close>, \<open>info.go\<close>): the pure part of the
  application, without effects.  An error that \<open>fail\<close> prints is a value of \<open>app_error\<close>.
\<close>

section \<open>Errors and exits\<close>

datatype app_error =
    AppDocker docker_error
  | AppLock lock_error
  | AppState state_error
  | AppCompose compose_error
  | AppGui gui_error
  | AppOwnership ownership_error
  | IncompleteOwnership string string
  | ConflictingWorkspace string string
  | ConflictingCorral string string
  | AmbiguousPrimary string string
  | ProjectResidue string
  | GuiOnMac string
  | GuiLabelUnsupported string
  | GuiEvidenceMissing string
  | GuiModeDiffers string string
  | NotRunning
  | DoesNotExist
  | NoArguments string
  | ExecNeedsCommand
  | RenderedWithoutImage
  | PulledButUnavailable string
  | RefreshFailed string cmd_error
  | PullFailed cmd_error
  | LegacyAppeared string
  | ContainerChanged
  | ContainerStateChanged string
  | NotStopped string
  | ProjectChanged
  | ReadinessTimedOut
  | ReadinessFailed string
  | StillWaiting
  | RecoveryFailed docker_error
  | NoRetainedNotices
  | ReplaceFailed cmd_error
  | StartedGone
  | StateUsage
  | VolumeNotOwned string string
  | VolumeReferenced string nat
  | InfoUsage
  | EncodeFailed

text \<open>
  How the process ends: a return code with the message of \<open>fail\<close>, the refusal of a legacy
  environment (code 3), or the process image replaced, after which nothing of the launcher runs.
\<close>

datatype exit = Done | Fail int app_error | LegacyRefused legacy_match | Became

definition exit_code :: "exit \<Rightarrow> int" where
  "exit_code x = (case x of Done \<Rightarrow> 0 | Fail n e \<Rightarrow> n | LegacyRefused l \<Rightarrow> 3 | Became \<Rightarrow> 0)"

text \<open>The launcher: its surroundings, and what else the application reads of the process.\<close>

record launcher = surroundings +
  ln_locks :: lock_env
  ln_version :: string
  ln_commit :: string
  ln_terminal :: bool
  ln_notices :: string
  ln_exit_status :: "cmd_error \<Rightarrow> int"
  ln_error_text :: "app_error \<Rightarrow> string"
  ln_clock :: "history \<Rightarrow> int"
  ln_print :: "nat \<Rightarrow> bool"
  ln_decode_tag :: "string \<Rightarrow> string option"
  ln_decode_release :: "string \<Rightarrow> (string, string \<times> string) result"

abbreviation around :: "launcher \<Rightarrow> surroundings" where
  "around ln \<equiv> surroundings.truncate ln"

section \<open>Containers of a project\<close>

definition find_container :: "container list \<Rightarrow> string \<Rightarrow> container option" where
  "find_container containers name = find (\<lambda>c. clean_name c = name) containers"

text \<open>The loop of \<open>verifyProjectContainers\<close> with its counter \<open>members\<close>.\<close>

fun verify_members ::
  "workspace \<Rightarrow> container option \<Rightarrow> nat \<Rightarrow> container list \<Rightarrow> app_error option" where
  "verify_members ws primary members [] =
     (if members > 0 \<and> primary = None then Some (ProjectResidue (ws_project ws)) else None)"
| "verify_members ws primary members (c # cs) =
     (let ls = c_labels c in
      if label ls label_compose_project \<noteq> ws_project ws then verify_members ws primary members cs
      else if label ls label_compose_service = []
      then Some (IncompleteOwnership (clean_name c) (ws_project ws))
      else if label ls label_workspace_id \<noteq> [] \<and> label ls label_workspace_id \<noteq> ws_full_id ws
      then Some (ConflictingWorkspace (clean_name c) (label ls label_workspace_id))
      else if label ls label_corral_id \<noteq> [] \<and> label ls label_corral_id \<noteq> ws_corral_id ws
      then Some (ConflictingCorral (clean_name c) (label ls label_corral_id))
      else if label ls label_compose_service = ''hcorral'' \<and>
              (case primary of None \<Rightarrow> True
               | Some p \<Rightarrow> clean_name c \<noteq> ws_project ws \<or> c_id c \<noteq> c_id p)
      then Some (AmbiguousPrimary (ws_project ws) (clean_name c))
      else verify_members ws primary (Suc members) cs)"

definition verify_project_containers ::
  "container list \<Rightarrow> workspace \<Rightarrow> container option \<Rightarrow> app_error option" where
  "verify_project_containers containers ws primary = verify_members ws primary 0 containers"

definition deployed_gui :: "container option \<Rightarrow> string" where
  "deployed_gui co =
     (case co of
        None \<Rightarrow> ''none''
      | Some c \<Rightarrow> let mode = label (c_labels c) label_gui in if mode = [] then ''none'' else mode)"

definition env_value :: "string list \<Rightarrow> string \<Rightarrow> string" where
  "env_value env key =
     (case find (\<lambda>item. has_prefix item (key @ ''='')) env of
        None \<Rightarrow> [] | Some item \<Rightarrow> trim_prefix item (key @ ''=''))"

definition container_env :: "container \<Rightarrow> string \<Rightarrow> string" where
  "container_env c key = env_value (c_env c) key"

record runtime_settings =
  rs_uid :: string
  rs_home :: string
  rs_session :: string
  rs_workdir :: string

definition value_or_empty :: "string \<Rightarrow> string \<Rightarrow> string" where
  "value_or_empty v fallback = (if v = [] then fallback else v)"

definition deployed_settings :: "('l) surroundings_scheme \<Rightarrow> config \<Rightarrow> container option \<Rightarrow> runtime_settings" where
  "deployed_settings su cfg co =
     (let deployed = (\<lambda>key fallback. case co of
            None \<Rightarrow> fallback
          | Some c \<Rightarrow> let v = container_env c key in if v \<noteq> [] then v else fallback)
      in \<lparr>rs_uid = deployed ''HCORRAL_HOST_UID'' (itoa (su_euid su)),
          rs_home = deployed ''HCORRAL_CONTAINER_HOME'' (cfg_container_home cfg),
          rs_session = deployed ''HCORRAL_BYOBU_SESSION'' (cfg_session cfg),
          rs_workdir = deployed ''HCORRAL_WORKDIR'' (cfg_workdir cfg)\<rparr>)"

text \<open>\<open>adoptDeployedState\<close>: the first volume mounted at the deployed home decides.\<close>

definition adopt_deployed_state ::
  "('l) surroundings_scheme \<Rightarrow> config \<Rightarrow> container \<Rightarrow> workspace \<Rightarrow> config" where
  "adopt_deployed_state su cfg c ws =
     (let home = rs_home (deployed_settings su cfg (Some c)) in
      case find (\<lambda>m. \<not> (mt_type m \<noteq> ''volume'' \<or> mt_destination m \<noteq> home)) (c_mounts c) of
        None \<Rightarrow> cfg
      | Some m \<Rightarrow>
          set_source ''state'' ''deployed''
            (if mt_name m = workspace_volume_name ws
             then cfg\<lparr>cfg_state_mode := StatePrivate, cfg_state_volume_name := []\<rparr>
             else if mt_name m = shared_state_name
             then cfg\<lparr>cfg_state_mode := StateShared, cfg_state_volume_name := []\<rparr>
             else cfg\<lparr>cfg_state_mode := StateCustom, cfg_state_volume_name := mt_name m\<rparr>))"

definition state_of :: "container option \<Rightarrow> string" where
  "state_of co = (case co of None \<Rightarrow> ''absent'' | Some c \<Rightarrow> c_status c)"

definition stopped :: "container option \<Rightarrow> bool" where
  "stopped co =
     (case co of None \<Rightarrow> False
      | Some c \<Rightarrow> \<not> c_running c \<and> \<not> c_paused c \<and> \<not> c_restarting c \<and>
          (c_status c = ''exited'' \<or> c_status c = ''created''))"

definition active :: "container option \<Rightarrow> bool" where
  "active co =
     (case co of None \<Rightarrow> False | Some c \<Rightarrow> c_running c \<and> \<not> c_paused c \<and> \<not> c_restarting c)"

text \<open>The names \<open>warnCorralMultiplicity\<close> warns of.\<close>

definition other_projects :: "container list \<Rightarrow> workspace \<Rightarrow> string list" where
  "other_projects containers ws =
     sort (remdups (filter (\<lambda>p. p \<noteq> [] \<and> p \<noteq> ws_project ws)
       (map (\<lambda>c. label (c_labels c) label_compose_project)
         (filter (\<lambda>c. label (c_labels c) label_corral_id = ws_corral_id ws) containers))))"

section \<open>The selection a container was deployed with\<close>

definition set_env :: "string \<Rightarrow> string \<Rightarrow> labels \<Rightarrow> labels" where
  "set_env key v env = AList.update key v env"

definition x11_env :: "container \<Rightarrow> labels" where
  "x11_env c =
     fold (\<lambda>m env.
       let env1 = (if mt_destination m = ''/tmp/.hcorral-xauthority''
                   then set_env ''HCORRAL_X11_AUTHORITY'' (mt_source m) env else env)
       in if has_prefix (mt_destination m) ''/tmp/.X11-unix/X''
          then set_env ''HCORRAL_X11_SOCKET'' (mt_source m) env1 else env1)
     (c_mounts c)
     [(''HCORRAL_GUI_MODE'', ''x11''), (''HCORRAL_X11_DISPLAY'', container_env c ''DISPLAY''),
      (''HCORRAL_X11_AUTHORITY'', []), (''HCORRAL_X11_SOCKET'', [])]"

definition wayland_env :: "container \<Rightarrow> labels" where
  "wayland_env c =
     fold (\<lambda>m env.
       if mt_destination m = ''/tmp/.hcorral-wayland''
       then set_env ''HCORRAL_WAYLAND_SOCKET'' (mt_source m) env else env)
     (c_mounts c) [(''HCORRAL_GUI_MODE'', ''wayland''), (''HCORRAL_WAYLAND_SOCKET'', [])]"

definition bare_selection :: "string \<Rightarrow> string \<Rightarrow> labels \<Rightarrow> selection" where
  "bare_selection mode path env = \<lparr>sel_mode = mode, sel_file = path, sel_env = env, sel_reason = NoReason,
     sel_authority = [], sel_state_home = [], sel_project = []\<rparr>"

definition complete_env :: "labels \<Rightarrow> bool" where
  "complete_env env = list_all (\<lambda>key. key = ''HCORRAL_GUI_MODE'' \<or> label env key \<noteq> []) (keys_of env)"

definition selection_from_container :: "container \<Rightarrow> asset_paths \<Rightarrow> (app_error, selection) result" where
  "selection_from_container c assets =
     (let mode = deployed_gui (Some c);
          finish = (\<lambda>sel. if complete_env (sel_env sel) then Inr sel else Inl (GuiEvidenceMissing mode))
      in if mode = ''none'' then Inr (bare_selection mode [] [(''HCORRAL_GUI_MODE'', mode)])
         else if mode = ''x11'' then finish (bare_selection mode (ap_x11 assets) (x11_env c))
         else if mode = ''wayland'' then finish (bare_selection mode (ap_wayland assets) (wayland_env c))
         else Inl (GuiLabelUnsupported mode))"

section \<open>Rendered projects\<close>

definition rendered_image :: "rendered \<Rightarrow> (app_error, string) result" where
  "rendered_image rd =
     (case map_of (rd_services rd) ''hcorral'' of
        None \<Rightarrow> Inl RenderedWithoutImage
      | Some img \<Rightarrow> if img = [] then Inl RenderedWithoutImage else Inr img)"

definition label_config_hash :: string where
  "label_config_hash = ''com.docker.compose.config-hash''"

text \<open>\<open>compareDrift\<close>: the verdict and its detail; Go visits the services in any order.\<close>

definition compare_drift :: "rendered \<Rightarrow> labels \<Rightarrow> string \<times> string" where
  "compare_drift rd deployed =
     (if keys_of (rd_hashes rd) = [] then (''unknown'', ''Compose config hash unavailable'')
      else if keys_of deployed = [] then (''not-deployed'', ''no deployed services'')
      else if length (keys_of deployed) \<noteq> length (keys_of (rd_services rd))
      then (''present'', ''service set differs'')
      else case find (\<lambda>s. label (rd_hashes rd) s = [] \<or> label deployed s \<noteq> label (rd_hashes rd) s)
          (keys_of (rd_services rd)) of
        Some s \<Rightarrow> (''present'', ''service '' @ s @ '' hash differs'')
      | None \<Rightarrow> (''none'', []))"

definition deployed_hashes :: "container list \<Rightarrow> workspace \<Rightarrow> labels" where
  "deployed_hashes containers ws =
     fold (\<lambda>c m.
       if label (c_labels c) label_compose_project = ws_project ws
       then AList.update (label (c_labels c) label_compose_service) (label (c_labels c) label_config_hash) m
       else m)
     containers []"

definition hash_char :: "char \<Rightarrow> bool" where
  "hash_char c = (CHR ''a'' \<le> c \<and> c \<le> CHR ''f'' \<or> is_digit c)"

definition compose_hash_pattern :: "string \<Rightarrow> bool" where
  "compose_hash_pattern s = (length s = 64 \<and> list_all hash_char s)"

fun reproducible_loop :: "rendered \<Rightarrow> workspace \<Rightarrow> labels \<Rightarrow> container list \<Rightarrow> bool" where
  "reproducible_loop rd ws deployed [] = (fst (compare_drift rd deployed) = ''none'')"
| "reproducible_loop rd ws deployed (c # cs) =
     (if label (c_labels c) label_compose_project \<noteq> ws_project ws
      then reproducible_loop rd ws deployed cs
      else let service = label (c_labels c) label_compose_service;
               hash = label (c_labels c) label_config_hash
      in if \<not> compose_hash_pattern hash \<or> label (rd_hashes rd) service \<noteq> hash then False
         else reproducible_loop rd ws (AList.update service hash deployed) cs)"

definition reproducible_project :: "rendered \<Rightarrow> container list \<Rightarrow> workspace \<Rightarrow> bool" where
  "reproducible_project rd containers ws = reproducible_loop rd ws [] containers"

section \<open>Arguments\<close>

definition has_any :: "string list \<Rightarrow> string list \<Rightarrow> bool" where
  "has_any args values = list_ex (\<lambda>arg. list_ex (\<lambda>v. arg = v) values) args"

definition has_build_or_pull :: "string list \<Rightarrow> bool" where
  "has_build_or_pull args =
     list_ex (\<lambda>arg. arg = ''--build'' \<or> arg = ''--pull'' \<or> has_prefix arg ''--pull='') args"

definition safe_reconcile_args :: "string list \<Rightarrow> string list" where
  "safe_reconcile_args args =
     (let result = (if \<not> has_any args [''--build'', ''--no-build''] then ''--no-build'' # args else args)
      in if \<not> has_build_or_pull result then ''--pull'' # ''never'' # result else result)"

definition command_name :: "string list \<Rightarrow> string" where
  "command_name command = (if command = [] then ''attach'' else hd command)"

definition compose_command_mutates :: "string \<Rightarrow> bool" where
  "compose_command_mutates name =
     (name \<notin> set [''info'', ''ps'', ''config'', ''images'', ''logs'', ''top'', ''events'', ''version'',
        ''help'', ''attach'', ''exec''])"

section \<open>What the checks say\<close>

text \<open>A container of the project that \<open>verifyProjectContainers\<close> accepts.\<close>

definition in_project :: "workspace \<Rightarrow> container \<Rightarrow> bool" where
  "in_project ws c \<longleftrightarrow> label (c_labels c) label_compose_project = ws_project ws"

definition accepted_member :: "workspace \<Rightarrow> container option \<Rightarrow> container \<Rightarrow> bool" where
  "accepted_member ws primary c \<longleftrightarrow>
     (let ls = c_labels c in
      label ls label_compose_service \<noteq> [] \<and>
      label ls label_workspace_id \<in> {[], ws_full_id ws} \<and>
      label ls label_corral_id \<in> {[], ws_corral_id ws} \<and>
      (label ls label_compose_service = ''hcorral'' \<longrightarrow>
         clean_name c = ws_project ws \<and> map_option c_id primary = Some (c_id c)))"

lemma verify_members_step:
  assumes "in_project ws c"
  shows "verify_members ws primary n (c # cs) = None \<longleftrightarrow>
    accepted_member ws primary c \<and> verify_members ws primary (Suc n) cs = None"
  using assms by (cases primary) (auto simp: Let_def in_project_def accepted_member_def)

lemma verify_members_iff:
  "verify_members ws primary n cs = None \<longleftrightarrow>
     (\<forall>c \<in> set cs. in_project ws c \<longrightarrow> accepted_member ws primary c) \<and>
     (primary = None \<longrightarrow> n = 0 \<and> (\<forall>c \<in> set cs. \<not> in_project ws c))"
proof (induction cs arbitrary: n)
  case (Cons c cs)
  show ?case
  proof (cases "in_project ws c")
    case True
    show ?thesis unfolding verify_members_step [OF True] Cons.IH using True by auto
  next
    case False
    then have "verify_members ws primary n (c # cs) = verify_members ws primary n cs"
      by (simp add: Let_def in_project_def)
    with False Cons.IH show ?thesis by simp
  qed
qed auto

lemma find_container_name: "find_container cs name = Some c \<Longrightarrow> c \<in> set cs \<and> clean_name c = name"
  by (auto simp: find_container_def find_Some_iff)

text \<open>The loop of \<open>reproducibleProject\<close>: every container of the project was seen with a matching hash.\<close>

definition matching_hash :: "rendered \<Rightarrow> container \<Rightarrow> bool" where
  "matching_hash rd c \<longleftrightarrow>
     (let hash = label (c_labels c) label_config_hash in
      compose_hash_pattern hash \<and> label (rd_hashes rd) (label (c_labels c) label_compose_service) = hash)"

definition collect_hashes :: "workspace \<Rightarrow> labels \<Rightarrow> container list \<Rightarrow> labels" where
  "collect_hashes ws m cs =
     fold (\<lambda>c. AList.update (label (c_labels c) label_compose_service) (label (c_labels c) label_config_hash))
       (filter (in_project ws) cs) m"

lemma reproducible_loop_iff:
  "reproducible_loop rd ws m cs \<longleftrightarrow>
     (\<forall>c \<in> set cs. in_project ws c \<longrightarrow> matching_hash rd c) \<and>
     fst (compare_drift rd (collect_hashes ws m cs)) = ''none''"
  by (induction rd ws m cs rule: reproducible_loop.induct)
    (auto simp: in_project_def matching_hash_def collect_hashes_def Let_def)

lemma collect_hashes_source:
  assumes "map_of (collect_hashes ws [] cs) s = Some h"
  shows "\<exists>c \<in> set cs. in_project ws c \<and> label (c_labels c) label_compose_service = s \<and>
    label (c_labels c) label_config_hash = h"
  using assms
proof (induction cs rule: rev_induct)
  case (snoc c cs)
  show ?case
  proof (cases "in_project ws c \<and> label (c_labels c) label_compose_service = s")
    case True
    with snoc.prems show ?thesis by (auto simp: collect_hashes_def update_conv)
  next
    case False
    with snoc.prems have "map_of (collect_hashes ws [] cs) s = Some h"
      by (auto simp: collect_hashes_def update_conv split: if_splits)
    from snoc.IH [OF this] show ?thesis by auto
  qed
qed (simp add: collect_hashes_def)

lemma collect_hashes_dom:
  assumes "c \<in> set cs" "in_project ws c"
  shows "label (c_labels c) label_compose_service \<in> dom (map_of (collect_hashes ws [] cs))"
  using assms
proof (induction cs rule: rev_induct)
  case (snoc x xs)
  then show ?case by (cases "x = c") (auto simp: collect_hashes_def update_conv dom_def)
qed simp

lemma label_dom: "label m k \<noteq> [] \<Longrightarrow> k \<in> dom (map_of m)"
  by (auto simp: label_def split: option.splits)

lemma compare_drift_none:
  assumes "fst (compare_drift rd deployed) = ''none''"
  shows "length (keys_of deployed) = length (keys_of (rd_services rd))"
    and "s \<in> dom (map_of (rd_services rd)) \<Longrightarrow> label (rd_hashes rd) s \<noteq> [] \<and> label deployed s = label (rd_hashes rd) s"
  using assms by (auto simp: compare_drift_def find_None_iff split: if_splits option.splits)

lemma reproducible_services:
  assumes "reproducible_project rd cs ws"
  shows "dom (map_of (rd_services rd)) = dom (map_of (collect_hashes ws [] cs))"
proof (rule card_subset_eq)
  have n: "fst (compare_drift rd (collect_hashes ws [] cs)) = ''none''"
    using assms by (simp add: reproducible_project_def reproducible_loop_iff)
  show "dom (map_of (rd_services rd)) \<subseteq> dom (map_of (collect_hashes ws [] cs))"
    using compare_drift_none(2) [OF n] label_dom by (metis subsetI)
  show "card (dom (map_of (rd_services rd))) = card (dom (map_of (collect_hashes ws [] cs)))"
    using compare_drift_none(1) [OF n] distinct_card [OF distinct_keys_of] by (metis set_keys_of)
qed (simp add: finite_dom_map_of)

section \<open>Sample containers\<close>

definition sample_container :: container where
  "sample_container =
     \<lparr>c_id = ''id1'', c_image_id = ''img1'', c_name = ''/p'', c_created = [], c_image = ''i'',
      c_labels = [(label_compose_project, ''p''), (label_compose_service, ''hcorral''),
        (label_config_hash, replicate 64 CHR ''a'')],
      c_env = [], c_status = ''exited'', c_running = False, c_paused = False, c_restarting = False,
      c_exit_code = 0, c_started = [], c_mounts = [], c_host_mounts = []\<rparr>"

definition sample_rendered :: rendered where
  "sample_rendered = \<lparr>rd_services = [(''hcorral'', ''i'')], rd_volumes = [], rd_networks = [],
     rd_hashes = [(''hcorral'', replicate 64 CHR ''a'')]\<rparr>"

section \<open>Properties\<close>

text \<open>C16: \<open>verifyProjectContainers\<close> accepts a listing exactly when every container of the Compose
  project carries a service, no foreign workspace or corral, and is the verified primary if its
  service is the workstation, and when there is no container of the project without a primary.\<close>

theorem project_containers_accepted:
  "verify_project_containers cs ws primary = None \<longleftrightarrow>
     (\<forall>c \<in> set cs. in_project ws c \<longrightarrow> accepted_member ws primary c) \<and>
     (primary = None \<longrightarrow> (\<forall>c \<in> set cs. \<not> in_project ws c))"
  by (simp add: verify_project_containers_def verify_members_iff)

theorem project_containers_accepted_witness:
  "in_project sample_ws sample_container \<and>
   verify_project_containers [sample_container] sample_ws (Some sample_container) = None \<and>
   verify_project_containers [sample_container] sample_ws None \<noteq> None"
proof -
  have p: "in_project sample_ws sample_container"
    by (simp add: in_project_def sample_ws_def sample_container_def label_def)
  have "accepted_member sample_ws (Some sample_container) sample_container"
    by (simp add: accepted_member_def sample_ws_def sample_container_def label_def clean_name_def
        label_compose_project_def label_compose_service_def label_config_hash_def
        label_workspace_id_def label_corral_id_def trim_prefix_def)
  then show ?thesis
    using project_containers_accepted [of "[sample_container]" sample_ws "Some sample_container"]
      project_containers_accepted [of "[sample_container]" sample_ws None] p by simp
qed

text \<open>A stopped project is taken as reproducible only when the containers of the project are
  exactly the services of the rendered configuration, each with a well-formed configuration hash
  that equals the rendered one; so an implicit update never recreates anything it cannot repeat.\<close>

theorem reproducible_project_exact:
  assumes "reproducible_project rd cs ws"
  shows "(\<forall>c \<in> set cs. in_project ws c \<longrightarrow> matching_hash rd c \<and>
            label (c_labels c) label_compose_service \<in> dom (map_of (rd_services rd))) \<and>
    (\<forall>s \<in> dom (map_of (rd_services rd)). \<exists>c \<in> set cs. in_project ws c \<and>
       label (c_labels c) label_compose_service = s)"
proof (intro conjI ballI impI)
  have l: "\<forall>c \<in> set cs. in_project ws c \<longrightarrow> matching_hash rd c"
    using assms by (simp add: reproducible_project_def reproducible_loop_iff)
  note same = reproducible_services [OF assms]
  fix c assume c: "c \<in> set cs" "in_project ws c"
  then show "matching_hash rd c" using l by blast
  show "label (c_labels c) label_compose_service \<in> dom (map_of (rd_services rd))"
    unfolding same using c by (rule collect_hashes_dom)
next
  fix s assume "s \<in> dom (map_of (rd_services rd))"
  then show "\<exists>c \<in> set cs. in_project ws c \<and> label (c_labels c) label_compose_service = s"
    unfolding reproducible_services [OF assms] using collect_hashes_source by blast
qed

theorem reproducible_project_exact_witness:
  "reproducible_project sample_rendered [sample_container] sample_ws \<and>
   matching_hash sample_rendered sample_container"
proof -
  have hash: "compose_hash_pattern (replicate 64 CHR ''a'')" by code_simp
  have r: "reproducible_project sample_rendered [sample_container] sample_ws"
    using hash by (simp add: reproducible_project_def sample_rendered_def sample_container_def sample_ws_def label_def
        compare_drift_def keys_of_def label_compose_project_def label_compose_service_def label_config_hash_def Let_def)
  have p: "in_project sample_ws sample_container"
    by (simp add: in_project_def sample_ws_def sample_container_def label_def)
  from reproducible_project_exact [OF r] p r show ?thesis by simp
qed

end
