(* ===== verification/Update_Check.thy ===== *)
theory Update_Check
  imports Docker_Model Semver Harness Config
begin

text \<open>
  The update check (\<open>internal/update/check.go\<close>): the versions a container, its selected image
  and the upstream source report, and the notices drawn from them.  An HTTP request is the system
  call \<open>http.get\<close>, which answers with the status line or fails, followed by \<open>http.body\<close>; the JSON
  decoder of a release document is a parameter of the checker.
\<close>

record facts =
  fa_launcher_current :: string
  fa_launcher_latest :: string
  fa_launcher_newer :: bool
  fa_enabled :: bool
  fa_pinned :: bool
  fa_current :: string
  fa_bundled :: string
  fa_installed :: string
  fa_selected :: string
  fa_latest :: string
  fa_selected_newer :: bool
  fa_upstream_newer :: bool
  fa_lookup_status :: string
  fa_lookup_error :: string

text \<open>The checker; the decoders give the tag of a release, and version and tag of a package.\<close>

record checker =
  ck_registry_url :: string
  ck_launcher_version :: string
  ck_image_refreshed :: bool
  ck_decode_tag :: "string \<Rightarrow> string option"
  ck_decode_release :: "string \<Rightarrow> (string, string \<times> string) result"

definition harness_version_label :: string where
  "harness_version_label = ''ai.infrasecture.hcorral.harness.version''"

definition image_pinned :: "string \<Rightarrow> bool" where
  "image_pinned reference = (\<not> is_latest reference)"

definition classify_lookup_error :: "string \<Rightarrow> string" where
  "classify_lookup_error err =
     (let text = to_lower err in
      if contains_str text ''deadline'' \<or> contains_str text ''timeout'' then ''timeout''
      else if contains_str text ''decode'' \<or> contains_str text ''semver'' then ''invalid-response''
      else if contains_str text ''version source returned'' then ''http''
      else ''network'')"

definition extract_version :: "string \<Rightarrow> string" where
  "extract_version output =
     (case find (\<lambda>field. is_ok (parse_version (trim_prefix field ''v''))) (str_fields output) of
        None \<Rightarrow> []
      | Some field \<Rightarrow> trim_prefix field ''v'')"

definition container_environment :: "container \<Rightarrow> string \<Rightarrow> string" where
  "container_environment c key =
     (case find (\<lambda>entry. has_prefix entry (key @ ''='')) (c_env c) of
        None \<Rightarrow> [] | Some entry \<Rightarrow> trim_prefix entry (key @ ''=''))"

text \<open>\<open>imageVersion\<close>: the harness label of the image, else the label of this harness type.\<close>

definition version_label :: "string \<Rightarrow> string" where
  "version_label harnessType =
     (case lookup_harness harnessType of
        None \<Rightarrow> ''ai.infrasecture.hcorral.'' @ harnessType @ ''.version''
      | Some definition_found \<Rightarrow> hd_version_label definition_found)"

definition labelled_version :: "labels \<Rightarrow> string \<Rightarrow> string" where
  "labelled_version ls harnessType =
     (if label ls harness_version_label \<noteq> [] then label ls harness_version_label
      else label ls (version_label harnessType))"

definition image_version :: "daemon \<Rightarrow> string \<Rightarrow> string \<Rightarrow> string io" where
  "image_version d reference harnessType =
     (if reference = [] then ret []
      else andThen (inspect_image d reference) (\<lambda>r.
        ret (case r of
          Inr (Some i) \<Rightarrow> labelled_version (img_labels i) harnessType
        | _ \<Rightarrow> [])))"

text \<open>One GET: the body of a response with status 200, or the text of the error.\<close>

definition http_get :: "('m) machine_scheme \<Rightarrow> string \<Rightarrow> string \<Rightarrow> (string, string) result io" where
  "http_get m kind url =
     andThen (sys m ''http.get'' [url]) (\<lambda>a.
       case a of
         Text status \<Rightarrow>
           if take 3 status \<noteq> ''200'' then failE (kind @ '' returned '' @ status)
           else andThen (sys m ''http.body'' [url]) (\<lambda>b.
             case b of Text body \<Rightarrow> okE body | Failed e \<Rightarrow> failE e | _ \<Rightarrow> failE [])
       | Failed e \<Rightarrow> failE e
       | _ \<Rightarrow> failE [])"

definition latest_launcher :: "('m) machine_scheme \<Rightarrow> checker \<Rightarrow> string option io" where
  "latest_launcher m ck =
     andThen (http_get m ''GitHub releases'' ''https://api.github.com/repos/infrasecture/hcorral/releases/latest'')
       (\<lambda>r. ret (case r of
          Inl e \<Rightarrow> None
        | Inr body \<Rightarrow>
            (case ck_decode_tag ck (take (2 ^ 20) body) of
               None \<Rightarrow> None
             | Some tag \<Rightarrow> if tag = [] then None else Some tag)))"

datatype response_kind = Npm | CodexGithub | Plain

definition update_source :: "string \<Rightarrow> string \<Rightarrow> (string, string \<times> response_kind) result" where
  "update_source registryURL harnessType =
     (if registryURL \<noteq> [] then Inr (registryURL, Npm)
      else if harnessType = ''codex''
      then Inr (''https://api.github.com/repos/openai/codex/releases/latest'', CodexGithub)
      else if harnessType = ''claude''
      then Inr (''https://downloads.claude.ai/claude-code-releases/latest'', Plain)
      else if harnessType = ''pi''
      then Inr (''https://registry.npmjs.org/@earendil-works%2Fpi-coding-agent/latest'', Npm)
      else Inl (''no update source for custom harness '' @ harnessType))"

definition read_release :: "checker \<Rightarrow> response_kind \<Rightarrow> string \<Rightarrow> (string, string) result" where
  "read_release ck kind body =
     (case kind of
        Plain \<Rightarrow> Inr (trim_space (take 256 body))
      | CodexGithub \<Rightarrow> bindE (ck_decode_release ck (take (2 ^ 20) body)) (\<lambda>(v, tag). Inr (trim_prefix tag ''rust-v''))
      | Npm \<Rightarrow> bindE (ck_decode_release ck (take (2 ^ 20) body)) (\<lambda>(v, tag). Inr v))"

definition latest :: "('m) machine_scheme \<Rightarrow> checker \<Rightarrow> string \<Rightarrow> (string, string) result io" where
  "latest m ck harnessType =
     (case update_source (ck_registry_url ck) harnessType of
        Inl e \<Rightarrow> failE e
      | Inr (url, kind) \<Rightarrow>
          andThen (http_get m ''upstream version source'' url) (\<lambda>r. ret (bindE r (read_release ck kind))))"

definition probe_argv :: "string \<Rightarrow> string \<Rightarrow> string \<Rightarrow> string list" where
  "probe_argv uid home command =
     [''timeout'', ''--signal=TERM'', ''--kill-after=1s'', ''2s'', ''gosu'', uid, ''env'', ''HOME='' @ home,
      ''bash'', ''--login'', ''-c'', ''exec \"$@\"'', ''bash'', command, ''--version'']"

text \<open>The version installed in a running container, empty when it cannot be read.\<close>

definition installed_version :: "daemon \<Rightarrow> config \<Rightarrow> container \<Rightarrow> string io" where
  "installed_version d cfg c =
     (if c_running c \<and> \<not> c_paused c \<and> \<not> c_restarting c then
        (let command = (case lookup_harness (cfg_harness cfg) of
               None \<Rightarrow> cfg_harness cfg | Some definition_found \<Rightarrow> hd_command definition_found);
             uid = container_environment c ''HCORRAL_HOST_UID'';
             home = container_environment c ''HCORRAL_CONTAINER_HOME'';
             home' = (if home = [] then cfg_container_home cfg else home)
         in if uid = [] then ret []
            else andThen (exec_capture d (c_id c) (probe_argv uid home' command)) (\<lambda>(out, err, failure).
              ret (if failure = None then extract_version out else [])))
      else ret [])"

definition older :: "string \<Rightarrow> string \<Rightarrow> bool" where
  "older a b =
     (case parse_version a of
        Inl e \<Rightarrow> False
      | Inr v \<Rightarrow> (case parse_version b of Inl e \<Rightarrow> False | Inr w \<Rightarrow> compare_version v w < 0))"

text \<open>\<open>Inspect\<close>, in the order of its three stages: the container, the images, the lookups.\<close>

definition container_facts :: "daemon \<Rightarrow> config \<Rightarrow> container option \<Rightarrow> facts \<Rightarrow> facts io" where
  "container_facts d cfg co f =
     (case co of
        None \<Rightarrow> ret f
      | Some c \<Rightarrow>
          andThen (image_version d (c_image_id c) (cfg_harness cfg)) (\<lambda>bundled.
          andThen (installed_version d cfg c) (\<lambda>installed.
            ret (let f1 = f\<lparr>fa_bundled := bundled, fa_current := bundled\<rparr> in
                 if installed \<noteq> [] then f1\<lparr>fa_installed := installed, fa_current := installed\<rparr> else f1))))"

definition launcher_facts :: "checker \<Rightarrow> string option \<Rightarrow> facts \<Rightarrow> facts" where
  "launcher_facts ck tag f =
     (case tag of
        None \<Rightarrow> f
      | Some t \<Rightarrow> f\<lparr>fa_launcher_latest := t,
          fa_launcher_newer := older (trim_prefix (ck_launcher_version ck) ''v'') (trim_prefix t ''v'')\<rparr>)"

definition upstream_facts :: "(string, string) result \<Rightarrow> facts \<Rightarrow> facts" where
  "upstream_facts r f =
     (case r of
        Inl e \<Rightarrow> f\<lparr>fa_lookup_status := ''unavailable'', fa_lookup_error := classify_lookup_error e\<rparr>
      | Inr v \<Rightarrow>
          if is_ok (parse_version v)
          then f\<lparr>fa_latest := v, fa_lookup_status := ''ok'', fa_upstream_newer := older (fa_current f) v\<rparr>
          else f\<lparr>fa_latest := [], fa_lookup_status := ''unavailable'', fa_lookup_error := ''invalid-response''\<rparr>)"

definition first_facts :: "checker \<Rightarrow> config \<Rightarrow> facts" where
  "first_facts ck cfg =
     \<lparr>fa_launcher_current = ck_launcher_version ck, fa_launcher_latest = [], fa_launcher_newer = False,
      fa_enabled = cfg_update_check cfg, fa_pinned = image_pinned (cfg_image cfg), fa_current = [],
      fa_bundled = [], fa_installed = [], fa_selected = [], fa_latest = [], fa_selected_newer = False,
      fa_upstream_newer = False, fa_lookup_status = ''disabled'', fa_lookup_error = []\<rparr>"

definition check_inspect :: "daemon \<Rightarrow> checker \<Rightarrow> config \<Rightarrow> container option \<Rightarrow> facts io" where
  "check_inspect d ck cfg co =
     andThen (container_facts d cfg co (first_facts ck cfg)) (\<lambda>f.
     andThen (image_version d (cfg_image cfg) (cfg_harness cfg)) (\<lambda>selected.
     let f1 = f\<lparr>fa_selected := selected, fa_selected_newer := older (fa_current f) selected\<rparr> in
     if \<not> cfg_update_check cfg then ret f1
     else andThen (latest_launcher d ck) (\<lambda>tag.
          andThen (latest d ck (cfg_harness cfg)) (\<lambda>r.
            ret (upstream_facts r (launcher_facts ck tag f1))))))"

text \<open>The lines \<open>Notify\<close> prints for the facts.\<close>

definition message_line :: "string \<Rightarrow> string" where
  "message_line text = ''hcorral: '' @ text @ [CHR 0x0A]"

definition upstream_advice :: "checker \<Rightarrow> config \<Rightarrow> string" where
  "upstream_advice ck cfg = message_line
     (if cfg_image cfg = [] then
        ''the selected image could not be resolved; use `hcorral info` with the intended Compose options before updating.''
      else if ck_image_refreshed ck then
        ''the latest published workstation image was just pulled; '' @
        ''a newer upstream release does not mean its workstation image has been published yet.''
      else if \<not> image_pinned (cfg_image cfg) then
        ''run `hcorral pull` to refresh the selected image; pulling does not recreate the container.''
      else ''selected image '' @ cfg_image cfg @ '' is pinned; select a newer reference to update.'')"

definition notices :: "checker \<Rightarrow> config \<Rightarrow> facts \<Rightarrow> string list" where
  "notices ck cfg f =
     (if fa_launcher_newer f then
        [message_line (''launcher '' @ fa_launcher_latest f @ '' is available; this binary is '' @
           fa_launcher_current f @ ''.'')]
      else []) @
     (case parse_version (fa_current f) of
        Inl e \<Rightarrow> []
      | Inr current \<Rightarrow>
          (case parse_version (fa_selected f) of
             Inl e \<Rightarrow> []
           | Inr selected \<Rightarrow>
               if compare_version current selected < 0 then
                 [message_line (''selected image '' @ cfg_image cfg @ '' contains '' @ cfg_harness cfg @ '' '' @
                    v_raw selected @ ''; this container runs '' @ v_raw current @
                    ''. Run `hcorral up -d` to apply it.'')]
               else []) @
          (case parse_version (fa_latest f) of
             Inl e \<Rightarrow> []
           | Inr upstream \<Rightarrow>
               if compare_version current upstream \<ge> 0 then []
               else [message_line (cfg_harness cfg @ '' '' @ v_raw upstream @
                       '' is available upstream; this container runs '' @ v_raw current @ ''.''),
                     upstream_advice ck cfg]))"

fun say_all :: "string list \<Rightarrow> unit io" where
  "say_all [] = ret ()"
| "say_all (l # ls) = andThen (say ''notice'' [l]) (\<lambda>_. say_all ls)"

text \<open>\<open>Notify\<close> writes to the terminal and to the report; the report is its result.\<close>

definition notify :: "daemon \<Rightarrow> checker \<Rightarrow> config \<Rightarrow> container option \<Rightarrow> string io" where
  "notify d ck cfg co =
     (if \<not> cfg_update_check cfg \<or> (case co of None \<Rightarrow> True | Some c \<Rightarrow> \<not> c_running c) then ret []
      else andThen (check_inspect d ck cfg co) (\<lambda>f.
        let ls = notices ck cfg f in andThen (say_all ls) (\<lambda>_. ret (concat ls))))"

section \<open>Facts and the versions they speak of\<close>

lemma older_iff: "older a b \<longleftrightarrow> (\<exists>v w. parse_version a = Inr v \<and> parse_version b = Inr w \<and> compare_version v w < 0)"
  by (auto simp: older_def split: sum.splits)

definition consistent_facts :: "facts \<Rightarrow> bool" where
  "consistent_facts f \<longleftrightarrow>
     fa_current f = (if fa_installed f \<noteq> [] then fa_installed f else fa_bundled f) \<and>
     (fa_installed f \<noteq> [] \<longrightarrow> is_ok (parse_version (fa_installed f))) \<and>
     fa_selected_newer f = older (fa_current f) (fa_selected f) \<and>
     fa_upstream_newer f = older (fa_current f) (fa_latest f) \<and>
     fa_launcher_newer f =
       older (trim_prefix (fa_launcher_current f) ''v'') (trim_prefix (fa_launcher_latest f) ''v'') \<and>
     (fa_lookup_status f = ''ok'' \<longleftrightarrow> is_ok (parse_version (fa_latest f))) \<and>
     (fa_lookup_status f = ''disabled'' \<longleftrightarrow> \<not> fa_enabled f) \<and>
     fa_lookup_status f \<in> {''ok'', ''disabled'', ''unavailable''} \<and>
     (fa_lookup_status f = ''unavailable'' \<longleftrightarrow> fa_lookup_error f \<noteq> [])"

lemma parse_version_empty: "parse_version [] = Inl (NotSemVer [])"
  by code_simp

lemma older_empty [simp]: "\<not> older a []" "\<not> older [] a"
  by (simp_all add: older_iff parse_version_empty)

lemma classify_nonempty: "classify_lookup_error e \<noteq> []"
  by (simp add: classify_lookup_error_def Let_def)

lemma extract_version_ok: "extract_version out = [] \<or> is_ok (parse_version (extract_version out))"
  unfolding extract_version_def by (auto split: option.splits simp: find_Some_iff)

text \<open>The first stages: nothing is known of the lookups, and the current version is the installed one.\<close>

definition started_facts :: "checker \<Rightarrow> config \<Rightarrow> facts \<Rightarrow> bool" where
  "started_facts ck cfg f \<longleftrightarrow>
     fa_current f = (if fa_installed f \<noteq> [] then fa_installed f else fa_bundled f) \<and>
     (fa_installed f \<noteq> [] \<longrightarrow> is_ok (parse_version (fa_installed f))) \<and>
     fa_launcher_current f = ck_launcher_version ck \<and> fa_launcher_latest f = [] \<and> \<not> fa_launcher_newer f \<and>
     fa_enabled f = cfg_update_check cfg \<and> fa_latest f = [] \<and> \<not> fa_upstream_newer f \<and>
     fa_lookup_status f = ''disabled'' \<and> fa_lookup_error f = []"

lemma installed_version_ok:
  "installed_version d cfg c h = (v, h') \<Longrightarrow> v = [] \<or> is_ok (parse_version v)"
  using extract_version_ok
  by (auto simp: installed_version_def Let_def andThen_def split: if_splits prod.splits)

lemma container_facts_started:
  assumes "container_facts d cfg co (first_facts ck cfg) h = (f, h')"
  shows "started_facts ck cfg f"
proof (cases co)
  case None
  with assms show ?thesis by (auto simp: container_facts_def started_facts_def first_facts_def)
next
  case (Some c)
  from assms Some obtain bundled installed h1 h2 where
    1: "installed_version d cfg c h1 = (installed, h2)" and
    2: "f = (let f1 = (first_facts ck cfg)\<lparr>fa_bundled := bundled, fa_current := bundled\<rparr> in
        if installed \<noteq> [] then f1\<lparr>fa_installed := installed, fa_current := installed\<rparr> else f1)"
    by (auto simp: container_facts_def andThen_def split: prod.splits)
  from installed_version_ok [OF 1] show ?thesis
    unfolding 2 by (auto simp: started_facts_def first_facts_def Let_def)
qed

lemma launcher_facts_simps [simp]:
  "fa_current (launcher_facts ck tag f) = fa_current f"
  "fa_installed (launcher_facts ck tag f) = fa_installed f"
  "fa_bundled (launcher_facts ck tag f) = fa_bundled f"
  "fa_selected (launcher_facts ck tag f) = fa_selected f"
  "fa_selected_newer (launcher_facts ck tag f) = fa_selected_newer f"
  "fa_enabled (launcher_facts ck tag f) = fa_enabled f"
  "fa_launcher_current (launcher_facts ck tag f) = fa_launcher_current f"
  "fa_latest (launcher_facts ck tag f) = fa_latest f"
  "fa_upstream_newer (launcher_facts ck tag f) = fa_upstream_newer f"
  "fa_lookup_error (launcher_facts ck tag f) = fa_lookup_error f"
  by (simp_all add: launcher_facts_def split: option.split)

lemma launcher_facts_newer:
  assumes "\<not> fa_launcher_newer f" "fa_launcher_latest f = []" "fa_launcher_current f = ck_launcher_version ck"
  shows "fa_launcher_newer (launcher_facts ck tag f) =
    older (trim_prefix (fa_launcher_current f) ''v'') (trim_prefix (fa_launcher_latest (launcher_facts ck tag f)) ''v'')"
  using assms by (cases tag) (simp_all add: launcher_facts_def trim_prefix_def)

lemma upstream_facts_step:
  assumes "fa_current g = (if fa_installed g \<noteq> [] then fa_installed g else fa_bundled g)"
    and "fa_installed g \<noteq> [] \<longrightarrow> is_ok (parse_version (fa_installed g))"
    and "fa_enabled g" "fa_latest g = []" "\<not> fa_upstream_newer g" "fa_lookup_error g = []"
    and "fa_selected_newer g = older (fa_current g) (fa_selected g)"
    and "fa_launcher_newer g =
      older (trim_prefix (fa_launcher_current g) ''v'') (trim_prefix (fa_launcher_latest g) ''v'')"
  shows "consistent_facts (upstream_facts r g)"
proof (cases r)
  case (Inl e)
  with assms show ?thesis
    by (simp add: consistent_facts_def upstream_facts_def parse_version_empty classify_nonempty)
next
  case (Inr v)
  with assms show ?thesis
    by (cases "is_ok (parse_version v)")
      (simp_all add: consistent_facts_def upstream_facts_def parse_version_empty)
qed

lemma upstream_facts_consistent:
  assumes "started_facts ck cfg f" "cfg_update_check cfg"
  shows "consistent_facts (upstream_facts r (launcher_facts ck tag
    (f\<lparr>fa_selected := s, fa_selected_newer := older (fa_current f) s\<rparr>)))"
proof (rule upstream_facts_step)
  let ?f = "f\<lparr>fa_selected := s, fa_selected_newer := older (fa_current f) s\<rparr>"
  show "fa_launcher_newer (launcher_facts ck tag ?f) =
      older (trim_prefix (fa_launcher_current (launcher_facts ck tag ?f)) ''v'')
        (trim_prefix (fa_launcher_latest (launcher_facts ck tag ?f)) ''v'')"
    using assms launcher_facts_newer [of ?f ck tag] by (simp add: started_facts_def)
qed (use assms in \<open>simp_all add: started_facts_def\<close>)

lemma check_inspect_facts:
  assumes "check_inspect d ck cfg co h = (f, h')"
  shows "consistent_facts f"
proof -
  from assms obtain f0 h1 s h2 where 0: "container_facts d cfg co (first_facts ck cfg) h = (f0, h1)"
    and 1: "image_version d (cfg_image cfg) (cfg_harness cfg) h1 = (s, h2)"
    and 2: "(if \<not> cfg_update_check cfg then ret (f0\<lparr>fa_selected := s, fa_selected_newer := older (fa_current f0) s\<rparr>)
       else andThen (latest_launcher d ck) (\<lambda>tag. andThen (latest d ck (cfg_harness cfg)) (\<lambda>r.
            ret (upstream_facts r (launcher_facts ck tag
              (f0\<lparr>fa_selected := s, fa_selected_newer := older (fa_current f0) s\<rparr>)))))) h2 = (f, h')"
    by (auto simp: check_inspect_def andThen_def Let_def split: prod.splits)
  note st = container_facts_started [OF 0]
  show ?thesis
  proof (cases "cfg_update_check cfg")
    case False
    with 2 have "f = f0\<lparr>fa_selected := s, fa_selected_newer := older (fa_current f0) s\<rparr>" by simp
    with st False show ?thesis
      by (auto simp: started_facts_def consistent_facts_def parse_version_empty trim_prefix_def)
  next
    case True
    with 2 obtain r tag where "f = upstream_facts r (launcher_facts ck tag
        (f0\<lparr>fa_selected := s, fa_selected_newer := older (fa_current f0) s\<rparr>))"
      by (auto simp: andThen_def split: prod.splits)
    with upstream_facts_consistent [OF st True] show ?thesis by simp
  qed
qed

section \<open>What the check does\<close>

definition local_capture :: "event \<Rightarrow> bool" where
  "local_capture e = (case e of Captured argv r \<Rightarrow> True | _ \<Rightarrow> False)"

text \<open>An event of the check: a captured command, or a request that the configuration asked for.\<close>

definition check_event :: "bool \<Rightarrow> event \<Rightarrow> bool" where
  "check_event online e =
     (case e of
        Captured argv r \<Rightarrow> True
      | Sys name args a \<Rightarrow> online \<and> (name = ''http.get'' \<or> name = ''http.body'')
      | Said topic args \<Rightarrow> online
      | _ \<Rightarrow> False)"

lemma appends_inspect_one [io_rules]:
  "(\<And>r. Q (Captured argv r)) \<Longrightarrow> appends Q (inspect_one d argv decode kind name)"
  unfolding inspect_one_def by (intro io_rules)

lemma appends_image_version: "appends (check_event b) (image_version d r t)"
  unfolding image_version_def inspect_image_def by (intro io_rules) (simp add: check_event_def)

lemma appends_http_get: "appends (check_event True) (http_get m kind url)"
  unfolding http_get_def
  by (intro io_rules) (auto simp: check_event_def intro!: io_rules split: answer.split)

lemma appends_container_facts: "appends (check_event b) (container_facts d cfg co f)"
  unfolding container_facts_def installed_version_def exec_capture_def Let_def
  by (intro io_rules appends_image_version) (simp add: check_event_def)

lemma appends_check_inspect: "appends (check_event (cfg_update_check cfg)) (check_inspect d ck cfg co)"
  unfolding check_inspect_def Let_def
  by (intro io_rules appends_container_facts appends_image_version)
    (auto simp: latest_launcher_def latest_def intro!: io_rules appends_http_get split: sum.split)

lemma appends_say_all [io_rules]: "(\<And>t a. Q (Said t a)) \<Longrightarrow> appends Q (say_all ms)"
  by (induction ms rule: say_all.induct) (auto intro!: io_rules)

lemma appends_notify: "appends (check_event (cfg_update_check cfg)) (notify d ck cfg co)"
  unfolding notify_def Let_def
  by (intro io_rules appends_check_inspect) (simp_all add: check_event_def)

section \<open>Properties\<close>

text \<open>The facts of an update check agree with each other: the current version is the installed
  one when the probe gave a version and the bundled one otherwise, each \<open>newer\<close> flag is SemVer
  comparison of the two versions beside it (false when one does not parse), the lookup is \<open>ok\<close>
  exactly when the upstream version parses, \<open>disabled\<close> exactly when the check is off, and
  \<open>unavailable\<close> exactly when an error kind is given.\<close>

theorem check_inspect_consistent:
  "consistent_facts (fst (check_inspect d ck cfg co h))"
  by (rule check_inspect_facts [OF prod.collapse [symmetric]])


definition offline_config :: config where
  "offline_config = (initial_config \<lparr>po_caller_dir = ''/w'', po_home_dir = ''/h'', po_platform = ''linux'',
     po_getenv = None, po_environ = None\<rparr> (\<lambda>k. []) ''linux'' \<lparr>fc_default_harness = [], fc_harness = []\<rparr> [])
     \<lparr>cfg_update_check := False\<rparr>"


end
