(* ===== verification/Log_Lines.thy ===== *)
theory Log_Lines
  imports Go_Strings
begin

text \<open>
  The container log the launcher shows after a failed start (\<open>sanitizedLogLines\<close> of
  \<open>internal/app/launch.go\<close>): terminal escapes are removed, unprintable characters are dropped, the
  values of sensitive settings are redacted, and the number and length of the lines are bounded.
  \<open>unicode.IsPrint\<close> beyond ASCII is a parameter: its table belongs to the standard library.
\<close>

section \<open>Escape sequences\<close>

text \<open>A match of the pattern \<open>ansiLogEscape\<close> at the start of \<open>s\<close>, and what follows it.\<close>

definition param_char :: "char \<Rightarrow> bool" where
  "param_char c = (CHR ''0'' \<le> c \<and> c \<le> CHR ''?'')"

definition intermediate_char :: "char \<Rightarrow> bool" where
  "intermediate_char c = (CHR '' '' \<le> c \<and> c \<le> CHR ''/'')"

definition final_char :: "char \<Rightarrow> bool" where
  "final_char c = (CHR ''@'' \<le> c \<and> c \<le> CHR 0x7E)"

definition after_escape :: "string \<Rightarrow> string option" where
  "after_escape s =
     (if take 2 s = [CHR 0x1B, CHR ''['']
      then (case dropWhile intermediate_char (dropWhile param_char (drop 2 s)) of
              [] \<Rightarrow> None
            | f # rest \<Rightarrow> if final_char f then Some rest else None)
      else None)"

lemma after_escape_shorter: "after_escape s = Some t \<Longrightarrow> length t < length s"
proof -
  assume "after_escape s = Some t"
  then obtain f where "dropWhile intermediate_char (dropWhile param_char (drop 2 s)) = f # t"
    by (auto simp: after_escape_def split: if_splits list.splits)
  then have "length (f # t) \<le> length (drop 2 s)"
    by (metis length_dropWhile_le order_trans)
  then show ?thesis by simp
qed

function strip_escapes :: "string \<Rightarrow> string" where
  "strip_escapes [] = []"
| "strip_escapes (c # s) =
     (case after_escape (c # s) of Some t \<Rightarrow> strip_escapes t | None \<Rightarrow> c # strip_escapes s)"
  by pat_completeness auto
termination by (relation "measure length") (auto dest: after_escape_shorter)

section \<open>Printable characters\<close>

text \<open>
  One step of ranging over the runes of a string: the code point and the number of bytes.  A byte
  that starts no encoding is the replacement character U+FFFD and takes one byte.
\<close>

definition tail_byte :: "nat \<Rightarrow> nat \<Rightarrow> string \<Rightarrow> nat \<Rightarrow> bool" where
  "tail_byte lo hi s i = (i < length s \<and> lo \<le> of_char (s ! i) \<and> of_char (s ! i) \<le> hi)"

definition tail_value :: "string \<Rightarrow> nat \<Rightarrow> nat" where
  "tail_value s i = (of_char (s ! i) :: nat) - 128"

definition rune_tail :: "nat \<Rightarrow> nat \<Rightarrow> nat \<Rightarrow> string \<Rightarrow> bool" where
  "rune_tail k lo hi s = (tail_byte lo hi s 1 \<and> list_all (tail_byte 128 191 s) [2..<k])"

definition decode_rune :: "string \<Rightarrow> nat \<times> nat" where
  "decode_rune s =
     (let b = (of_char (s ! 0) :: nat) in
      if b < 128 then (b, 1)
      else if 194 \<le> b \<and> b \<le> 223 \<and> rune_tail 2 128 191 s
      then ((b - 192) * 64 + tail_value s 1, 2)
      else if 224 \<le> b \<and> b \<le> 239 \<and> rune_tail 3 (if b = 224 then 160 else 128) (if b = 237 then 159 else 191) s
      then ((b - 224) * 4096 + tail_value s 1 * 64 + tail_value s 2, 3)
      else if 240 \<le> b \<and> b \<le> 244 \<and> rune_tail 4 (if b = 240 then 144 else 128) (if b = 244 then 143 else 191) s
      then ((b - 240) * 262144 + tail_value s 1 * 4096 + tail_value s 2 * 64 + tail_value s 3, 4)
      else (65533, 1))"

lemma decode_rune_size: "snd (decode_rune s) > 0"
  by (simp add: decode_rune_def Let_def)

definition printable :: "(nat \<Rightarrow> bool) \<Rightarrow> nat \<Rightarrow> bool" where
  "printable is_print r = (if r < 128 then 32 \<le> r \<and> r \<le> 126 else is_print r)"

text \<open>\<open>WriteRune\<close> of a decoded rune: its own bytes, or the encoding of U+FFFD for a bad byte.\<close>

definition rune_bytes :: "string \<Rightarrow> nat \<Rightarrow> nat \<Rightarrow> string" where
  "rune_bytes s r k =
     (if r = 65533 then [CHR 0xEF, CHR 0xBF, CHR 0xBD] else take k s)"

function keep_printable :: "(nat \<Rightarrow> bool) \<Rightarrow> string \<Rightarrow> string" where
  "keep_printable is_print [] = []"
| "keep_printable is_print (c # s) =
     (case decode_rune (c # s) of (r, k) \<Rightarrow>
        (if r = 9 \<or> printable is_print r \<and> r \<noteq> 27 then rune_bytes (c # s) r k else []) @
        keep_printable is_print (drop k (c # s)))"
  by pat_completeness auto
termination
proof (relation "measure (\<lambda>(p, s). length s)", goal_cases)
  case (2 is_print c s r k)
  then have "k > 0" using decode_rune_size [of "c # s"] by (metis snd_conv)
  then show ?case by simp
qed simp

section \<open>Sensitive values\<close>

definition word_char :: "char \<Rightarrow> bool" where
  "word_char c = (is_upper c \<or> is_lower c \<or> is_digit c \<or> c = CHR ''_'')"

definition ascii_space :: "char \<Rightarrow> bool" where
  "ascii_space c = (c \<in> set [CHR 0x09, CHR 0x0A, CHR 0x0B, CHR 0x0C, CHR 0x0D, CHR 0x20])"

text \<open>
  Case folding of a literal: besides the other case, the long s U+017F folds with \<open>s\<close> and the
  Kelvin sign U+212A with \<open>k\<close>.
\<close>

fun fold_matches :: "string \<Rightarrow> string \<Rightarrow> bool" where
  "fold_matches [] s = (s = [])"
| "fold_matches (p # ps) [] = False"
| "fold_matches (p # ps) (c # s) =
     (if lower_char c = p then fold_matches ps s
      else if p = CHR ''s'' \<and> c = CHR 0xC5 \<and> take 1 s = [CHR 0xBF] then fold_matches ps (drop 1 s)
      else if p = CHR ''k'' \<and> c = CHR 0xE2 \<and> take 2 s = [CHR 0x84, CHR 0xAA] then fold_matches ps (drop 2 s)
      else False)"

definition sensitive_keys :: "string list" where
  "sensitive_keys = [''token'', ''password'', ''secret'', ''authorization'', ''api_key'', ''api-key'', ''apikey'']"

definition sensitive :: "string \<Rightarrow> bool" where
  "sensitive t = list_ex (\<lambda>p. fold_matches p t) sensitive_keys"

text \<open>
  A match of \<open>sensitiveLogValue\<close> at the start of \<open>s\<close>, where \<open>pw\<close> says whether the character
  before is a word character: no key contains \<open>=\<close>, so the text before the first one must be the
  key; the value is the run up to the next white space.
\<close>

definition key_match :: "bool \<Rightarrow> string \<Rightarrow> (string \<times> string) option" where
  "key_match pw s =
     (case cut_char (CHR ''='') s of (key, rest, found) \<Rightarrow>
        if found \<and> sensitive key \<and> pw \<noteq> word_char (hd key) \<and> rest \<noteq> [] \<and> \<not> ascii_space (hd rest)
        then Some (key, rest) else None)"

lemma key_match_shorter:
  assumes "key_match pw s = Some (key, rest)"
  shows "length (dropWhile (\<lambda>c. \<not> ascii_space c) rest) < length s"
proof -
  have "length (fst (snd (cut_char e s))) \<le> length s" for e
    by (induction s) (auto split: prod.splits)
  from this [of "CHR ''=''"] have "length rest \<le> length s"
    using assms by (auto simp: key_match_def split: prod.splits if_splits)
  moreover have "length (dropWhile (\<lambda>c. \<not> ascii_space c) rest) < length rest"
    using assms length_dropWhile_le [of _ "tl rest"]
    by (cases rest) (auto simp: key_match_def less_Suc_eq_le split: prod.splits if_splits)
  ultimately show ?thesis by simp
qed

function redact :: "bool \<Rightarrow> string \<Rightarrow> string" where
  "redact pw [] = []"
| "redact pw (c # s) =
     (case key_match pw (c # s) of
        Some (key, rest) \<Rightarrow>
          key @ ''=<redacted>'' @
          redact (word_char (last (takeWhile (\<lambda>c. \<not> ascii_space c) rest))) (dropWhile (\<lambda>c. \<not> ascii_space c) rest)
      | None \<Rightarrow> c # redact (word_char c) s)"
  by pat_completeness auto
termination
  by (relation "measure (\<lambda>(p, s). length s)") (auto dest: key_match_shorter)

section \<open>Lines\<close>

fun drop_returns :: "string \<Rightarrow> string" where
  "drop_returns [] = []"
| "drop_returns (c # s) =
     (if c = CHR 0x0D \<and> take 1 s = [CHR 0x0A] then CHR 0x0A # drop_returns (drop 1 s)
      else c # drop_returns s)"

definition shorten :: "string \<Rightarrow> string" where
  "shorten v = (if length v > 1024 then take 1024 v @ [CHR 0xE2, CHR 0x80, CHR 0xA6] else v)"

definition sanitize_line :: "(nat \<Rightarrow> bool) \<Rightarrow> string \<Rightarrow> string" where
  "sanitize_line is_print line = shorten (redact False (keep_printable is_print (strip_escapes line)))"

definition sanitized_log_lines :: "(nat \<Rightarrow> bool) \<Rightarrow> string \<Rightarrow> int \<Rightarrow> string list" where
  "sanitized_log_lines is_print content limit =
     (if limit \<le> 0 then []
      else let parts = split_char (CHR 0x0A) (drop_returns content);
               trimmed = (if parts \<noteq> [] \<and> last parts = [] then butlast parts else parts)
      in map (sanitize_line is_print) (drop (length trimmed - nat limit) trimmed))"

section \<open>Bounds and redaction\<close>


definition shown_byte :: "char \<Rightarrow> bool" where
  "shown_byte c \<longleftrightarrow> c = CHR 0x09 \<or> 32 \<le> (of_char c :: nat) \<and> (of_char c :: nat) \<noteq> 127"

lemma of_char_tab: "(of_char c :: nat) = 9 \<longleftrightarrow> c = CHR 0x09"
proof -
  have "(of_char (CHR 0x09) :: nat) = 9" by simp
  then show ?thesis by (metis of_char_eq_iff)
qed

lemma rune_tail_high:
  assumes "rune_tail k lo hi s" "128 \<le> lo" "128 \<le> (of_char (s ! 0) :: nat)"
  shows "\<forall>x \<in> set (take k s). 128 \<le> (of_char x :: nat)"
proof -
  have "128 \<le> (of_char (s ! i) :: nat)" if "i < k" for i
  proof (cases "i < 2")
    case True
    then have "i = 0 \<or> i = 1" by auto
    with assms show ?thesis by (auto simp: rune_tail_def tail_byte_def)
  next
    case False
    with that assms(1) show ?thesis by (auto simp: rune_tail_def list_all_iff tail_byte_def)
  qed
  then show ?thesis by (auto simp: in_set_conv_nth)
qed

lemma tail_exI: "rune_tail k lo hi s \<Longrightarrow> 128 \<le> lo \<Longrightarrow> \<exists>lo \<ge> 128. \<exists>hi. rune_tail k lo hi s"
  by blast

lemma decode_rune_cases:
  assumes "decode_rune s = (r, k)" "r \<noteq> 65533"
  obtains "k = 1" "r = of_char (s ! 0)" "r < 128" | "\<forall>x \<in> set (take k s). 128 \<le> (of_char x :: nat)"
proof -
  let ?b = "of_char (s ! 0) :: nat"
  from assms have "(k = 1 \<and> r = ?b \<and> r < 128) \<or> (128 \<le> ?b \<and> (\<exists>lo hi. 128 \<le> lo \<and> rune_tail k lo hi s))"
    unfolding decode_rune_def Let_def
    by (auto split: if_splits intro: tail_exI)
  with that rune_tail_high show thesis by blast
qed

lemma rune_bytes_shown:
  assumes "decode_rune (c # s) = (r, k)" "r = 9 \<or> printable ip r \<and> r \<noteq> 27"
  shows "list_all shown_byte (rune_bytes (c # s) r k)"
proof (cases "r = 65533")
  case True
  then show ?thesis by (simp add: rune_bytes_def shown_byte_def)
next
  case False
  from assms(1) False show ?thesis
  proof (cases rule: decode_rune_cases)
    case 1
    then show ?thesis using assms(2) False by (auto simp: rune_bytes_def shown_byte_def printable_def of_char_tab)
  next
    case 2
    then show ?thesis using False by (force simp: rune_bytes_def shown_byte_def list_all_iff)
  qed
qed

lemma keep_printable_shown: "list_all shown_byte (keep_printable ip s)"
proof (induction ip s rule: keep_printable.induct)
  case (2 ip c s)
  obtain r k where "decode_rune (c # s) = (r, k)" by fastforce
  with 2 rune_bytes_shown [of c s r k ip] show ?case by auto
qed simp

lemma cut_char_parts: "cut_char e s = (a, b, True) \<Longrightarrow> s = a @ e # b"
  by (induction s arbitrary: a) (auto split: if_splits prod.splits)

lemma key_match_parts: "key_match pw s = Some (key, rest) \<Longrightarrow> s = key @ CHR ''='' # rest"
  by (auto simp: key_match_def dest: cut_char_parts split: prod.splits if_splits)

lemma redact_shown: "list_all shown_byte s \<Longrightarrow> list_all shown_byte (redact pw s)"
proof (induction pw s rule: redact.induct)
  case (2 pw c s)
  show ?case
  proof (cases "key_match pw (c # s)")
    case None
    with 2 show ?thesis by simp
  next
    case (Some kr)
    obtain key rest where kr: "kr = (key, rest)" by fastforce
    with Some have parts: "c # s = key @ CHR ''='' # rest" by (simp add: key_match_parts)
    have "list_all shown_byte key" "list_all shown_byte rest"
      using 2(3) unfolding parts by simp_all
    moreover have lit: "list_all shown_byte ''=<redacted>''" by (simp add: shown_byte_def)
    moreover from calculation(2) have "list_all shown_byte (dropWhile (\<lambda>c. \<not> ascii_space c) rest)"
      by (auto simp: list_all_iff dest: set_dropWhileD)
    ultimately show ?thesis using 2(2) [OF Some [unfolded kr] refl] Some kr lit by simp
  qed
qed simp

lemma sanitize_line_bounds:
  "length (sanitize_line ip l) \<le> 1027 \<and> list_all shown_byte (sanitize_line ip l)"
proof -
  have "list_all shown_byte (redact False (keep_printable ip (strip_escapes l)))" (is "list_all _ ?v")
    by (intro redact_shown keep_printable_shown)
  then have "list_all shown_byte (take 1024 ?v)" by (auto simp: list_all_iff dest: in_set_takeD)
  with \<open>list_all shown_byte ?v\<close> show ?thesis
    by (simp add: sanitize_line_def shorten_def shown_byte_def)
qed

text \<open>Redaction does not look at the value.\<close>

lemma cut_char_append_in: "e \<in> set x \<Longrightarrow> cut_char e (x @ y) =
   (case cut_char e x of (a, b, f) \<Rightarrow> (a, b @ y, f)) \<and> snd (snd (cut_char e x))"
  by (induction x) (auto split: prod.splits)

lemma cut_char_append_out: "e \<notin> set x \<Longrightarrow> cut_char e (x @ e # y) = (x, y, True)"
  by (induction x) auto

lemma value_span:
  assumes "\<forall>c \<in> set v. \<not> ascii_space c" "post = [] \<or> ascii_space (hd post)"
  shows "dropWhile (\<lambda>c. \<not> ascii_space c) (v @ post) = post"
  using assms by (cases post) (auto simp: dropWhile_append2)

lemma key_match_space: "s = [] \<or> ascii_space (hd s) \<Longrightarrow> key_match pw s = None"
proof -
  have no: "\<not> fold_matches p t" if "p \<in> set sensitive_keys" "t = [] \<or> ascii_space (hd t)" for p t
    using that by (cases t) (auto simp: sensitive_keys_def ascii_space_def lower_char_def char_class_code)
  assume a: "s = [] \<or> ascii_space (hd s)"
  have "\<not> sensitive (fst (cut_char (CHR ''='') s))"
    using a no by (cases s) (auto simp: sensitive_def list_ex_iff split: prod.splits)
  then show ?thesis by (auto simp: key_match_def split: prod.splits)
qed

lemma redact_space: "s = [] \<or> ascii_space (hd s) \<Longrightarrow> redact pw s = redact pw' s"
  by (cases s) (auto simp: key_match_space)

lemma lower_char_space: "ascii_space c \<Longrightarrow> lower_char c = c"
  by (auto simp: ascii_space_def lower_char_def is_upper_code)

lemma fold_matches_no_space: "fold_matches p t \<Longrightarrow> \<forall>c \<in> set p. \<not> ascii_space c \<Longrightarrow> \<forall>c \<in> set t. \<not> ascii_space c"
proof (induction p t rule: fold_matches.induct)
  case (3 p ps c s)
  have low: "\<not> ascii_space c" if "lower_char c = p"
    using that 3(5) by (metis lower_char_space list.set_intros(1))
  have split: "\<forall>x \<in> set s. \<not> ascii_space x"
    if "take n s = q" "\<forall>x \<in> set q. \<not> ascii_space x" "\<forall>x \<in> set (drop n s). \<not> ascii_space x" for n q
    using that by (metis Un_iff append_take_drop_id set_append)
  have high: "\<not> ascii_space (CHR 0xC5)" "\<not> ascii_space (CHR 0xE2)" "\<forall>x \<in> set [CHR 0xBF]. \<not> ascii_space x"
    "\<forall>x \<in> set [CHR 0x84, CHR 0xAA]. \<not> ascii_space x" by (simp_all add: ascii_space_def)
  have ps: "\<forall>c \<in> set ps. \<not> ascii_space c" using 3(5) by simp
  show ?case
  proof (cases "lower_char c = p")
    case True
    with 3(4) have "fold_matches ps s" by simp
    from 3(1) [OF True this ps] low [OF True] show ?thesis by simp
  next
    case no: False
    show ?thesis
    proof (cases "p = CHR ''s'' \<and> c = CHR 0xC5 \<and> take 1 s = [CHR 0xBF]")
      case True
      with no 3(4) have "fold_matches ps (drop 1 s)" by simp
      from 3(2) [OF no True this ps] split [of 1 "[CHR 0xBF]"] True high show ?thesis by simp
    next
      case False
      have "\<not> fold_matches (p # ps) (c # s)"
        if "\<not> (p = CHR ''k'' \<and> c = CHR 0xE2 \<and> take 2 s = [CHR 0x84, CHR 0xAA])"
        unfolding fold_matches.simps if_not_P [OF no] if_not_P [OF False] if_not_P [OF that] by simp
      with 3(4) have k: "p = CHR ''k'' \<and> c = CHR 0xE2 \<and> take 2 s = [CHR 0x84, CHR 0xAA]" by blast
      then have "fold_matches ps (drop 2 s)" using no False 3(4) by simp
      note rest = 3(3) [OF no False k this ps]
      have "take 2 s = [CHR 0x84, CHR 0xAA]" using k by blast
      from split [OF this high(4) rest] have "\<forall>x \<in> set s. \<not> ascii_space x" .
      moreover have "\<not> ascii_space c" using k high(2) by blast
      ultimately show ?thesis unfolding list.set by blast
    qed
  qed
qed simp_all

lemma sensitive_no_space: "sensitive t \<Longrightarrow> \<forall>c \<in> set t. \<not> ascii_space c"
  unfolding sensitive_def list_ex_iff
proof (elim bexE)
  fix p assume p: "p \<in> set sensitive_keys" and "fold_matches p t"
  moreover have "\<forall>c \<in> set p. \<not> ascii_space c" using p by (auto simp: sensitive_keys_def ascii_space_def)
  ultimately show ?thesis by (rule_tac fold_matches_no_space)
qed

text \<open>A key after \<open>pre\<close> starts at a word boundary.\<close>

definition boundary :: "bool \<Rightarrow> string \<Rightarrow> string \<Rightarrow> bool" where
  "boundary pw pre key \<longleftrightarrow> (if pre = [] then pw else word_char (last pre)) \<noteq> word_char (hd key)"

lemma redact_match:
  assumes "sensitive key" "CHR ''='' \<notin> set key" "pw \<noteq> word_char (hd key)"
    and "v \<noteq> []" "\<forall>c \<in> set v. \<not> ascii_space c" "post = [] \<or> ascii_space (hd post)"
  shows "redact pw (key @ CHR ''='' # v @ post) = key @ ''=<redacted>'' @ redact False post"
proof -
  have ne: "key \<noteq> []"
    using assms(1) by (auto simp: sensitive_def list_ex_iff sensitive_keys_def)
  then obtain c s where cs: "key @ CHR ''='' # v @ post = c # s" by (cases key) auto
  have "key_match pw (c # s) = Some (key, v @ post)"
    using assms unfolding cs [symmetric] by (cases v) (simp_all add: key_match_def cut_char_append_out)
  with redact_space [OF assms(6)] show ?thesis
    unfolding cs by (simp add: value_span [OF assms(5,6)])
qed

text \<open>What follows the value is reached in the same state whatever the value.\<close>

lemma redact_value_irrelevant:
  assumes key: "sensitive key" "CHR ''='' \<notin> set key" and "boundary pw pre key"
    and v: "v \<noteq> []" "\<forall>c \<in> set v. \<not> ascii_space c" and w: "w \<noteq> []" "\<forall>c \<in> set w. \<not> ascii_space c"
    and post: "post = [] \<or> ascii_space (hd post)"
  shows "redact pw (pre @ key @ CHR ''='' # v @ post) = redact pw (pre @ key @ CHR ''='' # w @ post)"
  using assms(3)
proof (induction "length pre" arbitrary: pre pw rule: less_induct)
  case less
  show ?case
  proof (cases pre)
    case Nil
    with less.prems have "pw \<noteq> word_char (hd key)" by (simp add: boundary_def)
    with Nil redact_match [OF key _ v post] redact_match [OF key _ w post] show ?thesis by simp
  next
    case (Cons c pre')
    have key_tail: "key \<noteq> []" using key(1) by (auto simp: sensitive_def list_ex_iff sensitive_keys_def)
    have step: "redact (word_char c) (pre' @ key @ CHR ''='' # v @ post) =
        redact (word_char c) (pre' @ key @ CHR ''='' # w @ post)"
      using less Cons by (intro less.hyps) (auto simp: boundary_def split: if_splits)
    define tail where "tail = (\<lambda>u. pre' @ key @ CHR ''='' # u @ post)"
    have unf: "redact pw (c # tail u) =
      (case key_match pw (c # tail u) of
        Some (key, rest) \<Rightarrow>
          key @ ''=<redacted>'' @
          redact (word_char (last (takeWhile (\<lambda>c. \<not> ascii_space c) rest))) (dropWhile (\<lambda>c. \<not> ascii_space c) rest)
      | None \<Rightarrow> c # redact (word_char c) (tail u))" for u by simp
    have step: "redact (word_char c) (tail v) = redact (word_char c) (tail w)"
      using step by (simp add: tail_def)
    have "redact pw (c # tail v) = redact pw (c # tail w)"
    proof (cases "CHR ''='' \<in> set (c # pre')")
      case True
      obtain k r b where cut': "cut_char (CHR ''='') (c # pre') = (k, r, b)" by (metis prod_cases3)
      have cut: "cut_char (CHR ''='') (c # pre') = (k, r, True)"
        using cut_char_append_in [OF True, of "[]"] unfolding cut' by simp
      have km: "key_match pw (c # tail u) =
          (if sensitive k \<and> pw \<noteq> word_char (hd k) \<and> \<not> ascii_space (hd (r @ key))
           then Some (k, r @ key @ CHR ''='' # u @ post) else None)" for u
        using cut_char_append_in [OF True, of "key @ CHR ''='' # u @ post"] cut key_tail
        by (auto simp: key_match_def tail_def hd_append split: prod.splits)
      show ?thesis
      proof (cases "sensitive k \<and> pw \<noteq> word_char (hd k) \<and> \<not> ascii_space (hd (r @ key))")
        case False
        with km have "key_match pw (c # tail u) = None" for u by simp
        with unf step show ?thesis by (simp del: redact.simps)
      next
        case match: True
        let ?ns = "\<lambda>c. \<not> ascii_space c"
        have pre: "pre = k @ CHR ''='' # r" using Cons cut_char_parts [OF cut] by simp
        then have shorter: "length r < length pre" by simp
        have same: "redact f (dropWhile ?ns (r @ key @ CHR ''='' # v @ post)) =
            redact f' (dropWhile ?ns (r @ key @ CHR ''='' # w @ post))"
          if ff: "f = word_char (last (takeWhile ?ns (r @ key @ CHR ''='' # v @ post)))"
            "f' = word_char (last (takeWhile ?ns (r @ key @ CHR ''='' # w @ post)))" for f f'
        proof (cases "\<exists>x \<in> set r. ascii_space x")
          case True
          then obtain x where x: "x \<in> set r" "\<not> ?ns x" by blast
          have "r = takeWhile ?ns r @ dropWhile ?ns r" "dropWhile ?ns r \<noteq> []" using x by auto
          then have "last (dropWhile ?ns r) = last pre"
            unfolding pre using x(1) by (metis append_is_Nil_conv last_ConsR last_appendR list.distinct(1))
          then have "boundary f (dropWhile ?ns r) key"
            using less.prems \<open>dropWhile ?ns r \<noteq> []\<close> Cons unfolding boundary_def
            by (simp only: if_False list.distinct simp_thms)
          moreover have "length (dropWhile ?ns r) < length pre"
            using shorter length_dropWhile_le [of ?ns r] by simp
          moreover have "f = f'" using ff x by (simp add: takeWhile_append1)
          ultimately show ?thesis using less.hyps x by (simp add: dropWhile_append1)
        next
          case False
          have "dropWhile ?ns (r @ key @ CHR ''='' # u @ post) = post" if "\<forall>c \<in> set u. ?ns c" for u
          proof -
            have "\<not> ascii_space (CHR ''='')" by (simp add: ascii_space_def)
            then have "\<forall>x \<in> set (r @ key @ CHR ''='' # u). ?ns x"
              using False that sensitive_no_space [OF key(1)] by auto
            from value_span [OF this post] show ?thesis by simp
          qed
          with v(2) w(2) show ?thesis by (simp only:) (rule redact_space [OF post])
        qed
        from match km have "key_match pw (c # tail u) = Some (k, r @ key @ CHR ''='' # u @ post)" for u by simp
        with unf same [OF refl refl] show ?thesis by (simp del: redact.simps)
      qed
    next
      case False
      let ?ns = "\<lambda>c. \<not> ascii_space c"
      have km: "key_match pw (c # tail u) =
          (if sensitive (c # pre' @ key) \<and> pw \<noteq> word_char c then Some (c # pre' @ key, u @ post) else None)"
        if "u \<noteq> []" "\<forall>c \<in> set u. ?ns c" for u
        using cut_char_append_out [of "CHR ''=''" "c # pre' @ key" "u @ post"] False key(2) that
        by (cases u) (simp_all add: key_match_def tail_def)
      have post': "redact f post = redact False post" for f by (rule redact_space [OF post])
      show ?thesis
      proof (cases "sensitive (c # pre' @ key) \<and> pw \<noteq> word_char c")
        case True
        show ?thesis unfolding unf km [OF v] km [OF w] if_P [OF True]
          by (simp only: option.case prod.case value_span [OF v(2) post] value_span [OF w(2) post]
              post' [of "word_char (last (takeWhile ?ns (v @ post)))"]
              post' [of "word_char (last (takeWhile ?ns (w @ post)))"])
      next
        case False
        show ?thesis unfolding unf km [OF v] km [OF w] if_not_P [OF False] by (simp only: option.case step)
      qed
    qed
    with Cons show ?thesis by (simp add: tail_def del: redact.simps)
  qed
qed

section \<open>Properties\<close>

text \<open>C24: At most the requested number of log lines is shown, each of at most 1027 bytes (1024 and an
  ellipsis), and no shown byte is a control character other than the tab: escape sequences, line
  breaks and carriage returns never reach the terminal.\<close>

theorem sanitized_lines_bounded:
  "length (sanitized_log_lines ip content limit) \<le> nat limit \<and>
   list_all (\<lambda>l. length l \<le> 1027 \<and> list_all shown_byte l) (sanitized_log_lines ip content limit)"
  using sanitize_line_bounds by (auto simp: sanitized_log_lines_def Let_def list_all_iff)



end
