(* ===== verification/Policy.thy ===== *)
theory Policy
  imports Runner
begin

text \<open>
  A program logic for effectful operations.  A policy \<open>G h e\<close> says whether the event \<open>e\<close> is
  permitted after the history \<open>h\<close>; \<open>triple P G m Q\<close> says that \<open>m\<close>, started on a history with
  \<open>P\<close>, appends permitted events only and ends with \<open>Q\<close> of its result and the history.  The
  rules of the collection \<open>triple_rules\<close> follow the combinators.
\<close>

named_theorems triple_rules \<open>rules of the program logic, one per combinator\<close>

definition permits :: "(history \<Rightarrow> event \<Rightarrow> bool) \<Rightarrow> history \<Rightarrow> event list \<Rightarrow> bool" where
  "permits G h es \<longleftrightarrow> (\<forall>pre e post. es = pre @ e # post \<longrightarrow> G (h @ pre) e)"

lemma permits_Nil [simp]: "permits G h []"
  by (simp add: permits_def)

lemma permits_Cons [simp]: "permits G h (e # es) \<longleftrightarrow> G h e \<and> permits G (h @ [e]) es"
proof -
  have "permits G h (e # es) \<longleftrightarrow> (\<forall>pre x post. e # es = pre @ x # post \<longrightarrow> G (h @ pre) x)"
    by (simp add: permits_def)
  also have "\<dots> \<longleftrightarrow> G h e \<and> (\<forall>pre x post. es = pre @ x # post \<longrightarrow> G (h @ e # pre) x)"
  proof (intro iffI conjI allI impI)
    fix pre x post
    assume a: "\<forall>pre x post. e # es = pre @ x # post \<longrightarrow> G (h @ pre) x"
    show "G h e" using a [rule_format, of "[]"] by simp
    show "G (h @ e # pre) x" if "es = pre @ x # post" using a [rule_format, of "e # pre"] that by simp
  next
    fix pre x post
    assume a: "G h e \<and> (\<forall>pre x post. es = pre @ x # post \<longrightarrow> G (h @ e # pre) x)"
      and eq: "e # es = pre @ x # post"
    then show "G (h @ pre) x" by (cases pre) auto
  qed
  also have "\<dots> \<longleftrightarrow> G h e \<and> permits G (h @ [e]) es" by (simp add: permits_def)
  finally show ?thesis .
qed

lemma permits_append: "permits G h (es @ fs) \<longleftrightarrow> permits G h es \<and> permits G (h @ es) fs"
  by (induction es arbitrary: h) auto

lemma permits_all: "(\<And>h. \<forall>e \<in> set es. G h e) \<Longrightarrow> permits G h es"
  by (induction es arbitrary: h) auto

definition triple ::
  "(history \<Rightarrow> bool) \<Rightarrow> (history \<Rightarrow> event \<Rightarrow> bool) \<Rightarrow> 'a io \<Rightarrow> ('a \<Rightarrow> history \<Rightarrow> bool) \<Rightarrow> bool" where
  "triple P G m Q \<longleftrightarrow>
     (\<forall>h x h'. P h \<longrightarrow> m h = (x, h') \<longrightarrow> (\<exists>es. h' = h @ es \<and> permits G h es) \<and> Q x h')"

lemma tripleD:
  assumes "triple P G m Q" "P h" "m h = (x, h')"
  obtains es where "h' = h @ es" "permits G h es" "Q x h'"
  using assms unfolding triple_def by blast

lemma triple_andThen [triple_rules]:
  assumes "triple P G m Q" "\<And>x. triple (Q x) G (f x) R"
  shows "triple P G (andThen m f) R"
  unfolding triple_def
proof (intro allI impI)
  fix h y h'
  assume P: "P h" and run: "andThen m f h = (y, h')"
  obtain x h1 where m: "m h = (x, h1)" by fastforce
  with run have f: "f x h1 = (y, h')" by simp
  from assms(1) P m obtain es where 1: "h1 = h @ es" "permits G h es" "Q x h1" by (rule tripleD)
  from assms(2) 1(3) f obtain fs where 2: "h' = h1 @ fs" "permits G h1 fs" "R y h'" by (rule tripleD)
  from 1 2 show "(\<exists>es. h' = h @ es \<and> permits G h es) \<and> R y h'"
    by (intro conjI exI [of _ "es @ fs"]) (simp_all add: permits_append)
qed

lemma triple_ret: "(\<And>h. P h \<Longrightarrow> Q x h) \<Longrightarrow> triple P G (ret x) Q"
  by (auto simp: triple_def)

lemma triple_okE: "(\<And>h. P h \<Longrightarrow> Q (Inr x) h) \<Longrightarrow> triple P G (okE x) Q"
  by (auto simp: triple_def)

lemma triple_failE: "(\<And>h. P h \<Longrightarrow> Q (Inl e) h) \<Longrightarrow> triple P G (failE e) Q"
  by (auto simp: triple_def)

lemma triple_weaken:
  assumes "triple P G m Q" "\<And>h. P' h \<Longrightarrow> P h" "\<And>x h. Q x h \<Longrightarrow> Q' x h"
  shows "triple P' G m Q'"
  using assms unfolding triple_def by blast

lemma triple_pre: "triple P G m Q \<Longrightarrow> (\<And>h. P' h \<Longrightarrow> P h) \<Longrightarrow> triple P' G m Q"
  by (rule triple_weaken)

lemma triple_post: "triple P G m Q \<Longrightarrow> (\<And>x h. Q x h \<Longrightarrow> Q' x h) \<Longrightarrow> triple P G m Q'"
  by (rule triple_weaken)

lemma triple_andThenE [triple_rules]:
  assumes "triple P G m Q" "\<And>h e. Q (Inl e) h \<Longrightarrow> R (Inl e) h" "\<And>v. triple (Q (Inr v)) G (f v) R"
  shows "triple P G (andThenE m f) R"
  unfolding andThenE_def
proof (rule triple_andThen [OF assms(1)])
  fix x show "triple (Q x) G (case x of Inl e \<Rightarrow> ret (Inl e) | Inr v \<Rightarrow> f v) R"
    by (cases x) (simp_all add: assms triple_ret)
qed

lemma triple_map_errE [triple_rules]:
  "triple P G m (\<lambda>r. Q (map_err g r)) \<Longrightarrow> triple P G (map_errE g m) Q"
  unfolding map_errE_def by (rule triple_andThen) (assumption, rule triple_ret)

lemma triple_if [triple_rules]:
  "(b \<Longrightarrow> triple P G m Q) \<Longrightarrow> (\<not> b \<Longrightarrow> triple P G n Q) \<Longrightarrow> triple P G (if b then m else n) Q"
  by simp

lemma triple_option [triple_rules]:
  "(x = None \<Longrightarrow> triple P G m Q) \<Longrightarrow> (\<And>v. x = Some v \<Longrightarrow> triple P G (f v) Q) \<Longrightarrow>
     triple P G (case x of None \<Rightarrow> m | Some v \<Rightarrow> f v) Q"
  by (cases x) auto

lemma triple_sum [triple_rules]:
  "(\<And>e. x = Inl e \<Longrightarrow> triple P G (f e) Q) \<Longrightarrow> (\<And>v. x = Inr v \<Longrightarrow> triple P G (g v) Q) \<Longrightarrow>
     triple P G (case x of Inl e \<Rightarrow> f e | Inr v \<Rightarrow> g v) Q"
  by (cases x) auto

lemma triple_prod [triple_rules]:
  "(\<And>a b. p = (a, b) \<Longrightarrow> triple P G (f a b) Q) \<Longrightarrow> triple P G (case p of (a, b) \<Rightarrow> f a b) Q"
  by (cases p) auto

lemma triple_let [triple_rules]: "triple P G (f v) Q \<Longrightarrow> triple P G (let x = v in f x) Q"
  by simp

text \<open>
  An operation that appends only events permitted whatever the history, and that keep \<open>I\<close>, keeps
  \<open>I\<close>: the way the operations with a rule of \<open>io_rules\<close> enter the logic.
\<close>

definition stable :: "(event \<Rightarrow> bool) \<Rightarrow> (history \<Rightarrow> bool) \<Rightarrow> bool" where
  "stable Q I \<longleftrightarrow> (\<forall>h e. I h \<longrightarrow> Q e \<longrightarrow> I (h @ [e]))"

lemma stable_list: "stable Q I \<Longrightarrow> I h \<Longrightarrow> \<forall>e \<in> set es. Q e \<Longrightarrow> I (h @ es)"
proof (induction es arbitrary: h)
  case (Cons e es)
  then have "I (h @ [e])" by (auto simp: stable_def)
  with Cons show ?case by fastforce
qed simp

lemma triple_appends:
  assumes "appends Q m" "stable Q I" "\<And>h e. I h \<Longrightarrow> Q e \<Longrightarrow> G h e"
  shows "triple I G m (\<lambda>_. I)"
  unfolding triple_def
proof (intro allI impI)
  fix h x h'
  assume I: "I h" and m: "m h = (x, h')"
  from assms(1) m obtain es where es: "h' = h @ es" "\<forall>e \<in> set es. Q e" by (rule appendsD)
  have "permits G h es"
    using I es(2)
  proof (induction es arbitrary: h)
    case (Cons e es)
    then have "I (h @ [e])" using assms(2) by (auto simp: stable_def)
    with Cons assms(3) show ?case by auto
  qed simp
  moreover have "I h'" using stable_list [OF assms(2) I es(2)] es(1) by simp
  ultimately show "(\<exists>es. h' = h @ es \<and> permits G h es) \<and> I h'" using es(1) by blast
qed

lemma triple_run:
  assumes "triple P G m Q" "P h" "m h = (x, h')"
  shows "Q x h'"
  using assms unfolding triple_def by blast

lemma triple_permits:
  assumes "triple P G m Q" "P h" "m h = (x, h @ es)"
  shows "permits G h es"
proof -
  from assms obtain fs where "h @ es = h @ fs" "permits G h fs" by (rule tripleD)
  then show ?thesis by simp
qed

end
