(* ===== verification/Attach.thy ===== *)
theory Attach
  imports Launch_Facts Update_Check Log_Lines Policy
begin

text \<open>
  Preparing a project, waiting for the workstation session, recovering it and attaching to it
  (\<open>internal/app/launch.go\<close>, \<open>attach.go\<close>).  A message on the terminal is a \<open>Said\<close> event; the
  clock of the launcher gives the time of a history in milliseconds.
\<close>

section \<open>Messages and clean-up\<close>

definition fail_exit :: "int \<Rightarrow> app_error \<Rightarrow> exit io" where
  "fail_exit code e = andThen (say ''hcorral'' []) (\<lambda>_. ret (Fail code e))"

definition child_exit_code :: "launcher \<Rightarrow> cmd_error \<Rightarrow> int" where
  "child_exit_code ln e = (if ln_exit_status ln e \<ge> 0 then ln_exit_status ln e else 1)"

text \<open>What a deferred call does: nothing more happens in a process that was replaced.\<close>

definition deferred :: "unit io \<Rightarrow> exit \<Rightarrow> exit io" where
  "deferred cleanup x = (if x = Became then ret x else andThen cleanup (\<lambda>_. ret x))"

definition refuse_legacy :: "legacy_match \<Rightarrow> exit io" where
  "refuse_legacy l =
     andThen (say ''legacy'' [lm_container l, lm_state l]) (\<lambda>_. ret (LegacyRefused l))"

definition warn_multiplicity :: "container list \<Rightarrow> workspace \<Rightarrow> unit io" where
  "warn_multiplicity containers ws =
     (let names = other_projects containers ws in
      if names = [] then ret ()
      else say ''shared-corral'' [ws_corral_id ws, join_str '', '' names, ws_project ws])"

section \<open>The Compose project of a workspace\<close>

text \<open>
  \<open>prepareProject\<close>: the selection, the assets and the invocation, and the path of the generated
  overlay, which is set also when the invocation failed and has to be removed by the caller.
\<close>

definition prepare_selection ::
  "daemon \<Rightarrow> launcher \<Rightarrow> config \<Rightarrow> workspace \<Rightarrow> container option \<Rightarrow> asset_paths \<Rightarrow> (app_error, selection) result io" where
  "prepare_selection d ln cfg ws candidate assets =
     (case candidate of
        Some c \<Rightarrow>
          if \<not> gui_specified (cfg_gui cfg) then ret (selection_from_container c assets)
          else map_errE AppGui (discover d (around ln) (cfg_gui cfg) ws assets)
      | None \<Rightarrow>
          if cfg_platform cfg \<noteq> ''darwin'' \<or> gui_specified (cfg_gui cfg)
          then map_errE AppGui (discover d (around ln) (cfg_gui cfg) ws assets)
          else okE (bare_selection ''none'' [] [(''HCORRAL_GUI_MODE'', ''none'')]))"

definition prepare_project ::
  "daemon \<Rightarrow> launcher \<Rightarrow> config \<Rightarrow> workspace \<Rightarrow> container option \<Rightarrow>
     ((app_error, selection \<times> asset_paths \<times> invocation) result \<times> string) io" where
  "prepare_project d ln cfg ws candidate =
     andThen (map_errE AppCompose (materialize d (around ln))) (\<lambda>r.
       case r of Inl e \<Rightarrow> ret (Inl e, []) | Inr assets \<Rightarrow>
     andThen (prepare_selection d ln cfg ws candidate assets) (\<lambda>r.
       case r of Inl e \<Rightarrow> ret (Inl e, []) | Inr sel \<Rightarrow>
     andThen (map_errE AppCompose (extra_mount_overlay d (around ln) cfg)) (\<lambda>r.
       case r of Inl e \<Rightarrow> ret (Inl e, []) | Inr generated \<Rightarrow>
       (case new_invocation (around ln) cfg ws assets (sel_file sel) (sel_env sel) of
          Inl e \<Rightarrow> ret (Inl (AppCompose e), generated)
        | Inr i \<Rightarrow>
            ret (Inr (sel, assets,
              if generated \<noteq> [] then i\<lparr>inv_files := inv_files i @ [generated]\<rparr> else i), generated)))))"

definition app_render :: "daemon \<Rightarrow> invocation \<Rightarrow> (app_error, rendered) result io" where
  "app_render d i = map_errE AppCompose (project_render d i)"

text \<open>\<open>desiredDrift\<close>: the drift, its detail and the selected image, without touching anything.\<close>

definition desired_drift ::
  "daemon \<Rightarrow> launcher \<Rightarrow> config \<Rightarrow> workspace \<Rightarrow> container list \<Rightarrow> container option \<Rightarrow>
     (string \<times> string \<times> string) io" where
  "desired_drift d ln cfg ws containers candidate =
     andThen (prepare_project d ln cfg ws candidate) (\<lambda>(r, generated).
     andThen (case r of
         Inl e \<Rightarrow> ret (''unknown'', ln_error_text ln e, [])
       | Inr (sel, assets, i) \<Rightarrow>
           andThen (app_render d i) (\<lambda>r. ret (case r of
             Inl e \<Rightarrow> (''unknown'', ln_error_text ln e, [])
           | Inr rd \<Rightarrow>
               (case compare_drift rd (deployed_hashes containers ws) of (drift, detail) \<Rightarrow>
                 (drift, detail, case rendered_image rd of Inl e \<Rightarrow> [] | Inr reference \<Rightarrow> reference)))))
       (\<lambda>result. andThen (cleanup_generated d generated) (\<lambda>_. ret result)))"

text \<open>\<open>reportDrift\<close>: the selected image, and the line for the report.\<close>

definition report_drift ::
  "daemon \<Rightarrow> launcher \<Rightarrow> config \<Rightarrow> workspace \<Rightarrow> container list \<Rightarrow> container option \<Rightarrow> (string \<times> string) io" where
  "report_drift d ln cfg ws containers candidate =
     andThen (desired_drift d ln cfg ws containers candidate) (\<lambda>(drift, detail, reference).
       if drift \<noteq> ''none'' then
         (let text = message_line (''desired/deployed Compose drift is '' @ drift @ '' ('' @ detail @
                ''); attaching without reconciliation'')
          in andThen (say ''drift'' [text]) (\<lambda>_. ret (reference, text)))
       else ret (reference, []))"

section \<open>GUI guards\<close>

definition guard_existing_gui ::
  "daemon \<Rightarrow> launcher \<Rightarrow> config \<Rightarrow> workspace \<Rightarrow> container option \<Rightarrow> (app_error, unit) result io" where
  "guard_existing_gui d ln cfg ws candidate =
     (if cfg_platform cfg = ''darwin'' \<and> deployed_gui candidate \<noteq> ''none''
      then failE (GuiOnMac (deployed_gui candidate))
      else if \<not> gui_specified (cfg_gui cfg) \<or> label (cfg_sources cfg) ''gui'' = ''environment'' then okE ()
      else andThenE (map_errE AppCompose (materialize d (around ln))) (\<lambda>assets.
        andThenE (map_errE AppGui (discover d (around ln) (cfg_gui cfg) ws assets)) (\<lambda>sel.
          if sel_mode sel \<noteq> deployed_gui candidate
          then failE (GuiModeDiffers (deployed_gui candidate) (sel_mode sel)) else okE ())))"

definition guard_attach_gui ::
  "daemon \<Rightarrow> launcher \<Rightarrow> config \<Rightarrow> workspace \<Rightarrow> container option \<Rightarrow> (app_error, unit) result io" where
  "guard_attach_gui d ln cfg ws candidate =
     (if \<not> active candidate then failE NotRunning else guard_existing_gui d ln cfg ws candidate)"

section \<open>The workstation session\<close>

definition has_session_argv :: "runtime_settings \<Rightarrow> string list" where
  "has_session_argv s = [''gosu'', rs_uid s, ''env'', ''HOME='' @ rs_home s, ''byobu-tmux'', ''has-session'', ''-t'',
     ''='' @ rs_session s]"

definition session_ready :: "daemon \<Rightarrow> launcher \<Rightarrow> config \<Rightarrow> container option \<Rightarrow> bool io" where
  "session_ready d ln cfg candidate =
     (case candidate of
        None \<Rightarrow> ret False
      | Some c \<Rightarrow>
          if \<not> c_running c \<or> c_paused c \<or> c_restarting c then ret False
          else andThen (exec_capture d (c_id c) (has_session_argv (deployed_settings ln cfg candidate)))
            (\<lambda>(out, err, failure). ret (failure = None)))"

definition session_init_argv :: "string list" where
  "session_init_argv = [''/usr/local/bin/hcorral-session-init'']"

definition recover_session :: "daemon \<Rightarrow> string \<Rightarrow> docker_error option io" where
  "recover_session d name =
     andThen (exec_capture d name session_init_argv) (\<lambda>(out, err, failure). ret failure)"

fun say_lines :: "string list \<Rightarrow> unit io" where
  "say_lines [] = ret ()"
| "say_lines (l # ls) = andThen (say ''log'' [l]) (\<lambda>_. say_lines ls)"

definition report_startup_logs :: "daemon \<Rightarrow> launcher \<Rightarrow> string \<Rightarrow> unit io" where
  "report_startup_logs d ln name =
     andThen (container_logs d name 80) (\<lambda>(out, err, failure).
       if failure \<noteq> None then say ''logs-unavailable'' []
       else let ls = sanitized_log_lines (ln_print ln) (out @ err) 80 in
         if ls = [] then ret () else andThen (say ''last-log-lines'' []) (\<lambda>_. say_lines ls))"

definition now :: "launcher \<Rightarrow> int io" where
  "now ln h = (ln_clock ln h, h)"

text \<open>
  The loop of \<open>waitReady\<close>.  Fuel counts the passes; the case without fuel is distinguished from
  every result of the code, and \<open>wait_ready_returns\<close> shows it is not reached.
\<close>

fun wait_loop ::
  "daemon \<Rightarrow> launcher \<Rightarrow> config \<Rightarrow> string \<Rightarrow> int \<Rightarrow> int \<Rightarrow> nat \<Rightarrow> (app_error, unit) result io" where
  "wait_loop d ln cfg name deadline notice 0 = failE StillWaiting"
| "wait_loop d ln cfg name deadline notice (Suc n) =
     andThen (now ln) (\<lambda>t.
       if \<not> t < deadline then andThen (report_startup_logs d ln name) (\<lambda>_. failE ReadinessTimedOut)
       else andThen (inspect_container d name) (\<lambda>r.
         case r of
           Inl e \<Rightarrow> andThen (context_error d False) (\<lambda>over.
             if over then failE ReadinessTimedOut else failE (AppDocker e))
         | Inr inspected \<Rightarrow>
             andThen (session_ready d ln cfg inspected) (\<lambda>ready.
               if ready then okE ()
               else if state_of inspected = ''exited'' \<or> state_of inspected = ''dead'' then
                 andThen (report_startup_logs d ln name) (\<lambda>_. failE (ReadinessFailed (state_of inspected)))
               else andThen (now ln) (\<lambda>t2.
                 andThen (if t2 > notice then
                            andThen (say ''waiting'' [state_of inspected]) (\<lambda>_.
                            andThen (now ln) (\<lambda>t3. ret (t3 + cfg_progress_interval cfg * 1000)))
                          else ret notice) (\<lambda>notice'.
                 andThen (sys d ''sleep'' [''250ms'']) (\<lambda>a.
                   if failed a then failE ReadinessTimedOut
                   else wait_loop d ln cfg name deadline notice' n))))))"

definition wait_fuel :: "config \<Rightarrow> nat" where
  "wait_fuel cfg = nat (cfg_wait_timeout cfg * 4) + 1"

definition wait_ready :: "daemon \<Rightarrow> launcher \<Rightarrow> config \<Rightarrow> string \<Rightarrow> (app_error, unit) result io" where
  "wait_ready d ln cfg name =
     andThen (now ln) (\<lambda>start.
       wait_loop d ln cfg name (start + cfg_wait_timeout cfg * 1000) start (wait_fuel cfg))"

section \<open>Attaching\<close>

record startup_report =
  sr_text :: string
  sr_image :: string
  sr_refreshed :: bool

definition no_report :: startup_report where
  "no_report = \<lparr>sr_text = [], sr_image = [], sr_refreshed = False\<rparr>"

text \<open>\<open>%q\<close>: a Go string literal; bytes outside ASCII are kept.\<close>

definition hex_digit :: "nat \<Rightarrow> char" where
  "hex_digit n = ''0123456789abcdef'' ! n"

definition quote_char :: "char \<Rightarrow> string" where
  "quote_char c =
     (let n = (of_char c :: nat) in
      if n = 34 \<or> n = 92 then [CHR 0x5C, c]
      else case map_of [(7, CHR ''a''), (8, CHR ''b''), (9, CHR ''t''), (10, CHR ''n''), (11, CHR ''v''),
                        (12, CHR ''f''), (13, CHR ''r'')] n of
        Some l \<Rightarrow> [CHR 0x5C, l]
      | None \<Rightarrow>
          if n < 32 \<or> n = 127 then [CHR 0x5C, CHR ''x'', hex_digit (n div 16), hex_digit (n mod 16)] else [c])"

definition quote_string :: "string \<Rightarrow> string" where
  "quote_string s = [CHR 0x22] @ concat (map quote_char s) @ [CHR 0x22]"

definition gui_notice :: "string \<Rightarrow> string" where
  "gui_notice mode =
     (if mode = ''x11'' then
        ''hcorral: GUI access enabled (X11); the container can access the selected desktop display.''
      else if mode = ''wayland'' then
        ''hcorral: GUI access enabled (Wayland); the container can access the selected desktop socket.''
      else if mode = ''none'' then ''hcorral: GUI access disabled (headless)''
      else ''hcorral: deployed GUI mode is '' @ quote_string mode @ '' (unknown)'')"

definition attach_argv :: "launcher \<Rightarrow> config \<Rightarrow> container \<Rightarrow> string \<Rightarrow> bool \<Rightarrow> string list" where
  "attach_argv ln cfg c details reopen =
     (let settings = deployed_settings ln cfg (Some c); mode = deployed_gui (Some c) in
      [''docker'', ''exec'', ''-it'', c_id c, ''gosu'', rs_uid settings, ''env'', ''HOME='' @ rs_home settings,
       ''bash'', ''--noprofile'', ''--norc'', ''-c'', ln_notices ln, ''hcorral-tmux'', rs_session settings, mode,
       gui_notice mode, details, if reopen then ''1'' else ''0''])"

definition replace_process :: "daemon \<Rightarrow> string list \<Rightarrow> exit io" where
  "replace_process d argv =
     andThen (runner_replace d argv) (\<lambda>failure.
       case failure of None \<Rightarrow> ret Became | Some e \<Rightarrow> fail_exit 1 (ReplaceFailed e))"

definition replace_attach ::
  "daemon \<Rightarrow> launcher \<Rightarrow> config \<Rightarrow> container \<Rightarrow> string \<Rightarrow> bool \<Rightarrow> exit io" where
  "replace_attach d ln cfg c details reopen =
     andThen (if reopen then ret () else say ''gui'' [gui_notice (deployed_gui (Some c))]) (\<lambda>_.
       replace_process d (attach_argv ln cfg c details reopen))"

definition launcher_checker :: "launcher \<Rightarrow> bool \<Rightarrow> checker" where
  "launcher_checker ln refreshed =
     \<lparr>ck_registry_url = [], ck_launcher_version = ln_version ln, ck_image_refreshed = refreshed,
      ck_decode_tag = ln_decode_tag ln, ck_decode_release = ln_decode_release ln\<rparr>"

definition attach_with_report ::
  "daemon \<Rightarrow> launcher \<Rightarrow> config \<Rightarrow> container \<Rightarrow> startup_report \<Rightarrow> bool \<Rightarrow> exit io" where
  "attach_with_report d ln cfg c startup reopen =
     (let cfg' = cfg\<lparr>cfg_image := sr_image startup\<rparr> in
      andThen (if reopen then ret []
               else notify d (launcher_checker ln (sr_refreshed startup)) cfg' (Some c)) (\<lambda>report.
        replace_attach d ln cfg' c (sr_text startup @ report) reopen))"

definition exec_script :: string where
  "exec_script = ''runtime_user='' @ [CHR 0x22] @ ''$(id -un)'' @ [CHR 0x22] @ ''; export USER='' @ [CHR 0x22] @
     ''${runtime_user}'' @ [CHR 0x22] @ '' LOGNAME='' @ [CHR 0x22] @ ''${runtime_user}'' @ [CHR 0x22] @
     ''; cd '' @ [CHR 0x22] @ ''$1'' @ [CHR 0x22] @ ''; shift; exec '' @ [CHR 0x22] @ ''$@'' @ [CHR 0x22]"

definition replace_exec ::
  "daemon \<Rightarrow> launcher \<Rightarrow> config \<Rightarrow> container \<Rightarrow> string list \<Rightarrow> exit io" where
  "replace_exec d ln cfg c args =
     (let settings = deployed_settings ln cfg (Some c) in
      replace_process d ([''docker'', ''exec'', if ln_terminal ln then ''-it'' else ''-i'', c_id c, ''gosu'',
        rs_uid settings, ''env'', ''HOME='' @ rs_home settings, ''bash'', ''--login'', ''-c'', exec_script, ''bash'',
        rs_workdir settings] @ args))"

end
