(* ===== verification/Startup.thy ===== *)
theory Startup
  imports Attach
begin

text \<open>
  Starting an environment (\<open>internal/app/startup.go\<close>, and \<open>ensureSelectedImage\<close> of \<open>launch.go\<close>):
  the image that is prepared, the check repeated before every mutation, and the start of a
  stopped container, which applies a refreshed image only to a reproducible project.
\<close>

section \<open>Images\<close>

definition app_docker :: "(docker_error, 'a) result io \<Rightarrow> (app_error, 'a) result io" where
  "app_docker m = map_errE AppDocker m"

definition app_state :: "(state_error, 'a) result io \<Rightarrow> (app_error, 'a) result io" where
  "app_state m = map_errE AppState m"

definition ensure_selected_image :: "daemon \<Rightarrow> string \<Rightarrow> (app_error, unit) result io" where
  "ensure_selected_image d reference =
     andThenE (app_docker (inspect_image d reference)) (\<lambda>img.
       if img \<noteq> None then okE ()
       else andThen (say ''pulling'' [reference]) (\<lambda>_.
         andThen (pull_image d reference) (\<lambda>failure.
           case failure of
             Some e \<Rightarrow> failE (PullFailed e)
           | None \<Rightarrow> andThenE (app_docker (inspect_image d reference)) (\<lambda>img'.
               if img' = None then failE (PulledButUnavailable reference) else okE ()))))"

text \<open>\<open>startupReport.add\<close>: the line goes to the report and to the terminal.\<close>

definition report_add :: "string \<Rightarrow> startup_report \<Rightarrow> startup_report io" where
  "report_add text report =
     andThen (say ''report'' [message_line text]) (\<lambda>_. ret (report\<lparr>sr_text := sr_text report @ message_line text\<rparr>))"

definition prepare_start_image ::
  "daemon \<Rightarrow> string \<Rightarrow> bool \<Rightarrow> bool \<Rightarrow> startup_report \<Rightarrow> (startup_report \<times> (app_error, image option) result) io" where
  "prepare_start_image d reference autoPull existing report0 =
     (let report = report0\<lparr>sr_image := reference\<rparr> in
      if \<not> autoPull \<or> \<not> is_latest reference then
        (if existing then ret (report, Inr None)
         else andThen (andThenE (ensure_selected_image d reference) (\<lambda>_. app_docker (inspect_image d reference)))
           (\<lambda>r. ret (report, r)))
      else andThen (say ''checking'' [reference]) (\<lambda>_.
        andThen (pull_image d reference) (\<lambda>failure.
          case failure of
            Some e \<Rightarrow>
              if existing then
                andThen (report_add (''image refresh failed; starting the existing container with its original '' @
                  ''image and mounts. Retry `hcorral pull` when the registry is reachable.'') report)
                  (\<lambda>report'. ret (report', Inr None))
              else andThen (app_docker (inspect_image d reference)) (\<lambda>r.
                case r of
                  Inl e' \<Rightarrow> ret (report, Inl e')
                | Inr None \<Rightarrow> ret (report, Inl (RefreshFailed reference e))
                | Inr (Some img) \<Rightarrow>
                    andThen (report_add (''image refresh failed; using cached '' @ reference @
                      ''. Retry `hcorral pull` when the registry is reachable.'') report)
                      (\<lambda>report'. ret (report', Inr (Some img))))
          | None \<Rightarrow>
              andThen (app_docker (inspect_image d reference)) (\<lambda>r.
                case r of
                  Inl e' \<Rightarrow> ret (report, Inl e')
                | Inr None \<Rightarrow> ret (report, Inl (PulledButUnavailable reference))
                | Inr (Some img) \<Rightarrow>
                    if img_id img = [] then ret (report, Inl (PulledButUnavailable reference))
                    else andThen (report_add (''refreshed published image '' @ reference @ ''.'')
                        (report\<lparr>sr_refreshed := True\<rparr>))
                      (\<lambda>report'. ret (report', Inr (Some img)))))))"

section \<open>The check before a mutation\<close>

text \<open>The three ownership checks on a fresh listing, which every locked path performs.\<close>

definition check_listing ::
  "workspace \<Rightarrow> container list \<Rightarrow> (app_error, container option) result" where
  "check_listing ws containers =
     (let current = find_container containers (ws_project ws) in
      case verify_container current ws of
        Some e \<Rightarrow> Inl (AppOwnership e)
      | None \<Rightarrow>
          (case verify_project_containers containers ws current of
             Some e \<Rightarrow> Inl e
           | None \<Rightarrow> Inr current))"

text \<open>Why a launch is refused on a listing: an error, or a myCodex environment.\<close>

datatype refusal = RefuseError app_error | RefuseLegacy legacy_match

definition verified_listing ::
  "daemon \<Rightarrow> workspace \<Rightarrow> (refusal, container option \<times> container list) result io" where
  "verified_listing d ws =
     andThenE (map_errE RefuseError (app_docker (list_containers d))) (\<lambda>containers.
       case check_listing ws containers of
         Inl e \<Rightarrow> failE (RefuseError e)
       | Inr current \<Rightarrow>
           (case find_legacy containers (ws_path ws) of
              Some l \<Rightarrow> failE (RefuseLegacy l)
            | None \<Rightarrow> okE (current, containers)))"

definition startup_refusal :: "refusal \<Rightarrow> app_error" where
  "startup_refusal r = (case r of RefuseError e \<Rightarrow> e | RefuseLegacy l \<Rightarrow> LegacyAppeared (lm_container l))"

definition recheck_project ::
  "daemon \<Rightarrow> workspace \<Rightarrow> container option \<Rightarrow> (app_error, container option \<times> container list) result io" where
  "recheck_project d ws expected =
     andThenE (map_errE startup_refusal (verified_listing d ws)) (\<lambda>(current, containers).
       if (case expected of
             None \<Rightarrow> current \<noteq> None
           | Some x \<Rightarrow> (case current of None \<Rightarrow> True | Some c \<Rightarrow> c_id c \<noteq> c_id x))
       then failE ContainerChanged
       else if current \<noteq> None \<and> \<not> stopped current \<and> \<not> active current
       then failE (ContainerStateChanged (state_of current))
       else okE (current, containers))"

section \<open>A stopped container\<close>

type_synonym started = "startup_report \<times> (app_error, unit) result"

definition is_running :: "container option \<Rightarrow> bool" where
  "is_running co = (case co of None \<Rightarrow> False | Some c \<Rightarrow> c_running c)"

definition start_original ::
  "daemon \<Rightarrow> workspace \<Rightarrow> container \<Rightarrow> startup_report \<Rightarrow> started io" where
  "start_original d ws candidate report =
     andThen (recheck_project d ws (Some candidate)) (\<lambda>r.
       case r of
         Inl e \<Rightarrow> ret (report, Inl e)
       | Inr (current, containers) \<Rightarrow>
           (case current of
              None \<Rightarrow> ret (report, Inl ContainerChanged)
            | Some c \<Rightarrow>
                if c_running c then ret (report, Inr ())
                else andThen (app_docker (start_container d (c_id c))) (\<lambda>r. ret (report, r))))"

definition start_noted ::
  "daemon \<Rightarrow> workspace \<Rightarrow> container \<Rightarrow> startup_report \<Rightarrow> string \<Rightarrow> started io" where
  "start_noted d ws candidate report text =
     andThen (report_add text report) (start_original d ws candidate)"

text \<open>The three ownership checks of the objects Compose would use.\<close>

definition validate_objects ::
  "daemon \<Rightarrow> config \<Rightarrow> workspace \<Rightarrow> rendered \<Rightarrow> (app_error, unit) result io" where
  "validate_objects d cfg ws rd =
     andThenE (app_state (validate_compose_network_ownership d rd ws)) (\<lambda>_.
     andThenE (app_state (validate_compose_volume_ownership d rd ws)) (\<lambda>_.
       app_state (validate_state_ownership d cfg ws)))"

definition recreate_args :: "string list" where
  "recreate_args = [''up'', ''-d'', ''--no-build'', ''--pull'', ''never'', ''--no-deps'', ''hcorral'']"

text \<open>The last step: everything is checked again, then the container is recreated.\<close>

definition apply_refreshed ::
  "daemon \<Rightarrow> config \<Rightarrow> workspace \<Rightarrow> container \<Rightarrow> invocation \<Rightarrow> rendered \<Rightarrow> startup_report \<Rightarrow> started io" where
  "apply_refreshed d cfg ws candidate i rd report =
     andThen (andThenE (validate_objects d cfg ws rd) (\<lambda>_. recheck_project d ws (Some candidate))) (\<lambda>r.
       case r of
         Inl e \<Rightarrow> ret (report, Inl e)
       | Inr (current, containers) \<Rightarrow>
           if is_running current then ret (report, Inr ())
           else if \<not> reproducible_project rd containers ws then ret (report, Inl ProjectChanged)
           else andThen (report_add (''applying the refreshed image to the stopped container; '' @
               ''its home and workspace mounts are preserved.'') report) (\<lambda>report'.
             andThen (map_errE AppCompose (project_run d i recreate_args)) (\<lambda>r. ret (report', r))))"

text \<open>After the image was prepared: whether the refreshed image may be applied.\<close>

definition start_refreshed ::
  "daemon \<Rightarrow> config \<Rightarrow> workspace \<Rightarrow> container \<Rightarrow> invocation \<Rightarrow> string \<Rightarrow> image option \<Rightarrow> startup_report \<Rightarrow> started io" where
  "start_refreshed d cfg ws candidate i reference img report =
     andThen (recheck_project d ws (Some candidate)) (\<lambda>r.
       case r of
         Inl e \<Rightarrow> ret (report, Inl e)
       | Inr (current, containers) \<Rightarrow>
           (case current of
              None \<Rightarrow> ret (report, Inl ContainerChanged)
            | Some c \<Rightarrow>
                if c_running c then ret (report, Inr ())
                else if \<not> sr_refreshed report \<or> (case img of None \<Rightarrow> True | Some x \<Rightarrow> img_id x = c_image_id c)
                then start_original d ws candidate report
                else andThen (app_render d i) (\<lambda>r.
                  case r of
                    Inl e \<Rightarrow> start_noted d ws candidate report
                      (''configuration became unavailable during refresh; keeping the original container. '' @
                       ''Use `hcorral up -d` explicitly to update.'')
                  | Inr rd \<Rightarrow>
                      if rendered_image rd \<noteq> Inr reference then
                        start_noted d ws candidate report
                          (''selected image changed during refresh; keeping the original container. '' @
                           ''Retry with the intended configuration.'')
                      else if c_image_id c = [] \<or> \<not> reproducible_project rd containers ws then
                        start_noted d ws candidate report
                          (''a different image is available, but the stopped configuration could not be '' @
                           ''reproduced. Keeping its original image and mounts. Repeat its --gui, -v and -f '' @
                           ''options with `hcorral up -d` to apply the update.'')
                      else apply_refreshed d cfg ws candidate i rd report)))"

definition start_prepared ::
  "daemon \<Rightarrow> config \<Rightarrow> workspace \<Rightarrow> container \<Rightarrow> (app_error, selection \<times> asset_paths \<times> invocation) result \<Rightarrow>
     started io" where
  "start_prepared d cfg ws candidate prepared =
     andThen (case prepared of
         Inl e \<Rightarrow> failE e
       | Inr (sel, assets, i) \<Rightarrow> andThenE (app_render d i) (\<lambda>rd. okE (i, rd)))
       (\<lambda>r. case r of
          Inl e \<Rightarrow> start_noted d ws candidate no_report
            (''could not reproduce the stopped configuration; keeping its original image and mounts. '' @
             ''Repeat its -v/-f options with `hcorral up -d` to update.'')
        | Inr (i, rd) \<Rightarrow>
            (case rendered_image rd of
               Inl e \<Rightarrow> ret (no_report, Inl e)
             | Inr reference \<Rightarrow>
                 andThen (prepare_start_image d reference (cfg_auto_pull cfg) True no_report) (\<lambda>(report, r).
                   case r of
                     Inl e \<Rightarrow> ret (report, Inl e)
                   | Inr img \<Rightarrow> start_refreshed d cfg ws candidate i reference img report)))"

definition start_stopped ::
  "daemon \<Rightarrow> launcher \<Rightarrow> config \<Rightarrow> workspace \<Rightarrow> container \<Rightarrow> started io" where
  "start_stopped d ln cfg ws candidate =
     (if \<not> stopped (Some candidate) then ret (no_report, Inl (NotStopped (c_status candidate)))
      else andThen (andThenE (guard_existing_gui d ln cfg ws (Some candidate)) (\<lambda>_.
          app_state (validate_state_ownership d cfg ws))) (\<lambda>r.
        case r of
          Inl e \<Rightarrow> ret (no_report, Inl e)
        | Inr u \<Rightarrow>
            if \<not> cfg_auto_pull cfg then start_original d ws candidate no_report
            else let cfg' = cfg\<lparr>cfg_gui := \<lparr>gui_specified = False, gui_mode = []\<rparr>\<rparr> in
              andThen (prepare_project d ln cfg' ws (Some candidate)) (\<lambda>(prepared, generated).
              andThen (start_prepared d cfg' ws candidate prepared) (\<lambda>started.
              andThen (cleanup_generated d generated) (\<lambda>_. ret started)))))"

end
