(* ===== verification/Launch.thy ===== *)
theory Launch
  imports Startup
begin

text \<open>
  The operations of the launcher (\<open>internal/app/launch.go\<close>): the implicit default, the Compose
  commands, the removal of state, attaching, and the dispatch between them.  A deferred call runs
  on every way out of a function, except after the process was replaced.
\<close>

section \<open>Refusals and locks\<close>

definition refuse :: "refusal \<Rightarrow> exit io" where
  "refuse r = (case r of RefuseError e \<Rightarrow> fail_exit 1 e | RefuseLegacy l \<Rightarrow> refuse_legacy l)"

text \<open>\<open>coded n m\<close>: an error of \<open>m\<close> ends the process with the code \<open>n\<close>.\<close>

definition coded :: "int \<Rightarrow> (app_error, 'a) result io \<Rightarrow> (int \<times> app_error, 'a) result io" where
  "coded n m = map_errE (Pair n) m"

definition finish :: "(int \<times> app_error, unit) result \<Rightarrow> exit io" where
  "finish r = (case r of Inl (n, e) \<Rightarrow> fail_exit n e | Inr u \<Rightarrow> ret Done)"

definition app_compose :: "(compose_error, 'a) result io \<Rightarrow> (app_error, 'a) result io" where
  "app_compose m = map_errE AppCompose m"

definition app_gui :: "(gui_error, 'a) result io \<Rightarrow> (app_error, 'a) result io" where
  "app_gui m = map_errE AppGui m"

definition project_lock :: "daemon \<Rightarrow> launcher \<Rightarrow> workspace \<Rightarrow> (app_error, string) result io" where
  "project_lock d ln ws = map_errE AppLock (acquire_lock d (ln_locks ln) (ws_project ws))"

text \<open>A locked body, with the deferred \<open>lock.Close()\<close>.\<close>

definition with_project_lock ::
  "daemon \<Rightarrow> launcher \<Rightarrow> workspace \<Rightarrow> (refusal, 'a) result io \<Rightarrow> (refusal, 'a) result io" where
  "with_project_lock d ln ws body =
     andThenE (map_errE RefuseError (project_lock d ln ws)) (\<lambda>lock.
       andThen body (\<lambda>r. andThen (lock_close (Some lock)) (\<lambda>_. ret r)))"

definition mac_gui :: "config \<Rightarrow> container option \<Rightarrow> bool" where
  "mac_gui cfg candidate = (candidate \<noteq> None \<and> cfg_platform cfg = ''darwin'' \<and> deployed_gui candidate \<noteq> ''none'')"

definition adopted :: "launcher \<Rightarrow> config \<Rightarrow> workspace \<Rightarrow> container option \<Rightarrow> config" where
  "adopted ln cfg ws candidate =
     (case candidate of
        Some c \<Rightarrow> if \<not> cfg_state_specified cfg then adopt_deployed_state ln cfg c ws else cfg
      | None \<Rightarrow> cfg)"

section \<open>Attaching to a running container\<close>

text \<open>What \<open>recoverAttachSessionLocked\<close> does with the lock held.\<close>

definition recover_locked ::
  "daemon \<Rightarrow> launcher \<Rightarrow> config \<Rightarrow> workspace \<Rightarrow> (refusal, container) result io" where
  "recover_locked d ln cfg ws =
     andThenE (verified_listing d ws) (\<lambda>(candidate, containers).
       case candidate of
         None \<Rightarrow> failE (RefuseError NotRunning)
       | Some c \<Rightarrow>
           if \<not> c_running c then failE (RefuseError NotRunning)
           else andThenE (map_errE RefuseError (guard_attach_gui d ln cfg ws candidate)) (\<lambda>_.
             andThen (session_ready d ln cfg candidate) (\<lambda>ready.
               if ready then okE c
               else andThen (recover_session d (c_id c)) (\<lambda>failure.
                 case failure of
                   Some e \<Rightarrow> failE (RefuseError (RecoveryFailed e))
                 | None \<Rightarrow> andThenE (map_errE RefuseError (wait_ready d ln cfg (ws_project ws))) (\<lambda>_. okE c)))))"

definition recover_attach_session_locked ::
  "daemon \<Rightarrow> launcher \<Rightarrow> config \<Rightarrow> workspace \<Rightarrow> (refusal, container) result io" where
  "recover_attach_session_locked d ln cfg ws = with_project_lock d ln ws (recover_locked d ln cfg ws)"

text \<open>The container to attach to: the given one when its session is there, else after recovery.\<close>

definition with_session ::
  "daemon \<Rightarrow> launcher \<Rightarrow> config \<Rightarrow> workspace \<Rightarrow> container \<Rightarrow> (container \<Rightarrow> exit io) \<Rightarrow> exit io" where
  "with_session d ln cfg ws c k =
     andThen (session_ready d ln cfg (Some c)) (\<lambda>ready.
       if ready then k c
       else andThen (recover_attach_session_locked d ln cfg ws) (\<lambda>r.
         case r of Inl e \<Rightarrow> refuse e | Inr recovered \<Rightarrow> k recovered))"

text \<open>The branch of \<open>runDefault\<close> for a running container.\<close>

definition run_running ::
  "daemon \<Rightarrow> launcher \<Rightarrow> config \<Rightarrow> workspace \<Rightarrow> container \<Rightarrow> container list \<Rightarrow> exit io" where
  "run_running d ln cfg ws c containers =
     andThen (guard_attach_gui d ln cfg ws (Some c)) (\<lambda>r.
       case r of
         Inl e \<Rightarrow> fail_exit 2 e
       | Inr u \<Rightarrow>
           andThen (report_drift d ln cfg ws containers (Some c)) (\<lambda>(selectedImage, text).
             with_session d ln cfg ws c (\<lambda>c'.
               attach_with_report d ln cfg c'
                 \<lparr>sr_text = text, sr_image = selectedImage, sr_refreshed = False\<rparr> False)))"

definition attach_existing ::
  "daemon \<Rightarrow> launcher \<Rightarrow> config \<Rightarrow> workspace \<Rightarrow> container option \<Rightarrow> exit io" where
  "attach_existing d ln cfg ws candidate =
     andThen (guard_attach_gui d ln cfg ws candidate) (\<lambda>r.
       case r of
         Inl e \<Rightarrow> fail_exit 2 e
       | Inr u \<Rightarrow>
           (case candidate of
              None \<Rightarrow> fail_exit 2 NotRunning
            | Some c \<Rightarrow>
                let reopen = (command_name (cfg_command cfg) = ''notices'');
                    attach = (\<lambda>c'.
                      andThen (if cfg_update_check cfg \<and> \<not> reopen
                               then andThen (desired_drift d ln cfg ws [c'] (Some c')) (\<lambda>(_, _, img). ret img)
                               else ret []) (\<lambda>img.
                        attach_with_report d ln cfg c' (no_report\<lparr>sr_image := img\<rparr>) reopen))
                in if reopen then
                     andThen (session_ready d ln cfg candidate) (\<lambda>ready.
                       if ready then attach c else fail_exit 1 NoRetainedNotices)
                   else with_session d ln cfg ws c attach))"

definition attach_started ::
  "daemon \<Rightarrow> launcher \<Rightarrow> config \<Rightarrow> workspace \<Rightarrow> startup_report \<Rightarrow> exit io" where
  "attach_started d ln cfg ws startup =
     andThen (app_docker (inspect_container d (ws_project ws))) (\<lambda>r.
       case r of
         Inl e \<Rightarrow> fail_exit 1 e
       | Inr None \<Rightarrow> fail_exit 1 StartedGone
       | Inr (Some c) \<Rightarrow>
           if \<not> c_running c then fail_exit 1 StartedGone
           else (case verify_container (Some c) ws of
             Some e \<Rightarrow> fail_exit 1 (AppOwnership e)
           | None \<Rightarrow>
               andThen (if sr_image startup = [] \<and> cfg_update_check cfg
                        then andThen (desired_drift d ln cfg ws [c] (Some c)) (\<lambda>(_, _, img).
                          ret (startup\<lparr>sr_image := img\<rparr>))
                        else ret startup) (\<lambda>startup'.
                 attach_with_report d ln cfg c startup' False)))"

section \<open>The implicit default\<close>

definition create_args :: "string list" where
  "create_args = [''up'', ''-d'', ''--no-build'', ''--pull'', ''never'', ''hcorral'']"

text \<open>The creation of a new environment, after \<open>prepareProject\<close>.\<close>

definition create_environment ::
  "daemon \<Rightarrow> launcher \<Rightarrow> config \<Rightarrow> workspace \<Rightarrow> (app_error, selection \<times> asset_paths \<times> invocation) result \<Rightarrow>
     (int \<times> app_error, startup_report) result io" where
  "create_environment d ln cfg ws prepared =
     andThenE (coded 2 (ret prepared)) (\<lambda>(sel, assets, i).
     andThenE (coded 2 (app_render d i)) (\<lambda>rd.
     andThenE (coded 1 (validate_objects d cfg ws rd)) (\<lambda>_.
     andThenE (coded 1 (ret (rendered_image rd))) (\<lambda>reference.
     andThen (prepare_start_image d reference (cfg_auto_pull cfg) False no_report) (\<lambda>(startup, r).
     andThenE (coded 1 (ret r)) (\<lambda>_.
     andThenE (coded 1 (recheck_project d ws None)) (\<lambda>_.
     andThenE (coded 1 (app_state (ensure_state d (ln_locks ln) cfg ws))) (\<lambda>_.
     andThenE (coded 2 (app_gui (gui_prepare d sel))) (\<lambda>_.
     andThenE (coded 1 (app_compose (project_run d i create_args))) (\<lambda>_.
       okE startup))))))))))"

text \<open>
  What happens under the lock of \<open>runDefault\<close>, and what is left to do after releasing it; the
  generated overlay is removed when the function returns.
\<close>

datatype locked_outcome = Stop exit | Rerun config container "container list" | AttachTo config startup_report

definition default_locked ::
  "daemon \<Rightarrow> launcher \<Rightarrow> config \<Rightarrow> workspace \<Rightarrow> (locked_outcome \<times> string) io" where
  "default_locked d ln cfg ws =
     andThen (verified_listing d ws) (\<lambda>r.
       case r of
         Inl e \<Rightarrow> andThen (refuse e) (\<lambda>x. ret (Stop x, []))
       | Inr (candidate, containers) \<Rightarrow>
           let cfg' = adopted ln cfg ws candidate in
           if mac_gui cfg' candidate
           then andThen (fail_exit 2 (GuiOnMac (deployed_gui candidate))) (\<lambda>x. ret (Stop x, []))
           else (case candidate of
             Some c \<Rightarrow>
               if active candidate then ret (Rerun cfg' c containers, [])
               else andThen (start_stopped d ln cfg' ws c) (\<lambda>(startup, r).
                 case r of
                   Inl e \<Rightarrow> andThen (fail_exit 1 e) (\<lambda>x. ret (Stop x, []))
                 | Inr u \<Rightarrow> ret (AttachTo cfg' startup, []))
           | None \<Rightarrow>
               andThen (prepare_project d ln cfg' ws None) (\<lambda>(prepared, generated).
               andThen (create_environment d ln cfg' ws prepared) (\<lambda>r.
                 case r of
                   Inl (n, e) \<Rightarrow> andThen (fail_exit n e) (\<lambda>x. ret (Stop x, generated))
                 | Inr startup \<Rightarrow> ret (AttachTo cfg' startup, generated)))))"

definition wait_and_attach ::
  "daemon \<Rightarrow> launcher \<Rightarrow> config \<Rightarrow> workspace \<Rightarrow> startup_report \<Rightarrow> exit io" where
  "wait_and_attach d ln cfg ws startup =
     andThen (wait_ready d ln cfg (ws_project ws)) (\<lambda>r.
       case r of Inl e \<Rightarrow> fail_exit 1 e | Inr u \<Rightarrow> attach_started d ln cfg ws startup)"

text \<open>
  \<open>runDefault\<close> when nothing runs: the lock is released before waiting and attaching, so that it
  is not held by the replaced process; the second release, by the deferred call, does nothing.
\<close>

definition run_default_locked :: "daemon \<Rightarrow> launcher \<Rightarrow> config \<Rightarrow> workspace \<Rightarrow> exit io" where
  "run_default_locked d ln cfg ws =
     andThen (project_lock d ln ws) (\<lambda>r.
       case r of
         Inl e \<Rightarrow> fail_exit 1 e
       | Inr lock \<Rightarrow>
           andThen (default_locked d ln cfg ws) (\<lambda>(outcome, generated).
             case outcome of
               Stop x \<Rightarrow>
                 andThen (cleanup_generated d generated) (\<lambda>_.
                 andThen (lock_close (Some lock)) (\<lambda>_. ret x))
             | Rerun cfg' c containers \<Rightarrow>
                 andThen (lock_close (Some lock)) (\<lambda>_. run_running d ln cfg' ws c containers)
             | AttachTo cfg' startup \<Rightarrow>
                 andThen (lock_close (Some lock)) (\<lambda>_.
                 andThen (wait_and_attach d ln cfg' ws startup) (deferred (cleanup_generated d generated)))))"

definition run_default ::
  "daemon \<Rightarrow> launcher \<Rightarrow> config \<Rightarrow> workspace \<Rightarrow> container option \<Rightarrow> container list \<Rightarrow> exit io" where
  "run_default d ln cfg ws candidate containers =
     (case candidate of
        Some c \<Rightarrow> if c_running c then run_running d ln cfg ws c containers else run_default_locked d ln cfg ws
      | None \<Rightarrow> run_default_locked d ln cfg ws)"

section \<open>Removing state\<close>

definition scope_volume :: "workspace \<Rightarrow> string \<Rightarrow> string \<times> labels" where
  "scope_volume ws scope =
     (if scope = ''workspace'' then (workspace_volume_name ws, private_volume_labels ws)
      else (shared_state_name, shared_volume_labels))"

definition volume_references :: "container list \<Rightarrow> string \<Rightarrow> string list" where
  "volume_references containers name =
     sort (concat (map (\<lambda>c. map (\<lambda>m. clean_name c)
       (filter (\<lambda>m. mt_type m = ''volume'' \<and> mt_name m = name) (c_mounts c))) containers))"

text \<open>\<open>runStateCommand\<close> for a volume that exists: the labels, then the references, then the removal.\<close>

definition remove_owned ::
  "daemon \<Rightarrow> string \<Rightarrow> string \<Rightarrow> labels \<Rightarrow> container list \<Rightarrow> volume \<Rightarrow> exit io" where
  "remove_owned d scope name want containers v =
     (let labelKeys = sort (keys_of want); references = volume_references containers name in
      andThen (say ''state-target'' (name # concat (map (\<lambda>k. [k, label (vol_labels v) k]) labelKeys))) (\<lambda>_.
        case find (\<lambda>k. label (vol_labels v) k \<noteq> label want k) labelKeys of
          Some k \<Rightarrow> fail_exit 1 (VolumeNotOwned name k)
        | None \<Rightarrow>
            if references \<noteq> [] then
              andThen (say ''state-references'' references) (\<lambda>_.
                fail_exit 1 (VolumeReferenced name (length references)))
            else
              andThen (say ''state-references'' [''none'']) (\<lambda>_.
              andThen (say ''removing'' [scope, name]) (\<lambda>_.
              andThen (app_docker (remove_volume d name)) (\<lambda>r.
                case r of Inl e \<Rightarrow> fail_exit 1 e | Inr u \<Rightarrow> ret Done)))))"

text \<open>The body of \<open>runStateCommand\<close>, with the volume lock held.\<close>

definition remove_state_locked ::
  "daemon \<Rightarrow> string \<Rightarrow> string \<Rightarrow> labels \<Rightarrow> exit io" where
  "remove_state_locked d scope name want =
     andThen (app_docker (list_containers d)) (\<lambda>r. case r of Inl e \<Rightarrow> fail_exit 1 e | Inr containers \<Rightarrow>
     andThen (app_docker (inspect_volume d name)) (\<lambda>r. case r of
         Inl e \<Rightarrow> fail_exit 1 e
       | Inr None \<Rightarrow> andThen (say ''already-absent'' [name]) (\<lambda>_. ret Done)
       | Inr (Some v) \<Rightarrow> remove_owned d scope name want containers v))"

definition run_state_command ::
  "daemon \<Rightarrow> launcher \<Rightarrow> workspace \<Rightarrow> string list \<Rightarrow> exit io" where
  "run_state_command d ln ws args =
     (case args of
        [verb, option_name, scope] \<Rightarrow>
          if verb \<noteq> ''rm'' \<or> option_name \<noteq> ''--scope'' \<or> (scope \<noteq> ''global'' \<and> scope \<noteq> ''workspace'')
          then fail_exit 2 StateUsage
          else (case scope_volume ws scope of (name, want) \<Rightarrow>
            andThen (map_errE AppLock (acquire_volume_lock d (ln_locks ln) name)) (\<lambda>r.
              case r of
                Inl e \<Rightarrow> fail_exit 1 e
              | Inr lock \<Rightarrow>
                  andThen (remove_state_locked d scope name want) (\<lambda>x.
                  andThen (lock_close (Some lock)) (\<lambda>_. ret x))))
      | _ \<Rightarrow> fail_exit 2 StateUsage)"

section \<open>Compose commands\<close>

definition compose_exit :: "launcher \<Rightarrow> (compose_error, 'a) result io \<Rightarrow> (int \<times> app_error, 'a) result io" where
  "compose_exit ln m = map_errE (\<lambda>e. (case e of ComposeFailed name c \<Rightarrow> child_exit_code ln c | _ \<Rightarrow> 1, AppCompose e)) m"

definition no_project :: rendered where
  "no_project = \<lparr>rd_services = [], rd_volumes = [], rd_networks = [], rd_hashes = []\<rparr>"

text \<open>A command that changes something renders the project and checks what it would own.\<close>

definition render_checked ::
  "daemon \<Rightarrow> workspace \<Rightarrow> string \<Rightarrow> invocation \<Rightarrow> (int \<times> app_error, rendered) result io" where
  "render_checked d ws name i =
     (if compose_command_mutates name then
        andThenE (coded 2 (app_render d i)) (\<lambda>rd.
        andThenE (coded 1 (app_state (validate_compose_network_ownership d rd ws))) (\<lambda>_.
        andThenE (coded 1 (app_state (validate_compose_volume_ownership d rd ws))) (\<lambda>_. okE rd)))
      else okE no_project)"

text \<open>What \<open>up\<close> and \<open>create\<close> prepare before Compose runs, and the arguments they add.\<close>

definition prepare_up ::
  "daemon \<Rightarrow> launcher \<Rightarrow> config \<Rightarrow> workspace \<Rightarrow> string list \<Rightarrow> rendered \<Rightarrow> selection \<Rightarrow>
     (int \<times> app_error, string list) result io" where
  "prepare_up d ln cfg ws args rd sel =
     andThenE (coded 1 (app_state (validate_state_ownership d cfg ws))) (\<lambda>_.
     andThenE (if has_build_or_pull args then okE ()
               else andThenE (coded 1 (ret (rendered_image rd))) (\<lambda>reference.
                 coded 1 (ensure_selected_image d reference))) (\<lambda>_.
     andThenE (coded 1 (app_state (ensure_state d (ln_locks ln) cfg ws))) (\<lambda>_.
     andThenE (coded 2 (app_gui (gui_prepare d sel))) (\<lambda>_.
       okE (safe_reconcile_args args)))))"

text \<open>\<open>down\<close>: the plan is made and shown, Compose takes the project down, then the state goes.\<close>

definition removal_plan_text :: "workspace \<Rightarrow> removal_targets \<Rightarrow> bool \<Rightarrow> bool \<Rightarrow> string \<Rightarrow> string" where
  "removal_plan_text ws targets removeVolumes removeState removeName =
     concat ([''hcorral: removal plan: Compose project '', ws_project ws] @
       map (\<lambda>n. ''; Compose network '' @ n) (rt_networks targets) @
       (if removeVolumes then map (\<lambda>n. ''; Compose volume '' @ n) (rt_volumes targets) else []) @
       (if removeVolumes \<and> removeState then [''; then Docker volume '' @ removeName]
        else if removeVolumes then [''; retain external volume '' @ removeName] else []) @
       map (\<lambda>n. ''; retain external volume '' @ n) (rt_external_volumes targets) @
       map (\<lambda>n. ''; retain external network '' @ n) (rt_external_networks targets))"

definition down_plan ::
  "daemon \<Rightarrow> config \<Rightarrow> workspace \<Rightarrow> bool \<Rightarrow> (int \<times> app_error, bool \<times> string) result io" where
  "down_plan d cfg ws removeVolumes =
     (if removeVolumes then
        andThenE (coded 1 (app_docker (list_containers d))) (\<lambda>containers.
          coded 1 (app_state (plan_managed_state_removal d cfg ws containers)))
      else okE (False, state_volume_name cfg ws))"

definition down_body ::
  "daemon \<Rightarrow> launcher \<Rightarrow> config \<Rightarrow> workspace \<Rightarrow> string list \<Rightarrow> rendered \<Rightarrow> invocation \<Rightarrow>
     (int \<times> app_error, unit) result io" where
  "down_body d ln cfg ws args rd i =
     (let removeVolumes = has_any args [''-v'', ''--volumes''] in
      andThenE (down_plan d cfg ws removeVolumes) (\<lambda>(removeState, removeName).
        let targets = rendered_removal_targets rd removeName in
        andThen (say ''removal-plan'' [removal_plan_text ws targets removeVolumes removeState removeName]) (\<lambda>_.
        andThenE (compose_exit ln (project_run d i (''down'' # args))) (\<lambda>_.
          if removeVolumes \<and> removeState then coded 1 (app_docker (remove_volume d removeName)) else okE ()))))"

definition run_down ::
  "daemon \<Rightarrow> launcher \<Rightarrow> config \<Rightarrow> workspace \<Rightarrow> string list \<Rightarrow> rendered \<Rightarrow> invocation \<Rightarrow>
     (int \<times> app_error, unit) result io" where
  "run_down d ln cfg ws args rd i =
     (if has_any args [''-v'', ''--volumes''] \<and> cfg_state_mode cfg = StatePrivate then
        andThenE (coded 1 (map_errE AppLock (acquire_volume_lock d (ln_locks ln) (state_volume_name cfg ws)))) (\<lambda>lock.
          andThen (down_body d ln cfg ws args rd i) (\<lambda>r.
          andThen (lock_close (Some lock)) (\<lambda>_. ret r)))
      else down_body d ln cfg ws args rd i)"

definition default_args :: "string \<Rightarrow> string list \<Rightarrow> string list" where
  "default_args name args = (if (name = ''stop'' \<or> name = ''restart'') \<and> args = [] then [''hcorral''] else args)"

definition run_prepared ::
  "daemon \<Rightarrow> launcher \<Rightarrow> config \<Rightarrow> workspace \<Rightarrow> string \<Rightarrow> string list \<Rightarrow>
     (app_error, selection \<times> asset_paths \<times> invocation) result \<Rightarrow> (int \<times> app_error, unit) result io" where
  "run_prepared d ln cfg ws name args prepared =
     andThenE (coded 2 (ret prepared)) (\<lambda>(sel, assets, i).
     andThenE (render_checked d ws name i) (\<lambda>rd.
     andThenE (if name = ''up'' \<or> name = ''create'' then prepare_up d ln cfg ws args rd sel else okE args) (\<lambda>args'.
       if name = ''pull'' \<and> args' = [] then
         andThenE (coded 1 (ret (rendered_image rd))) (\<lambda>reference.
         andThen (pull_image d reference) (\<lambda>failure.
           case failure of
             Some e \<Rightarrow> failE (child_exit_code ln e, PullFailed e)
           | None \<Rightarrow> okE ()))
       else if name = ''down'' then run_down d ln cfg ws args' rd i
       else compose_exit ln (project_run d i (name # args')))))"

definition run_project ::
  "daemon \<Rightarrow> launcher \<Rightarrow> config \<Rightarrow> workspace \<Rightarrow> container option \<Rightarrow> string \<Rightarrow> string list \<Rightarrow> exit io" where
  "run_project d ln cfg ws candidate name args =
     andThen (prepare_project d ln cfg ws candidate) (\<lambda>(prepared, generated).
     andThen (run_prepared d ln cfg ws name (default_args name args) prepared) (\<lambda>r.
     andThen (finish r) (\<lambda>x.
     andThen (cleanup_generated d generated) (\<lambda>_. ret x))))"

text \<open>The \<open>switch\<close> of \<open>runCommand\<close>.\<close>

definition command_body ::
  "daemon \<Rightarrow> launcher \<Rightarrow> config \<Rightarrow> workspace \<Rightarrow> container option \<Rightarrow> string \<Rightarrow> string list \<Rightarrow> exit io" where
  "command_body d ln cfg ws candidate name args =
     (if name = ''attach'' then attach_existing d ln cfg ws candidate
      else if name = ''exec'' then
        (case candidate of
           None \<Rightarrow> fail_exit 1 NotRunning
         | Some c \<Rightarrow> if \<not> c_running c then fail_exit 1 NotRunning else replace_exec d ln cfg c args)
      else if name = ''start'' \<and> candidate = None then fail_exit 1 DoesNotExist
      else if name = ''start'' \<and> args = [] then
        andThen (coded 1 (andThenE (app_state (validate_state_ownership d cfg ws)) (\<lambda>_.
          app_docker (start_container d (ws_project ws))))) finish
      else run_project d ln cfg ws candidate name args)"

definition mutating_command ::
  "daemon \<Rightarrow> launcher \<Rightarrow> config \<Rightarrow> workspace \<Rightarrow> string \<Rightarrow> string list \<Rightarrow> exit io" where
  "mutating_command d ln cfg ws name args =
     andThen (verified_listing d ws) (\<lambda>r.
       case r of
         Inl e \<Rightarrow> refuse e
       | Inr (candidate, containers) \<Rightarrow>
           let cfg' = adopted ln cfg ws candidate in
           if mac_gui cfg' candidate then fail_exit 2 (GuiOnMac (deployed_gui candidate))
           else command_body d ln cfg' ws candidate name args)"

definition run_command ::
  "daemon \<Rightarrow> launcher \<Rightarrow> config \<Rightarrow> workspace \<Rightarrow> container option \<Rightarrow> exit io" where
  "run_command d ln cfg ws candidate =
     (let name = hd (cfg_command cfg); args = tl (cfg_command cfg) in
      if name = ''state'' then run_state_command d ln ws args
      else if name = ''exec'' \<and> args = [] then fail_exit 2 ExecNeedsCommand
      else if compose_command_mutates name then
        andThen (project_lock d ln ws) (\<lambda>r.
          case r of
            Inl e \<Rightarrow> fail_exit 1 e
          | Inr lock \<Rightarrow>
              andThen (mutating_command d ln cfg ws name args) (deferred (lock_close (Some lock))))
      else command_body d ln cfg ws candidate name args)"

section \<open>Dispatch\<close>

text \<open>\<open>info\<close> is a parameter here: \<open>printSnapshot\<close> with what the dispatch has found.\<close>

type_synonym reporter =
  "config \<Rightarrow> container option \<Rightarrow> container list \<Rightarrow> legacy_match option \<Rightarrow> docker_error option \<Rightarrow>
     app_error option \<Rightarrow> exit io"

text \<open>What the first listing says: the candidate, the adopted configuration, and any ownership error.\<close>

definition listing_error :: "workspace \<Rightarrow> container list \<Rightarrow> app_error option" where
  "listing_error ws containers = (case check_listing ws containers of Inl e \<Rightarrow> Some e | Inr c \<Rightarrow> None)"

definition dispatch ::
  "daemon \<Rightarrow> launcher \<Rightarrow> config \<Rightarrow> workspace \<Rightarrow> container option \<Rightarrow> container list \<Rightarrow> exit io" where
  "dispatch d ln cfg ws candidate containers =
     (let name = command_name (cfg_command cfg) in
      if mac_gui cfg candidate then fail_exit 2 (GuiOnMac (deployed_gui candidate))
      else if cfg_command cfg = [] then run_default d ln cfg ws candidate containers
      else if name = ''attach'' \<or> name = ''notices'' then
        (if length (cfg_command cfg) \<noteq> 1 then fail_exit 2 (NoArguments name)
         else attach_existing d ln cfg ws candidate)
      else run_command d ln cfg ws candidate)"

definition run_operational ::
  "daemon \<Rightarrow> launcher \<Rightarrow> reporter \<Rightarrow> exit io \<Rightarrow> config \<Rightarrow> workspace \<Rightarrow> exit io" where
  "run_operational d ln info session cfg ws =
     (let name = command_name (cfg_command cfg) in
      if name = ''session'' then session
      else andThen (list_containers d) (\<lambda>r.
        case r of
          Inl e \<Rightarrow> if name = ''info'' then info cfg None [] None (Some e) None else fail_exit 1 (AppDocker e)
        | Inr containers \<Rightarrow>
            andThen (warn_multiplicity containers ws) (\<lambda>_.
            let legacy = find_legacy containers (ws_path ws);
                candidate = find_container containers (ws_project ws);
                cfg' = (if verify_container candidate ws = None then adopted ln cfg ws candidate else cfg);
                ownership = listing_error ws containers
            in if name = ''info'' then info cfg' candidate containers legacy None ownership
               else case ownership of
                 Some e \<Rightarrow> fail_exit 1 e
               | None \<Rightarrow>
                   (case legacy of
                      Some l \<Rightarrow> refuse_legacy l
                    | None \<Rightarrow> dispatch d ln cfg' ws candidate containers))))"

end
