(* ===== verification/Launch_Safety.thy ===== *)
theory Launch_Safety
  imports Launch
begin

text \<open>
  What the launcher may do, and when.  The policy \<open>guarded\<close> permits a command that changes
  something only after the containers of the project were listed and verified under the project
  lock, which is still held; the program logic of \<open>Policy\<close> carries it through every operation.
\<close>

section \<open>What was seen\<close>

text \<open>\<open>listed d es cs\<close>: the events of a successful \<open>ListContainers\<close> that found \<open>cs\<close>.\<close>

abbreviation ps_argv :: "string list" where
  "ps_argv \<equiv> [''docker'', ''ps'', ''-aq'', ''--no-trunc'']"

abbreviation inspect_argv :: "string list \<Rightarrow> string list" where
  "inspect_argv names \<equiv> [''docker'', ''inspect'', ''--type'', ''container''] @ names"

definition listed :: "daemon \<Rightarrow> event list \<Rightarrow> container list \<Rightarrow> bool" where
  "listed d es cs \<longleftrightarrow>
     (\<exists>r. oc_fail r = None \<and>
        (str_fields (oc_out r) = [] \<and> es = [Captured ps_argv r] \<and> cs = [] \<or>
         str_fields (oc_out r) \<noteq> [] \<and>
         (\<exists>r'. oc_fail r' = None \<and> dec_containers d (oc_out r') = Some cs \<and>
            es = [Captured ps_argv r, Captured (inspect_argv (str_fields (oc_out r))) r'])))"

lemma listed_no_unlock: "listed d es cs \<Longrightarrow> Unlocked p \<notin> set es"
  by (auto simp: listed_def)

lemma list_containers_listed:
  assumes "list_containers d h = (Inr cs, h')"
  obtains es where "h' = h @ es" "listed d es cs"
proof -
  have ne: "\<not> empty_argv ps_argv" "\<not> empty_argv (inspect_argv n)" for n by (simp_all add: empty_argv_def)
  show thesis
    using assms that
    by (auto simp: list_containers_def inspect_containers_def andThen_def docker_capture_apply [OF ne(1)]
        docker_capture_apply [OF ne(2), unfolded append_Cons append_Nil] Let_def listed_def
        split: option.splits if_splits)
qed

definition owned_listing :: "workspace \<Rightarrow> container list \<Rightarrow> bool" where
  "owned_listing ws cs \<longleftrightarrow> (\<exists>c. check_listing ws cs = Inr c) \<and> find_legacy cs (ws_path ws) = None"

definition seen :: "daemon \<Rightarrow> workspace \<Rightarrow> history \<Rightarrow> bool" where
  "seen d ws h \<longleftrightarrow> (\<exists>pre es post cs. h = pre @ es @ post \<and> listed d es cs \<and> owned_listing ws cs)"

text \<open>The same with the lock \<open>p\<close> taken before the listing and held since.\<close>

definition cleared :: "daemon \<Rightarrow> workspace \<Rightarrow> string \<Rightarrow> history \<Rightarrow> bool" where
  "cleared d ws p h \<longleftrightarrow>
     (\<exists>pre es post cs. h = pre @ es @ post \<and> holds_lock p pre \<and> listed d es cs \<and> owned_listing ws cs \<and>
        Unlocked p \<notin> set (es @ post))"

lemma cleared_seen: "cleared d ws p h \<Longrightarrow> seen d ws h"
  unfolding cleared_def seen_def by blast

lemma seen_append: "seen d ws h \<Longrightarrow> seen d ws (h @ es)"
  unfolding seen_def by (metis append.assoc)

lemma cleared_append: "cleared d ws p h \<Longrightarrow> Unlocked p \<notin> set fs \<Longrightarrow> cleared d ws p (h @ fs)"
  unfolding cleared_def
proof (elim exE conjE)
  fix pre es post cs
  assume "Unlocked p \<notin> set fs" "h = pre @ es @ post" "holds_lock p pre" "listed d es cs" "owned_listing ws cs"
    "Unlocked p \<notin> set (es @ post)"
  then show "\<exists>pre es post cs. h @ fs = pre @ es @ post \<and> holds_lock p pre \<and> listed d es cs \<and>
      owned_listing ws cs \<and> Unlocked p \<notin> set (es @ post)"
    by (intro exI [of _ pre] exI [of _ es] exI [of _ "post @ fs"] exI [of _ cs]) auto
qed

section \<open>The policy\<close>

definition session_init_command :: "string list \<Rightarrow> bool" where
  "session_init_command argv \<longleftrightarrow> take 2 argv = [''docker'', ''exec''] \<and> drop 3 argv = session_init_argv"

definition reading_command :: "config \<Rightarrow> string list \<Rightarrow> bool" where
  "reading_command cfg argv \<longleftrightarrow>
     (\<exists>i name args. argv = invocation_args i (name # args) \<and> inv_prefix i = cfg_compose_command cfg \<and>
        \<not> compose_command_mutates name)"

text \<open>The condition of \<open>state rm\<close>: the volume lock, a listing without references, and the labels.\<close>

definition inspected :: "daemon \<Rightarrow> string \<Rightarrow> string \<Rightarrow> container list \<Rightarrow> volume \<Rightarrow> history \<Rightarrow> bool" where
  "inspected d vp name cs v h \<longleftrightarrow>
     (\<exists>pre es ev post. h = pre @ es @ ev # post \<and> holds_lock vp pre \<and> Unlocked vp \<notin> set (es @ ev # post) \<and>
        listed d es cs \<and> volume_told d name (Some v) ev)"

definition state_removal :: "daemon \<Rightarrow> launcher \<Rightarrow> workspace \<Rightarrow> string list \<Rightarrow> history \<Rightarrow> bool" where
  "state_removal d ln ws argv h \<longleftrightarrow>
     (\<exists>scope name want vp cs v.
        scope_volume ws scope = (name, want) \<and> argv = [''docker'', ''volume'', ''rm'', name] \<and>
        volume_lock_path (ln_locks ln) name = Inr vp \<and> inspected d vp name cs v h \<and>
        volume_references cs name = [] \<and> (\<forall>k \<in> set (keys_of want). label (vol_labels v) k = label want k))"

definition guarded :: "daemon \<Rightarrow> launcher \<Rightarrow> config \<Rightarrow> workspace \<Rightarrow> string \<Rightarrow> history \<Rightarrow> event \<Rightarrow> bool" where
  "guarded d ln cfg ws p h e =
     (case e of
        Ran argv r \<Rightarrow> cleared d ws p h \<or> reading_command cfg argv \<or> state_removal d ln ws argv h
      | Captured argv r \<Rightarrow> session_init_command argv \<longrightarrow> cleared d ws p h
      | Replaced argv r \<Rightarrow> seen d ws h
      | _ \<Rightarrow> True)"

text \<open>Events permitted in every state, that release nothing; and events that keep a lock.\<close>

definition calm :: "event \<Rightarrow> bool" where
  "calm e = (case e of
       Captured argv r \<Rightarrow> \<not> session_init_command argv
     | Sys name args a \<Rightarrow> True
     | Said topic args \<Rightarrow> True
     | _ \<Rightarrow> False)"

definition quiet :: "string \<Rightarrow> event \<Rightarrow> bool" where
  "quiet p e \<longleftrightarrow> e \<noteq> Unlocked p"

lemma calm_simps [simp]:
  "calm (Sys name args a)" "calm (Said topic args)" "\<not> calm (Ran argv r)" "\<not> calm (Replaced argv f)"
  "\<not> calm (Locked q b)" "\<not> calm (Unlocked q)" "calm (Captured argv r) \<longleftrightarrow> \<not> session_init_command argv"
  by (simp_all add: calm_def)

lemma calm_quiet: "calm e \<Longrightarrow> quiet p e"
  by (cases e) (auto simp: quiet_def)

lemma calm_guarded: "calm e \<Longrightarrow> guarded d ln cfg ws p h e"
  by (cases e) (auto simp: guarded_def)

lemma cleared_guarded: "cleared d ws p h \<Longrightarrow> guarded d ln cfg ws p h e"
  by (auto simp: guarded_def cleared_seen split: event.split)

lemma stable_seen: "stable Q (seen d ws)"
  by (simp add: stable_def seen_append)

lemma stable_cleared: "stable (quiet p) (cleared d ws p)"
  by (auto simp: stable_def quiet_def intro: cleared_append)

lemma stable_holds: "stable (quiet p) (holds_lock p)"
  by (auto simp: stable_def quiet_def intro: holds_lock_append)

lemma triple_calm: "appends calm m \<Longrightarrow> stable calm I \<Longrightarrow> triple I (guarded d ln cfg ws p) m (\<lambda>_. I)"
  by (erule triple_appends; (erule calm_guarded)?)

lemma triple_cleared:
  "appends (quiet p) m \<Longrightarrow> triple (cleared d ws p) (guarded d ln cfg ws p) m (\<lambda>_. cleared d ws p)"
  by (erule triple_appends) (rule stable_cleared, erule cleared_guarded)

lemma quiet_calm: "appends calm m \<Longrightarrow> appends (quiet p) m"
  by (erule appends_mono) (erule calm_quiet)

section \<open>Calm operations\<close>

named_theorems calm_rules \<open>operations that change nothing the policy speaks of\<close>

lemma appends_coded [io_rules]: "appends Q m \<Longrightarrow> appends Q (coded n m)"
  unfolding coded_def by (intro io_rules)

lemma appends_apps [io_rules]:
  "appends Q m \<Longrightarrow> appends Q (app_docker m)" "appends Q n \<Longrightarrow> appends Q (app_state n)"
  "appends Q c \<Longrightarrow> appends Q (app_compose c)" "appends Q g \<Longrightarrow> appends Q (app_gui g)"
  unfolding app_docker_def app_state_def app_compose_def app_gui_def by (intro io_rules; assumption)+

lemma calm_say [calm_rules]: "appends calm (say t a)" "appends calm (sys m n a)"
  by (intro io_rules; simp)+

lemma calm_fail [calm_rules]: "appends calm (fail_exit n e)" "appends calm (refuse_legacy l)"
  "appends calm (refuse r)"
  unfolding fail_exit_def refuse_legacy_def refuse_def by (auto intro!: io_rules calm_rules split: refusal.split)

lemma not_session_init [simp]:
  "\<not> session_init_command (''docker'' # ''inspect'' # xs)"
  "\<not> session_init_command (''docker'' # ''ps'' # xs)"
  "\<not> session_init_command (''docker'' # ''volume'' # xs)"
  "\<not> session_init_command (''docker'' # ''network'' # xs)"
  "\<not> session_init_command (''docker'' # ''image'' # xs)"
  "\<not> session_init_command (''docker'' # ''logs'' # xs)"
  "\<not> session_init_command (''docker'' # ''context'' # xs)"
  "\<not> session_init_command (''docker'' # ''info'' # xs)"
  "\<not> session_init_command (''xauth'' # xs)"
  "\<not> session_init_command (''docker'' # ''exec'' # c # ''gosu'' # xs)"
  "\<not> session_init_command (''docker'' # ''exec'' # c # ''timeout'' # xs)"
  by (simp_all add: session_init_command_def session_init_argv_def)

lemma not_session_init_compose [simp]: "\<not> session_init_command (invocation_args i (a # b # c))"
proof
  assume "session_init_command (invocation_args i (a # b # c))"
  then have "length (drop 3 (invocation_args i (a # b # c))) = 1"
    by (simp add: session_init_command_def session_init_argv_def)
  then show False by (simp add: invocation_args_def)
qed

lemma calm_inspections [calm_rules]:
  "appends calm (list_containers d)" "appends calm (inspect_container d n)"
  "appends calm (inspect_volume d n)" "appends calm (inspect_network d n)" "appends calm (inspect_image d n)"
  unfolding list_containers_def inspect_containers_def inspect_container_def inspect_volume_def
    inspect_network_def inspect_image_def Let_def
  by (intro io_rules; simp)+

lemma calm_secure_walk: "appends calm (secure_walk m n p)"
proof (induction n arbitrary: p)
  case (Suc n)
  then show ?case unfolding secure_walk.simps Let_def by (intro io_rules; simp add: Suc.IH)
qed (simp add: io_rules)

lemma calm_temp_steps: "appends calm (temp_steps m p st)"
  by (induction m p st rule: temp_steps.induct) (auto intro!: io_rules)

lemma calm_asset_steps: "appends calm (asset_steps m p st)"
  by (induction m p st rule: asset_steps.induct) (auto intro!: io_rules)

lemma calm_mkdir [calm_rules]: "appends calm (secure_mkdir_all m p)"
  unfolding secure_mkdir_all_def by (intro io_rules calm_secure_walk; simp)

lemma calm_new_temp [calm_rules]: "appends calm (new_temp m dir pat)"
  unfolding new_temp_def by (auto intro!: io_rules split: answer.split)

lemma calm_overlay [calm_rules]: "appends calm (extra_mount_overlay m su cfg)"
  unfolding extra_mount_overlay_def generated_directory_def Let_def
  by (intro io_rules calm_rules calm_temp_steps)

lemma calm_materialize_one: "appends calm (materialize_one m root name content)"
  unfolding materialize_one_def check_cached_def install_asset_def Let_def
  by (intro io_rules calm_rules) (auto intro!: io_rules calm_rules calm_asset_steps split: answer.split)

lemma calm_materialize [calm_rules]: "appends calm (materialize m su)"
  unfolding materialize_def materialize_named_def by (intro io_rules calm_materialize_one)

lemma calm_discover [calm_rules]: "appends calm (discover d su intent ws assets)"
  unfolding discover_def resolve_platform_def require_local_engine_def wayland_selection_def x11_selection_def
    require_socket_owned_by_def require_socket_def x_authority_def Let_def
  by (intro io_rules; auto intro!: io_rules split: answer.split)

lemma calm_render [calm_rules]: "appends calm (app_render d i)"
  unfolding app_render_def project_render_def project_hashes_def project_capture_def
  by (intro io_rules; simp)

lemma calm_cleanup [calm_rules]: "appends calm (cleanup_generated m p)"
  unfolding cleanup_generated_def by (intro io_rules calm_rules)

lemma calm_prepare [calm_rules]: "appends calm (prepare_project d ln cfg ws c)"
  unfolding prepare_project_def prepare_selection_def by (intro io_rules calm_rules)

lemma calm_drift [calm_rules]:
  "appends calm (desired_drift d ln cfg ws cs c)" "appends calm (report_drift d ln cfg ws cs c)"
  unfolding report_drift_def desired_drift_def Let_def by (intro io_rules calm_rules)+

lemma calm_guards [calm_rules]:
  "appends calm (guard_existing_gui d ln cfg ws c)" "appends calm (guard_attach_gui d ln cfg ws c)"
  unfolding guard_attach_gui_def guard_existing_gui_def by (intro io_rules calm_rules)+

lemma calm_session_ready [calm_rules]: "appends calm (session_ready d ln cfg c)"
  unfolding session_ready_def exec_capture_def has_session_argv_def by (intro io_rules; simp)

lemma calm_say_lines: "appends calm (say_lines ls)"
  by (induction ls rule: say_lines.induct) (auto intro!: io_rules)

lemma calm_logs: "appends calm (report_startup_logs d ln n)"
  unfolding report_startup_logs_def container_logs_def Let_def by (intro io_rules calm_say_lines; simp)

lemma calm_now [calm_rules]: "appends calm (now ln)"
  by (simp add: appends_def now_def)

lemma calm_context [calm_rules]: "appends calm (context_error m b)"
  by (rule appends_context_error) simp

lemma calm_wait_loop: "appends calm (wait_loop d ln cfg n dl nt f)"
  by (induction f arbitrary: nt) (auto intro!: io_rules calm_rules calm_logs)

lemma calm_wait [calm_rules]: "appends calm (wait_ready d ln cfg n)"
  unfolding wait_ready_def by (intro io_rules calm_rules calm_wait_loop)

lemma calm_image_version: "appends calm (image_version d r t)"
  unfolding image_version_def by (intro io_rules calm_rules)

lemma calm_http: "appends calm (http_get m k u)"
  unfolding http_get_def by (intro io_rules; auto intro!: io_rules split: answer.split)

lemma calm_say_all: "appends calm (say_all ls)"
  by (rule appends_say_all) simp

lemma calm_notify [calm_rules]: "appends calm (notify d ck cfg c)"
  unfolding notify_def check_inspect_def container_facts_def installed_version_def exec_capture_def
    latest_launcher_def latest_def probe_argv_def Let_def
  by (intro io_rules calm_image_version calm_http calm_say_all; simp)

section \<open>Operations that keep the lock\<close>

named_theorems quiet_rules \<open>operations that do not release the project lock\<close>

text \<open>The lock of the project, on a system where lock paths are absolute.\<close>

definition own_lock :: "launcher \<Rightarrow> workspace \<Rightarrow> string \<Rightarrow> bool" where
  "own_lock ln ws p \<longleftrightarrow> lock_path (ln_locks ln) (ws_project ws) = Inr p \<and> \<not> le_darwin (ln_locks ln)"

lemma own_lock_volume: "own_lock ln ws p \<Longrightarrow> volume_lock_path (ln_locks ln) v = Inr vp \<Longrightarrow> vp \<noteq> p"
  using project_lock_not_volume_lock unfolding own_lock_def by metis

lemma quiet_simps [simp]:
  "quiet p (Sys n a x)" "quiet p (Said t a)" "quiet p (Ran argv r)" "quiet p (Replaced argv f)"
  "quiet p (Locked q b)" "quiet p (Captured argv r)" "quiet p (Unlocked q) \<longleftrightarrow> q \<noteq> p"
  by (auto simp: quiet_def)

lemma calm_secure_components: "appends calm (secure_components m c cs)"
  by (induction cs arbitrary: c) (auto intro!: io_rules simp: Let_def)

lemma calm_secure_lock_directory [calm_rules]: "appends calm (secure_lock_directory m b cs)"
  unfolding secure_lock_directory_def by (intro io_rules calm_secure_components; simp)

lemma quiet_acquire_path: "q \<noteq> p \<Longrightarrow> appends (quiet p) (acquire_lock_path m b q)"
  unfolding acquire_lock_path_def Let_def
  by (intro io_rules quiet_calm [OF calm_secure_lock_directory] quiet_calm [OF calm_context]; simp)

lemma quiet_volume_lock:
  "own_lock ln ws p \<Longrightarrow> appends (quiet p) (acquire_volume_lock m (ln_locks ln) v)"
  unfolding acquire_volume_lock_def
  by (auto intro!: io_rules quiet_acquire_path dest: own_lock_volume split: sum.split)

lemma acquire_volume_lock_path:
  "acquire_volume_lock m env v h = (Inr l, h') \<Longrightarrow> volume_lock_path env v = Inr l \<and> holds_lock l h'"
  by (auto simp: acquire_volume_lock_def dest: acquire_lock_path_holds split: sum.splits)

lemma calm_lookups: "appends calm (volume_label_lookup d n)" "appends calm (network_label_lookup d n)"
  unfolding volume_label_lookup_def network_label_lookup_def by (intro io_rules calm_rules)+

lemma calm_validations: "appends calm (validate_compose_volume_ownership d rd ws)"
  "appends calm (validate_compose_network_ownership d rd ws)"
proof -
  have all: "appends calm (check_all f xs)" if "\<And>x. appends calm (f x)"
    for f :: "string \<times> rendered_object \<Rightarrow> (state_error, unit) result io" and xs
    by (induction xs) (auto intro!: io_rules that)
  show "appends calm (validate_compose_volume_ownership d rd ws)"
    "appends calm (validate_compose_network_ownership d rd ws)"
    unfolding validate_compose_volume_ownership_def validate_compose_network_ownership_def check_compose_object_def
    by (intro all io_rules calm_lookups)+
qed

lemma calm_validate_objects: "appends calm (validate_state_ownership d cfg ws)" "appends calm (validate_objects d cfg ws rd)"
proof -
  show state: "appends calm (validate_state_ownership d cfg ws)"
    unfolding validate_state_ownership_def Let_def by (intro io_rules calm_rules)
  show "appends calm (validate_objects d cfg ws rd)"
    unfolding validate_objects_def by (intro io_rules calm_validations state)
qed

lemma calm_plan: "appends calm (plan_managed_state_removal d cfg ws cs)"
  unfolding plan_managed_state_removal_def Let_def by (intro io_rules calm_rules)

lemma quiet_validate [quiet_rules]:
  "appends (quiet p) (validate_state_ownership d cfg ws)"
  "appends (quiet p) (validate_compose_volume_ownership d rd ws)"
  "appends (quiet p) (validate_compose_network_ownership d rd ws)"
  by (rule quiet_calm, rule calm_validations calm_validate_objects)+

lemma quiet_docker [quiet_rules]:
  "appends (quiet p) (create_volume d n ls)" "appends (quiet p) (remove_volume d n)"
  "appends (quiet p) (pull_image d n)" "appends (quiet p) (start_container d n)"
  "appends (quiet p) (project_run d i args)" "appends (quiet p) (recover_session d n)"
  unfolding create_volume_def remove_volume_def pull_image_def start_container_def project_run_def
    recover_session_def exec_capture_def
  by (intro io_rules; simp)+

lemma quiet_ensure_body: "appends (quiet p) (ensure_state_body d cfg ws)"
  unfolding ensure_state_body_def Let_def
  by (intro io_rules quiet_rules quiet_calm [OF calm_inspections(3)])
    (auto split: state_mode.split intro!: io_rules quiet_rules)

lemma quiet_ensure_state:
  assumes "own_lock ln ws p"
  shows "appends (quiet p) (ensure_state d (ln_locks ln) cfg ws)"
proof -
  have "appends (quiet p) (lock_close (Some l))"
    if "map_errE StateLock (acquire_volume_lock d (ln_locks ln) v) h = (Inr l, h')" for v h l h'
  proof -
    from that have "acquire_volume_lock d (ln_locks ln) v h = (Inr l, h')" by (elim map_errE_cases) auto
    then have "l \<noteq> p" using own_lock_volume [OF assms] acquire_volume_lock_path by blast
    then show ?thesis by (simp add: lock_close_def io_rules)
  qed
  then show ?thesis
    unfolding ensure_state_def
    by (intro appends_if appends_andThenE_result appends_map_errE quiet_volume_lock [OF assms]
        quiet_ensure_body appends_andThen) (auto intro: io_rules)
qed

lemma quiet_gui_prepare [quiet_rules]: "appends (quiet p) (gui_prepare d sel)"
  unfolding gui_prepare_def secure_state_directory_def install_credential_def Let_def
  by (intro io_rules quiet_calm [OF calm_secure_lock_directory] quiet_calm [OF calm_new_temp]
      quiet_calm [OF calm_temp_steps]) (auto intro!: io_rules split: answer.split)

lemma quiet_images [quiet_rules]:
  "appends (quiet p) (ensure_selected_image d r)" "appends (quiet p) (prepare_start_image d r a ex rp)"
proof -
  show sel: "appends (quiet p) (ensure_selected_image d r)" for r
    unfolding ensure_selected_image_def by (intro io_rules quiet_rules quiet_calm calm_rules)
  have add: "appends (quiet p) (report_add t rp)" for t rp
    unfolding report_add_def by (intro io_rules; simp)
  show "appends (quiet p) (prepare_start_image d r a ex rp)"
    unfolding prepare_start_image_def Let_def
    by (intro io_rules quiet_rules sel add quiet_calm calm_rules)
qed

lemma calm_verified [calm_rules]: "appends calm (verified_listing d ws)"
  unfolding verified_listing_def by (intro io_rules calm_rules)

lemma calm_recheck [calm_rules]: "appends calm (recheck_project d ws c)"
  unfolding recheck_project_def by (intro io_rules calm_rules)

lemma calm_report_add [calm_rules]: "appends calm (report_add t rp)"
  unfolding report_add_def by (intro io_rules; simp)

lemma quiet_start_original [quiet_rules]:
  "appends (quiet p) (start_original d ws c rp)" "appends (quiet p) (start_noted d ws c rp t)"
  unfolding start_noted_def start_original_def by (intro io_rules quiet_rules quiet_calm calm_rules)+

lemma quiet_objects [quiet_rules]: "appends (quiet p) (validate_objects d cfg ws rd)"
  unfolding validate_objects_def by (intro io_rules quiet_rules)

lemma quiet_apply [quiet_rules]: "appends (quiet p) (apply_refreshed d cfg ws c i rd rp)"
  unfolding apply_refreshed_def by (intro io_rules quiet_rules quiet_calm [OF calm_recheck] quiet_calm [OF calm_report_add])

lemma quiet_start_refreshed [quiet_rules]: "appends (quiet p) (start_refreshed d cfg ws c i r img rp)"
  unfolding start_refreshed_def
  by (intro io_rules quiet_rules quiet_calm [OF calm_recheck] quiet_calm [OF calm_render])

lemma quiet_start_stopped [quiet_rules]: "appends (quiet p) (start_stopped d ln cfg ws c)"
  unfolding start_stopped_def start_prepared_def Let_def
  by (intro io_rules quiet_rules quiet_calm [OF calm_prepare] quiet_calm [OF calm_render]
      quiet_calm [OF calm_cleanup] quiet_calm [OF calm_guards(1)])

lemma quiet_create:
  "own_lock ln ws p \<Longrightarrow> appends (quiet p) (create_environment d ln cfg ws prepared)"
  unfolding create_environment_def
  by (intro io_rules quiet_rules quiet_ensure_state quiet_calm [OF calm_recheck] quiet_calm [OF calm_render])

lemma quiet_down:
  assumes "own_lock ln ws p" shows "appends (quiet p) (run_down d ln cfg ws args rd i)"
proof -
  have body: "appends (quiet p) (down_body d ln cfg ws args rd i)"
    unfolding down_body_def down_plan_def plan_managed_state_removal_def compose_exit_def Let_def
    by (intro io_rules quiet_rules quiet_calm calm_rules)
  have "appends (quiet p) (lock_close (Some l))"
    if "coded 1 (map_errE AppLock (acquire_volume_lock d (ln_locks ln) v)) h = (Inr l, h')" for v h l h'
  proof -
    from that have "acquire_volume_lock d (ln_locks ln) v h = (Inr l, h')"
      unfolding coded_def by (elim map_errE_cases) auto
    then have "l \<noteq> p" using own_lock_volume [OF assms] acquire_volume_lock_path by blast
    then show ?thesis by (simp add: lock_close_def io_rules)
  qed
  then show ?thesis
    unfolding run_down_def
    by (intro appends_if appends_andThenE_result appends_coded appends_map_errE quiet_volume_lock [OF assms]
        body appends_andThen) (auto intro: io_rules)
qed

lemma quiet_run_project:
  assumes "own_lock ln ws p" shows "appends (quiet p) (run_project d ln cfg ws c name args)"
proof -
  have prep: "appends (quiet p) (run_prepared d ln cfg ws name args' prepared)" for args' prepared
    unfolding run_prepared_def render_checked_def prepare_up_def compose_exit_def
    by (intro io_rules quiet_rules quiet_ensure_state [OF assms] quiet_down [OF assms] quiet_calm [OF calm_render])
  have fin: "appends (quiet p) (finish r)" for r
    unfolding finish_def by (intro io_rules quiet_calm calm_rules)
  show ?thesis
    unfolding run_project_def
    by (intro io_rules prep fin quiet_calm [OF calm_prepare] quiet_calm [OF calm_cleanup])
qed

section \<open>The lock, the listing, and what follows\<close>

abbreviation always :: "history \<Rightarrow> bool" where
  "always h \<equiv> True"

lemma stable_always: "stable Q always"
  by (simp add: stable_def)

lemma lock_event_guarded: "lock_event e \<Longrightarrow> guarded d ln cfg ws p h e"
  by (cases e) (auto simp: lock_event_def guarded_def)

lemma triple_conj:
  assumes "triple P G m Q" "\<And>h x h'. P h \<Longrightarrow> m h = (x, h') \<Longrightarrow> R x h'"
  shows "triple P G m (\<lambda>x h. Q x h \<and> R x h)"
  using assms unfolding triple_def by blast

lemma triple_project_lock:
  assumes "own_lock ln ws p" "stable lock_event I"
  shows "triple I (guarded d ln cfg ws p) (project_lock d ln ws)
    (\<lambda>r h. I h \<and> (\<forall>l. r = Inr l \<longrightarrow> l = p \<and> holds_lock p h))"
proof (rule triple_conj)
  show "triple I (guarded d ln cfg ws p) (project_lock d ln ws) (\<lambda>_. I)"
    unfolding project_lock_def
    by (rule triple_appends [OF appends_map_errE [OF appends_acquire_lock] assms(2) lock_event_guarded])
next
  fix h r h'
  assume "project_lock d ln ws h = (r, h')"
  then show "\<forall>l. r = Inr l \<longrightarrow> l = p \<and> holds_lock p h'"
    using assms(1) unfolding project_lock_def own_lock_def acquire_lock_def acquire_lock_context_def
    by (auto elim!: map_errE_cases dest: acquire_lock_path_holds)
qed

lemma verified_listing_result:
  assumes "verified_listing d ws h = (Inr (current, cs), h')"
  obtains es where "h' = h @ es" "listed d es cs" "owned_listing ws cs" "check_listing ws cs = Inr current"
proof -
  from assms obtain h1 cs' where
    l: "map_errE RefuseError (app_docker (list_containers d)) h = (Inr cs', h1)" and
    k: "(case check_listing ws cs' of
         Inl e \<Rightarrow> failE (RefuseError e)
       | Inr current \<Rightarrow>
           (case find_legacy cs' (ws_path ws) of
              Some l \<Rightarrow> failE (RefuseLegacy l)
            | None \<Rightarrow> okE (current, cs'))) h1 = (Inr (current, cs), h')"
    unfolding verified_listing_def by (elim andThenE_cases) auto
  from l have "list_containers d h = (Inr cs', h1)"
    unfolding app_docker_def by (auto elim!: map_errE_cases)
  then obtain es where es: "h1 = h @ es" "listed d es cs'" by (rule list_containers_listed)
  from k have "check_listing ws cs' = Inr current" "find_legacy cs' (ws_path ws) = None" "cs' = cs" "h' = h1"
    by (auto split: sum.splits option.splits)
  with es that show thesis by (auto simp: owned_listing_def)
qed

lemma triple_verified_listing:
  "triple (holds_lock p) (guarded d ln cfg ws p) (verified_listing d ws)
     (\<lambda>r h. \<forall>v. r = Inr v \<longrightarrow> cleared d ws p h)"
  unfolding triple_def
proof (intro allI impI)
  fix h r h'
  assume h: "holds_lock p h" and run: "verified_listing d ws h = (r, h')"
  have "triple always (guarded d ln cfg ws p) (verified_listing d ws) (\<lambda>_. always)"
    by (rule triple_calm [OF calm_verified stable_always])
  from tripleD [OF this _ run] obtain es where es: "h' = h @ es" "permits (guarded d ln cfg ws p) h es" by auto
  have "cleared d ws p h'" if r: "r = Inr v" for v
  proof -
    obtain current cs where v: "v = (current, cs)" by fastforce
    obtain fs where "h' = h @ fs" "listed d fs cs" "owned_listing ws cs"
      using run unfolding r v by (rule verified_listing_result)
    with h listed_no_unlock show ?thesis
      unfolding cleared_def by (intro exI [of _ h] exI [of _ fs] exI [of _ "[]"] exI [of _ cs]) auto
  qed
  with es show "(\<exists>es. h' = h @ es \<and> permits (guarded d ln cfg ws p) h es) \<and> (\<forall>v. r = Inr v \<longrightarrow> cleared d ws p h')"
    by blast
qed

text \<open>A weaker postcondition, where nothing is known any more.\<close>

abbreviation anything :: "'a \<Rightarrow> history \<Rightarrow> bool" where
  "anything x h \<equiv> True"

lemma triple_any: "triple P G m Q \<Longrightarrow> triple P G m anything"
  by (rule triple_post) auto

lemma triple_quiet: "appends (quiet p) m \<Longrightarrow> triple (cleared d ws p) (guarded d ln cfg ws p) m anything"
  by (rule triple_any [OF triple_cleared])

lemma triple_calm_any: "appends calm m \<Longrightarrow> triple P (guarded d ln cfg ws p) m anything"
  by (rule triple_weaken [OF triple_calm [OF _ stable_always]]) auto

lemma triple_seen: "appends calm m \<Longrightarrow> triple (seen d ws) (guarded d ln cfg ws p) m (\<lambda>_. seen d ws)"
  by (rule triple_calm [OF _ stable_seen])

lemma triple_unlock: "triple P (guarded d ln cfg ws p) (lock_close l) anything"
proof -
  have "appends lock_event (lock_close l)" unfolding lock_close_def by (intro io_rules) (simp add: lock_event_def)
  from triple_appends [OF this stable_always lock_event_guarded] show ?thesis
    by (rule triple_weaken) auto
qed

lemma triple_unlock_seen: "triple (seen d ws) (guarded d ln cfg ws p) (lock_close l) (\<lambda>_. seen d ws)"
proof -
  have "appends lock_event (lock_close l)" unfolding lock_close_def by (intro io_rules) (simp add: lock_event_def)
  from triple_appends [OF this stable_seen lock_event_guarded] show ?thesis .
qed

section \<open>Attaching\<close>

text \<open>What was seen stays seen.\<close>

lemma triple_keeps_seen:
  assumes "triple P G m Q" "\<And>h. P h \<Longrightarrow> seen d ws h"
  shows "triple P G m (\<lambda>x h. seen d ws h)"
  unfolding triple_def
proof (intro allI impI)
  fix h x h'
  assume P: "P h" and "m h = (x, h')"
  with assms(1) obtain es where "h' = h @ es" "permits G h es" by (rule tripleD)
  with assms(2) [OF P] show "(\<exists>es. h' = h @ es \<and> permits G h es) \<and> seen d ws h'" by (auto intro: seen_append)
qed

lemma triple_replace_process:
  "triple (seen d ws) (guarded d ln cfg ws p) (replace_process d argv) anything"
proof -
  have run: "triple (seen d ws) (guarded d ln cfg ws p) (runner_replace d argv) anything"
    unfolding triple_def
    by (auto simp: runner_replace_def Let_def guarded_def split: if_splits option.splits)
  show ?thesis unfolding replace_process_def
  proof (rule triple_andThen [OF run])
    fix x show "triple (anything x) (guarded d ln cfg ws p)
        (case x of None \<Rightarrow> ret Became | Some e \<Rightarrow> fail_exit 1 (ReplaceFailed e)) anything"
      by (cases x) (auto intro: triple_calm_any calm_rules triple_ret)
  qed
qed

lemma triple_attach_report:
  "triple (seen d ws) (guarded d ln cfg ws p) (attach_with_report d ln cfg' c rp reopen) anything"
  unfolding attach_with_report_def replace_attach_def Let_def
  by (rule triple_andThen [OF triple_seen], intro io_rules calm_rules)
    (rule triple_andThen [OF triple_seen triple_replace_process], intro io_rules calm_rules)

section \<open>Bodies under the lock\<close>

lemma triple_locked:
  assumes "\<And>v. triple (cleared d ws p) (guarded d ln cfg ws p) (f v) Q" "\<And>h e. Q (Inl e) h"
  shows "triple (holds_lock p) (guarded d ln cfg ws p) (andThenE (verified_listing d ws) f) Q"
proof (rule triple_andThenE [OF triple_verified_listing])
  fix v show "triple (\<lambda>h. \<forall>v'. Inr v = Inr v' \<longrightarrow> cleared d ws p h) (guarded d ln cfg ws p) (f v) Q"
    by (rule triple_pre [OF assms(1)]) blast
qed (rule assms(2))

lemma triple_listing_cases:
  assumes "\<And>v. triple (cleared d ws p) (guarded d ln cfg ws p) (f v) Q"
    "\<And>e. triple always (guarded d ln cfg ws p) (g e) Q"
  shows "triple (holds_lock p) (guarded d ln cfg ws p)
    (andThen (verified_listing d ws) (\<lambda>r. case r of Inl e \<Rightarrow> g e | Inr v \<Rightarrow> f v)) Q"
proof (rule triple_andThen [OF triple_verified_listing])
  fix r show "triple (\<lambda>h. \<forall>v'. r = Inr v' \<longrightarrow> cleared d ws p h) (guarded d ln cfg ws p)
      (case r of Inl e \<Rightarrow> g e | Inr v \<Rightarrow> f v) Q"
    by (cases r) (auto intro: triple_pre assms)
qed

lemma triple_with_lock:
  assumes "own_lock ln ws p" "triple (holds_lock p) (guarded d ln cfg ws p) body anything"
  shows "triple always (guarded d ln cfg ws p) (with_project_lock d ln ws body) anything"
  unfolding with_project_lock_def
proof (rule triple_andThenE [where Q = "\<lambda>r h. \<forall>l. r = Inr l \<longrightarrow> holds_lock p h"])
  show "triple always (guarded d ln cfg ws p) (map_errE RefuseError (project_lock d ln ws))
      (\<lambda>r h. \<forall>l. r = Inr l \<longrightarrow> holds_lock p h)"
    by (rule triple_map_errE, rule triple_post [OF triple_project_lock [OF assms(1) stable_always]])
      (auto simp: map_err_Inr)
next
  fix l
  show "triple (\<lambda>h. \<forall>l'. Inr l = Inr l' \<longrightarrow> holds_lock p h) (guarded d ln cfg ws p)
      (andThen body (\<lambda>r. andThen (lock_close (Some l)) (\<lambda>_. ret r))) anything"
    by (rule triple_pre [where P = "holds_lock p"], rule triple_andThen [OF assms(2)],
        rule triple_andThen [OF triple_unlock], rule triple_ret) auto
qed simp

lemma triple_recover:
  assumes "own_lock ln ws p"
  shows "triple always (guarded d ln cfg ws p) (recover_attach_session_locked d ln cfg' ws) anything"
  unfolding recover_attach_session_locked_def
proof (rule triple_with_lock [OF assms])
  show "triple (holds_lock p) (guarded d ln cfg ws p) (recover_locked d ln cfg' ws) anything"
    unfolding recover_locked_def
    by (rule triple_locked) (simp_all, intro triple_prod triple_quiet io_rules quiet_rules
        quiet_calm [OF calm_guards(2)] quiet_calm [OF calm_session_ready] quiet_calm [OF calm_wait])
qed

lemma triple_with_session:
  assumes "own_lock ln ws p" "\<And>c. triple (seen d ws) (guarded d ln cfg ws p) (k c) anything"
  shows "triple (seen d ws) (guarded d ln cfg ws p) (with_session d ln cfg' ws c k) anything"
  unfolding with_session_def
proof (rule triple_andThen [OF triple_seen [OF calm_session_ready]], rule triple_if)
  show "triple (seen d ws) (guarded d ln cfg ws p)
    (andThen (recover_attach_session_locked d ln cfg' ws)
       (\<lambda>r. case r of Inl e \<Rightarrow> refuse e | Inr recovered \<Rightarrow> k recovered)) anything"
  proof (rule triple_andThen [where Q = "\<lambda>_. seen d ws"])
    show "triple (seen d ws) (guarded d ln cfg ws p) (recover_attach_session_locked d ln cfg' ws) (\<lambda>_. seen d ws)"
      by (rule triple_keeps_seen [OF triple_pre [OF triple_recover [OF assms(1)]]]) auto
  next
    fix r show "triple (seen d ws) (guarded d ln cfg ws p)
        (case r of Inl e \<Rightarrow> refuse e | Inr recovered \<Rightarrow> k recovered) anything"
      by (cases r) (auto intro: triple_calm_any calm_rules assms(2))
  qed
qed (rule assms(2))

lemma triple_run_running:
  assumes "own_lock ln ws p"
  shows "triple (seen d ws) (guarded d ln cfg ws p) (run_running d ln cfg' ws c cs) anything"
  unfolding run_running_def
  by (rule triple_andThen [OF triple_seen [OF calm_guards(2)]], rule triple_sum)
    (intro triple_calm_any calm_rules,
     rule triple_andThen [OF triple_seen [OF calm_drift(2)]], rule triple_prod,
     intro triple_with_session triple_attach_report assms)

lemma calm_drift_image: "appends calm
  (if b then andThen (desired_drift d ln cfg ws cs c) (\<lambda>(_, _, img). ret (f img)) else ret x)"
  by (intro io_rules calm_rules)

lemma triple_attach_existing:
  assumes "own_lock ln ws p"
  shows "triple (seen d ws) (guarded d ln cfg ws p) (attach_existing d ln cfg' ws c) anything"
proof -
  have att: "triple (seen d ws) (guarded d ln cfg ws p)
      (andThen (if b then andThen (desired_drift d ln cfg' ws cs c') (\<lambda>(_, _, img). ret img) else ret [])
        (\<lambda>img. attach_with_report d ln cfg' c'' (f img) reopen)) anything" for b cs c' c'' f reopen
    by (rule triple_andThen [OF triple_seen triple_attach_report]) (rule calm_drift_image)
  show ?thesis
    unfolding attach_existing_def Let_def
    by (rule triple_andThen [OF triple_seen [OF calm_guards(2)]], rule triple_sum, intro triple_calm_any calm_rules)
      (intro triple_option triple_if triple_calm_any [OF calm_fail(1)] triple_with_session assms att
        triple_andThen [OF triple_seen [OF calm_session_ready]])
qed

section \<open>The implicit default\<close>

lemma triple_attach_started:
  "triple (seen d ws) (guarded d ln cfg ws p) (attach_started d ln cfg' ws rp) anything"
proof -
  have insp: "appends calm (app_docker (inspect_container d (ws_project ws)))" by (intro io_rules calm_rules)
  have k: "triple (seen d ws) (guarded d ln cfg ws p)
      (if \<not> c_running c then fail_exit 1 StartedGone
       else (case verify_container (Some c) ws of
         Some e \<Rightarrow> fail_exit 1 (AppOwnership e)
       | None \<Rightarrow>
           andThen (if sr_image rp = [] \<and> cfg_update_check cfg'
                    then andThen (desired_drift d ln cfg' ws [c] (Some c)) (\<lambda>(_, _, img).
                      ret (rp\<lparr>sr_image := img\<rparr>))
                    else ret rp) (\<lambda>startup'.
             attach_with_report d ln cfg' c startup' False))) anything" for c
    by (intro triple_if triple_option triple_calm_any [OF calm_fail(1)] triple_andThen [OF triple_seen triple_attach_report])
      (intro io_rules calm_rules)
  show ?thesis
    unfolding attach_started_def
    by (rule triple_andThen [OF triple_seen [OF insp]], intro triple_sum triple_option triple_calm_any [OF calm_fail(1)] k)
qed

lemma triple_wait_and_attach:
  "triple (seen d ws) (guarded d ln cfg ws p) (wait_and_attach d ln cfg' ws rp) anything"
  unfolding wait_and_attach_def
  by (rule triple_andThen [OF triple_seen [OF calm_wait]], intro triple_sum triple_calm_any [OF calm_fail(1)]
      triple_attach_started)

lemma triple_default_locked:
  assumes "own_lock ln ws p"
  shows "triple (holds_lock p) (guarded d ln cfg ws p) (default_locked d ln cfg' ws)
    (\<lambda>r h. (\<forall>x. fst r \<noteq> Stop x) \<longrightarrow> seen d ws h)"
  unfolding default_locked_def
proof (rule triple_listing_cases)
  fix v :: "container option \<times> container list"
  obtain candidate cs where v: "v = (candidate, cs)" by fastforce
  show "triple (cleared d ws p) (guarded d ln cfg ws p)
      (case v of (candidate, containers) \<Rightarrow>
        let cfg'' = adopted ln cfg' ws candidate in
           if mac_gui cfg'' candidate
           then andThen (fail_exit 2 (GuiOnMac (deployed_gui candidate))) (\<lambda>x. ret (Stop x, []))
           else (case candidate of
             Some c \<Rightarrow>
               if active candidate then ret (Rerun cfg'' c containers, [])
               else andThen (start_stopped d ln cfg'' ws c) (\<lambda>(startup, r).
                 case r of
                   Inl e \<Rightarrow> andThen (fail_exit 1 e) (\<lambda>x. ret (Stop x, []))
                 | Inr u \<Rightarrow> ret (AttachTo cfg'' startup, []))
           | None \<Rightarrow>
               andThen (prepare_project d ln cfg'' ws None) (\<lambda>(prepared, generated).
               andThen (create_environment d ln cfg'' ws prepared) (\<lambda>r.
                 case r of
                   Inl (n, e) \<Rightarrow> andThen (fail_exit n e) (\<lambda>x. ret (Stop x, generated))
                 | Inr startup \<Rightarrow> ret (AttachTo cfg'' startup, generated)))))
      (\<lambda>r h. (\<forall>x. fst r \<noteq> Stop x) \<longrightarrow> seen d ws h)"
    unfolding Let_def
    by (rule triple_post [OF triple_cleared])
      (intro io_rules quiet_create assms quiet_start_stopped quiet_calm [OF calm_prepare] quiet_calm [OF calm_fail(1)],
        auto dest: cleared_seen)
next
  fix e show "triple always (guarded d ln cfg ws p) (andThen (refuse e) (\<lambda>x. ret (Stop x, [])))
      (\<lambda>r h. (\<forall>x. fst r \<noteq> Stop x) \<longrightarrow> seen d ws h)"
    by (rule triple_andThen [OF triple_calm_any [OF calm_fail(3)]]) (rule triple_ret, simp)
qed

lemma triple_ret_any: "triple P G (ret x) anything"
  by (rule triple_ret) simp

lemma triple_deferred: "appends calm m \<Longrightarrow> triple P (guarded d ln cfg ws p) (deferred m x) anything"
  unfolding deferred_def by (intro triple_if triple_ret_any triple_calm_any io_rules)

lemma triple_run_default_locked:
  assumes "own_lock ln ws p"
  shows "triple always (guarded d ln cfg ws p) (run_default_locked d ln cfg' ws) anything"
  unfolding run_default_locked_def
proof (rule triple_andThen [OF triple_project_lock [OF assms stable_always]], rule triple_sum)
  fix r :: "(app_error, string) result" and l assume r: "r = Inr l"
  show "triple (\<lambda>h. always h \<and> (\<forall>l. r = Inr l \<longrightarrow> l = p \<and> holds_lock p h)) (guarded d ln cfg ws p)
    (andThen (default_locked d ln cfg' ws) (\<lambda>(outcome, generated).
             case outcome of
               Stop x \<Rightarrow>
                 andThen (cleanup_generated d generated) (\<lambda>_.
                 andThen (lock_close (Some l)) (\<lambda>_. ret x))
             | Rerun cfg' c containers \<Rightarrow>
                 andThen (lock_close (Some l)) (\<lambda>_. run_running d ln cfg' ws c containers)
             | AttachTo cfg' startup \<Rightarrow>
                 andThen (lock_close (Some l)) (\<lambda>_.
                 andThen (wait_and_attach d ln cfg' ws startup) (deferred (cleanup_generated d generated))))) anything"
  proof (rule triple_andThen)
    show "triple (\<lambda>h. always h \<and> (\<forall>l. r = Inr l \<longrightarrow> l = p \<and> holds_lock p h)) (guarded d ln cfg ws p)
        (default_locked d ln cfg' ws) (\<lambda>r h. (\<forall>x. fst r \<noteq> Stop x) \<longrightarrow> seen d ws h)"
      by (rule triple_pre [OF triple_default_locked [OF assms]]) (simp add: r)
  next
    fix og :: "locked_outcome \<times> string"
    obtain out g where og: "og = (out, g)" by fastforce
    show "triple (\<lambda>h. (\<forall>x. fst og \<noteq> Stop x) \<longrightarrow> seen d ws h) (guarded d ln cfg ws p)
      (case og of (outcome, generated) \<Rightarrow>
             case outcome of
               Stop x \<Rightarrow>
                 andThen (cleanup_generated d generated) (\<lambda>_.
                 andThen (lock_close (Some l)) (\<lambda>_. ret x))
             | Rerun cfg' c containers \<Rightarrow>
                 andThen (lock_close (Some l)) (\<lambda>_. run_running d ln cfg' ws c containers)
             | AttachTo cfg' startup \<Rightarrow>
                 andThen (lock_close (Some l)) (\<lambda>_.
                 andThen (wait_and_attach d ln cfg' ws startup) (deferred (cleanup_generated d generated)))) anything"
    proof (cases out)
      case (Stop x)
      then show ?thesis unfolding og
        by (simp, intro triple_andThen [OF triple_calm_any [OF calm_cleanup]] triple_andThen [OF triple_unlock] triple_ret_any)
    next
      case (Rerun c' c cs)
      have "triple (seen d ws) (guarded d ln cfg ws p)
          (andThen (lock_close (Some l)) (\<lambda>_. run_running d ln c' ws c cs)) anything"
        by (rule triple_andThen [OF triple_unlock_seen triple_run_running [OF assms]])
      from triple_pre [OF this] show ?thesis unfolding og Rerun prod.case locked_outcome.case by simp
    next
      case (AttachTo c' rp)
      have "triple (seen d ws) (guarded d ln cfg ws p)
          (andThen (lock_close (Some l)) (\<lambda>_.
             andThen (wait_and_attach d ln c' ws rp) (deferred (cleanup_generated d g)))) anything"
        by (rule triple_andThen [OF triple_unlock_seen], rule triple_andThen [OF triple_wait_and_attach],
            rule triple_deferred [OF calm_cleanup])
      from triple_pre [OF this] show ?thesis unfolding og AttachTo prod.case locked_outcome.case by simp
    qed
  qed
qed (rule triple_calm_any [OF calm_fail(1)])

lemma triple_run_default:
  assumes "own_lock ln ws p"
  shows "triple (seen d ws) (guarded d ln cfg ws p) (run_default d ln cfg' ws c cs) anything"
  unfolding run_default_def
  by (intro triple_option triple_if triple_run_running triple_pre [OF triple_run_default_locked] assms) simp_all

section \<open>Commands\<close>

lemma new_invocation_prefix:
  "new_invocation su cfg ws paths f env = Inr i \<Longrightarrow> inv_prefix i = cfg_compose_command cfg"
  by (auto simp: new_invocation_def Let_def split: option.splits)

lemma prepare_project_prefix:
  assumes "prepare_project d ln cfg ws c h = ((r, g), h')"
  shows "\<forall>sel assets i. r = Inr (sel, assets, i) \<longrightarrow> inv_prefix i = cfg_compose_command cfg"
proof -
  from assms [unfolded prepare_project_def] obtain r1 h1 where
    1: "(case r1 of Inl e \<Rightarrow> ret (Inl e, []) | Inr assets \<Rightarrow>
     andThen (prepare_selection d ln cfg ws c assets) (\<lambda>r.
       case r of Inl e \<Rightarrow> ret (Inl e, []) | Inr sel \<Rightarrow>
     andThen (map_errE AppCompose (extra_mount_overlay d (around ln) cfg)) (\<lambda>r.
       case r of Inl e \<Rightarrow> ret (Inl e, []) | Inr generated \<Rightarrow>
       (case new_invocation (around ln) cfg ws assets (sel_file sel) (sel_env sel) of
          Inl e \<Rightarrow> ret (Inl (AppCompose e), generated)
        | Inr i \<Rightarrow>
            ret (Inr (sel, assets,
              if generated \<noteq> [] then i\<lparr>inv_files := inv_files i @ [generated]\<rparr> else i), generated))))) h1 = ((r, g), h')"
    by (rule andThen_result)
  show ?thesis
  proof (cases r1)
    case (Inl e) with 1 show ?thesis by auto
  next
    case (Inr assets)
    from 1 [unfolded Inr sum.case] obtain r2 h2 where
      2: "(case r2 of Inl e \<Rightarrow> ret (Inl e, []) | Inr sel \<Rightarrow>
     andThen (map_errE AppCompose (extra_mount_overlay d (around ln) cfg)) (\<lambda>r.
       case r of Inl e \<Rightarrow> ret (Inl e, []) | Inr generated \<Rightarrow>
       (case new_invocation (around ln) cfg ws assets (sel_file sel) (sel_env sel) of
          Inl e \<Rightarrow> ret (Inl (AppCompose e), generated)
        | Inr i \<Rightarrow>
            ret (Inr (sel, assets,
              if generated \<noteq> [] then i\<lparr>inv_files := inv_files i @ [generated]\<rparr> else i), generated)))) h2 = ((r, g), h')"
      by (rule andThen_result)
    show ?thesis
    proof (cases r2)
      case (Inl e) with 2 show ?thesis by auto
    next
      case (Inr sel)
      from 2 [unfolded Inr sum.case] obtain r3 h3 where
        3: "(case r3 of Inl e \<Rightarrow> ret (Inl e, []) | Inr generated \<Rightarrow>
       (case new_invocation (around ln) cfg ws assets (sel_file sel) (sel_env sel) of
          Inl e \<Rightarrow> ret (Inl (AppCompose e), generated)
        | Inr i \<Rightarrow>
            ret (Inr (sel, assets,
              if generated \<noteq> [] then i\<lparr>inv_files := inv_files i @ [generated]\<rparr> else i), generated))) h3 = ((r, g), h')"
        by (rule andThen_result)
      show ?thesis
        using 3 new_invocation_prefix
        by (cases r3; cases "new_invocation (around ln) cfg ws assets (sel_file sel) (sel_env sel)")
          (auto split: if_splits)
    qed
  qed
qed

lemma compose_command_adopted [simp]: "cfg_compose_command (adopted ln cfg ws c) = cfg_compose_command cfg"
  by (simp add: adopted_def adopt_deployed_state_def Let_def set_source_def split: option.split)

lemma reading_project:
  assumes "\<not> compose_command_mutates name" "cfg_compose_command cfg' = cfg_compose_command cfg"
  shows "triple always (guarded d ln cfg ws p) (run_project d ln cfg' ws c name args) anything"
proof -
  have names: "name \<noteq> ''up''" "name \<noteq> ''create''" "name \<noteq> ''pull''" "name \<noteq> ''down''"
    using assms(1) by (auto simp: compose_command_mutates_def)
  have prep: "triple always (guarded d ln cfg ws p) (prepare_project d ln cfg' ws c)
      (\<lambda>r h. \<forall>sel assets i. fst r = Inr (sel, assets, i) \<longrightarrow> inv_prefix i = cfg_compose_command cfg)"
  proof (rule triple_post [OF triple_conj [OF triple_calm_any [OF calm_prepare]]])
    fix h h' and x :: "(app_error, selection \<times> asset_paths \<times> invocation) result \<times> string"
    assume "prepare_project d ln cfg' ws c h = (x, h')"
    then have "prepare_project d ln cfg' ws c h = ((fst x, snd x), h')" by simp
    from prepare_project_prefix [OF this] assms(2)
    show "\<forall>sel assets i. fst x = Inr (sel, assets, i) \<longrightarrow> inv_prefix i = cfg_compose_command cfg" by simp
  qed simp
  have body: "triple (\<lambda>h. \<forall>sel assets i. r = Inr (sel, assets, i) \<longrightarrow> inv_prefix i = cfg_compose_command cfg)
      (guarded d ln cfg ws p) (run_prepared d ln cfg' ws name args' r) anything" for r args'
  proof (cases r)
    case (Inl e)
    have "run_prepared d ln cfg' ws name args' (Inl e) = failE (2, e)"
      by (rule ext) (simp add: run_prepared_def coded_def map_errE_def andThenE_def andThen_def failE_def ret_def)
    then show ?thesis using Inl by (simp add: triple_failE)
  next
    case (Inr v)
    obtain sel assets i where v: "v = (sel, assets, i)" by (metis prod_cases3)
    have eq: "run_prepared d ln cfg' ws name args' (Inr (sel, assets, i)) =
        compose_exit ln (project_run d i (name # args'))"
      using assms(1) names
      by (intro ext) (simp add: run_prepared_def coded_def map_errE_def andThenE_def andThen_def okE_def ret_def
          render_checked_def)
    have "triple always (guarded d ln cfg ws p) (compose_exit ln (project_run d i (name # args'))) anything"
      if "inv_prefix i = cfg_compose_command cfg"
    proof -
      have "appends (\<lambda>e. \<exists>r. e = Ran (invocation_args i (name # args')) r) (compose_exit ln (project_run d i (name # args')))"
        unfolding compose_exit_def project_run_def by (intro io_rules; blast)
      then show ?thesis
      proof (rule triple_weaken [OF triple_appends [OF _ stable_always]])
        fix h e assume e: "\<exists>r. e = Ran (invocation_args i (name # args')) r"
        have "reading_command cfg (invocation_args i (name # args'))"
          unfolding reading_command_def using assms(1) that by blast
        with e show "guarded d ln cfg ws p h e" by (auto simp: guarded_def)
      qed simp_all
    qed
    then show ?thesis
      by (cases "inv_prefix i = cfg_compose_command cfg") (auto simp: Inr v eq triple_def)
  qed
  have fin: "appends calm (finish r)" for r
    unfolding finish_def by (intro io_rules calm_rules)
  show ?thesis
    unfolding run_project_def
  proof (rule triple_andThen [OF prep], rule triple_prod)
    fix r :: "(app_error, selection \<times> asset_paths \<times> invocation) result \<times> string" and x g
    assume r: "r = (x, g)"
    show "triple (\<lambda>h. \<forall>sel assets i. fst r = Inr (sel, assets, i) \<longrightarrow> inv_prefix i = cfg_compose_command cfg)
        (guarded d ln cfg ws p)
        (andThen (run_prepared d ln cfg' ws name (default_args name args) x)
          (\<lambda>r. andThen (finish r) (\<lambda>x. andThen (cleanup_generated d g) (\<lambda>_. ret x)))) anything"
      unfolding r fst_conv
      by (rule triple_andThen [OF body], rule triple_calm_any, intro io_rules fin calm_cleanup)
  qed
qed

section \<open>Removing state\<close>

lemma stable_inspected: "stable (quiet vp) (inspected d vp name cs v)"
  unfolding stable_def inspected_def
proof (intro allI impI)
  fix h e
  assume "\<exists>pre es ev post. h = pre @ es @ ev # post \<and> holds_lock vp pre \<and> Unlocked vp \<notin> set (es @ ev # post) \<and>
      listed d es cs \<and> volume_told d name (Some v) ev" and q: "quiet vp e"
  then obtain pre es ev post where "h = pre @ es @ ev # post" "holds_lock vp pre"
    "Unlocked vp \<notin> set (es @ ev # post)" "listed d es cs" "volume_told d name (Some v) ev" by blast
  with q show "\<exists>pre es ev post. h @ [e] = pre @ es @ ev # post \<and> holds_lock vp pre \<and>
      Unlocked vp \<notin> set (es @ ev # post) \<and> listed d es cs \<and> volume_told d name (Some v) ev"
    by (intro exI [of _ pre] exI [of _ es] exI [of _ ev] exI [of _ "post @ [e]"]) (auto simp: quiet_def)
qed

lemma triple_calm_state:
  "appends calm m \<Longrightarrow> stable (quiet vp) I \<Longrightarrow> triple I (guarded d ln cfg ws p) m (\<lambda>_. I)"
  by (erule triple_calm) (auto simp: stable_def dest: calm_quiet)

lemma list_then_inspect:
  "triple (holds_lock vp) (guarded d ln cfg ws p) (app_docker (list_containers d))
     (\<lambda>r h. \<forall>cs. r = Inr cs \<longrightarrow> (\<exists>pre es. h = pre @ es \<and> holds_lock vp pre \<and> listed d es cs))"
  "triple (\<lambda>h. \<exists>pre es. h = pre @ es \<and> holds_lock vp pre \<and> listed d es cs) (guarded d ln cfg ws p)
     (app_docker (inspect_volume d name)) (\<lambda>r h. \<forall>v. r = Inr (Some v) \<longrightarrow> inspected d vp name cs v h)"
proof -
  have c: "appends calm (app_docker (list_containers d))" "appends calm (app_docker (inspect_volume d name))"
    by (intro io_rules calm_rules)+
  show "triple (holds_lock vp) (guarded d ln cfg ws p) (app_docker (list_containers d))
     (\<lambda>r h. \<forall>cs. r = Inr cs \<longrightarrow> (\<exists>pre es. h = pre @ es \<and> holds_lock vp pre \<and> listed d es cs))"
  proof (rule triple_post [OF triple_conj [OF triple_calm_any [OF c(1)]]])
    fix h r h' assume "holds_lock vp h" "app_docker (list_containers d) h = (r, h')"
    then show "\<forall>cs. r = Inr cs \<longrightarrow> (\<exists>pre es. h' = pre @ es \<and> holds_lock vp pre \<and> listed d es cs)"
      unfolding app_docker_def by (auto elim!: map_errE_cases list_containers_listed)
  qed simp
  show "triple (\<lambda>h. \<exists>pre es. h = pre @ es \<and> holds_lock vp pre \<and> listed d es cs) (guarded d ln cfg ws p)
     (app_docker (inspect_volume d name)) (\<lambda>r h. \<forall>v. r = Inr (Some v) \<longrightarrow> inspected d vp name cs v h)"
  proof (rule triple_post [OF triple_conj [OF triple_calm_any [OF c(2)]]])
    fix h r h'
    assume "\<exists>pre es. h = pre @ es \<and> holds_lock vp pre \<and> listed d es cs" "app_docker (inspect_volume d name) h = (r, h')"
    then obtain pre es where h: "h = pre @ es" "holds_lock vp pre" "listed d es cs"
      and run: "app_docker (inspect_volume d name) h = (r, h')" by blast
    have "inspected d vp name cs v h'" if "r = Inr (Some v)" for v
    proof -
      from run that have "inspect_volume d name h = (Inr (Some v), h')"
        unfolding app_docker_def by (auto elim!: map_errE_cases)
      then obtain ev where ev: "h' = h @ [ev]" "volume_told d name (Some v) ev"
        "\<exists>x. ev = Captured (inspect_volume_argv name) x"
        by (rule inspect_volume_cases) auto
      show ?thesis unfolding inspected_def
        by (intro exI [of _ pre] exI [of _ es] exI [of _ ev] exI [of _ "[]"])
          (use h ev listed_no_unlock in auto)
    qed
    then show "\<forall>v. r = Inr (Some v) \<longrightarrow> inspected d vp name cs v h'" by blast
  qed simp
qed

lemma triple_remove_owned:
  assumes sc: "scope_volume ws scope = (name, want)" and vp: "volume_lock_path (ln_locks ln) name = Inr vp"
  shows "triple (inspected d vp name cs v) (guarded d ln cfg ws p) (remove_owned d scope name want cs v) anything"
proof -
  have say: "triple (inspected d vp name cs v) (guarded d ln cfg ws p) (say t a) (\<lambda>_. inspected d vp name cs v)" for t a
    by (rule triple_calm_state [OF calm_say(1) stable_inspected])
  have rm: "triple (inspected d vp name cs v) (guarded d ln cfg ws p) (app_docker (remove_volume d name)) anything"
    if ok: "volume_references cs name = []" "\<forall>k \<in> set (keys_of want). label (vol_labels v) k = label want k"
  proof (rule triple_any [OF triple_appends])
    show "appends (\<lambda>e. \<exists>r. e = Ran [''docker'', ''volume'', ''rm'', name] r) (app_docker (remove_volume d name))"
      unfolding remove_volume_def by (intro io_rules; blast)
    show "stable (\<lambda>e. \<exists>r. e = Ran [''docker'', ''volume'', ''rm'', name] r) (inspected d vp name cs v)"
      using stable_inspected [of vp d name cs v] by (auto simp: stable_def)
    show "guarded d ln cfg ws p h e" if "inspected d vp name cs v h" "\<exists>r. e = Ran [''docker'', ''volume'', ''rm'', name] r" for h e
    proof -
      have "state_removal d ln ws [''docker'', ''volume'', ''rm'', name] h"
        unfolding state_removal_def using sc vp ok that(1) by blast
      with that(2) show ?thesis by (auto simp: guarded_def)
    qed
  qed
  have final: "triple P (guarded d ln cfg ws p) (case r of Inl e \<Rightarrow> fail_exit 1 e | Inr u \<Rightarrow> ret Done) anything" for P r
    by (intro triple_sum triple_calm_any [OF calm_fail(1)] triple_ret_any)
  show ?thesis
    unfolding remove_owned_def Let_def
    by (rule triple_andThen [OF say], intro triple_option triple_if triple_calm_any [OF calm_fail(1)]
        triple_andThen [OF say] triple_andThen [OF rm final]) (auto simp: find_None_iff)
qed

lemma triple_remove_state:
  assumes "scope_volume ws scope = (name, want)" "volume_lock_path (ln_locks ln) name = Inr vp"
  shows "triple (holds_lock vp) (guarded d ln cfg ws p) (remove_state_locked d scope name want) anything"
  unfolding remove_state_locked_def
proof (rule triple_andThen [OF list_then_inspect(1)], rule triple_sum)
  fix r :: "(app_error, container list) result" and cs assume r: "r = Inr cs"
  let ?P = "\<lambda>h. \<exists>pre es. h = pre @ es \<and> holds_lock vp pre \<and> listed d es cs"
  have "triple ?P (guarded d ln cfg ws p) (andThen (app_docker (inspect_volume d name)) (\<lambda>r. case r of
         Inl e \<Rightarrow> fail_exit 1 e
       | Inr None \<Rightarrow> andThen (say ''already-absent'' [name]) (\<lambda>_. ret Done)
       | Inr (Some v) \<Rightarrow> remove_owned d scope name want cs v)) anything"
    by (rule triple_andThen [OF list_then_inspect(2)], intro triple_sum triple_option
        triple_calm_any [OF calm_fail(1)] triple_andThen [OF triple_calm_any [OF calm_say(1)] triple_ret_any])
      (rule triple_pre [OF triple_remove_owned [OF assms]], simp)
  then show "triple (\<lambda>h. \<forall>cs. r = Inr cs \<longrightarrow> (\<exists>pre es. h = pre @ es \<and> holds_lock vp pre \<and> listed d es cs))
      (guarded d ln cfg ws p) (andThen (app_docker (inspect_volume d name)) (\<lambda>r. case r of
         Inl e \<Rightarrow> fail_exit 1 e
       | Inr None \<Rightarrow> andThen (say ''already-absent'' [name]) (\<lambda>_. ret Done)
       | Inr (Some v) \<Rightarrow> remove_owned d scope name want cs v)) anything"
    by (rule triple_pre) (simp add: r)
qed (rule triple_calm_any [OF calm_fail(1)])

lemma triple_state_command:
  "triple always (guarded d ln cfg ws p) (run_state_command d ln ws args) anything"
proof -
  have lock: "triple always (guarded d ln cfg ws p) (map_errE AppLock (acquire_volume_lock d (ln_locks ln) name))
      (\<lambda>r h. \<forall>l. r = Inr l \<longrightarrow> volume_lock_path (ln_locks ln) name = Inr l \<and> holds_lock l h)" for name
  proof (rule triple_post [OF triple_conj [OF triple_appends [OF _ stable_always lock_event_guarded]]])
    show "appends lock_event (map_errE AppLock (acquire_volume_lock d (ln_locks ln) name))"
      by (rule appends_map_errE [OF appends_acquire_volume_lock])
    fix h r h' assume "map_errE AppLock (acquire_volume_lock d (ln_locks ln) name) h = (r, h')"
    then show "\<forall>l. r = Inr l \<longrightarrow> volume_lock_path (ln_locks ln) name = Inr l \<and> holds_lock l h'"
      by (auto elim!: map_errE_cases dest: acquire_volume_lock_path)
  qed simp_all
  have body: "triple always (guarded d ln cfg ws p)
      (andThen (map_errE AppLock (acquire_volume_lock d (ln_locks ln) name)) (\<lambda>r.
         case r of
           Inl e \<Rightarrow> fail_exit 1 e
         | Inr lock \<Rightarrow>
             andThen (remove_state_locked d scope name want) (\<lambda>x. andThen (lock_close (Some lock)) (\<lambda>_. ret x)))) anything"
    if sc: "scope_volume ws scope = (name, want)" for scope name want
  proof (rule triple_andThen [OF lock], rule triple_sum [OF triple_calm_any [OF calm_fail(1)]])
    fix r :: "(app_error, string) result" and l assume r: "r = Inr l"
    show "triple (\<lambda>h. \<forall>l. r = Inr l \<longrightarrow> volume_lock_path (ln_locks ln) name = Inr l \<and> holds_lock l h)
        (guarded d ln cfg ws p)
        (andThen (remove_state_locked d scope name want) (\<lambda>x. andThen (lock_close (Some l)) (\<lambda>_. ret x))) anything"
    proof (cases "volume_lock_path (ln_locks ln) name = Inr l")
      case True
      show ?thesis
        by (rule triple_pre [where P = "holds_lock l"], rule triple_andThen [OF triple_remove_state [OF sc True]],
            rule triple_andThen [OF triple_unlock triple_ret_any]) (simp add: r)
    next
      case False
      then show ?thesis by (simp add: r triple_def)
    qed
  qed
  show ?thesis
    unfolding run_state_command_def
    by (auto split: list.split prod.split intro!: triple_if triple_calm_any calm_rules body)
qed

section \<open>Dispatch\<close>

lemma triple_exec:
  "triple (seen d ws) (guarded d ln cfg ws p) (replace_exec d ln cfg' c args) anything"
  unfolding replace_exec_def Let_def by (rule triple_replace_process)

lemma quiet_finish: "appends calm (finish r)"
  unfolding finish_def by (intro io_rules calm_rules)

lemma triple_command_cleared:
  assumes "own_lock ln ws p"
  shows "triple (cleared d ws p) (guarded d ln cfg ws p) (command_body d ln cfg' ws c name args) anything"
proof -
  have start: "appends (quiet p) (andThen (coded 1 (andThenE (app_state (validate_state_ownership d cfg' ws)) (\<lambda>_.
        app_docker (start_container d (ws_project ws))))) finish)"
    by (intro io_rules quiet_rules quiet_calm [OF quiet_finish])
  show ?thesis
    unfolding command_body_def
    by (intro triple_if triple_option triple_calm_any [OF calm_fail(1)] triple_quiet start
        quiet_run_project assms triple_pre [OF triple_exec] triple_pre [OF triple_attach_existing])
      (auto dest: cleared_seen)
qed

lemma triple_command_reading:
  assumes "own_lock ln ws p" "\<not> compose_command_mutates name" "cfg_compose_command cfg' = cfg_compose_command cfg"
  shows "triple (seen d ws) (guarded d ln cfg ws p) (command_body d ln cfg' ws c name args) anything"
proof -
  have "name \<noteq> ''start''" using assms(2) by (auto simp: compose_command_mutates_def)
  then show ?thesis
    unfolding command_body_def
    by (intro triple_if triple_option triple_calm_any [OF calm_fail(1)] triple_exec
        triple_attach_existing assms triple_pre [OF reading_project]) simp_all
qed

lemma triple_run_command:
  assumes "own_lock ln ws p" "cfg_compose_command cfg' = cfg_compose_command cfg"
  shows "triple (seen d ws) (guarded d ln cfg ws p) (run_command d ln cfg' ws c) anything"
proof -
  have mut: "triple (holds_lock p) (guarded d ln cfg ws p) (mutating_command d ln cfg' ws name args) anything" for name args
    unfolding mutating_command_def Let_def
    by (rule triple_listing_cases) (intro triple_prod triple_if triple_calm_any [OF calm_fail(1)]
        triple_calm_any [OF calm_fail(3)] triple_command_cleared assms)+
  have "triple (seen d ws) (guarded d ln cfg ws p)
     (andThen (project_lock d ln ws) (\<lambda>r.
          case r of
            Inl e \<Rightarrow> fail_exit 1 e
          | Inr lock \<Rightarrow> andThen (mutating_command d ln cfg' ws name args) (deferred (lock_close (Some lock))))) anything"
    for name args
  proof (rule triple_pre [OF triple_andThen [OF triple_project_lock [OF assms(1) stable_always]]], rule triple_sum)
    fix r :: "(app_error, string) result" and l assume r: "r = Inr l"
    have "triple P (guarded d ln cfg ws p) (deferred (lock_close (Some l)) x) anything" for P x
      unfolding deferred_def by (intro triple_if triple_ret_any triple_andThen [OF triple_unlock])
    from triple_andThen [OF mut this]
    show "triple (\<lambda>h. always h \<and> (\<forall>l. r = Inr l \<longrightarrow> l = p \<and> holds_lock p h)) (guarded d ln cfg ws p)
      (andThen (mutating_command d ln cfg' ws name args) (deferred (lock_close (Some l)))) anything"
      by (rule triple_pre) (simp add: r)
  qed (intro triple_calm_any [OF calm_fail(1)], simp)
  then show ?thesis
    unfolding run_command_def Let_def
    by (intro triple_if triple_pre [OF triple_state_command] triple_calm_any [OF calm_fail(1)]
        triple_command_reading assms) simp_all
qed

lemma triple_dispatch:
  assumes "own_lock ln ws p" "cfg_compose_command cfg' = cfg_compose_command cfg"
  shows "triple (seen d ws) (guarded d ln cfg ws p) (dispatch d ln cfg' ws c cs) anything"
  unfolding dispatch_def Let_def
  by (intro triple_if triple_calm_any [OF calm_fail(1)] triple_run_default triple_attach_existing
      triple_run_command assms)

text \<open>The whole launcher, for an \<open>info\<close> that only reads and a \<open>session\<close> that keeps the policy.\<close>

lemma triple_run_operational:
  assumes "own_lock ln ws p"
    and info: "\<And>c co cs l e o'. appends calm (info c co cs l e o')"
    and session: "triple always (guarded d ln cfg ws p) session anything"
  shows "triple always (guarded d ln cfg ws p) (run_operational d ln info session cfg ws) anything"
proof -
  have list: "triple always (guarded d ln cfg ws p) (list_containers d)
      (\<lambda>r h. \<forall>cs. r = Inr cs \<longrightarrow> owned_listing ws cs \<longrightarrow> seen d ws h)"
  proof (rule triple_post [OF triple_conj [OF triple_calm_any [OF calm_inspections(1)]]])
    fix h r h' assume "list_containers d h = (r, h')"
    then show "\<forall>cs. r = Inr cs \<longrightarrow> owned_listing ws cs \<longrightarrow> seen d ws h'"
      by (auto elim!: list_containers_listed simp: seen_def) (metis append_Nil2)
  qed simp
  have rest: "triple (\<lambda>h. owned_listing ws cs \<longrightarrow> seen d ws h) (guarded d ln cfg ws p)
      (andThen (warn_multiplicity cs ws) (\<lambda>_.
        let legacy = find_legacy cs (ws_path ws);
            candidate = find_container cs (ws_project ws);
            cfg' = (if verify_container candidate ws = None then adopted ln cfg ws candidate else cfg);
            ownership = listing_error ws cs
        in if command_name (cfg_command cfg) = ''info'' then info cfg' candidate cs legacy None ownership
           else case ownership of
             Some e \<Rightarrow> fail_exit 1 e
           | None \<Rightarrow>
               (case legacy of
                  Some l \<Rightarrow> refuse_legacy l
                | None \<Rightarrow> dispatch d ln cfg' ws candidate cs))) anything" for cs
  proof -
    have warn: "appends calm (warn_multiplicity cs ws)"
      unfolding warn_multiplicity_def Let_def by (intro io_rules; simp)
    have keep: "triple (\<lambda>h. owned_listing ws cs \<longrightarrow> seen d ws h) (guarded d ln cfg ws p) (warn_multiplicity cs ws)
        (\<lambda>_ h. owned_listing ws cs \<longrightarrow> seen d ws h)"
      by (rule triple_calm [OF warn]) (auto simp: stable_def intro: seen_append)
    have own: "owned_listing ws cs" if "listing_error ws cs = None" "find_legacy cs (ws_path ws) = None"
      using that by (auto simp: owned_listing_def listing_error_def split: sum.splits)
    show ?thesis
      unfolding Let_def
      by (rule triple_andThen [OF keep], intro triple_if triple_option triple_calm_any [OF info]
          triple_calm_any [OF calm_fail(1)] triple_calm_any [OF calm_fail(2)] triple_pre [OF triple_dispatch] assms(1))
        (auto dest: own)
  qed
  show ?thesis
    unfolding run_operational_def
    by (subst Let_def, rule triple_if [OF session], rule triple_andThen [OF list], intro triple_sum triple_if
        triple_calm_any [OF info] triple_calm_any [OF calm_fail(1)] triple_pre [OF rest]) simp_all
qed

end
