(* ===== verification/Info.thy ===== *)
theory Info
  imports Launch
begin

text \<open>
  The report of \<open>hcorral info\<close> (\<open>internal/app/info.go\<close>): one snapshot of the launcher, the
  workspace, its container, image, state volume and Compose project.  The JSON encoder and the
  human layout are output only; the snapshot they print is the model.
\<close>

section \<open>The snapshot\<close>

record other_project =
  op_name :: string
  op_harness :: string
  op_corral :: string
  op_status :: string

record snap_ownership =
  so_status :: string
  so_workspace :: string
  so_scheme :: string
  so_schema :: string
  so_error :: "app_error option"

record snap_container =
  sc_status :: string
  sc_id :: string
  sc_started :: string
  sc_image :: string

record snap_image =
  si_selected_reference :: string
  si_selected_id :: string
  si_selected_digests :: "string list"
  si_rendered_reference :: string
  si_deployed_reference :: string
  si_deployed_id :: string
  si_deployed_digests :: "string list"

record snap_removal =
  rm_action :: string
  rm_target :: string
  rm_reason :: string
  rm_project :: string
  rm_volumes :: "string list"
  rm_networks :: "string list"
  rm_post_volumes :: "string list"
  rm_external_volumes :: "string list"
  rm_external_networks :: "string list"
  rm_refusals :: "string list"

record snap_state =
  ss_mode :: state_mode
  ss_volume :: string
  ss_managed :: bool
  ss_exists :: "bool option"
  ss_removal :: snap_removal

record snap_gui =
  sg_requested :: gui_intent
  sg_effective :: string
  sg_deployed :: string
  sg_reason :: gui_reason

record snap_compose =
  sp_command :: "string \<times> nat option"
  sp_files :: "string list"
  sp_services :: "string list"
  sp_desired :: labels
  sp_deployed :: labels
  sp_drift :: string
  sp_detail :: string
  sp_error :: string

record snap_session =
  sn_name :: string
  sn_status :: string

record snapshot =
  sh_version :: string
  sh_commit :: string
  sh_workspace :: workspace
  sh_others :: "other_project list"
  sh_config :: config
  sh_state_volume :: string
  sh_ownership :: snap_ownership
  sh_conflict :: "legacy_match option"
  sh_container :: snap_container
  sh_image :: snap_image
  sh_state :: snap_state
  sh_mounts :: "mount list"
  sh_gui :: snap_gui
  sh_compose :: snap_compose
  sh_session :: snap_session
  sh_update :: facts
  sh_docker_error :: "docker_error option"

section \<open>Parts\<close>

text \<open>\<open>redactedComposeCommand\<close>: the default command is shown, another one only by its program.\<close>

definition redacted_command :: "string list \<Rightarrow> string \<times> nat option" where
  "redacted_command argv =
     (if argv = [''docker'', ''compose''] then (''docker compose'', None)
      else (if argv = [] then [] else path_base (hd argv), Some (length argv - 1)))"

definition effective_gui :: "config \<Rightarrow> container option \<Rightarrow> string" where
  "effective_gui cfg candidate =
     (if gui_specified (cfg_gui cfg) then gui_mode (cfg_gui cfg) else deployed_gui candidate)"

definition blank_removal :: "string \<Rightarrow> config \<Rightarrow> workspace \<Rightarrow> snap_removal" where
  "blank_removal action cfg ws =
     \<lparr>rm_action = action, rm_target = state_volume_name cfg ws, rm_reason = [], rm_project = ws_project ws,
      rm_volumes = [], rm_networks = [], rm_post_volumes = [], rm_external_volumes = [],
      rm_external_networks = [], rm_refusals = []\<rparr>"

definition removal_snapshot ::
  "daemon \<Rightarrow> launcher \<Rightarrow> config \<Rightarrow> workspace \<Rightarrow> container list \<Rightarrow> bool \<Rightarrow> snap_removal io" where
  "removal_snapshot d ln cfg ws containers exists =
     (let result = blank_removal ''retain'' cfg ws in
      if \<not> exists then ret (result\<lparr>rm_action := ''nothing'', rm_reason := ''volume absent''\<rparr>)
      else if cfg_state_mode cfg = StateCustom then ret (result\<lparr>rm_reason := ''user-managed custom volume''\<rparr>)
      else if cfg_state_mode cfg = StateShared
      then ret (result\<lparr>rm_reason := ''global shared state is retained by down -v''\<rparr>)
      else andThen (app_state (plan_managed_state_removal d cfg ws containers)) (\<lambda>r.
        case r of
          Inl e \<Rightarrow> ret (result\<lparr>rm_action := ''refuse'', rm_reason := ln_error_text ln e\<rparr>)
        | Inr (remove, name) \<Rightarrow>
            if remove
            then ret (result\<lparr>rm_action := ''remove'', rm_reason := ''launcher-managed volume is safe to remove''\<rparr>)
            else ret (result\<lparr>rm_action := ''nothing'', rm_reason := ''workspace-private volume is absent''\<rparr>)))"

text \<open>One volume or network of the rendered project: the name it would lose, and the refusal.\<close>

definition refusal_reason ::
  "(docker_error, labels option) result \<Rightarrow> string \<Rightarrow> workspace \<Rightarrow> string \<Rightarrow> string \<Rightarrow> string list" where
  "refusal_reason r key ws logicalName name =
     (case r of
        Inl e \<Rightarrow> [''inspection failed for '' @ name]
      | Inr None \<Rightarrow> []
      | Inr (Some ls) \<Rightarrow>
          if label ls label_compose_project \<noteq> ws_project ws \<or> label ls key \<noteq> logicalName
          then [''ownership is ambiguous for '' @ name] else [])"

fun populate_volumes ::
  "daemon \<Rightarrow> workspace \<Rightarrow> string \<Rightarrow> (string \<times> rendered_object) list \<Rightarrow> snap_removal \<Rightarrow> snap_removal io" where
  "populate_volumes d ws stateName [] result = ret result"
| "populate_volumes d ws stateName ((logicalName, ro) # vs) result =
     (if ro_external ro then
        populate_volumes d ws stateName vs
          (if ro_name ro \<noteq> stateName
           then result\<lparr>rm_external_volumes := rm_external_volumes result @ [ro_name ro]\<rparr> else result)
      else andThen (volume_label_lookup d (ro_name ro)) (\<lambda>r.
        populate_volumes d ws stateName vs
          (result\<lparr>rm_volumes := rm_volumes result @ [ro_name ro],
                  rm_refusals := rm_refusals result @
                    refusal_reason r label_compose_volume ws logicalName (ro_name ro)\<rparr>)))"

fun populate_networks ::
  "daemon \<Rightarrow> workspace \<Rightarrow> (string \<times> rendered_object) list \<Rightarrow> snap_removal \<Rightarrow> snap_removal io" where
  "populate_networks d ws [] result = ret result"
| "populate_networks d ws ((logicalName, ro) # ns) result =
     (if ro_external ro then
        populate_networks d ws ns (result\<lparr>rm_external_networks := rm_external_networks result @ [ro_name ro]\<rparr>)
      else andThen (network_label_lookup d (ro_name ro)) (\<lambda>r.
        populate_networks d ws ns
          (result\<lparr>rm_networks := rm_networks result @ [ro_name ro],
                  rm_refusals := rm_refusals result @
                    refusal_reason r label_compose_network ws logicalName (ro_name ro)\<rparr>)))"

definition state_entry :: "string \<Rightarrow> snap_removal \<Rightarrow> snap_removal" where
  "state_entry stateName result =
     (if rm_action result = ''remove''
      then result\<lparr>rm_post_volumes := rm_post_volumes result @ [stateName]\<rparr>
      else if rm_action result = ''retain''
      then result\<lparr>rm_external_volumes := rm_external_volumes result @ [stateName]\<rparr>
      else if rm_action result = ''refuse''
      then result\<lparr>rm_refusals := rm_refusals result @ [''state volume ownership or references are ambiguous'']\<rparr>
      else result)"

definition sort_removal :: "snap_removal \<Rightarrow> snap_removal" where
  "sort_removal r =
     r\<lparr>rm_volumes := sort (rm_volumes r), rm_networks := sort (rm_networks r),
       rm_post_volumes := sort (rm_post_volumes r), rm_external_volumes := sort (rm_external_volumes r),
       rm_external_networks := sort (rm_external_networks r), rm_refusals := sort (rm_refusals r)\<rparr>"

definition populate_removal_set ::
  "daemon \<Rightarrow> rendered \<Rightarrow> config \<Rightarrow> workspace \<Rightarrow> snap_removal \<Rightarrow> snap_removal io" where
  "populate_removal_set d rd cfg ws result =
     (let stateName = state_volume_name cfg ws in
      andThen (populate_volumes d ws stateName (rd_volumes rd) result) (\<lambda>r1.
      andThen (populate_networks d ws (rd_networks rd) r1) (\<lambda>r2.
        ret (sort_removal (state_entry stateName r2)))))"

text \<open>The other corrals of the workspace, by name.\<close>

definition other_corrals :: "container list \<Rightarrow> workspace \<Rightarrow> other_project list" where
  "other_corrals containers ws =
     sort_key op_name (map (\<lambda>c. \<lparr>op_name = label (c_labels c) label_compose_project,
         op_harness = label (c_labels c) label_harness_type, op_corral = label (c_labels c) label_corral_id,
         op_status = c_status c\<rparr>)
       (filter (\<lambda>c. label (c_labels c) label_workspace_id = ws_full_id ws \<and>
           \<not> (label (c_labels c) label_compose_project = [] \<or>
              label (c_labels c) label_compose_project = ws_project ws)) containers))"

section \<open>Filling the snapshot\<close>

definition first_snapshot ::
  "launcher \<Rightarrow> config \<Rightarrow> workspace \<Rightarrow> container option \<Rightarrow> legacy_match option \<Rightarrow> docker_error option \<Rightarrow> snapshot" where
  "first_snapshot ln cfg ws candidate legacy dockerErr =
     \<lparr>sh_version = ln_version ln, sh_commit = ln_commit ln, sh_workspace = ws, sh_others = [], sh_config = cfg,
      sh_state_volume = state_volume_name cfg ws,
      sh_ownership = \<lparr>so_status = ''absent'', so_workspace = [], so_scheme = [], so_schema = [], so_error = None\<rparr>,
      sh_conflict = legacy,
      sh_container = \<lparr>sc_status = ''absent'', sc_id = [], sc_started = [], sc_image = []\<rparr>,
      sh_image = \<lparr>si_selected_reference = cfg_image cfg, si_selected_id = [], si_selected_digests = [],
        si_rendered_reference = [], si_deployed_reference = [], si_deployed_id = [], si_deployed_digests = []\<rparr>,
      sh_state = \<lparr>ss_mode = cfg_state_mode cfg, ss_volume = state_volume_name cfg ws,
        ss_managed = (cfg_state_mode cfg \<noteq> StateCustom), ss_exists = None,
        ss_removal = (blank_removal ''unknown'' cfg ws)
          \<lparr>rm_reason := (if dockerErr \<noteq> None then ''Docker unavailable'' else [])\<rparr>\<rparr>,
      sh_mounts = [],
      sh_gui = \<lparr>sg_requested = cfg_gui cfg, sg_effective = effective_gui cfg candidate,
        sg_deployed = deployed_gui candidate, sg_reason = NoReason\<rparr>,
      sh_compose = \<lparr>sp_command = redacted_command (cfg_compose_command cfg), sp_files = cfg_compose_files cfg,
        sp_services = [], sp_desired = [], sp_deployed = [], sp_drift = ''unknown'', sp_detail = [],
        sp_error = (if dockerErr \<noteq> None then ''Docker unavailable'' else [])\<rparr>,
      sh_session = \<lparr>sn_name = cfg_session cfg, sn_status = ''absent''\<rparr>,
      sh_update = (first_facts (launcher_checker ln False) cfg)
        \<lparr>fa_launcher_current := [], fa_lookup_status := ''unavailable'', fa_lookup_error := ''docker''\<rparr>,
      sh_docker_error = dockerErr\<rparr>"

text \<open>The container, when there is one: its ownership, image, mounts and session.\<close>

definition session_status ::
  "daemon \<Rightarrow> launcher \<Rightarrow> config \<Rightarrow> container \<Rightarrow> app_error option \<Rightarrow> snap_session \<Rightarrow> snap_session io" where
  "session_status d ln cfg c ownershipErr s =
     (if ownershipErr = None \<and> c_running c then
        andThen (session_ready d ln cfg (Some c)) (\<lambda>ready.
          ret \<lparr>sn_name = rs_session (deployed_settings ln cfg (Some c)),
               sn_status = (if ready then ''present'' else ''missing'')\<rparr>)
      else if ownershipErr = None then ret (s\<lparr>sn_status := ''container-stopped''\<rparr>)
      else ret (s\<lparr>sn_status := ''not-inspected-unowned''\<rparr>))"

definition image_digests :: "daemon \<Rightarrow> string \<Rightarrow> string list io" where
  "image_digests d reference =
     (if reference = [] then ret []
      else andThen (inspect_image d reference) (\<lambda>r.
        ret (case r of Inr (Some i) \<Rightarrow> img_repo_digests i | _ \<Rightarrow> [])))"

definition container_snapshot ::
  "daemon \<Rightarrow> launcher \<Rightarrow> config \<Rightarrow> container option \<Rightarrow> app_error option \<Rightarrow> snapshot \<Rightarrow> snapshot io" where
  "container_snapshot d ln cfg candidate ownershipErr s =
     (let s1 = (case ownershipErr of
                  None \<Rightarrow> s
                | Some e \<Rightarrow> s\<lparr>sh_ownership := (sh_ownership s)\<lparr>so_status := ''collision'', so_error := Some e\<rparr>\<rparr>)
      in case candidate of
           None \<Rightarrow> ret s1
         | Some c \<Rightarrow>
             let ls = c_labels c;
                 s2 = (if ownershipErr = None
                       then s1\<lparr>sh_ownership := \<lparr>so_status = ''verified'', so_workspace = label ls label_workspace_id,
                              so_scheme = label ls label_workspace_scheme, so_schema = label ls label_runtime_schema,
                              so_error = None\<rparr>\<rparr>
                       else s1)
             in andThen (image_digests d (c_image_id c)) (\<lambda>digests.
                andThen (session_status d ln cfg c ownershipErr (sh_session s2)) (\<lambda>session.
                  ret (s2\<lparr>sh_container := \<lparr>sc_status = c_status c, sc_id = c_id c, sc_started = c_started c,
                            sc_image = c_image c\<rparr>,
                          sh_image := (sh_image s2)\<lparr>si_deployed_reference := c_image c,
                            si_deployed_id := c_image_id c, si_deployed_digests := digests\<rparr>,
                          sh_mounts := c_mounts c,
                          sh_session := session\<rparr>))))"

definition selected_snapshot :: "daemon \<Rightarrow> config \<Rightarrow> snapshot \<Rightarrow> snapshot io" where
  "selected_snapshot d cfg s =
     andThen (inspect_image d (cfg_image cfg)) (\<lambda>r.
       ret (case r of
         Inr (Some i) \<Rightarrow> s\<lparr>sh_image := (sh_image s)\<lparr>si_selected_id := img_id i,
           si_selected_digests := img_repo_digests i\<rparr>\<rparr>
       | _ \<Rightarrow> s))"

definition volume_snapshot ::
  "daemon \<Rightarrow> launcher \<Rightarrow> config \<Rightarrow> workspace \<Rightarrow> container list \<Rightarrow> snapshot \<Rightarrow> snapshot io" where
  "volume_snapshot d ln cfg ws containers s =
     andThen (inspect_volume d (ss_volume (sh_state s))) (\<lambda>r.
       case r of
         Inl e \<Rightarrow> ret (s\<lparr>sh_state := (sh_state s)\<lparr>ss_removal :=
           (ss_removal (sh_state s))\<lparr>rm_reason := ''volume inspection failed''\<rparr>\<rparr>\<rparr>)
       | Inr vol \<Rightarrow>
           andThen (removal_snapshot d ln cfg ws containers (vol \<noteq> None)) (\<lambda>removal.
             ret (s\<lparr>sh_state := (sh_state s)\<lparr>ss_exists := Some (vol \<noteq> None), ss_removal := removal\<rparr>\<rparr>)))"

text \<open>The rendered project: services, drift, what a removal would take, and ambiguous ownership.\<close>

definition ownership_note :: "daemon \<Rightarrow> rendered \<Rightarrow> workspace \<Rightarrow> string io" where
  "ownership_note d rd ws =
     andThen (validate_compose_network_ownership d rd ws) (\<lambda>r.
       if r \<noteq> Inr () then ret ''Compose network ownership is ambiguous''
       else andThen (validate_compose_volume_ownership d rd ws) (\<lambda>r.
         ret (if r \<noteq> Inr () then ''Compose volume ownership is ambiguous'' else [])))"

definition rendered_snapshot ::
  "daemon \<Rightarrow> config \<Rightarrow> workspace \<Rightarrow> container list \<Rightarrow> rendered \<Rightarrow> snapshot \<Rightarrow> snapshot io" where
  "rendered_snapshot d cfg ws containers rd s =
     (let deployed = deployed_hashes containers ws in
      case compare_drift rd deployed of (drift, detail) \<Rightarrow>
      andThen (populate_removal_set d rd cfg ws (ss_removal (sh_state s))) (\<lambda>removal.
      andThen (ownership_note d rd ws) (\<lambda>note.
        ret (s\<lparr>sh_image := (sh_image s)\<lparr>si_rendered_reference :=
                 (case map_of (rd_services rd) ''hcorral'' of None \<Rightarrow> si_rendered_reference (sh_image s) | Some img \<Rightarrow> img)\<rparr>,
               sh_state := (sh_state s)\<lparr>ss_removal := removal\<rparr>,
               sh_compose := (sh_compose s)\<lparr>sp_services := sort (keys_of (rd_services rd)),
                 sp_desired := rd_hashes rd, sp_deployed := deployed, sp_drift := drift, sp_detail := detail,
                 sp_error := note\<rparr>\<rparr>))))"

definition compose_snapshot ::
  "daemon \<Rightarrow> launcher \<Rightarrow> config \<Rightarrow> workspace \<Rightarrow> container option \<Rightarrow> container list \<Rightarrow> snapshot \<Rightarrow>
     (snapshot \<times> string) io" where
  "compose_snapshot d ln cfg ws managed containers s =
     andThen (prepare_project d ln cfg ws managed) (\<lambda>(prepared, generated).
       case prepared of
         Inl e \<Rightarrow> ret (s\<lparr>sh_compose := (sh_compose s)\<lparr>sp_error := ''project preparation failed''\<rparr>\<rparr>, generated)
       | Inr (sel, assets, i) \<Rightarrow>
           let s1 = s\<lparr>sh_gui := (sh_gui s)\<lparr>sg_effective := sel_mode sel, sg_reason := sel_reason sel\<rparr>,
                      sh_compose := (sh_compose s)\<lparr>sp_files :=
                        [ap_base assets] @ (if sel_file sel \<noteq> [] then [sel_file sel] else []) @
                        cfg_compose_files cfg @ (if generated \<noteq> [] then [generated] else [])\<rparr>\<rparr>
           in andThen (app_render d i) (\<lambda>r.
                case r of
                  Inl e \<Rightarrow> ret (s1\<lparr>sh_compose := (sh_compose s1)
                    \<lparr>sp_error := ''rendered project unavailable or invalid''\<rparr>\<rparr>, generated)
                | Inr rd \<Rightarrow> andThen (rendered_snapshot d cfg ws containers rd s1) (\<lambda>s2. ret (s2, generated))))"

text \<open>The whole of \<open>populateDockerSnapshot\<close>; the generated overlay is removed when it returns.\<close>

definition docker_snapshot ::
  "daemon \<Rightarrow> launcher \<Rightarrow> config \<Rightarrow> workspace \<Rightarrow> container option \<Rightarrow> container list \<Rightarrow> app_error option \<Rightarrow>
     snapshot \<Rightarrow> snapshot io" where
  "docker_snapshot d ln cfg ws candidate containers ownershipErr s =
     (let managed = (if ownershipErr = None then candidate else None);
          s0 = s\<lparr>sh_others := other_corrals containers ws\<rparr>
      in andThen (selected_snapshot d cfg s0) (\<lambda>s1.
         andThen (container_snapshot d ln cfg candidate ownershipErr s1) (\<lambda>s2.
         andThen (volume_snapshot d ln cfg ws containers s2) (\<lambda>s3.
         andThen (compose_snapshot d ln cfg ws managed containers s3) (\<lambda>(s4, generated).
         andThen (check_inspect d (launcher_checker ln False)
             (cfg\<lparr>cfg_image := si_rendered_reference (sh_image s4)\<rparr>) managed) (\<lambda>f.
         andThen (cleanup_generated d generated) (\<lambda>_.
           ret (s4\<lparr>sh_update := f\<rparr>))))))))"

section \<open>The command\<close>

definition info_format :: "string list \<Rightarrow> (app_error, string) result" where
  "info_format command =
     (if length command > 1 then
        (if command ! 1 = ''--format=json'' then Inr ''json''
         else if command ! 1 = ''--format=human'' then Inr ''human'' else Inl InfoUsage)
      else Inr ''human'')"

definition take_snapshot ::
  "daemon \<Rightarrow> launcher \<Rightarrow> config \<Rightarrow> workspace \<Rightarrow> container option \<Rightarrow> container list \<Rightarrow> legacy_match option \<Rightarrow>
     docker_error option \<Rightarrow> app_error option \<Rightarrow> snapshot io" where
  "take_snapshot d ln cfg ws candidate containers legacy dockerErr ownershipErr =
     (let s = first_snapshot ln cfg ws candidate legacy dockerErr in
      if dockerErr \<noteq> None then ret s else docker_snapshot d ln cfg ws candidate containers ownershipErr s)"

definition print_snapshot :: "daemon \<Rightarrow> launcher \<Rightarrow> workspace \<Rightarrow> reporter" where
  "print_snapshot d ln ws cfg candidate containers legacy dockerErr ownershipErr =
     (case info_format (cfg_command cfg) of
        Inl e \<Rightarrow> fail_exit 2 e
      | Inr fmt \<Rightarrow>
          andThen (take_snapshot d ln cfg ws candidate containers legacy dockerErr ownershipErr) (\<lambda>s.
            if fmt = ''json'' then
              andThen (sys d ''write-json'' []) (\<lambda>a.
                if failed a then fail_exit 1 EncodeFailed else ret Done)
            else andThen (say ''info'' []) (\<lambda>_. ret Done)))"

end
