(* ===== verification/Launch_Properties.thy ===== *)
theory Launch_Properties
  imports Launch_Safety Info
begin

text \<open>
  What the whole launcher guarantees, from the rules of \<open>Launch_Safety\<close>: the policy for every
  command, \<open>info\<close> only reads, attaching never reconciles, and the readiness loop ends.
\<close>

section \<open>The snapshot only reads\<close>

lemma calm_populate_volumes: "appends calm (populate_volumes d ws st vs r)"
  by (induction d ws st vs r rule: populate_volumes.induct) (auto intro!: io_rules calm_lookups)

lemma calm_populate_networks: "appends calm (populate_networks d ws ns r)"
  by (induction d ws ns r rule: populate_networks.induct) (auto intro!: io_rules calm_lookups)

lemma calm_check: "appends calm (check_inspect d ck cfg c)"
  unfolding check_inspect_def container_facts_def installed_version_def exec_capture_def
    latest_launcher_def latest_def probe_argv_def Let_def
  by (intro io_rules calm_image_version calm_http; simp)

lemma calm_snapshot_parts:
  "appends calm (removal_snapshot d ln cfg ws cs ex)" "appends calm (populate_removal_set d rd cfg ws rm)"
  "appends calm (session_status d ln cfg c oe s)" "appends calm (image_digests d ref)"
  "appends calm (ownership_note d rd ws)"
  unfolding removal_snapshot_def populate_removal_set_def session_status_def image_digests_def
    ownership_note_def Let_def
  by (intro io_rules calm_rules calm_populate_volumes calm_populate_networks calm_plan calm_validations; simp)+

lemma calm_snapshots:
  "appends calm (container_snapshot d ln cfg co oe s)" "appends calm (selected_snapshot d cfg s)"
  "appends calm (volume_snapshot d ln cfg ws cs s)" "appends calm (rendered_snapshot d cfg ws cs rd s)"
  unfolding container_snapshot_def selected_snapshot_def volume_snapshot_def rendered_snapshot_def Let_def
  by (intro io_rules calm_rules calm_snapshot_parts; simp)+

lemma calm_docker_snapshot: "appends calm (docker_snapshot d ln cfg ws co cs oe s)"
  unfolding docker_snapshot_def compose_snapshot_def Let_def
  by (intro io_rules calm_rules calm_snapshots calm_check)

lemma calm_print_snapshot: "appends calm (print_snapshot d ln ws cfg co cs l e oe)"
  unfolding print_snapshot_def take_snapshot_def Let_def
  by (intro io_rules calm_rules calm_docker_snapshot)

section \<open>Operations that run nothing\<close>

text \<open>Everything but a command on the streams of the launcher: attaching takes locks, may recover the
  session inside the container, and replaces the process.\<close>

definition runless :: "event \<Rightarrow> bool" where
  "runless e = (case e of Ran argv r \<Rightarrow> False | _ \<Rightarrow> True)"

lemma runless_simps [simp]:
  "runless (Captured argv r)" "runless (Sys n a x)" "runless (Said t b)" "runless (Replaced argv f)"
  "runless (Locked q g)" "runless (Unlocked q)" "\<not> runless (Ran argv r)"
  by (simp_all add: runless_def)

named_theorems runless_rules \<open>operations that run no command\<close>

lemma runless_calm: "appends calm m \<Longrightarrow> appends runless m"
  by (erule appends_mono) (auto simp: calm_def runless_def split: event.splits)

lemma runless_lock_event: "appends lock_event m \<Longrightarrow> appends runless m"
  by (erule appends_mono) (auto simp: lock_event_def runless_def split: event.splits)

lemma runless_parts [runless_rules]:
  "appends runless (fail_exit n e)" "appends runless (refuse r)" "appends runless (say t a)"
  "appends runless (guard_attach_gui d ln cfg ws c)" "appends runless (report_drift d ln cfg ws cs c)"
  "appends runless (desired_drift d ln cfg ws cs c)" "appends runless (session_ready d ln cfg c)"
  "appends runless (notify d ck cfg c)" "appends runless (wait_ready d ln cfg name)"
  "appends runless (verified_listing d ws)"
  by (rule runless_calm, (rule calm_rules | rule calm_verified))+

lemma runless_lock [runless_rules]: "appends runless (project_lock d ln ws)" "appends runless (lock_close l)"
  unfolding project_lock_def lock_close_def
  by (intro io_rules runless_lock_event [OF appends_acquire_lock]; simp)+

lemma runless_recover [runless_rules]:
  "appends runless (recover_session d n)" "appends runless (recover_attach_session_locked d ln cfg ws)"
  unfolding recover_attach_session_locked_def with_project_lock_def recover_locked_def recover_session_def
    exec_capture_def
  by (intro io_rules runless_rules; simp)+

lemma runless_replace [runless_rules]: "appends runless (replace_process d argv)"
  unfolding replace_process_def runner_replace_def
  by (intro io_rules runless_rules) (auto simp: appends_def Let_def split: option.split)

lemma runless_attach_with_report [runless_rules]: "appends runless (attach_with_report d ln cfg c rep b)"
  unfolding attach_with_report_def replace_attach_def Let_def by (intro io_rules runless_rules)

lemma runless_with_session: "(\<And>c'. appends runless (k c')) \<Longrightarrow> appends runless (with_session d ln cfg ws c k)"
  unfolding with_session_def by (intro io_rules runless_rules)

lemma runless_running: "appends runless (run_running d ln cfg ws c cs)"
  unfolding run_running_def by (intro io_rules runless_rules runless_with_session)

lemma runless_attach_existing: "appends runless (attach_existing d ln cfg ws c)"
  unfolding attach_existing_def Let_def by (intro io_rules runless_rules runless_with_session)

section \<open>The readiness loop ends\<close>

text \<open>Time does not go back, and a completed wait of 250 ms takes at least that long.\<close>

definition lawful_clock :: "launcher \<Rightarrow> bool" where
  "lawful_clock ln \<longleftrightarrow>
     (\<forall>h e. ln_clock ln h \<le> ln_clock ln (h @ [e])) \<and>
     (\<forall>h a. \<not> failed a \<longrightarrow> ln_clock ln h + 250 \<le> ln_clock ln (h @ [Sys ''sleep'' [''250ms''] a]))"

lemma clock_mono: "lawful_clock ln \<Longrightarrow> ln_clock ln h \<le> ln_clock ln (h @ es)"
proof (induction es arbitrary: h)
  case (Cons e es)
  then have "ln_clock ln h \<le> ln_clock ln (h @ [e])" by (simp add: lawful_clock_def)
  also have "\<dots> \<le> ln_clock ln ((h @ [e]) @ es)" using Cons by blast
  finally show ?case by simp
qed simp

lemma clock_calm:
  assumes "lawful_clock ln" "appends calm m" "m h = (x, h')" shows "ln_clock ln h \<le> ln_clock ln h'"
  using assms clock_mono by (metis appendsD)

lemma wait_loop_returns:
  assumes "lawful_clock ln"
  shows "deadline \<le> ln_clock ln h + 250 * int n \<Longrightarrow>
    wait_loop d ln cfg name deadline notice (Suc n) h = (r, h') \<Longrightarrow> r \<noteq> Inl StillWaiting"
proof (induction n arbitrary: h notice)
  case 0
  then show ?case by (auto simp: now_def andThen_def split: prod.splits)
next
  case (Suc n)
  show ?case
  proof (rule ccontr)
    assume "\<not> r \<noteq> Inl StillWaiting"
    with Suc.prems(2) obtain h1 h2 h3 h4 inspected ready notice' a where
      s: "inspect_container d name h = (Inr inspected, h1)" "session_ready d ln cfg inspected h1 = (ready, h2)"
      "h3 = h2 \<or> h3 = h2 @ [Said ''waiting'' [state_of inspected]]" "sys d ''sleep'' [''250ms''] h3 = (a, h4)" "\<not> failed a"
      and rest: "wait_loop d ln cfg name deadline notice' (Suc n) h4 = (r, h')"
      unfolding wait_loop.simps(2) [of d ln cfg name deadline notice "Suc n"]
      by (auto simp del: wait_loop.simps simp: now_def say_def elim!: andThen_result split: if_splits sum.splits) blast+
    have "ln_clock ln h \<le> ln_clock ln h1" "ln_clock ln h1 \<le> ln_clock ln h2" "ln_clock ln h2 \<le> ln_clock ln h3"
      using s(1-3) assms clock_mono by (blast intro: clock_calm calm_rules)+
    moreover have "ln_clock ln h3 + 250 \<le> ln_clock ln h4"
      using s(4,5) assms sys_pair [OF s(4)] by (simp add: lawful_clock_def)
    ultimately have "deadline \<le> ln_clock ln h4 + 250 * int n" using Suc.prems(1) by simp
    from Suc.IH [OF this rest] \<open>\<not> r \<noteq> Inl StillWaiting\<close> show False by simp
  qed
qed

section \<open>Starting a stopped container\<close>

text \<open>A listing that was just taken and shows the container with the identity that is to be started.\<close>

definition just_listed :: "daemon \<Rightarrow> workspace \<Rightarrow> container \<Rightarrow> container list \<Rightarrow> history \<Rightarrow> bool" where
  "just_listed d ws cand cs h \<longleftrightarrow>
     (\<exists>pre es. h = pre @ es \<and> listed d es cs) \<and> owned_listing ws cs \<and>
     map_option c_id (find_container cs (ws_project ws)) = Some (c_id cand)"

text \<open>
  What starting may run: the start of the very container, right after such a listing; the pull of
  the moving tag, when asked for; and the recreation of the workstation alone, when asked for and
  after a listing that the rendered project reproduces exactly, with only a message in between.
\<close>

definition start_policy :: "daemon \<Rightarrow> config \<Rightarrow> workspace \<Rightarrow> container \<Rightarrow> history \<Rightarrow> event \<Rightarrow> bool" where
  "start_policy d cfg ws cand h e =
     (case e of
        Ran argv r \<Rightarrow>
          (argv = [''docker'', ''start'', c_id cand] \<and> (\<exists>cs. just_listed d ws cand cs h)) \<or>
          (\<exists>reference. argv = [''docker'', ''pull'', reference] \<and> cfg_auto_pull cfg \<and> is_latest reference) \<or>
          (\<exists>i rd cs h0 t. argv = invocation_args i recreate_args \<and> cfg_auto_pull cfg \<and>
             h = h0 @ [Said ''report'' t] \<and> just_listed d ws cand cs h0 \<and> reproducible_project rd cs ws)
      | Captured argv r \<Rightarrow> \<not> session_init_command argv
      | Sys name args a \<Rightarrow> True
      | Said t args \<Rightarrow> True
      | _ \<Rightarrow> False)"

lemma calm_start_policy: "calm e \<Longrightarrow> start_policy d cfg ws cand h e"
  by (cases e) (auto simp: start_policy_def)

lemma start_calm: "appends calm m \<Longrightarrow> triple P (start_policy d cfg ws cand) m anything"
  by (rule triple_weaken [OF triple_appends [OF _ stable_always calm_start_policy]]) auto

lemma triple_one:
  assumes "\<And>h x h'. P h \<Longrightarrow> m h = (x, h') \<Longrightarrow> h' = h \<or> (\<exists>e. h' = h @ [e] \<and> G h e)"
  shows "triple P G m anything"
  unfolding triple_def
proof (intro allI impI conjI)
  fix h x h' assume "P h" "m h = (x, h')"
  from assms [OF this] show "\<exists>es. h' = h @ es \<and> permits G h es"
    by (auto intro: exI [of _ "[]"] exI [of _ "[e]" for e])
qed simp

lemma recheck_result:
  assumes "recheck_project d ws (Some cand) h = (Inr (cur, cs), h')"
  shows "just_listed d ws cand cs h' \<and> (\<exists>c. cur = Some c \<and> c_id c = c_id cand)"
proof -
  from assms obtain es where "h' = h @ es" "listed d es cs" "owned_listing ws cs" "check_listing ws cs = Inr cur"
    "\<exists>c. cur = Some c \<and> c_id c = c_id cand"
    unfolding recheck_project_def
    by (auto elim!: andThenE_cases map_errE_cases verified_listing_result split: if_splits option.splits)
  moreover from this have "cur = find_container cs (ws_project ws)"
    by (auto simp: check_listing_def Let_def split: option.splits)
  ultimately show ?thesis unfolding just_listed_def by auto
qed

lemma start_recheck:
  "triple P (start_policy d cfg ws cand) (recheck_project d ws (Some cand))
     (\<lambda>r h. \<forall>cur cs. r = Inr (cur, cs) \<longrightarrow> just_listed d ws cand cs h \<and> (\<exists>c. cur = Some c \<and> c_id c = c_id cand))"
  by (rule triple_post [OF triple_conj [OF start_calm [OF calm_recheck]]]) (auto dest: recheck_result)

lemma triple_start_original:
  "triple P (start_policy d cfg ws cand) (start_original d ws cand rp) anything"
proof -
  have start: "triple (\<lambda>h. just_listed d ws cand cs h \<and> c_id c = c_id cand) (start_policy d cfg ws cand)
      (andThen (app_docker (start_container d (c_id c))) (\<lambda>r. ret (rp, r))) anything" for c cs
  proof (rule triple_one)
    fix h x h'
    assume "just_listed d ws cand cs h \<and> c_id c = c_id cand" "andThen (app_docker (start_container d (c_id c))) (\<lambda>r. ret (rp, r)) h = (x, h')"
    then show "h' = h \<or> (\<exists>e. h' = h @ [e] \<and> start_policy d cfg ws cand h e)"
      by (auto simp: app_docker_def map_errE_def start_container_def docker_run_def runner_run_def
          andThen_def Let_def start_policy_def split: if_splits option.splits)
  qed
  show ?thesis
    unfolding start_original_def
    by (rule triple_andThen [OF start_recheck], intro triple_sum triple_prod triple_option triple_if
        start_calm [OF appends_ret] triple_pre [OF start]) auto
qed

lemma triple_start_noted: "triple P (start_policy d cfg ws cand) (start_noted d ws cand rp t) anything"
  unfolding start_noted_def by (rule triple_andThen [OF start_calm [OF calm_report_add] triple_start_original])

lemma triple_apply_refreshed:
  assumes "cfg_auto_pull cfg"
  shows "triple P (start_policy d cfg ws cand) (apply_refreshed d cfg' ws cand i rd rp) anything"
proof -
  have checked: "triple P (start_policy d cfg ws cand) (andThenE (validate_objects d cfg' ws rd) (\<lambda>_. recheck_project d ws (Some cand)))
     (\<lambda>r h. \<forall>cur cs. r = Inr (cur, cs) \<longrightarrow> just_listed d ws cand cs h)"
    by (rule triple_andThenE [OF start_calm [OF calm_validate_objects(2)]]) (simp, rule triple_post [OF start_recheck], auto)
  have said: "report_add t rp h = (x, h') \<Longrightarrow> h' = h @ [Said ''report'' [message_line t]]" for t rp h x h'
    by (auto simp: report_add_def andThen_def say_def)
  have step: "triple (just_listed d ws cand cs) (start_policy d cfg ws cand)
      (andThen (report_add t rp) (\<lambda>report'.
         andThen (map_errE AppCompose (project_run d i recreate_args)) (\<lambda>r. ret (report', r)))) anything"
    if "reproducible_project rd cs ws" for cs t
  proof (rule triple_andThen)
    show "triple (just_listed d ws cand cs) (start_policy d cfg ws cand) (report_add t rp)
        (\<lambda>_ h. \<exists>h0 a. h = h0 @ [Said ''report'' a] \<and> just_listed d ws cand cs h0)"
      by (rule triple_post [OF triple_conj [OF start_calm [OF calm_report_add]]]) (auto dest: said)
    fix rp'
    show "triple (\<lambda>h. \<exists>h0 a. h = h0 @ [Said ''report'' a] \<and> just_listed d ws cand cs h0) (start_policy d cfg ws cand)
        (andThen (map_errE AppCompose (project_run d i recreate_args)) (\<lambda>r. ret (rp', r))) anything"
    proof (rule triple_one)
      fix h x h'
      assume h: "\<exists>h0 a. h = h0 @ [Said ''report'' a] \<and> just_listed d ws cand cs h0"
        and run: "andThen (map_errE AppCompose (project_run d i recreate_args)) (\<lambda>r. ret (rp', r)) h = (x, h')"
      have "start_policy d cfg ws cand h (Ran (invocation_args i recreate_args) r)" for r
        using h assms that unfolding start_policy_def by fastforce
      with run show "h' = h \<or> (\<exists>e. h' = h @ [e] \<and> start_policy d cfg ws cand h e)"
        by (auto simp: map_errE_def project_run_def runner_run_def andThen_def Let_def split: if_splits option.splits)
    qed
  qed
  show ?thesis
    unfolding apply_refreshed_def
    by (rule triple_andThen [OF checked], intro triple_sum triple_prod triple_if
        start_calm [OF appends_ret] triple_pre [OF step]) auto
qed

lemma triple_prepare_start_image:
  "triple P (start_policy d cfg ws cand) (prepare_start_image d ref (cfg_auto_pull cfg) True rp) anything"
proof -
  have pull: "triple P (start_policy d cfg ws cand) (pull_image d ref) anything" if "cfg_auto_pull cfg" "is_latest ref" for P
  proof (rule triple_one)
    fix h x h' assume "pull_image d ref h = (x, h')"
    then show "h' = h \<or> (\<exists>e. h' = h @ [e] \<and> start_policy d cfg ws cand h e)"
      using that by (auto simp: pull_image_def runner_run_def Let_def start_policy_def split: if_splits)
  qed
  have apps: "appends calm (app_docker (inspect_image d ref))" by (intro io_rules calm_rules)
  show ?thesis
    unfolding prepare_start_image_def Let_def
    by (intro triple_if triple_option triple_sum start_calm [OF appends_ret] triple_andThen [OF start_calm [OF apps]]
        triple_andThen [OF start_calm [OF calm_say(1)]] triple_andThen [OF pull]
        triple_andThen [OF start_calm [OF calm_report_add]] triple_pre [OF start_calm [OF appends_ret]]) simp_all
qed

lemma triple_start_refreshed:
  assumes "cfg_auto_pull cfg"
  shows "triple P (start_policy d cfg ws cand) (start_refreshed d cfg' ws cand i ref img rp) anything"
  unfolding start_refreshed_def
  by (rule triple_andThen [OF start_recheck], intro triple_sum triple_prod triple_option triple_if
      start_calm [OF appends_ret] triple_andThen [OF start_calm [OF calm_render]]
      triple_start_original triple_start_noted triple_apply_refreshed [OF assms])

lemma triple_start_prepared:
  assumes "cfg_auto_pull cfg" "cfg_auto_pull cfg' = cfg_auto_pull cfg"
  shows "triple P (start_policy d cfg ws cand) (start_prepared d cfg' ws cand prepared) anything"
proof -
  have render: "appends calm (case prepared of Inl e \<Rightarrow> failE e
       | Inr (sel, assets, i) \<Rightarrow> andThenE (app_render d i) (\<lambda>rd. okE (i, rd)))"
    by (intro io_rules calm_rules)
  show ?thesis
    unfolding start_prepared_def assms(2)
    by (rule triple_andThen [OF start_calm [OF render]], intro triple_sum triple_prod triple_start_noted
        start_calm [OF appends_ret] triple_andThen [OF triple_prepare_start_image] triple_start_refreshed [OF assms(1)])
qed

lemma triple_start_stopped:
  "triple always (start_policy d cfg ws cand) (start_stopped d ln cfg ws cand) anything"
proof -
  have guard: "appends calm (andThenE (guard_existing_gui d ln cfg ws (Some cand)) (\<lambda>_. app_state (validate_state_ownership d cfg ws)))"
    by (intro io_rules calm_rules calm_validate_objects)
  show ?thesis
    unfolding start_stopped_def Let_def
    by (intro triple_if triple_andThen [OF start_calm [OF guard]] triple_sum triple_prod triple_start_original
        start_calm [OF appends_ret] triple_andThen [OF start_calm [OF calm_prepare]]
        triple_andThen [OF triple_start_prepared] triple_andThen [OF start_calm [OF calm_cleanup]])
      simp_all
qed

section \<open>Sample runs\<close>

definition ready_daemon :: daemon where
  "ready_daemon = owning_daemon
     \<lparr>m_sys := (\<lambda>h n a. if n = ''lstat''
        then Info \<lparr>fi_dir = True, fi_symlink = False, fi_regular = False, fi_socket = False, fi_uid = 0, fi_size = 0\<rparr>
        else Flag True),
      dec_volumes := (\<lambda>s. Some [(foreign_volume sample_ws)\<lparr>vol_labels := shared_volume_labels\<rparr>])\<rparr>"

definition plain_launcher :: launcher where
  "plain_launcher =
     \<lparr>su_os = \<lparr>os_getwd = None, os_eval_symlinks = (\<lambda>s. None), os_stat_is_dir = (\<lambda>s. None),
        os_user_name = (\<lambda>s. None), os_group_name = (\<lambda>s. None)\<rparr>,
      su_groups = None, su_euid = 1000, su_egid = 1000, su_environ = [], su_getenv = (\<lambda>k. []),
      su_home = Some ''/h'', su_platform = ''linux'', su_asset = (\<lambda>k. None), su_marshal = (\<lambda>v. []),
      ln_locks = linux_lock_env, ln_version = [], ln_commit = [], ln_terminal = False, ln_notices = [],
      ln_exit_status = (\<lambda>e. 1), ln_error_text = (\<lambda>e. []), ln_clock = (\<lambda>h. 250 * int (length h)),
      ln_print = (\<lambda>n. True), ln_decode_tag = (\<lambda>s. None), ln_decode_release = (\<lambda>s. Inl [])\<rparr>"

lemma linux_lock_root: "lock_root linux_lock_env = Inr ''/run/user/1000/hcorral/locks''"
  by code_simp

lemma find_never [simp]: "find (\<lambda>x. False) xs = None"
  by (simp add: find_None_iff)

text \<open>\<open>hcorral state rm --scope global\<close> with an unreferenced shared volume: the volume is removed.\<close>

definition state_rm_cfg :: config where
  "state_rm_cfg = sample_cfg\<lparr>cfg_command := [''state'', ''rm'', ''--scope'', ''global'']\<rparr>"

lemma state_rm_run:
  assumes "volume_lock_path linux_lock_env shared_state_name = Inr vp"
  shows "\<exists>pre r post. run_operational ready_daemon plain_launcher info session state_rm_cfg sample_ws [] =
    (Done, pre @ Ran [''docker'', ''volume'', ''rm'', shared_state_name] r # post) \<and> post = [Unlocked vp]"
  using assms
  by (simp add: state_rm_cfg_def run_operational_def command_name_def list_containers_def docker_capture_apply
      empty_argv_def ready_daemon_def owning_daemon_def late_volume_daemon_def foreign_volume_def str_fields_def
      andThen_def warn_multiplicity_def other_projects_def find_container_def listing_error_def check_listing_def
      verify_container_def verify_project_containers_def Let_def dispatch_def mac_gui_def run_command_def
      run_state_command_def scope_volume_def adopted_def sample_cfg_def initial_config_def acquire_volume_lock_def
      map_errE_def acquire_lock_path_def context_error_def secure_lock_directory_def andThenE_def sys_def
      physical_dir_def failed_def take_lock_def remove_state_locked_def app_docker_def inspect_volume_def
      inspect_one_def remove_owned_def volume_references_def say_def remove_volume_def docker_run_apply
      lock_close_def release_lock_def plain_launcher_def)

text \<open>A daemon that lists one container, as JSON that stands for itself.\<close>

definition listing_daemon :: "container \<Rightarrow> daemon" where
  "listing_daemon c = ready_daemon
     \<lparr>m_exec := (\<lambda>h argv. \<lparr>oc_out = ''x'', oc_err = [], oc_fail = None, oc_ctx = None\<rparr>),
      dec_containers := (\<lambda>s. Some [c])\<rparr>"

definition own_container :: container where
  "own_container = sample_container
     \<lparr>c_labels := [(label_workspace_id, ws_full_id sample_ws), (label_workspace_scheme, ''v1''),
        (label_corral_id, ws_corral_id sample_ws), (label_corral_scheme, ''v1''),
        (label_harness_type, ws_harness sample_ws), (label_runtime_schema, ''1''),
        (label_compose_project, ws_project sample_ws), (label_compose_service, ''hcorral'')]\<rparr>"

definition legacy_container :: container where
  "legacy_container = sample_container
     \<lparr>c_name := ''/old-codex'', c_labels := [],
      c_mounts := [\<lparr>mt_type = ''bind'', mt_name = [], mt_source = ''/w'', mt_destination = ''/w'', mt_rw = True, mt_mode = [],
        mt_propagation = [], mt_subpath = [], mt_bind_options = \<lparr>bo_propagation = [], bo_non_recursive = False,
        bo_ro_non_recursive = False, bo_ro_force_recursive = False, bo_create_mountpoint = False\<rparr>, mt_consistency = []\<rparr>]\<rparr>"

lemma one_name: "str_fields ''x'' = [''x'']"
proof -
  have "space_at unicode_spaces ''x'' = 0" by code_simp
  then show ?thesis by (simp add: str_fields_def)
qed

lemma list_one: "list_containers (listing_daemon c) h =
    (Inr [c], h @ [Captured ps_argv \<lparr>oc_out = ''x'', oc_err = [], oc_fail = None, oc_ctx = None\<rparr>,
      Captured (inspect_argv [''x'']) \<lparr>oc_out = ''x'', oc_err = [], oc_fail = None, oc_ctx = None\<rparr>])"
  by (simp add: list_containers_def inspect_containers_def docker_capture_apply empty_argv_def listing_daemon_def
      one_name andThen_def Let_def)

lemma own_container_checked: "check_listing sample_ws [own_container] = Inr (Some own_container)"
proof -
  have "clean_name own_container = ''p''" by code_simp
  moreover have "verify_container (Some own_container) sample_ws = None" by code_simp
  moreover have "verify_project_containers [own_container] sample_ws (Some own_container) = None" by code_simp
  ultimately show ?thesis by (simp add: check_listing_def find_container_def sample_ws_def)
qed

lemma own_stopped: "stopped (Some own_container)" "\<not> c_running own_container" "c_id own_container = ''id1''"
  by (simp_all add: stopped_def own_container_def sample_container_def)

definition still_cfg :: config where
  "still_cfg = sample_cfg\<lparr>cfg_auto_pull := False\<rparr>"

lemma still_plain: "cfg_platform still_cfg = ''linux''" "\<not> gui_specified (cfg_gui still_cfg)"
  by (simp_all add: still_cfg_def sample_cfg_def initial_config_def)

lemma own_state: "app_state (validate_state_ownership (listing_daemon c) still_cfg sample_ws) h =
    (Inr (), h @ [Captured [''docker'', ''volume'', ''inspect'', ''data'']
      \<lparr>oc_out = ''x'', oc_err = [], oc_fail = None, oc_ctx = None\<rparr>])"
proof -
  have n: "state_volume_name still_cfg sample_ws = ''data''" "cfg_state_mode still_cfg = StateCustom"
    by (simp_all add: state_volume_name_def still_cfg_def sample_cfg_def)
  show ?thesis
    unfolding app_state_def validate_state_ownership_def n Let_def inspect_volume_def inspect_one_def
    by (simp add: map_errE_def andThenE_def andThen_def docker_capture_apply empty_argv_def listing_daemon_def
        ready_daemon_def check_state_labels_def n shared_volume_labels_def label_def Let_def
        label_workspace_id_def label_state_kind_def label_runtime_schema_def)
qed

lemma own_container_no_legacy: "find_legacy [own_container] (ws_path sample_ws) = None"
  by code_simp

section \<open>Properties\<close>

text \<open>C1: No command of the launcher except \<open>session\<close> changes anything it has not checked, however
  the daemon answers and whatever runs beside it: a command that may change something is run only
  while the project lock is held and after a listing under it in which every container of the
  project was verified and no myCodex environment was found (or it is a read-only Compose command,
  or \<open>state rm\<close> under the volume lock, for a labelled volume that no listed container mounts); the
  session is only recovered under that condition, and the process is only replaced after a
  verified listing.\<close>

theorem launch_guarded:
  assumes "lock_path (ln_locks ln) (ws_project ws) = Inr p" "\<not> le_darwin (ln_locks ln)"
    and "command_name (cfg_command cfg) \<noteq> ''session''"
    and "run_operational d ln (print_snapshot d ln ws) session cfg ws [] = (x, pre @ e # post)"
  shows "(\<forall>argv r. e = Ran argv r \<longrightarrow>
            cleared d ws p pre \<or> reading_command cfg argv \<or> state_removal d ln ws argv pre) \<and>
    (\<forall>argv r. e = Captured argv r \<longrightarrow> session_init_command argv \<longrightarrow> cleared d ws p pre) \<and>
    (\<forall>argv f. e = Replaced argv f \<longrightarrow> seen d ws pre)"
proof -
  have lock: "own_lock ln ws p" using assms(1,2) by (simp add: own_lock_def)
  have "run_operational d ln (print_snapshot d ln ws) session cfg ws =
      run_operational d ln (print_snapshot d ln ws) (ret Done) cfg ws"
    using assms(3) by (simp add: run_operational_def Let_def)
  with assms(4) have run: "run_operational d ln (print_snapshot d ln ws) (ret Done) cfg ws [] = (x, [] @ (pre @ e # post))"
    by simp
  have "triple always (guarded d ln cfg ws p) (run_operational d ln (print_snapshot d ln ws) (ret Done) cfg ws) anything"
    using lock calm_print_snapshot by (rule triple_run_operational) (rule triple_ret_any)
  from triple_permits [OF this _ run] have "permits (guarded d ln cfg ws p) [] (pre @ e # post)" by simp
  then have "guarded d ln cfg ws p pre e" by (auto simp: permits_def)
  then show ?thesis by (cases e) (auto simp: guarded_def)
qed

theorem launch_guarded_witness:
  "\<exists>pre r post. run_operational ready_daemon plain_launcher (print_snapshot ready_daemon plain_launcher sample_ws)
      (ret Done) state_rm_cfg sample_ws [] = (Done, pre @ Ran [''docker'', ''volume'', ''rm'', shared_state_name] r # post) \<and>
    (cleared ready_daemon sample_ws ''/run/user/1000/hcorral/locks/p.lock'' pre \<or>
     reading_command state_rm_cfg [''docker'', ''volume'', ''rm'', shared_state_name] \<or>
     state_removal ready_daemon plain_launcher sample_ws [''docker'', ''volume'', ''rm'', shared_state_name] pre)"
proof -
  have "\<exists>vp. volume_lock_path linux_lock_env shared_state_name = Inr vp"
    by (simp add: volume_lock_path_def linux_lock_root shared_state_name_def)
  then obtain pre r post where run: "run_operational ready_daemon plain_launcher
      (print_snapshot ready_daemon plain_launcher sample_ws) (ret Done) state_rm_cfg sample_ws [] =
      (Done, pre @ Ran [''docker'', ''volume'', ''rm'', shared_state_name] r # post)"
    using state_rm_run by blast
  have p: "lock_path (ln_locks plain_launcher) (ws_project sample_ws) = Inr ''/run/user/1000/hcorral/locks/p.lock''"
    by code_simp
  have "\<not> le_darwin (ln_locks plain_launcher)" "command_name (cfg_command state_rm_cfg) \<noteq> ''session''"
    by (simp_all add: plain_launcher_def linux_lock_env_def state_rm_cfg_def command_name_def)
  from launch_guarded [OF p this run] run show ?thesis by blast
qed


text \<open>C18: Attaching never reconciles: the implicit command on a running container, \<open>attach\<close> and
  \<open>notices\<close> run no command that could recreate, start or remove anything, even when the
  configuration drifted or an update is available.\<close>

theorem attach_never_reconciles:
  assumes "dispatch d ln cfg ws candidate containers h = (x, h')"
    and "cfg_command cfg = [] \<and> is_running candidate \<or>
      cfg_command cfg \<noteq> [] \<and> hd (cfg_command cfg) \<in> {''attach'', ''notices''}"
  shows "\<exists>es. h' = h @ es \<and> (\<forall>argv r. Ran argv r \<notin> set es)"
proof -
  have "appends runless (dispatch d ln cfg ws candidate containers)"
  proof (cases "cfg_command cfg = []")
    case True
    with assms(2) obtain c where c: "candidate = Some c" "c_running c"
      by (auto simp: is_running_def split: option.splits)
    show ?thesis
      unfolding dispatch_def Let_def if_P [OF True] run_default_def c option.case if_P [OF c(2)]
      by (intro io_rules runless_rules runless_running)
  next
    case False
    with assms(2) have "command_name (cfg_command cfg) = ''attach'' \<or> command_name (cfg_command cfg) = ''notices''"
      by (auto simp: command_name_def)
    then show ?thesis
      unfolding dispatch_def Let_def if_not_P [OF False] by (simp add: io_rules runless_rules runless_attach_existing)
  qed
  then obtain es where "h' = h @ es" "\<forall>e \<in> set es. runless e" using assms(1) by (rule appendsD)
  then show ?thesis by fastforce
qed

theorem attach_never_reconciles_witness:
  "\<exists>h'. dispatch ready_daemon plain_launcher (sample_cfg\<lparr>cfg_command := [''attach'']\<rparr>) sample_ws None [] [] =
      (Fail 2 NotRunning, h') \<and> (\<forall>argv r. Ran argv r \<notin> set h')"
proof -
  let ?cfg = "sample_cfg\<lparr>cfg_command := [''attach'']\<rparr>"
  obtain h' where run: "dispatch ready_daemon plain_launcher ?cfg sample_ws None [] [] = (Fail 2 NotRunning, h')"
    by (simp add: dispatch_def command_name_def mac_gui_def attach_existing_def guard_attach_gui_def active_def
        andThen_def fail_exit_def say_def Let_def)
  have "cfg_command ?cfg \<noteq> [] \<and> hd (cfg_command ?cfg) \<in> {''attach'', ''notices''}" by simp
  from attach_never_reconciles [OF run disjI2 [OF this]] run show ?thesis by auto
qed







end
