(* ===== verification/Session_Target.thy ===== *)
theory Session_Target
  imports Docker_Model Identity "HOL-Library.AList"
begin

text \<open>
  The storage of a session transfer (\<open>internal/sessiontransport/target.go\<close>): the facts of an
  existing corral, and the mounts that a disposable helper receives, no wider and no more
  writable than the workstation's own.
\<close>

section \<open>Errors and the target\<close>

datatype target_error =
    NoCorral
  | TargetContract
  | MissingIdentity
  | UnusableState string
  | ConflictingValues string
  | NotNumeric
  | InvalidNumeric string
  | InvalidRuntimeHome
  | InvalidSqliteHome
  | CodexHomeConflict
  | MissingGroups
  | DuplicateDefinitions
  | TypeDisagrees
  | VolumeDisagrees
  | ReadOnlyDestination
  | NonRecursiveNarrowing
  | AmbiguousMounts
  | NotPersistent
  | VolumeUnnamed
  | InvalidSubpath
  | BindSource
  | BindInvalid string string
  | UnsupportedMount string string
  | BadOperation

record target =
  tg_container :: string
  tg_image :: string
  tg_uid :: string
  tg_gid :: string
  tg_groups :: "string list"
  tg_home :: string
  tg_codex_home :: string
  tg_sqlite_home :: string
  tg_workdir :: string
  tg_mounts :: "mount list"
  tg_sqlite_env :: string
  tg_sqlite_writable :: bool

section \<open>Paths and identifiers\<close>

definition line_breaks :: string where
  "line_breaks = [CHR 0x00, CHR 0x0D, CHR 0x0A]"

definition absolute_path :: "string \<Rightarrow> bool" where
  "absolute_path value = (is_abs value \<and> clean value = value \<and> \<not> contains_any value line_breaks)"

definition numeric_id :: "string \<Rightarrow> (target_error, string) result" where
  "numeric_id value =
     (if \<not> all_digits value then Inl NotNumeric
      else case parse_uint32 value of
        None \<Rightarrow> Inl (InvalidNumeric value)
      | Some n \<Rightarrow> if n = 2 ^ 32 - 1 then Inl (InvalidNumeric value) else Inr (show_nat n))"

text \<open>\<open>contains\<close>: a directory and what lies in it.\<close>

definition covers :: "string \<Rightarrow> string \<Rightarrow> bool" where
  "covers root child = (root = child \<or> has_prefix child (trim_suffix root ''/'' @ ''/''))"

definition database_file :: "string \<Rightarrow> bool" where
  "database_file name =
     (has_prefix name ''state_'' \<and>
      list_ex (has_suffix name) [''.sqlite'', ''.sqlite-wal'', ''.sqlite-shm'', ''.sqlite-journal''])"

section \<open>Bind mounts\<close>

definition propagations :: "string list" where
  "propagations = [''private'', ''rprivate'', ''shared'', ''rshared'', ''slave'', ''rslave'']"

definition bind_propagation :: "mount \<Rightarrow> string" where
  "bind_propagation m =
     (if mt_propagation m \<noteq> [] then mt_propagation m
      else if bo_propagation (mt_bind_options m) \<noteq> [] then bo_propagation (mt_bind_options m)
      else ''rprivate'')"

text \<open>One word of the mount mode; the result is the reason it is refused.\<close>

definition check_mode :: "mount \<Rightarrow> string \<Rightarrow> string option" where
  "check_mode m mode =
     (if mode \<in> set [[], ''ro'', ''rw'', ''default'', ''consistent''] then None
      else if mode \<in> set propagations then
        (if mode \<noteq> bind_propagation m then Some ''mode disagrees with propagation'' else None)
      else if mode \<in> set [''z'', ''Z''] then Some ''SELinux label''
      else Some ''unsupported mode'')"

definition validate_bind_mount :: "mount \<Rightarrow> string option" where
  "validate_bind_mount m =
     (let opts = mt_bind_options m in
      if mt_propagation m \<noteq> [] \<and> bo_propagation opts \<noteq> [] \<and> mt_propagation m \<noteq> bo_propagation opts
      then Some ''propagation disagrees''
      else if bind_propagation m \<notin> set propagations then Some ''unsupported propagation''
      else if bo_ro_non_recursive opts \<and> bo_ro_force_recursive opts \<or> bo_non_recursive opts \<and> bo_ro_force_recursive opts
      then Some ''conflicting recursive settings''
      else if bo_ro_force_recursive opts \<and> mt_rw m then Some ''recursive read-only bind is writable''
      else if mt_consistency m \<notin> set [[], ''default'', ''consistent''] then Some ''unsupported consistency''
      else checkE (check_mode m) (split_char CHR '','' (mt_mode m)))"

section \<open>The mounts of a storage root\<close>

text \<open>The first loop of \<open>storageMounts\<close>: the innermost mount over the home, all targets distinct.\<close>

fun find_base ::
  "string \<Rightarrow> mount option \<Rightarrow> string list \<Rightarrow> mount list \<Rightarrow> (target_error, mount option) result" where
  "find_base home base seen [] = Inr base"
| "find_base home base seen (m # ms) =
     (if \<not> absolute_path (mt_destination m) \<or> mt_destination m \<in> set seen then Inl AmbiguousMounts
      else find_base home
        (if covers (mt_destination m) home \<and>
            (case base of None \<Rightarrow> True | Some b \<Rightarrow> length (mt_destination m) > length (mt_destination b))
         then Some m else base)
        (mt_destination m # seen) ms)"

definition nested_mount :: "string \<Rightarrow> bool \<Rightarrow> mount \<Rightarrow> mount \<Rightarrow> bool" where
  "nested_mount home history base m =
     (mt_destination m \<noteq> mt_destination base \<and> covers home (mt_destination m) \<and>
      \<not> (\<not> history \<and> (path_dir (mt_destination m) \<noteq> home \<or> \<not> database_file (path_base (mt_destination m)))))"

definition bad_subpath :: "string \<Rightarrow> bool" where
  "bad_subpath value =
     (value \<noteq> [] \<and> (is_abs value \<or> clean value \<noteq> value \<or> value = ''..'' \<or> has_prefix value ''../'' \<or>
        contains_any value line_breaks))"

definition check_storage :: "mount \<Rightarrow> target_error option" where
  "check_storage m =
     (if mt_type m = ''volume'' then
        (if mt_name m = [] \<or> contains_any (mt_name m) (CHR ''/'' # line_breaks) then Some VolumeUnnamed
         else if bad_subpath (mt_subpath m) then Some InvalidSubpath else None)
      else if mt_type m = ''bind'' then
        (if \<not> absolute_path (mt_source m) then Some BindSource
         else map_option (BindInvalid (mt_destination m)) (validate_bind_mount m))
      else Some (UnsupportedMount (mt_type m) (mt_destination m)))"

definition storage_mounts :: "mount list \<Rightarrow> string \<Rightarrow> bool \<Rightarrow> (target_error, mount list) result" where
  "storage_mounts all home history =
     bindE (find_base home None [] all) (\<lambda>found.
       case found of
         None \<Rightarrow> Inl NotPersistent
       | Some base \<Rightarrow>
           let selected = base # filter (nested_mount home history base) all in
           case checkE check_storage selected of
             Some e \<Rightarrow> Inl e
           | None \<Rightarrow> Inr (sort_key mt_destination selected))"

section \<open>The facts of the container\<close>

definition runtime_keys :: "string list" where
  "runtime_keys = [''HCORRAL_HOST_UID'', ''HCORRAL_HOST_GID'', ''HCORRAL_HOST_GROUPS'', ''HCORRAL_CONTAINER_HOME'',
     ''HCORRAL_WORKDIR'', ''CODEX_HOME'', ''CODEX_SQLITE_HOME'']"

text \<open>One assignment of the container's environment, put into the map of the known keys.\<close>

definition collect_env :: "labels \<Rightarrow> string \<Rightarrow> (target_error, labels) result" where
  "collect_env env assignment =
     (case cut_char CHR ''='' assignment of (key, value, ok) \<Rightarrow>
        if \<not> ok \<or> key \<notin> set runtime_keys then Inr env
        else if has_key env key \<and> label env key \<noteq> value then Inl (ConflictingValues key)
        else Inr (AList.update key value env))"

definition group_ids :: "string \<Rightarrow> (target_error, string list) result" where
  "group_ids specs = mapE (\<lambda>spec. numeric_id (fst (cut_char CHR '':'' spec))) (split_char CHR '','' specs)"

text \<open>The declared options of the mounts, which the list of actual mounts lacks.\<close>

definition unique_targets :: "mount_definition list \<Rightarrow> bool" where
  "unique_targets ds = distinct (map md_target ds)"

definition complete_mount :: "mount_definition list \<Rightarrow> mount \<Rightarrow> (target_error, mount) result" where
  "complete_mount ds m =
     (case find (\<lambda>x. md_target x = mt_destination m) ds of
        None \<Rightarrow> Inr m
      | Some x \<Rightarrow>
          if md_type x \<noteq> mt_type m then Inl TypeDisagrees
          else if md_type x = ''volume'' then
            (if md_source x \<noteq> [] \<and> md_source x \<noteq> mt_name m then Inl VolumeDisagrees
             else Inr (m\<lparr>mt_subpath := md_volume_subpath x\<rparr>))
          else if md_type x = ''bind''
          then Inr (m\<lparr>mt_bind_options := md_bind_options x, mt_consistency := md_consistency x\<rparr>)
          else Inr m)"

definition deployed_mounts :: "container \<Rightarrow> (target_error, mount list) result" where
  "deployed_mounts c =
     ensure (unique_targets (c_host_mounts c)) DuplicateDefinitions
       (mapE (complete_mount (c_host_mounts c)) (c_mounts c))"

section \<open>Metadata storage\<close>

text \<open>A separate metadata mount, narrowed to the selected directory.\<close>

definition narrow_mount :: "string \<Rightarrow> mount \<Rightarrow> (target_error, mount) result" where
  "narrow_mount sqliteHome m =
     (if covers (mt_destination m) sqliteHome \<and> mt_destination m \<noteq> sqliteHome then
        (let relative = trim_prefix (trim_prefix sqliteHome (mt_destination m)) ''/'' in
         if mt_type m = ''bind'' then
           (if bo_non_recursive (mt_bind_options m) then Inl NonRecursiveNarrowing
            else Inr (m\<lparr>mt_source := path_join [mt_source m, relative], mt_destination := sqliteHome\<rparr>))
         else Inr (m\<lparr>mt_subpath := path_join [mt_subpath m, relative], mt_destination := sqliteHome\<rparr>))
      else Inr m)"

text \<open>One round of the loop over the metadata mounts.\<close>

definition add_database_mount ::
  "string \<Rightarrow> bool \<Rightarrow> mount list \<Rightarrow> mount \<Rightarrow> (target_error, mount list) result" where
  "add_database_mount sqliteHome writable mounts m =
     (if mt_destination m \<in> set (map mt_destination mounts) then Inr mounts
      else bindE (narrow_mount sqliteHome m) (\<lambda>n. Inr (mounts @ [n\<lparr>mt_rw := mt_rw n \<and> writable\<rparr>])))"

definition usable_state :: "container \<Rightarrow> bool" where
  "usable_state c = (\<not> c_paused c \<and> \<not> c_restarting c \<and> c_status c \<in> set [''running'', ''exited'', ''created''])"

definition target_mounts :: "container \<Rightarrow> string \<Rightarrow> string \<Rightarrow> bool \<Rightarrow> (target_error, mount list) result" where
  "target_mounts c codexHome sqliteHome writable =
     bindE (deployed_mounts c) (\<lambda>deployed.
     bindE (storage_mounts deployed codexHome True) (\<lambda>mounts.
     ensure (\<not> (writable \<and> \<not> mt_rw (hd mounts))) ReadOnlyDestination (
     bindE (storage_mounts deployed sqliteHome False) (\<lambda>databaseMounts.
     bindE (foldE (add_database_mount sqliteHome writable) mounts databaseMounts) (\<lambda>all.
       Inr (sort_key mt_destination all))))))"

definition inspect_target :: "container option \<Rightarrow> string \<Rightarrow> bool \<Rightarrow> (target_error, target) result" where
  "inspect_target co sqlite writable =
     bindE (try_opt NoCorral co) (\<lambda>c.
     ensure (label (c_labels c) label_harness_type = ''codex'' \<and> label (c_labels c) label_runtime_schema = ''1'')
       TargetContract (
     ensure (c_id c \<noteq> [] \<and> c_image_id c \<noteq> []) MissingIdentity (
     ensure (usable_state c) (UnusableState (c_status c)) (
     bindE (foldE collect_env [] (c_env c)) (\<lambda>env.
     bindE (numeric_id (label env ''HCORRAL_HOST_UID'')) (\<lambda>uid.
     bindE (numeric_id (label env ''HCORRAL_HOST_GID'')) (\<lambda>gid.
     let home = label env ''HCORRAL_CONTAINER_HOME''; workdir = label env ''HCORRAL_WORKDIR'';
         codexHome = path_join [home, ''.codex''];
         sqliteHome = (if sqlite = [] then codexHome else sqlite)
     in
     ensure (absolute_path home \<and> home \<noteq> ''/'' \<and> absolute_path workdir) InvalidRuntimeHome (
     ensure (absolute_path sqliteHome \<and> sqliteHome \<noteq> ''/'') InvalidSqliteHome (
     ensure (label env ''CODEX_HOME'' = [] \<or> label env ''CODEX_HOME'' = codexHome) CodexHomeConflict (
     ensure (label env ''HCORRAL_HOST_GROUPS'' \<noteq> []) MissingGroups (
     bindE (group_ids (label env ''HCORRAL_HOST_GROUPS'')) (\<lambda>groups.
     bindE (target_mounts c codexHome sqliteHome writable) (\<lambda>mounts.
       Inr \<lparr>tg_container = c_id c, tg_image = c_image_id c, tg_uid = uid, tg_gid = gid,
            tg_groups = sort (remdups (gid # groups)), tg_home = home, tg_codex_home = codexHome,
            tg_sqlite_home = sqliteHome, tg_workdir = workdir, tg_mounts = mounts,
            tg_sqlite_env = label env ''CODEX_SQLITE_HOME'', tg_sqlite_writable = writable\<rparr>)))))))))))))"

definition inspect_target_for_transfer ::
  "container option \<Rightarrow> string \<Rightarrow> string \<Rightarrow> (target_error, target) result" where
  "inspect_target_for_transfer co sqliteHome operation =
     (if operation \<noteq> ''import'' \<and> operation \<noteq> ''export'' then Inl BadOperation
      else inspect_target co sqliteHome (operation = ''import''))"

section \<open>Directories as lists of components\<close>

text \<open>A clean absolute path is the list of its components; one covers another by list prefix.\<close>

abbreviation comps :: "string \<Rightarrow> string list" where
  "comps \<equiv> clean_comps True"

definition rooted :: "string \<Rightarrow> bool" where
  "rooted p \<longleftrightarrow> is_abs p \<and> clean p = p"

lemma rooted_comps:
  assumes "rooted p"
  shows "p = slash # join_char slash (comps p)" "list_all ordinary (comps p)"
proof -
  show "p = slash # join_char slash (comps p)"
    using assms by (auto simp: rooted_def clean_def is_abs_def slash_def split: if_splits)
  show "list_all ordinary (comps p)" using normal_clean_comps [of True p] by (auto simp: normal_comps_def)
qed

lemma rooted_inject: "rooted p \<Longrightarrow> rooted q \<Longrightarrow> comps p = comps q \<Longrightarrow> p = q"
  using rooted_comps(1) by metis

lemma absolute_rooted: "absolute_path p \<Longrightarrow> rooted p"
  by (simp add: absolute_path_def rooted_def)

lemma rooted_split:
  assumes "rooted p" "p \<noteq> ''/''" shows "split_char slash p = [] # comps p"
proof -
  have ne: "comps p \<noteq> []" using rooted_comps(1) [OF assms(1)] assms(2) by (auto simp: slash_def)
  have "split_char slash (join_char slash (comps p)) = comps p"
    using rooted_comps(2) [OF assms(1)] ne by (intro split_join) (auto simp: list_all_iff ordinary_def)
  then show ?thesis using rooted_comps(1) [OF assms(1)] split_slash_Cons by metis
qed

lemma join_char_append:
  "xs \<noteq> [] \<Longrightarrow> ys \<noteq> [] \<Longrightarrow> join_char c (xs @ ys) = join_char c xs @ c # join_char c ys"
  by (induction c xs rule: join_char.induct) (auto simp: neq_Nil_conv)

lemma covers_comps:
  assumes d: "rooted d" and p: "rooted p"
  shows "covers d p \<longleftrightarrow> (\<exists>zs. comps p = comps d @ zs)"
proof (cases "d = ''/''")
  case True
  then have "comps d = []" by (simp add: clean_comps_def clean_step_def slash_def)
  moreover have "has_prefix p ''/''" using rooted_comps(1) [OF p] by (metis append_Cons append_Nil has_prefix_iff slash_def)
  ultimately show ?thesis using True by (simp add: covers_def trim_suffix_def has_suffix_def)
next
  case False
  have ne: "comps d \<noteq> []" using rooted_comps(1) [OF d] False by (auto simp: slash_def)
  have "\<not> has_suffix d ''/''"
  proof
    assume "has_suffix d ''/''"
    then obtain e where "d = e @ slash # []" by (auto simp: has_suffix_iff slash_def)
    then have "[] # comps d = split_char slash e @ [[]]" using rooted_split [OF d False] by (simp add: split_char_snoc)
    then have "[] \<in> set (comps d)" using ne by (metis last_ConsR last_in_set last_snoc)
    then show False using rooted_comps(2) [OF d] by (auto simp: list_all_iff)
  qed
  then have cov: "covers d p \<longleftrightarrow> d = p \<or> (\<exists>t. p = d @ slash # t)"
    by (simp add: covers_def trim_suffix_id has_prefix_iff slash_def)
  show ?thesis
  proof
    assume "covers d p"
    then consider "d = p" | t where "p = d @ slash # t" using cov by blast
    then show "\<exists>zs. comps p = comps d @ zs"
    proof cases
      case 2
      then have "p \<noteq> ''/''" using rooted_comps(1) [OF d] by (auto simp: append_eq_Cons_conv)
      from rooted_split [OF p this] have "[] # comps p = ([] # comps d) @ split_char slash t"
        unfolding 2 split_char_snoc rooted_split [OF d False] by (rule sym)
      then show ?thesis by auto
    qed auto
  next
    assume "\<exists>zs. comps p = comps d @ zs"
    then obtain zs where zs: "comps p = comps d @ zs" by blast
    show "covers d p"
    proof (cases zs)
      case Nil
      then show ?thesis using rooted_inject [OF p d] zs by (simp add: covers_def)
    next
      case (Cons z zs')
      then have "p = d @ slash # join_char slash zs"
        using rooted_comps(1) [OF p] rooted_comps(1) [OF d] zs ne by (metis append_Cons join_char_append list.distinct(1))
      then show ?thesis using cov by blast
    qed
  qed
qed

lemma covers_refl [simp]: "covers d d"
  by (simp add: covers_def)

lemma covers_antisym: "rooted d \<Longrightarrow> rooted p \<Longrightarrow> covers d p \<Longrightarrow> covers p d \<Longrightarrow> d = p"
  by (auto simp: covers_comps intro: rooted_inject)

lemma covers_trans: "rooted a \<Longrightarrow> rooted b \<Longrightarrow> rooted c \<Longrightarrow> covers a b \<Longrightarrow> covers b c \<Longrightarrow> covers a c"
  by (auto simp: covers_comps)

text \<open>What narrowing adds to a source: the remaining components.\<close>

lemma relative_part:
  assumes d: "rooted d" and p: "rooted p" and c: "covers d p" "d \<noteq> p"
  obtains zs where "zs \<noteq> []" "list_all ordinary zs" "comps p = comps d @ zs"
    "trim_prefix (trim_prefix p d) ''/'' = join_char slash zs"
proof -
  obtain zs where zs: "comps p = comps d @ zs" using c(1) covers_comps [OF d p] by blast
  have ne: "zs \<noteq> []" using zs c(2) rooted_inject [OF p d] by auto
  have z: "list_all ordinary zs" using rooted_comps(2) [OF p] zs by simp
  have j: "\<not> has_prefix (join_char slash zs) ''/''"
    using join_not_abs [OF ordinary_normal [OF z, of True]]
    by (auto simp: is_abs_def has_prefix_iff)
  show thesis
  proof (cases "comps d = []")
    case True
    then have dd: "d = ''/''" using rooted_comps(1) [OF d] by (simp add: slash_def)
    have "p = ''/'' @ join_char slash zs" using rooted_comps(1) [OF p] zs True by (simp add: slash_def)
    then have "trim_prefix p d = join_char slash zs" unfolding dd by (metis trim_prefix_append)
    then have "trim_prefix (trim_prefix p d) ''/'' = join_char slash zs" using j by (simp add: trim_prefix_id)
    with ne z zs that show thesis by blast
  next
    case False
    then have "p = d @ slash # join_char slash zs"
      using rooted_comps(1) [OF p] rooted_comps(1) [OF d] zs ne by (metis append_Cons join_char_append)
    then have "trim_prefix (trim_prefix p d) ''/'' = join_char slash zs"
      using j by (simp add: trim_prefix_def slash_def)
    with ne z zs that show thesis by blast
  qed
qed

section \<open>What the mounts of a storage root are\<close>

text \<open>The base is kept or replaced by a longer one that covers the home.\<close>

definition longer :: "mount option \<Rightarrow> mount option \<Rightarrow> bool" where
  "longer r base \<longleftrightarrow> (\<forall>b0. base = Some b0 \<longrightarrow> (\<exists>b. r = Some b \<and> length (mt_destination b0) \<le> length (mt_destination b)))"

lemma longer_refl [simp]: "longer r r"
  by (simp add: longer_def)

lemma longer_trans: "longer r s \<Longrightarrow> longer s t \<Longrightarrow> longer r t"
  unfolding longer_def by (metis order_trans)

lemma find_base_step:
  assumes "find_base home base seen (m # ms) = Inr r"
  obtains base' where "find_base home base' (mt_destination m # seen) ms = Inr r" "longer base' base"
    "base' = base \<or> base' = Some m \<and> covers (mt_destination m) home"
    "covers (mt_destination m) home \<Longrightarrow> longer base' (Some m)"
    "absolute_path (mt_destination m)" "mt_destination m \<notin> set seen"
proof -
  let ?base' = "if covers (mt_destination m) home \<and>
        (case base of None \<Rightarrow> True | Some b \<Rightarrow> length (mt_destination m) > length (mt_destination b))
      then Some m else base"
  have ok: "absolute_path (mt_destination m)" "mt_destination m \<notin> set seen"
    using assms by (simp_all split: if_split_asm)
  have f: "find_base home ?base' (mt_destination m # seen) ms = Inr r"
    using assms by (simp only: find_base.simps ok not_True_eq_False simp_thms if_False)
  have "longer ?base' base" "?base' = base \<or> ?base' = Some m \<and> covers (mt_destination m) home"
    "covers (mt_destination m) home \<Longrightarrow> longer ?base' (Some m)"
    by (cases base; simp add: longer_def)+
  with f ok that show thesis by blast
qed

lemma find_base_valid:
  "find_base home base seen all = Inr r \<Longrightarrow>
     (\<forall>m \<in> set all. absolute_path (mt_destination m)) \<and> distinct (map mt_destination all) \<and>
     set (map mt_destination all) \<inter> set seen = {}"
proof (induction all arbitrary: base seen)
  case (Cons m ms)
  from Cons.prems show ?case
    by (rule find_base_step) (drule Cons.IH, auto)
qed simp

lemma find_base_longer: "find_base home base seen all = Inr r \<Longrightarrow> longer r base"
proof (induction all arbitrary: base seen)
  case (Cons m ms)
  then show ?case by (elim find_base_step) (blast intro: longer_trans)
qed simp

lemma find_base_longest:
  "find_base home base seen all = Inr r \<Longrightarrow> m \<in> set all \<Longrightarrow> covers (mt_destination m) home \<Longrightarrow> longer r (Some m)"
proof (induction all arbitrary: base seen)
  case (Cons x ms)
  from Cons.prems(1) show ?case
  proof (rule find_base_step)
    fix base' assume f: "find_base home base' (mt_destination x # seen) ms = Inr r"
      and x: "covers (mt_destination x) home \<Longrightarrow> longer base' (Some x)"
    show "longer r (Some m)"
    proof (cases "m = x")
      case True
      then show ?thesis using x Cons.prems(3) find_base_longer [OF f] longer_trans by blast
    next
      case False
      then show ?thesis using Cons f by auto
    qed
  qed
qed simp

lemma find_base_member:
  "find_base home base seen all = Inr (Some b) \<Longrightarrow>
     base = Some b \<or> b \<in> set all \<and> covers (mt_destination b) home"
proof (induction all arbitrary: base seen)
  case (Cons m ms)
  from Cons.prems show ?case
    by (rule find_base_step) (use Cons.IH in \<open>fastforce\<close>)
qed simp

definition below_home :: "string \<Rightarrow> bool \<Rightarrow> mount \<Rightarrow> bool" where
  "below_home home history m \<longleftrightarrow>
     covers home (mt_destination m) \<and>
     (history \<or> path_dir (mt_destination m) = home \<and> database_file (path_base (mt_destination m)))"

lemma storage_mounts_ok:
  assumes "storage_mounts all home history = Inr ms"
  obtains base where "base \<in> set all" "covers (mt_destination base) home" "base \<in> set ms"
    "set ms \<subseteq> set all" "\<forall>m \<in> set ms. m = base \<or> below_home home history m"
    "\<forall>m \<in> set ms. check_storage m = None" "ms = sort_key mt_destination (base # filter (nested_mount home history base) all)"
    "\<forall>m \<in> set all. absolute_path (mt_destination m)"
    "\<forall>m \<in> set all. covers (mt_destination m) home \<longrightarrow> length (mt_destination m) \<le> length (mt_destination base)"
proof -
  from assms obtain r where r: "find_base home None [] all = Inr r"
    and k: "(case r of None \<Rightarrow> Inl NotPersistent
       | Some base \<Rightarrow> case checkE check_storage (base # filter (nested_mount home history base) all) of
             Some e \<Rightarrow> Inl e
           | None \<Rightarrow> Inr (sort_key mt_destination (base # filter (nested_mount home history base) all))) = Inr ms"
    unfolding storage_mounts_def Let_def bindE_Inr by blast
  from k obtain base where "r = Some base" by (cases r) auto
  with r have f: "find_base home None [] all = Inr (Some base)" by simp
  from k \<open>r = Some base\<close> have c: "checkE check_storage (base # filter (nested_mount home history base) all) = None"
    and ms: "ms = sort_key mt_destination (base # filter (nested_mount home history base) all)"
    by (simp_all del: checkE.simps split: option.splits)
  note b = find_base_valid [OF f] find_base_member [OF f]
  have set_ms: "set ms = set (base # filter (nested_mount home history base) all)" unfolding ms by (rule set_sort)
  have member: "base \<in> set all" "covers (mt_destination base) home" using b by auto
  have sub: "base \<in> set ms" "set ms \<subseteq> set all" using member unfolding set_ms by auto
  show thesis
  proof (rule that [of base])
    show "\<forall>m \<in> set ms. m = base \<or> below_home home history m"
      unfolding set_ms by (auto simp: nested_mount_def below_home_def)
    show "\<forall>m \<in> set ms. check_storage m = None" using c unfolding set_ms checkE_None .
    show "\<forall>m \<in> set all. covers (mt_destination m) home \<longrightarrow> length (mt_destination m) \<le> length (mt_destination base)"
      using find_base_longest [OF f] by (auto simp: longer_def)
  qed (fact conjunct1 [OF b(1)] ms member sub)+
qed

text \<open>The first mount in order is the one over the home: its target is a prefix of every other.\<close>

lemma covers_prefix: "rooted d \<Longrightarrow> rooted p \<Longrightarrow> covers d p \<Longrightarrow> \<exists>t. p = d @ t"
  by (auto simp: covers_def has_prefix_iff trim_suffix_def has_suffix_iff split: if_splits)

lemma prefix_le: "d \<le> d @ (t :: string)"
  by (induction d) auto

lemma covers_le: "rooted d \<Longrightarrow> rooted p \<Longrightarrow> covers d p \<Longrightarrow> d \<le> p"
  using covers_prefix prefix_le by metis

lemma storage_mounts_hd:
  assumes "storage_mounts all home True = Inr ms" "rooted home"
  shows "hd ms \<in> set ms \<and> covers (mt_destination (hd ms)) home"
proof -
  from assms(1) obtain base where b: "base \<in> set all" "covers (mt_destination base) home"
    "ms = sort_key mt_destination (base # filter (nested_mount home True base) all)"
    and abs: "\<forall>m \<in> set all. absolute_path (mt_destination m)" by (rule storage_mounts_ok)
  have "mt_destination base \<le> mt_destination m" if "m \<in> set (filter (nested_mount home True base) all)" for m
  proof (rule covers_le)
    have r: "rooted (mt_destination base)" "rooted (mt_destination m)" using abs b(1) that absolute_rooted by auto
    then show "rooted (mt_destination base)" "rooted (mt_destination m)" .
    show "covers (mt_destination base) (mt_destination m)"
      using that b(2) r assms(2) by (auto simp: nested_mount_def intro: covers_trans)
  qed
  then have "ms = base # sort_key mt_destination (filter (nested_mount home True base) all)"
    unfolding b(3) sort_key_simps by (intro insort_is_Cons) simp
  with b(2) show ?thesis by simp
qed

section \<open>The mounts of the target\<close>

text \<open>\<open>kept o m\<close>: the mount \<open>m\<close> shows no other storage than \<open>o\<close>, and no more of it, nor more writably.\<close>

definition kept :: "mount \<Rightarrow> mount \<Rightarrow> bool" where
  "kept o' m \<longleftrightarrow> mt_type m = mt_type o' \<and> mt_name m = mt_name o' \<and> (mt_rw m \<longrightarrow> mt_rw o') \<and>
     covers (mt_destination o') (mt_destination m) \<and>
     (mt_type m = ''bind'' \<longrightarrow> covers (mt_source o') (mt_source m))"

lemma kept_refl: "kept m m"
  by (simp add: kept_def)

lemma mapE_member: "mapE f xs = Inr ys \<Longrightarrow> y \<in> set ys \<Longrightarrow> \<exists>x \<in> set xs. f x = Inr y"
  by (induction xs arbitrary: ys) (auto simp: result_iff)

lemma deployed_mounts_kept:
  assumes "deployed_mounts c = Inr ds" "m \<in> set ds"
  shows "\<exists>o' \<in> set (c_mounts c). mt_type m = mt_type o' \<and> mt_name m = mt_name o' \<and> mt_rw m = mt_rw o' \<and>
    mt_destination m = mt_destination o' \<and> mt_source m = mt_source o'"
proof -
  from assms(1) have "mapE (complete_mount (c_host_mounts c)) (c_mounts c) = Inr ds"
    by (simp add: deployed_mounts_def ensure_Inr)
  from mapE_member [OF this assms(2)] obtain o' where "o' \<in> set (c_mounts c)"
    "complete_mount (c_host_mounts c) o' = Inr m" by blast
  then show ?thesis
    by (intro bexI [of _ o']) (auto simp: complete_mount_def split: option.splits if_splits)
qed

lemma foldE_reached:
  assumes "foldE f s xs = Inr s'" "x \<in> set xs"
    and "\<And>s t. f s x = Inr t \<Longrightarrow> Q t" "\<And>s y t. y \<in> set xs \<Longrightarrow> Q s \<Longrightarrow> f s y = Inr t \<Longrightarrow> Q t"
  shows "Q s'"
proof -
  obtain ys zs where xs: "xs = ys @ x # zs" using assms(2) by (meson split_list)
  with assms(1) obtain u t where t: "f u x = Inr t" "foldE f t zs = Inr s'"
    by (auto simp: foldE_append result_iff)
  show ?thesis
    using assms(3) [OF t(1)] by (rule foldE_invariant [OF t(2)]) (use assms(4) xs in auto)
qed

text \<open>Narrowing stays inside the mount and its source.\<close>

lemma narrow_mount_kept:
  assumes "narrow_mount home m = Inr n" "absolute_path (mt_destination m)" "absolute_path home" "check_storage m = None"
  shows "kept m n \<and> mt_rw n = mt_rw m \<and>
    (covers (mt_destination m) home \<longrightarrow> mt_destination n = home) \<and>
    (\<not> covers (mt_destination m) home \<longrightarrow> n = m)"
proof (cases "covers (mt_destination m) home \<and> mt_destination m \<noteq> home")
  case False
  then have "n = m" using assms(1) by (simp add: narrow_mount_def split: if_splits)
  then show ?thesis using False kept_refl by auto
next
  case True
  have r: "rooted (mt_destination m)" "rooted home" using assms(2,3) absolute_rooted by auto
  obtain zs where zs: "zs \<noteq> []" "list_all ordinary zs"
    "trim_prefix (trim_prefix home (mt_destination m)) ''/'' = join_char slash zs"
    using relative_part [OF r] True by metis
  have src: "covers (mt_source m) (path_join [mt_source m, join_char slash zs])" if "mt_type m = ''bind''"
  proof -
    have s: "rooted (mt_source m)" using assms(4) that absolute_rooted by (auto simp: check_storage_def split: if_splits)
    have "path_join [mt_source m, join_char slash zs] = path_join (mt_source m # zs)"
    proof -
      have ne: "mt_source m \<noteq> []" using s by (auto simp: rooted_def is_abs_def)
      have "join_char slash [mt_source m, join_char slash zs] = join_char slash (mt_source m # zs)"
        using zs(1) by (cases zs) auto
      with ne show ?thesis by (simp add: path_join_def)
    qed
    moreover have "comps (path_join (mt_source m # zs)) = comps (mt_source m) @ zs"
      using s zs(2) by (intro path_join_comps) (simp_all add: rooted_def)
    moreover have "rooted (path_join (mt_source m # zs))"
      using s is_abs_path_join clean_path_join unfolding rooted_def by (metis is_abs_def take_Nil list.distinct(1))
    ultimately show ?thesis using covers_comps [OF s] by auto
  qed
  from True assms(1) zs(3) show ?thesis
    by (auto simp: narrow_mount_def kept_def Let_def src split: if_splits)
qed

text \<open>Where a mount of the target may lie.\<close>

definition history_place :: "string \<Rightarrow> mount \<Rightarrow> bool" where
  "history_place codexHome m \<longleftrightarrow> covers (mt_destination m) codexHome \<or> covers codexHome (mt_destination m)"

definition database_place :: "string \<Rightarrow> mount \<Rightarrow> bool" where
  "database_place sqliteHome m \<longleftrightarrow> mt_destination m = sqliteHome \<or> below_home sqliteHome False m"

definition allowed_mount :: "string \<Rightarrow> string \<Rightarrow> bool \<Rightarrow> mount \<Rightarrow> bool" where
  "allowed_mount codexHome sqliteHome writable m \<longleftrightarrow>
     history_place codexHome m \<or> database_place sqliteHome m \<and> (mt_rw m \<longrightarrow> writable)"

lemma add_database_mount_step:
  assumes step: "add_database_mount sqliteHome w acc x = Inr acc'"
    and x: "absolute_path (mt_destination x)" "check_storage x = None" "absolute_path sqliteHome"
      "covers (mt_destination x) sqliteHome \<or> below_home sqliteHome False x"
  shows "set acc \<subseteq> set acc' \<and>
    (\<forall>m \<in> set acc'. m \<in> set acc \<or> kept x m \<and> database_place sqliteHome m \<and> (mt_rw m \<longrightarrow> w)) \<and>
    (covers (mt_destination x) sqliteHome \<longrightarrow> (\<exists>m \<in> set acc'. covers (mt_destination m) sqliteHome))"
proof (cases "mt_destination x \<in> set (map mt_destination acc)")
  case True
  with step have "acc' = acc" by (simp add: add_database_mount_def)
  with True show ?thesis by auto
next
  case False
  with step obtain n where n: "narrow_mount sqliteHome x = Inr n" and acc': "acc' = acc @ [n\<lparr>mt_rw := mt_rw n \<and> w\<rparr>]"
    by (auto simp: add_database_mount_def result_iff)
  note k = narrow_mount_kept [OF n x(1,3,2)]
  then have "kept x (n\<lparr>mt_rw := mt_rw n \<and> w\<rparr>)" by (auto simp: kept_def)
  moreover have "database_place sqliteHome (n\<lparr>mt_rw := mt_rw n \<and> w\<rparr>)"
    using k x(4) by (auto simp: database_place_def below_home_def)
  ultimately show ?thesis using k unfolding acc' by auto
qed

lemma target_mounts_ok:
  assumes "target_mounts c codexHome sqliteHome w = Inr all" "absolute_path codexHome" "absolute_path sqliteHome"
  shows "(\<forall>m \<in> set all. (\<exists>o' \<in> set (c_mounts c). kept o' m) \<and> allowed_mount codexHome sqliteHome w m) \<and>
    (\<exists>m \<in> set all. covers (mt_destination m) codexHome \<and> (w \<longrightarrow> mt_rw m)) \<and>
    (\<exists>m \<in> set all. covers (mt_destination m) sqliteHome)"
proof -
  from assms(1) obtain ds ms db acc where d: "deployed_mounts c = Inr ds" "storage_mounts ds codexHome True = Inr ms"
    "\<not> (w \<and> \<not> mt_rw (hd ms))" "storage_mounts ds sqliteHome False = Inr db"
    "foldE (add_database_mount sqliteHome w) ms db = Inr acc" and all: "set all = set acc"
    unfolding target_mounts_def by (auto simp: result_iff simp del: sort_key_simps)
  have kept: "\<exists>o' \<in> set (c_mounts c). kept o' m" if "m' \<in> set ds" "kept m' m" for m' m
    using deployed_mounts_kept [OF d(1) that(1)] that(2) by (auto simp: kept_def)
  obtain b1 where h: "set ms \<subseteq> set ds" "\<forall>m \<in> set ms. m = b1 \<or> below_home codexHome True m"
    "covers (mt_destination b1) codexHome" "\<forall>m \<in> set ds. absolute_path (mt_destination m)"
    using d(2) by (rule storage_mounts_ok)
  obtain b2 where g: "b2 \<in> set db" "set db \<subseteq> set ds" "\<forall>m \<in> set db. m = b2 \<or> below_home sqliteHome False m"
    "covers (mt_destination b2) sqliteHome" "\<forall>m \<in> set db. check_storage m = None"
    using d(4) by (rule storage_mounts_ok)
  have step: "set s \<subseteq> set t \<and>
      (\<forall>m \<in> set t. m \<in> set s \<or> kept x m \<and> database_place sqliteHome m \<and> (mt_rw m \<longrightarrow> w)) \<and>
      (covers (mt_destination x) sqliteHome \<longrightarrow> (\<exists>m \<in> set t. covers (mt_destination m) sqliteHome))"
    if "x \<in> set db" "add_database_mount sqliteHome w s x = Inr t" for s x t
    using that(2) by (rule add_database_mount_step) (use that(1) g h(4) assms(3) in auto)
  have "set ms \<subseteq> set acc \<and>
      (\<forall>m \<in> set acc. (\<exists>m' \<in> set ds. kept m' m) \<and> allowed_mount codexHome sqliteHome w m)"
  proof (rule foldE_invariant [OF d(5)])
    show "set ms \<subseteq> set ms \<and> (\<forall>m \<in> set ms. (\<exists>m' \<in> set ds. kept m' m) \<and> allowed_mount codexHome sqliteHome w m)"
    proof (intro conjI ballI)
      fix m assume m: "m \<in> set ms"
      with h(1) kept_refl show "\<exists>m' \<in> set ds. kept m' m" by blast
      show "allowed_mount codexHome sqliteHome w m"
        using m h(2,3) by (auto simp: allowed_mount_def history_place_def below_home_def)
    qed simp
  next
    fix s x t
    assume x: "x \<in> set db" and t: "add_database_mount sqliteHome w s x = Inr t"
      and inv: "set ms \<subseteq> set s \<and> (\<forall>m \<in> set s. (\<exists>m' \<in> set ds. kept m' m) \<and> allowed_mount codexHome sqliteHome w m)"
    from step [OF x t] inv g(2) x show "set ms \<subseteq> set t \<and>
        (\<forall>m \<in> set t. (\<exists>m' \<in> set ds. kept m' m) \<and> allowed_mount codexHome sqliteHome w m)"
      unfolding allowed_mount_def by blast
  qed
  moreover have "hd ms \<in> set ms \<and> covers (mt_destination (hd ms)) codexHome"
    by (rule storage_mounts_hd [OF d(2) absolute_rooted [OF assms(2)]])
  moreover have "\<exists>m \<in> set acc. covers (mt_destination m) sqliteHome"
    by (rule foldE_reached [OF d(5) g(1)]) (use step g(1,4) in blast)+
  ultimately show ?thesis unfolding all using kept d(3) by blast
qed

lemma codex_home_absolute:
  assumes "absolute_path home" "home \<noteq> ''/''"
  shows "absolute_path (path_join [home, ''.codex''])" "covers home (path_join [home, ''.codex''])"
proof -
  have r: "rooted home" by (rule absolute_rooted [OF assms(1)])
  have o: "list_all ordinary [''.codex'']" by (simp add: ordinary_def slash_def)
  let ?p = "path_join [home, ''.codex'']"
  have c: "comps ?p = comps home @ [''.codex'']"
    using r o by (intro path_join_comps) (simp_all add: rooted_def)
  have p: "rooted ?p"
    using r is_abs_path_join clean_path_join unfolding rooted_def by (metis is_abs_def take_Nil list.distinct(1))
  have ne: "comps home \<noteq> []" using rooted_comps(1) [OF r] assms(2) by (auto simp: slash_def)
  have "?p = home @ slash # ''.codex''"
    using rooted_comps(1) [OF p] rooted_comps(1) [OF r] c join_char_append [OF ne, of "[''.codex'']"]
    by (metis append_Cons join_char.simps(2) list.distinct(1))
  with assms(1) p show "absolute_path ?p"
    by (simp add: absolute_path_def rooted_def contains_any_def slash_def line_breaks_def)
  show "covers home ?p" using covers_comps [OF r p] c by blast
qed

lemma inspect_target_parts:
  assumes "inspect_target (Some c) sqlite w = Inr t"
  shows "target_mounts c (tg_codex_home t) (tg_sqlite_home t) w = Inr (tg_mounts t)"
    "absolute_path (tg_home t)" "tg_home t \<noteq> ''/''" "tg_codex_home t = path_join [tg_home t, ''.codex'']"
    "absolute_path (tg_sqlite_home t)" "tg_container t = c_id c" "tg_image t = c_image_id c"
    "tg_sqlite_writable t = w" "usable_state c" "sqlite \<noteq> [] \<Longrightarrow> tg_sqlite_home t = sqlite"
  using assms unfolding inspect_target_def Let_def
  by (auto simp: result_iff simp del: sort_key_simps)

section \<open>Sample data\<close>

definition plain_bind_options :: bind_options where
  "plain_bind_options = \<lparr>bo_propagation = [], bo_non_recursive = False, bo_ro_non_recursive = False,
     bo_ro_force_recursive = False, bo_create_mountpoint = False\<rparr>"

definition plain_mount :: "string \<Rightarrow> string \<Rightarrow> string \<Rightarrow> string \<Rightarrow> mount" where
  "plain_mount kind name source destination =
     \<lparr>mt_type = kind, mt_name = name, mt_source = source, mt_destination = destination, mt_rw = True, mt_mode = [],
      mt_propagation = [], mt_subpath = [], mt_bind_options = plain_bind_options, mt_consistency = []\<rparr>"

text \<open>A corral with its state volume, its workspace, and metadata below the workspace.\<close>

definition codex_container :: container where
  "codex_container =
     \<lparr>c_id = ''id1'', c_image_id = ''img1'', c_name = ''/p'', c_created = [], c_image = ''i'',
      c_labels = [(label_harness_type, ''codex''), (label_runtime_schema, ''1'')],
      c_env = [''HCORRAL_HOST_UID=1000'', ''HCORRAL_HOST_GID=1000'', ''HCORRAL_HOST_GROUPS=1000:u,27:sudo'',
        ''HCORRAL_CONTAINER_HOME=/home/u'', ''HCORRAL_WORKDIR=/w''],
      c_status = ''exited'', c_running = False, c_paused = False, c_restarting = False, c_exit_code = 0,
      c_started = [],
      c_mounts = [plain_mount ''volume'' ''hcorral_state'' [] ''/home/u'', plain_mount ''bind'' [] ''/src'' ''/w''],
      c_host_mounts = []\<rparr>"

section \<open>Properties\<close>

text \<open>C31: A session transfer sees no other storage than the corral, and no more of it: every mount of the
  helper comes from a mount of the container, of the same volume or from inside the same bind
  source, lies at or around the Codex home or at the metadata directory, is never writable where
  the container's mount is not, and metadata outside the Codex home is writable only for an
  import.  Both the Codex home and the metadata directory are covered, and an import has a
  writable mount over the Codex home.\<close>

theorem transfer_storage_confined:
  assumes "inspect_target (Some c) sqlite w = Inr t"
  shows "(\<forall>m \<in> set (tg_mounts t). (\<exists>o' \<in> set (c_mounts c). kept o' m) \<and>
      allowed_mount (tg_codex_home t) (tg_sqlite_home t) w m) \<and>
    (\<exists>m \<in> set (tg_mounts t). covers (mt_destination m) (tg_codex_home t) \<and> (w \<longrightarrow> mt_rw m)) \<and>
    (\<exists>m \<in> set (tg_mounts t). covers (mt_destination m) (tg_sqlite_home t))"
proof -
  note p = inspect_target_parts [OF assms]
  have "absolute_path (tg_codex_home t)" unfolding p(4) by (rule codex_home_absolute [OF p(2,3)])
  from target_mounts_ok [OF p(1) this p(5)] show ?thesis .
qed

theorem transfer_storage_confined_witness:
  "\<exists>t. inspect_target (Some codex_container) ''/w/meta'' False = Inr t \<and>
     map mt_destination (tg_mounts t) = [''/home/u'', ''/w/meta''] \<and>
     map mt_source (tg_mounts t) = [[], ''/src/meta''] \<and> map mt_rw (tg_mounts t) = [True, False] \<and>
     (\<forall>m \<in> set (tg_mounts t). \<exists>o' \<in> set (c_mounts codex_container). kept o' m)"
proof -
  have "(case inspect_target (Some codex_container) ''/w/meta'' False of Inl e \<Rightarrow> False
     | Inr t \<Rightarrow> map mt_destination (tg_mounts t) = [''/home/u'', ''/w/meta''] \<and>
         map mt_source (tg_mounts t) = [[], ''/src/meta''] \<and> map mt_rw (tg_mounts t) = [True, False])"
    by code_simp
  moreover from this obtain t where t: "inspect_target (Some codex_container) ''/w/meta'' False = Inr t"
    by (cases "inspect_target (Some codex_container) ''/w/meta'' False") auto
  ultimately show ?thesis using transfer_storage_confined [OF t] by auto
qed

text \<open>\<open>numericID\<close> accepts exactly the decimal numbers below 2^32 - 1, the reserved identifier
  included in the refusals, and returns their shortest form.\<close>

theorem numeric_id_exact:
  "numeric_id v = Inr s \<longleftrightarrow>
     v \<noteq> [] \<and> all_digits v \<and> digits_val v < 2 ^ 32 - 1 \<and> s = show_nat (digits_val v)"
  by (auto simp: numeric_id_def parse_uint32_def Let_def split: if_splits)

end
