(* ===== verification/Session_Format.thy ===== *)
theory Session_Format
  imports Go_Path Sha256
begin

text \<open>
  Session files (\<open>internal/session/format.go\<close>, \<open>rollout.go\<close>, \<open>home.go\<close>, \<open>inspect.go\<close>): their
  identifiers, metadata, names and places below a Codex home.  An error of the package is a
  message under the sentinel the code can test for with \<open>errors.Is\<close>.  Ordinals and byte offsets
  are 64-bit words; sizes, which the limits keep below 2^63, are integers.
\<close>

type_synonym u64 = "64 word"

datatype session_error =
    Refused string
  | Conflict string
  | Busy string
  | Absent string
  | Unfamiliar
  | Coded int
  | Interrupted

section \<open>Identifiers\<close>

definition uuid_pattern :: "string \<Rightarrow> bool" where
  "uuid_pattern s =
     (length s = 36 \<and>
      list_all (\<lambda>i. if i = 8 \<or> i = 13 \<or> i = 18 \<or> i = 23 then s ! i = CHR ''-'' else lower_hex (s ! i)) [0..<36])"

definition parse_id :: "string \<Rightarrow> (session_error, string) result" where
  "parse_id value =
     (let id = to_lower value in
      if \<not> uuid_pattern id then Inl (Refused ''session ID must be a complete UUID'') else Inr id)"

section \<open>Metadata and files\<close>

record history_position =
  hp_rollout :: string
  hp_ordinal :: u64
  hp_offset :: u64

record metadata =
  sm_thread :: string
  sm_timestamp :: string
  sm_version :: string
  sm_cwd :: string
  sm_mode :: string
  sm_base :: "history_position option"

text \<open>A \<open>time.Time\<close>: the instant in nanoseconds since 1970, and the year its location shows.\<close>

record moment =
  mo_nanos :: int
  mo_year :: int

text \<open>\<open>os.FileInfo\<close>, with the fields of \<open>syscall.Stat_t\<close> the package reads.\<close>

record stat =
  st_regular :: bool
  st_node :: nat
  st_size :: int
  st_modified :: moment
  st_perm :: nat
  st_uid :: nat
  st_gid :: nat
  st_links :: nat

record rollout_file =
  rf_source :: string
  rf_path :: string
  rf_thread :: string
  rf_rollout :: string
  rf_bytes :: int
  rf_sha256 :: string
  rf_modified :: moment
  rf_prefix :: bool
  rf_meta :: metadata
  rf_last :: u64
  rf_stored :: "stat option"

record candidate =
  cn_path :: string
  cn_thread :: string
  cn_rollout :: string

section \<open>Dates\<close>

definition is_leap :: "int \<Rightarrow> bool" where
  "is_leap y = (y mod 4 = 0 \<and> (y mod 100 \<noteq> 0 \<or> y mod 400 = 0))"

definition days_in :: "nat \<Rightarrow> int \<Rightarrow> nat" where
  "days_in m y = (if m = 2 then (if is_leap y then 29 else 28) else if m \<in> {4, 6, 9, 11} then 30 else 31)"

definition number_at :: "string \<Rightarrow> nat \<Rightarrow> nat \<Rightarrow> nat" where
  "number_at s i n = digits_val (take n (drop i s))"

definition valid_date :: "int \<Rightarrow> nat \<Rightarrow> nat \<Rightarrow> bool" where
  "valid_date y m d = (1 \<le> m \<and> m \<le> 12 \<and> 1 \<le> d \<and> d \<le> days_in m y)"

text \<open>
  \<open>time.Parse("2006-01-02T15-04-05", s)\<close> for the nineteen bytes the code passes: the hour may
  have one digit, but then a byte is left over and refused, so every field has its full width.
\<close>

definition stamp_shape :: "string \<Rightarrow> bool" where
  "stamp_shape s =
     (length s = 19 \<and>
      list_all (\<lambda>i. if i \<in> {4, 7, 13, 16} then s ! i = CHR ''-''
                    else if i = 10 then s ! i = CHR ''T'' else is_digit (s ! i)) [0..<19])"

definition valid_stamp :: "string \<Rightarrow> bool" where
  "valid_stamp s =
     (stamp_shape s \<and> valid_date (int (number_at s 0 4)) (number_at s 5 2) (number_at s 8 2) \<and>
      number_at s 11 2 < 24 \<and> number_at s 14 2 < 60 \<and> number_at s 17 2 < 60)"

text \<open>
  \<open>time.Parse(time.RFC3339Nano, s)\<close>: the general parser of layouts, which also accepts an hour of
  one digit and a comma before the fraction.  The result is date, second of the day and offset.
\<close>

definition take_digits :: "nat \<Rightarrow> string \<Rightarrow> (nat \<times> string) option" where
  "take_digits n s =
     (if length s < n \<or> \<not> list_all is_digit (take n s) then None else Some (digits_val (take n s), drop n s))"

definition take_hour :: "string \<Rightarrow> (nat \<times> string) option" where
  "take_hour s = (case take_digits 2 s of None \<Rightarrow> take_digits 1 s | Some r \<Rightarrow> Some r)"

definition take_literal :: "char \<Rightarrow> string \<Rightarrow> string option" where
  "take_literal c s = (if s \<noteq> [] \<and> hd s = c then Some (tl s) else None)"

definition skip_fraction :: "string \<Rightarrow> string" where
  "skip_fraction s =
     (if length s \<ge> 2 \<and> (hd s = CHR ''.'' \<or> hd s = CHR '','') \<and> is_digit (s ! 1)
      then dropWhile is_digit (tl s) else s)"

definition take_zone :: "string \<Rightarrow> int option" where
  "take_zone s =
     (if s = ''Z'' then Some 0
      else if length s = 6 \<and> s ! 3 = CHR '':'' then
        Option.bind (take_digits 2 (take 2 (drop 1 s))) (\<lambda>(h, _).
        Option.bind (take_digits 2 (drop 4 s)) (\<lambda>(m, _).
          if h > 24 \<or> m > 60 then None
          else if hd s = CHR ''+'' then Some (int (h * 60 + m) * 60)
          else if hd s = CHR ''-'' then Some (- (int (h * 60 + m) * 60))
          else None))
      else None)"

definition parse_rfc3339 :: "string \<Rightarrow> (int \<times> nat \<times> nat \<times> int \<times> int) option" where
  "parse_rfc3339 s =
     Option.bind (take_digits 4 s) (\<lambda>(y, s).
     Option.bind (take_literal CHR ''-'' s) (\<lambda>s.
     Option.bind (take_digits 2 s) (\<lambda>(mo, s).
     Option.bind (take_literal CHR ''-'' s) (\<lambda>s.
     Option.bind (take_digits 2 s) (\<lambda>(d, s).
     Option.bind (take_literal CHR ''T'' s) (\<lambda>s.
     Option.bind (take_hour s) (\<lambda>(h, s).
     Option.bind (take_literal CHR '':'' s) (\<lambda>s.
     Option.bind (take_digits 2 s) (\<lambda>(mi, s).
     Option.bind (take_literal CHR '':'' s) (\<lambda>s.
     Option.bind (take_digits 2 s) (\<lambda>(sec, s).
     Option.bind (take_zone (skip_fraction s)) (\<lambda>off.
       if valid_date (int y) mo d \<and> h < 24 \<and> mi < 60 \<and> sec < 60
       then Some (int y, mo, d, int (h * 3600 + mi * 60 + sec), off) else None))))))))))))"

definition next_day :: "int \<times> nat \<times> nat \<Rightarrow> int \<times> nat \<times> nat" where
  "next_day = (\<lambda>(y, m, d). if d < days_in m y then (y, m, d + 1) else if m < 12 then (y, m + 1, 1) else (y + 1, 1, 1))"

definition prev_day :: "int \<times> nat \<times> nat \<Rightarrow> int \<times> nat \<times> nat" where
  "prev_day = (\<lambda>(y, m, d). if d > 1 then (y, m, d - 1) else if m > 1 then (y, m - 1, days_in (m - 1) y) else (y - 1, 12, 31))"

definition shift_days :: "int \<Rightarrow> int \<times> nat \<times> nat \<Rightarrow> int \<times> nat \<times> nat" where
  "shift_days k date = (if k \<ge> 0 then (next_day ^^ nat k) date else (prev_day ^^ nat (- k)) date)"

definition pad :: "nat \<Rightarrow> nat \<Rightarrow> string" where
  "pad w n = replicate (w - length (show_nat n)) CHR ''0'' @ show_nat n"

definition pad_year :: "int \<Rightarrow> string" where
  "pad_year y = (if y < 0 then CHR ''-'' # pad 4 (nat (- y)) else pad 4 (nat y))"

text \<open>\<open>stamp.UTC().Format("2006-01-02T15-04-05")\<close>.\<close>

definition utc_stamp :: "int \<times> nat \<times> nat \<times> int \<times> int \<Rightarrow> string" where
  "utc_stamp = (\<lambda>(y, m, d, sec, off).
     let t = sec - off; (y', m', d') = shift_days (t div 86400) (y, m, d); r = nat (t mod 86400) in
     pad_year y' @ ''-'' @ pad 2 m' @ ''-'' @ pad 2 d' @ ''T'' @
     pad 2 (r div 3600) @ ''-'' @ pad 2 (r div 60 mod 60) @ ''-'' @ pad 2 (r mod 60))"

section \<open>Names\<close>

definition prerequisite_root :: string where
  "prerequisite_root = ''archived_sessions/.hcorral-history/''"

definition prerequisite_path :: "string \<Rightarrow> bool" where
  "prerequisite_path path = has_prefix path prerequisite_root"

text \<open>Thread and rollout identifiers of a canonical file name.\<close>

definition name_core :: "string \<Rightarrow> string" where
  "name_core name = trim_suffix (trim_prefix name ''rollout-'') ''.jsonl''"

definition parse_name :: "string \<Rightarrow> candidate option" where
  "parse_name path =
     (let name = trim_suffix (path_base path) ''.zst'' in
      if \<not> has_prefix name ''rollout-'' \<or> \<not> has_suffix name ''.jsonl'' then None
      else let core = name_core name in
      if length core < 20 \<or> core ! 19 \<noteq> CHR ''-'' then None
      else if \<not> valid_stamp (take 19 core) then None
      else (case cut_char CHR ''_'' (drop 20 core) of (thread, rest, forked) \<Rightarrow>
        (case (parse_id thread, parse_id (if forked then rest else thread)) of
           (Inr t, Inr r) \<Rightarrow> Some \<lparr>cn_path = path, cn_thread = t, cn_rollout = r\<rparr>
         | _ \<Rightarrow> None)))"

definition canonical_name :: "rollout_file \<Rightarrow> (session_error, string) result" where
  "canonical_name f =
     (let name = path_base (trim_suffix (rf_path f) ''.zst'') in
      if parse_name name \<noteq> None then Inr name
      else if sm_mode (rf_meta f) \<noteq> ''legacy'' then Inl (Refused ''paginated rollout requires a canonical filename'')
      else case parse_rfc3339 (sm_timestamp (rf_meta f)) of
        None \<Rightarrow> Inl (Refused ''legacy rollout has neither a canonical filename nor a usable timestamp'')
      | Some t \<Rightarrow> Inr (''rollout-'' @ utc_stamp t @ ''-'' @ rf_thread f @ ''.jsonl''))"

definition publication_path :: "rollout_file \<Rightarrow> (session_error, string) result" where
  "publication_path f =
     bindE (canonical_name f) (\<lambda>name.
       let (thread, rollout) = (case parse_name name of None \<Rightarrow> ([], []) | Some c \<Rightarrow> (cn_thread c, cn_rollout c)) in
       if thread \<noteq> rf_thread f \<or> rollout \<noteq> rf_rollout f
       then Inl (Refused ''rollout filename and manifest identity disagree'')
       else if rf_prefix f then Inr (prerequisite_root @ rf_rollout f @ ''/'' @ name)
       else if has_prefix (rf_path f) ''archived_sessions/'' then Inr (''archived_sessions/'' @ name)
       else Inr (''sessions/'' @ map (\<lambda>c. if c = CHR ''-'' then CHR ''/'' else c) (take 10 (trim_prefix name ''rollout-''))
              @ ''/'' @ name))"

section \<open>Places\<close>

definition resolve_host_home :: "string \<Rightarrow> string \<Rightarrow> string \<Rightarrow> string \<Rightarrow> (session_error, string) result" where
  "resolve_host_home explicit codexHome userHome callerDir =
     (let path = (if explicit = [] then codexHome else explicit) in
      bindE (if path = [] then
               (if userHome = [] then Inl (Refused ''HOME is required when no host Codex home is specified'')
                else Inr (path_join [userHome, ''.codex'']))
             else Inr path) (\<lambda>path.
      bindE (if \<not> is_abs path then
               (if \<not> is_abs callerDir then Inl (Refused ''caller directory must be absolute'')
                else Inr (path_join [callerDir, path]))
             else Inr path) (\<lambda>path. Inr (clean path))))"

definition valid_relative :: "string \<Rightarrow> bool" where
  "valid_relative name =
     (name \<noteq> ''.'' \<and> is_local name \<and> clean name = name \<and> \<not> contains_any name [CHR 0x5C, CHR 0x00])"

text \<open>The first of the home's two paths below which the selected rollout lies.\<close>

definition relative_to :: "string list \<Rightarrow> string \<Rightarrow> string" where
  "relative_to roots path =
     (case find (\<lambda>root. case path_rel root path of None \<Rightarrow> False | Some r \<Rightarrow> valid_relative r) roots of
        None \<Rightarrow> path
      | Some root \<Rightarrow> the (path_rel root path))"

definition in_storage :: "string \<Rightarrow> bool" where
  "in_storage path = (has_prefix path ''sessions/'' \<or> has_prefix path ''archived_sessions/'')"

definition managed_relative :: "string \<Rightarrow> string \<Rightarrow> string \<Rightarrow> (session_error, string) result" where
  "managed_relative homePath logicalPath path =
     (let path' = (if is_abs path then relative_to [homePath, logicalPath] path else path) in
      if \<not> valid_relative path' \<or> \<not> in_storage path' \<or>
         (\<not> has_suffix path' ''.jsonl'' \<and> \<not> has_suffix path' ''.jsonl.zst'')
      then Inl (Refused ''selected rollout is outside managed session storage'') else Inr path')"

section \<open>Identifiers are lower case\<close>

definition id_char :: "char \<Rightarrow> bool" where
  "id_char c \<longleftrightarrow> lower_hex c \<or> c = CHR ''-''"

definition name_char :: "char \<Rightarrow> bool" where
  "name_char c \<longleftrightarrow> is_digit c \<or> is_lower c \<or> is_upper c \<or> c \<in> set ''-_.''"

lemma uuid_chars: "uuid_pattern s \<Longrightarrow> c \<in> set s \<Longrightarrow> id_char c"
  by (fastforce simp: uuid_pattern_def id_char_def list_all_iff in_set_conv_nth split: if_split_asm)

lemma lower_char_id: "id_char c \<Longrightarrow> lower_char c = c"
  by (auto simp: id_char_def lower_char_def lower_hex_code is_upper_code)

lemma lower_char_name: "id_char (lower_char c) \<Longrightarrow> name_char c"
  by (auto simp: id_char_def lower_char_def lower_hex_code name_char_def char_class_code
      split: if_split_asm)

lemma id_char_name: "id_char c \<Longrightarrow> name_char c"
  using lower_char_name lower_char_id by metis

lemma id_char_plain: "id_char c \<Longrightarrow> c \<noteq> CHR 0xC4 \<and> c \<noteq> CHR 0xE2"
  by (auto simp: id_char_def lower_hex_code)

lemma to_lower_id: "(\<And>c. c \<in> set s \<Longrightarrow> id_char c) \<Longrightarrow> to_lower s = s"
  by (induction s rule: to_lower.induct) (auto simp: lower_char_id dest: id_char_plain)

lemma to_lower_name: "list_all id_char (to_lower s) \<Longrightarrow> list_all name_char s"
proof (induction s rule: to_lower.induct)
  case (2 a s)
  have "\<not> id_char CHR ''i''" "\<not> id_char CHR ''k''" by (simp_all add: id_char_def lower_hex_code)
  with 2 show ?case by (auto simp: lower_char_name split: if_split_asm)
qed simp

lemma parse_id_Inr: "parse_id v = Inr i \<longleftrightarrow> i = to_lower v \<and> uuid_pattern i"
  by (auto simp: parse_id_def Let_def)

lemma parse_id_fixed: "parse_id v = Inr i \<Longrightarrow> parse_id i = Inr i"
  using uuid_chars to_lower_id [of i] by (auto simp: parse_id_Inr)

lemma parse_id_chars: "parse_id v = Inr i \<Longrightarrow> c \<in> set v \<Longrightarrow> name_char c"
  using to_lower_name [of v] uuid_chars [of "to_lower v"] by (auto simp: parse_id_Inr list_all_iff)

lemma parse_id_length: "parse_id v = Inr i \<Longrightarrow> length i = 36"
  by (auto simp: parse_id_Inr uuid_pattern_def)

section \<open>Canonical names\<close>

lemma stamp_chars: "stamp_shape s \<Longrightarrow> c \<in> set s \<Longrightarrow> name_char c"
proof -
  assume s: "stamp_shape s" and "c \<in> set s"
  then obtain i where i: "i < 19" "c = s ! i" by (metis in_set_conv_nth stamp_shape_def)
  then have "if i \<in> {4, 7, 13, 16} then c = CHR ''-'' else if i = 10 then c = CHR ''T'' else is_digit c"
    using s by (auto simp: stamp_shape_def list_all_iff)
  then show ?thesis by (auto simp: name_char_def is_upper_code split: if_split_asm)
qed

lemma cut_char_set: "cut_char c s = (a, b, ok) \<Longrightarrow> set s \<subseteq> insert c (set a \<union> set b)"
  by (induction s arbitrary: a) (auto split: prod.splits if_split_asm)

lemma parse_nameD:
  assumes "parse_name path = Some c"
  obtains core where "trim_suffix (path_base path) ''.zst'' = ''rollout-'' @ core @ ''.jsonl''"
    "20 \<le> length core" "valid_stamp (take 19 core)" "list_all name_char core" "cn_path c = path"
    "parse_id (cn_thread c) = Inr (cn_thread c)" "parse_id (cn_rollout c) = Inr (cn_rollout c)"
proof -
  define name where "name = trim_suffix (path_base path) ''.zst''"
  define core where "core = name_core name"
  obtain thread rest forked where cut: "cut_char CHR ''_'' (drop 20 core) = (thread, rest, forked)"
    by (cases "cut_char CHR ''_'' (drop 20 core)") auto
  have p: "has_prefix name ''rollout-''" "has_suffix name ''.jsonl''" and l: "20 \<le> length core"
    and m: "core ! 19 = CHR ''-''" and v: "valid_stamp (take 19 core)"
    using assms unfolding parse_name_def name_def core_def Let_def
    by (simp_all split: if_split_asm)
  obtain t r where ids: "parse_id thread = Inr t" "parse_id (if forked then rest else thread) = Inr r"
    and c: "c = \<lparr>cn_path = path, cn_thread = t, cn_rollout = r\<rparr>"
    using assms p l m v cut unfolding parse_name_def name_def [symmetric] core_def [symmetric] Let_def
    by (simp split: sum.splits)
  obtain b where b: "name = ''rollout-'' @ b" using p(1) by (auto simp: has_prefix_iff)
  have cb: "core = trim_suffix b ''.jsonl''"
    unfolding core_def name_core_def b by (rule arg_cong [OF trim_prefix_append])
  then have "6 \<le> length b" using l by (auto simp: trim_suffix_def split: if_split_asm)
  moreover obtain a where "name = a @ ''.jsonl''" using p(2) by (auto simp: has_suffix_iff)
  ultimately have "has_suffix b ''.jsonl''"
    unfolding has_suffix_iff b using append_eq_append_conv2 [of "''rollout-''" b a "''.jsonl''"]
    by (auto simp: append_eq_Cons_conv Cons_eq_append_conv)
  then have name: "name = ''rollout-'' @ core @ ''.jsonl''" using has_suffix_trim b cb by metis
  have rest: "x \<in> set (drop 20 core) \<Longrightarrow> name_char x" for x
  proof -
    assume "x \<in> set (drop 20 core)"
    then have "x = CHR ''_'' \<or> x \<in> set thread \<or> x \<in> set rest" using cut_char_set [OF cut] by auto
    moreover have "\<not> forked \<Longrightarrow> rest = []" using cut by (metis cut_char_found cut_char_not_found prod.inject split_list_first)
    ultimately show ?thesis
      using parse_id_chars [OF ids(1), of x] parse_id_chars [OF ids(2), of x]
      by (cases forked) (auto simp: name_char_def)
  qed
  have "list_all name_char core"
  proof -
    have "core = take 19 core @ core ! 19 # drop 20 core"
      using l id_take_nth_drop [of 19 core] by simp
    moreover have "list_all name_char (take 19 core)"
      using v stamp_chars by (auto simp: valid_stamp_def list_all_iff)
    moreover have "list_all name_char (core ! 19 # drop 20 core)"
      using m rest by (simp add: list_all_iff name_char_def)
    ultimately show ?thesis by (metis list_all_append)
  qed
  with name l v parse_id_fixed [OF ids(1)] parse_id_fixed [OF ids(2)] show thesis
    by (intro that [of core]) (simp_all add: name_def c)
qed

text \<open>The name alone decides, not the directory.\<close>

lemma path_base_component:
  assumes n: "n \<noteq> []" "slash \<notin> set n" shows "path_base (d @ slash # n) = n" "path_base n = n"
proof -
  have l: "last n \<noteq> slash" using n by (metis last_in_set)
  have drop: "rev (dropWhile (\<lambda>c. c = slash) (rev (e @ n))) = e @ n" for e
    using n(1) l by (cases n rule: rev_cases) auto
  have "last (split_char slash (d @ slash # n)) = n"
    using n by (simp add: split_char_snoc split_char_id)
  then show "path_base (d @ slash # n) = n"
    using drop [of "d @ [slash]"] n(1) by (simp add: path_base_def Let_def)
  show "path_base n = n"
    using drop [of "[]"] n by (simp add: path_base_def Let_def split_char_id)
qed

lemma name_char_no: "list_all name_char s \<Longrightarrow> slash \<notin> set s \<and> CHR 0x5C \<notin> set s \<and> CHR 0x00 \<notin> set s"
  by (auto simp: list_all_iff name_char_def char_class_code slash_def)

lemma rollout_name_ordinary:
  "list_all name_char core \<Longrightarrow> ordinary (''rollout-'' @ core @ ''.jsonl'')"
  using name_char_no [of core] by (simp add: ordinary_def slash_def)

lemma parse_name_base:
  assumes "path_base p = path_base q" "parse_name q = Some c"
  shows "parse_name p = Some (c\<lparr>cn_path := p\<rparr>)"
  using assms unfolding parse_name_def Let_def
  by (auto split: if_split_asm sum.splits prod.splits)

lemma parse_name_cong:
  assumes "path_base p = path_base q"
  shows "parse_name p = None \<longleftrightarrow> parse_name q = None"
  using parse_name_base [OF assms] parse_name_base [OF assms [symmetric]] by (metis not_None_eq)

lemma has_suffix_append_left: "has_suffix s t \<Longrightarrow> has_suffix (d @ s) t"
  unfolding has_suffix_iff by (metis append.assoc)

lemma jsonl_not_zst: "trim_suffix (s @ ''.jsonl'') ''.zst'' = s @ ''.jsonl''"
  by (rule trim_suffix_id) (auto simp: has_suffix_def)

lemma valid_relative_parts:
  assumes "list_all ordinary (split_char slash p)" "list_all name_char (filter (\<lambda>c. c \<noteq> slash) p)" "p \<noteq> ''.''"
  shows "valid_relative p"
proof -
  have "CHR 0x5C \<notin> set p" "CHR 0x00 \<notin> set p"
    using assms(2) name_char_no [of "filter (\<lambda>c. c \<noteq> slash) p"] by (auto simp: slash_def)
  then show ?thesis
    using is_local_ordinary [OF assms(1)] assms(3) by (simp add: valid_relative_def contains_any_iff)
qed

definition name_part :: "string \<Rightarrow> bool" where
  "name_part s \<longleftrightarrow> list_all name_char s \<and> s \<noteq> [] \<and> s \<noteq> ''.'' \<and> s \<noteq> ''..''"

lemma name_part_ordinary: "name_part s \<Longrightarrow> ordinary s"
  using name_char_no [of s] by (simp add: name_part_def ordinary_def)

lemma ordinary_names:
  assumes "list_all name_part xs" "2 \<le> length xs"
  shows "valid_relative (join_char slash xs)"
proof (rule valid_relative_parts)
  have o: "list_all ordinary xs" using assms(1) by (auto simp: list_all_iff name_part_ordinary)
  have sp: "split_char slash (join_char slash xs) = xs"
  proof (rule split_join)
    show "xs \<noteq> []" using assms(2) by auto
    show "\<forall>x \<in> set xs. slash \<notin> set x" using o ordinaryD by (metis list_all_iff)
  qed
  then show "list_all ordinary (split_char slash (join_char slash xs))" using o by simp
  show "list_all name_char (filter (\<lambda>c. c \<noteq> slash) (join_char slash xs))"
  proof -
    have "c \<in> set (join_char slash xs) \<Longrightarrow> c \<noteq> slash \<Longrightarrow> name_char c" for c
      using set_join_char [of slash xs] assms(1) unfolding list_all_iff name_part_def by blast
    then show ?thesis by (simp add: list_all_iff)
  qed
  show "join_char slash xs \<noteq> ''.''"
  proof
    assume "join_char slash xs = ''.''"
    then have "xs = [''.'']" using sp by (simp add: slash_def)
    with assms(2) show False by simp
  qed
qed

lemma stamp_date:
  assumes "stamp_shape (take 19 s)"
  obtains a b c d e f g h where "take 10 s = [a, b, c, d, CHR ''-'', e, f, CHR ''-'', g, h]"
    "list_all is_digit [a, b, c, d, e, f, g, h]"
proof -
  have l: "19 \<le> length s" using assms by (auto simp: stamp_shape_def min_def split: if_split_asm)
  then have "take 10 s = map ((!) s) [0..<10]" by (intro nth_equalityI) simp_all
  then have "take 10 s = [s ! 0, s ! 1, s ! 2, s ! 3, s ! 4, s ! 5, s ! 6, s ! 7, s ! 8, s ! 9]"
    by (simp add: upt_conv_Cons eval_nat_numeral)
  moreover have ch: "if i \<in> {4, 7, 13, 16} then s ! i = CHR ''-'' else if i = 10 then s ! i = CHR ''T'' else is_digit (s ! i)"
    if i: "i < 19" for i
  proof -
    have "i \<in> set [0..<19]" using i by simp
    moreover have "take 19 s ! i = s ! i" using i by simp
    ultimately show ?thesis using assms unfolding stamp_shape_def list_all_iff by metis
  qed
  have "s ! 4 = CHR ''-''" "s ! 7 = CHR ''-''" "is_digit (s ! 0)" "is_digit (s ! 1)" "is_digit (s ! 2)"
    "is_digit (s ! 3)" "is_digit (s ! 5)" "is_digit (s ! 6)" "is_digit (s ! 8)" "is_digit (s ! 9)"
    using ch [of 4] ch [of 7] ch [of 0] ch [of 1] ch [of 2] ch [of 3] ch [of 5] ch [of 6] ch [of 8] ch [of 9]
    by simp_all
  ultimately show thesis
    by (intro that [of "s ! 0" "s ! 1" "s ! 2" "s ! 3" "s ! 5" "s ! 6" "s ! 8" "s ! 9"])
      simp_all
qed

lemma path_base_jsonl:
  assumes "has_suffix p ''.jsonl''"
  obtains b where "path_base p = b @ ''.jsonl''" "slash \<notin> set b"
proof -
  obtain q where q: "p = q @ ''.jsonl''" using assms by (auto simp: has_suffix_iff)
  show thesis
  proof (cases "slash \<in> set q")
    case True
    then obtain a b where ab: "q = a @ slash # b" "slash \<notin> set b" by (metis split_list_last)
    then have "path_base p = b @ ''.jsonl''"
      using path_base_component(1) [of "b @ ''.jsonl''" a] q by (auto simp: slash_def)
    with ab show thesis using that by blast
  next
    case False
    then have "path_base p = q @ ''.jsonl''"
      using path_base_component(2) [of p] q by (auto simp: slash_def)
    with False show thesis using that by blast
  qed
qed

lemma show_nat_name: "c \<in> set (show_nat n) \<Longrightarrow> name_char c"
  using show_nat_digits [of n] by (auto simp: all_digits_def list_all_iff name_char_def)

lemma name_char_literals: "name_char CHR ''-''" "name_char CHR ''T''" "name_char CHR ''0''"
  by (simp_all add: name_char_def char_class_code)

lemma pad_chars: "list_all name_char (pad w n)"
  using show_nat_name by (auto simp: pad_def list_all_iff name_char_literals)

lemma utc_stamp_chars: "list_all name_char (utc_stamp stamp)"
  by (simp add: utc_stamp_def pad_year_def Let_def case_prod_unfold pad_chars name_char_literals)

text \<open>A path that \<open>publicationPath\<close> gives, as its directory and its canonical name.\<close>

lemma publication_pathE:
  assumes p: "publication_path f = Inr p" and j: "has_suffix (rf_path f) ''.jsonl''"
    and t: "parse_id (rf_thread f) = Inr (rf_thread f)"
  obtains name core where "name = ''rollout-'' @ core @ ''.jsonl''" "list_all name_char core"
    "20 \<le> length core" "stamp_shape (take 19 core)"
    "parse_name name = Some \<lparr>cn_path = name, cn_thread = rf_thread f, cn_rollout = rf_rollout f\<rparr>"
    "parse_id (rf_rollout f) = Inr (rf_rollout f)"
    "p = (if rf_prefix f then prerequisite_root @ rf_rollout f @ ''/'' @ name
          else if has_prefix (rf_path f) ''archived_sessions/'' then ''archived_sessions/'' @ name
          else ''sessions/'' @ map (\<lambda>c. if c = CHR ''-'' then CHR ''/'' else c) (take 10 core) @ ''/'' @ name)"
proof -
  obtain name where n: "canonical_name f = Inr name" using p by (auto simp: publication_path_def result_iff)
  have ne: "rf_thread f \<noteq> []" using parse_id_length [OF t] by auto
  obtain c where c: "parse_name name = Some c" "cn_thread c = rf_thread f" "cn_rollout c = rf_rollout f"
    using p ne unfolding publication_path_def n bindE_simps Let_def
    by (auto split: option.splits if_split_asm)
  obtain core where core: "trim_suffix (path_base name) ''.zst'' = ''rollout-'' @ core @ ''.jsonl''"
    "20 \<le> length core" "valid_stamp (take 19 core)" "list_all name_char core" "cn_path c = name"
    "parse_id (cn_rollout c) = Inr (cn_rollout c)"
    using parse_nameD [OF c(1)] by metis
  have name: "name = ''rollout-'' @ core @ ''.jsonl''"
  proof (cases "parse_name (path_base (trim_suffix (rf_path f) ''.zst'')) = None")
    case True
    then obtain at where at: "name = ''rollout-'' @ utc_stamp at @ ''-'' @ rf_thread f @ ''.jsonl''"
      using n by (auto simp: canonical_name_def Let_def split: if_split_asm option.splits)
    have "list_all name_char (utc_stamp at @ ''-'' @ rf_thread f)"
      using utc_stamp_chars [of at] parse_id_chars [OF t] by (auto simp: list_all_iff name_char_literals)
    then have "ordinary (''rollout-'' @ (utc_stamp at @ ''-'' @ rf_thread f) @ ''.jsonl'')"
      by (rule rollout_name_ordinary)
    then have "ordinary name" using at by simp
    then have "path_base name = name" by (intro path_base_component) (auto dest: ordinaryD)
    moreover have "trim_suffix name ''.zst'' = name"
      using jsonl_not_zst [of "''rollout-'' @ utc_stamp at @ ''-'' @ rf_thread f"] at by simp
    ultimately show ?thesis using core(1) by simp
  next
    case False
    obtain q where "rf_path f = q @ ''.jsonl''" using j by (auto simp: has_suffix_iff)
    then have "trim_suffix (rf_path f) ''.zst'' = rf_path f" using jsonl_not_zst by metis
    then have "name = path_base (rf_path f)"
      using n False by (simp add: canonical_name_def Let_def)
    then obtain b where b: "name = b @ ''.jsonl''" "slash \<notin> set b" using path_base_jsonl [OF j] by metis
    then have "path_base name = name" by (intro path_base_component) (auto simp: slash_def)
    then show ?thesis using core(1) b jsonl_not_zst by metis
  qed
  have c': "c = \<lparr>cn_path = name, cn_thread = rf_thread f, cn_rollout = rf_rollout f\<rparr>"
    using c core(5) by (cases c) simp
  have st: "stamp_shape (take 19 core)" using core(3) by (simp add: valid_stamp_def)
  have d: "take 10 (trim_prefix name ''rollout-'') = take 10 core"
    unfolding name trim_prefix_append using core(2) by simp
  show thesis
    using p that [OF name core(4,2) st] c c' core(6) unfolding publication_path_def n bindE_simps Let_def
    by (auto simp: d split: if_split_asm)
qed

lemma id_part: "parse_id i = Inr i \<Longrightarrow> name_part i"
  using parse_id_length [of i i] parse_id_chars [of i i] by (auto simp: name_part_def list_all_iff)

lemma rollout_part: "list_all name_char core \<Longrightarrow> name_part (''rollout-'' @ core @ ''.jsonl'')"
  by (simp add: name_part_def name_char_def char_class_code)

lemma fixed_parts:
  "name_part ''sessions''" "name_part ''archived_sessions''" "name_part ''.hcorral-history''"
  by (simp_all add: name_part_def name_char_def char_class_code)

lemma publication_parts:
  assumes "publication_path f = Inr p" "has_suffix (rf_path f) ''.jsonl''" "parse_id (rf_thread f) = Inr (rf_thread f)"
  obtains dirs name where "p = join_char slash (dirs @ [name])" "dirs \<noteq> []" "list_all name_part (dirs @ [name])"
    "has_suffix name ''.jsonl''"
    "parse_name name = Some \<lparr>cn_path = name, cn_thread = rf_thread f, cn_rollout = rf_rollout f\<rparr>"
    "p = join_char slash dirs @ slash # name"
    "in_storage p" "prerequisite_path p = rf_prefix f"
    "rf_prefix f \<or> has_prefix p ''archived_sessions/'' = has_prefix (rf_path f) ''archived_sessions/''"
proof -
  obtain name core where n: "name = ''rollout-'' @ core @ ''.jsonl''" "list_all name_char core"
    "20 \<le> length core" "stamp_shape (take 19 core)"
    "parse_name name = Some \<lparr>cn_path = name, cn_thread = rf_thread f, cn_rollout = rf_rollout f\<rparr>"
    "parse_id (rf_rollout f) = Inr (rf_rollout f)"
    and p: "p = (if rf_prefix f then prerequisite_root @ rf_rollout f @ ''/'' @ name
          else if has_prefix (rf_path f) ''archived_sessions/'' then ''archived_sessions/'' @ name
          else ''sessions/'' @ map (\<lambda>c. if c = CHR ''-'' then CHR ''/'' else c) (take 10 core) @ ''/'' @ name)"
    by (rule publication_pathE [OF assms])
  have nm: "name_part name" "has_suffix name ''.jsonl''"
    using rollout_part [OF n(2)] n(1) by (auto simp: has_suffix_iff intro: exI [of _ "''rollout-'' @ core"])
  obtain a b c d e f' g h where date: "take 10 core = [a, b, c, d, CHR ''-'', e, f', CHR ''-'', g, h]"
    "list_all is_digit [a, b, c, d, e, f', g, h]"
    by (rule stamp_date [OF n(4)])
  have dg: "name_part [a, b, c, d]" "name_part [e, f']" "name_part [g, h]"
    using date(2) by (auto simp: name_part_def name_char_def is_digit_code)
  have nd: "x \<noteq> CHR ''-''" if "is_digit x" for x using that by (auto simp: is_digit_code)
  define dirs where "dirs = (if rf_prefix f then [''archived_sessions'', ''.hcorral-history'', rf_rollout f]
     else if has_prefix (rf_path f) ''archived_sessions/'' then [''archived_sessions'']
     else [''sessions'', [a, b, c, d], [e, f'], [g, h]])"
  have pd: "p = join_char slash dirs @ slash # name"
    using date nd by (auto simp: p dirs_def prerequisite_root_def slash_def)
  moreover have "dirs \<noteq> []" by (simp add: dirs_def)
  moreover have "list_all name_part (dirs @ [name])"
    using nm dg id_part [OF n(6)] by (simp add: dirs_def fixed_parts)
  moreover have "in_storage p" "prerequisite_path p = rf_prefix f"
    "rf_prefix f \<or> has_prefix p ''archived_sessions/'' = has_prefix (rf_path f) ''archived_sessions/''"
    by (auto simp: p in_storage_def prerequisite_path_def prerequisite_root_def n(1) split: if_split_asm)
  ultimately show thesis
    using that [of dirs name] nm(2) n(5) join_char_snoc [of dirs slash name] by metis
qed

lemma publication_path_date:
  assumes "publication_path f = Inr p" "has_suffix (rf_path f) ''.jsonl''" "parse_id (rf_thread f) = Inr (rf_thread f)"
  shows "publication_path (f\<lparr>rf_path := p\<rparr>) = Inr p"
proof -
  obtain name core where n: "name = ''rollout-'' @ core @ ''.jsonl''" "list_all name_char core"
    "20 \<le> length core" "stamp_shape (take 19 core)"
    "parse_name name = Some \<lparr>cn_path = name, cn_thread = rf_thread f, cn_rollout = rf_rollout f\<rparr>"
    and p: "p = (if rf_prefix f then prerequisite_root @ rf_rollout f @ ''/'' @ name
          else if has_prefix (rf_path f) ''archived_sessions/'' then ''archived_sessions/'' @ name
          else ''sessions/'' @ map (\<lambda>c. if c = CHR ''-'' then CHR ''/'' else c) (take 10 core) @ ''/'' @ name)"
    by (rule publication_pathE [OF assms])
  obtain dirs nm where "p = join_char slash (dirs @ [nm])" "dirs \<noteq> []" and parts: "list_all name_part (dirs @ [nm])"
    and suffix: "has_suffix nm ''.jsonl''"
    and "parse_name nm = Some \<lparr>cn_path = nm, cn_thread = rf_thread f, cn_rollout = rf_rollout f\<rparr>"
    and whole: "p = join_char slash dirs @ slash # nm" and "in_storage p" "prerequisite_path p = rf_prefix f"
    and archived: "rf_prefix f \<or> has_prefix p ''archived_sessions/'' = has_prefix (rf_path f) ''archived_sessions/''"
    by (rule publication_parts [OF assms])
  have no: "slash \<notin> set name" "slash \<notin> set nm" "nm \<noteq> []" "name \<noteq> []"
    using ordinaryD [OF rollout_name_ordinary [OF n(2)]] ordinaryD [OF name_part_ordinary, of nm] parts
    unfolding n(1) [symmetric] by simp_all
  have nn: "nm = name"
  proof -
    have "\<exists>e. p = e @ slash # name" by (auto simp: p slash_def prerequisite_root_def)
    then have "path_base p = name" using path_base_component(1) [OF no(4,1)] by blast
    moreover have "path_base p = nm" using path_base_component(1) [OF no(3,2)] whole by blast
    ultimately show ?thesis by simp
  qed
  have "has_suffix p ''.jsonl''" using suffix whole has_suffix_append_left [of nm _ "join_char slash dirs @ [slash]"] by simp
  then have z: "trim_suffix p ''.zst'' = p" using jsonl_not_zst by (auto simp: has_suffix_iff)
  have base: "path_base p = name" using path_base_component(1) [OF no(4,1)] whole nn by blast
  have cn: "canonical_name (f\<lparr>rf_path := p\<rparr>) = Inr name"
    by (simp add: canonical_name_def z base n(5))
  have t: "take 10 (trim_prefix name ''rollout-'') = take 10 core"
    unfolding n(1) trim_prefix_append using n(3) by simp
  have "publication_path (f\<lparr>rf_path := p\<rparr>) = Inr
      (if rf_prefix f then prerequisite_root @ rf_rollout f @ ''/'' @ name
       else if has_prefix p ''archived_sessions/'' then ''archived_sessions/'' @ name
       else ''sessions/'' @ map (\<lambda>c. if c = CHR ''-'' then CHR ''/'' else c) (take 10 core) @ ''/'' @ name)"
    by (simp add: publication_path_def cn n(5) t)
  also have "\<dots> = Inr p"
  proof (cases "rf_prefix f")
    case True
    then show ?thesis using p by (simp only: if_True)
  next
    case False
    then have "has_prefix p ''archived_sessions/'' = has_prefix (rf_path f) ''archived_sessions/''"
      using archived by blast
    with False show ?thesis using p by (simp only: if_False)
  qed
  finally show ?thesis .
qed

section \<open>A sample\<close>

definition sample_id :: string where
  "sample_id = ''0190a1b2-c3d4-7e5f-8a9b-0c1d2e3f4a5b''"

definition sample_meta :: metadata where
  "sample_meta = \<lparr>sm_thread = sample_id, sm_timestamp = ''2026-03-01T0:30:00.25+01:00'', sm_version = ''1'',
     sm_cwd = ''/w'', sm_mode = ''legacy'', sm_base = None\<rparr>"

section \<open>Properties\<close>

text \<open>C34: Publication paths are canonical: the path \<open>publicationPath\<close> gives for a decoded rollout
  stays below the session directories of the home, names the rollout it was made for, is a
  managed prerequisite exactly when the file is an inherited prefix, and is a fixed point, so
  the receiver recomputes the path the sender announced.\<close>

theorem publication_path_canonical:
  assumes "publication_path f = Inr p" "has_suffix (rf_path f) ''.jsonl''" "parse_id (rf_thread f) = Inr (rf_thread f)"
  shows "valid_relative p \<and> in_storage p \<and> has_suffix p ''.jsonl'' \<and> prerequisite_path p = rf_prefix f \<and>
    parse_name p = Some \<lparr>cn_path = p, cn_thread = rf_thread f, cn_rollout = rf_rollout f\<rparr> \<and>
    publication_path (f\<lparr>rf_path := p\<rparr>) = Inr p"
proof -
  obtain dirs name where d: "p = join_char slash (dirs @ [name])" "dirs \<noteq> []" "list_all name_part (dirs @ [name])"
    "has_suffix name ''.jsonl''"
    "parse_name name = Some \<lparr>cn_path = name, cn_thread = rf_thread f, cn_rollout = rf_rollout f\<rparr>"
    "p = join_char slash dirs @ slash # name" "in_storage p" "prerequisite_path p = rf_prefix f"
    "rf_prefix f \<or> has_prefix p ''archived_sessions/'' = has_prefix (rf_path f) ''archived_sessions/''"
    by (rule publication_parts [OF assms])
  have n: "name \<noteq> []" "slash \<notin> set name" using d(3) ordinaryD [OF name_part_ordinary, of name] by simp_all
  have "path_base p = path_base name" using path_base_component [OF n] d(6) by simp
  then have "parse_name p = Some \<lparr>cn_path = p, cn_thread = rf_thread f, cn_rollout = rf_rollout f\<rparr>"
    using parse_name_base [OF _ d(5), of p] by simp
  moreover have "valid_relative p" unfolding d(1) using d(2,3) by (intro ordinary_names) (cases dirs; simp)+
  moreover have "has_suffix p ''.jsonl''"
    using d(4,6) has_suffix_append_left [of name _ "join_char slash dirs @ [slash]"] by simp
  ultimately show ?thesis using d(7,8) publication_path_date [OF assms] by blast
qed

definition sample_file :: rollout_file where
  "sample_file = \<lparr>rf_source = ''sessions/chat.jsonl'', rf_path = ''sessions/chat.jsonl'', rf_thread = sample_id,
     rf_rollout = sample_id, rf_bytes = 1, rf_sha256 = [], rf_modified = \<lparr>mo_nanos = 0, mo_year = 1970\<rparr>,
     rf_prefix = False, rf_meta = sample_meta, rf_last = 0, rf_stored = None\<rparr>"

lemma sample_path:
  "publication_path sample_file = Inr (''sessions/2026/02/28/rollout-2026-02-28T23-30-00-'' @ sample_id @ ''.jsonl'')"
  by code_simp

theorem publication_path_canonical_witness:
  "publication_path (sample_file\<lparr>rf_path := ''sessions/2026/02/28/rollout-2026-02-28T23-30-00-'' @ sample_id @ ''.jsonl''\<rparr>) =
     publication_path sample_file"
proof -
  have "has_suffix (rf_path sample_file) ''.jsonl''" "parse_id (rf_thread sample_file) = Inr (rf_thread sample_file)"
    by code_simp+
  then show ?thesis using publication_path_canonical [OF sample_path] sample_path by simp
qed

end
