(* ===== verification/Session_Rollout.thy ===== *)
theory Session_Rollout
  imports Session_Format Log_Lines
begin

text \<open>
  Reading a rollout (\<open>internal/session/rollout.go\<close>).  An input is the bytes its reader delivers
  and how they end: with EOF (\<open>None\<close>) or with an error, which \<open>in_eager\<close> readers return with the
  last bytes.  JSON decoding and zstd are parameters.  \<open>ctx n\<close> says whether the context is
  cancelled once \<open>n\<close> bytes of the input are taken.
\<close>

section \<open>Limits\<close>

record limits =
  lm_record :: int
  lm_file :: int
  lm_files :: int
  lm_manifest :: int

definition default_limits :: limits where
  "default_limits = \<lparr>lm_record = 256 * 2 ^ 20, lm_file = 64 * 2 ^ 30, lm_files = 4096, lm_manifest = 8 * 2 ^ 20\<rparr>"

definition valid_limits :: "limits \<Rightarrow> (session_error, unit) result" where
  "valid_limits l =
     (if lm_record l < 1 \<or> lm_file l < 1 \<or> lm_record l > lm_file l \<or> lm_files l < 1 \<or> lm_manifest l < 1
      then Inl (Refused ''session limits must be positive and record size must not exceed file size'')
      else Inr ())"

section \<open>Inputs\<close>

record input =
  in_bytes :: string
  in_error :: "string option"
  in_eager :: bool

record json_line =
  jl_type :: string
  jl_ordinal :: "u64 option"
  jl_payload :: string

record codec =
  cd_line :: "string \<Rightarrow> json_line option"
  cd_meta :: "string \<Rightarrow> metadata option"
  cd_zstd :: "input \<Rightarrow> input option"

definition newline :: char where
  "newline = CHR 0x0A"

text \<open>\<open>io.LimitReader\<close>: past the limit nothing is read, so a later error is not seen.\<close>

definition limit_input :: "nat \<Rightarrow> input \<Rightarrow> input" where
  "limit_input n i =
     (if n < length (in_bytes i) \<or> n = length (in_bytes i) \<and> \<not> in_eager i
      then \<lparr>in_bytes = take n (in_bytes i), in_error = None, in_eager = False\<rparr> else i)"

text \<open>\<open>io.NewSectionReader(f, 0, size)\<close>.\<close>

definition section_input :: "int \<Rightarrow> input \<Rightarrow> input" where
  "section_input n i = limit_input (nat n) i"

section \<open>Records\<close>

definition buffer_size :: nat where
  "buffer_size = 65536"

text \<open>
  \<open>ReadSlice('\n')\<close> of a buffered reader: a fragment up to the line feed, a full buffer without
  one, or what is left.
\<close>

datatype slice_end = AtNewline | BufferFull | AtEnd

definition read_slice :: "string \<Rightarrow> string \<times> slice_end" where
  "read_slice s =
     (let w = take buffer_size s; l = takeWhile (\<lambda>c. c \<noteq> newline) w in
      if newline \<in> set w then (l @ [newline], AtNewline)
      else if length s \<ge> buffer_size then (w, BufferFull) else (s, AtEnd))"

lemma read_slice_full: "read_slice s = (w, BufferFull) \<Longrightarrow> w = take buffer_size s \<and> buffer_size \<le> length s"
  by (auto simp: read_slice_def Let_def split: if_split_asm)

lemma takeWhile_split: "c \<notin> set l \<Longrightarrow> takeWhile (\<lambda>x. x \<noteq> c) (l @ c # t) = l"
  by (induction l) auto

lemma read_slice_newline:
  assumes "read_slice s = (w, AtNewline)"
  obtains l t where "w = l @ [newline]" "newline \<notin> set l" "s = w @ t" "length w \<le> buffer_size"
proof -
  have n: "newline \<in> set (take buffer_size s)" and w: "w = takeWhile (\<lambda>c. c \<noteq> newline) (take buffer_size s) @ [newline]"
    using assms by (auto simp: read_slice_def Let_def split: if_split_asm)
  obtain l t where l: "take buffer_size s = l @ newline # t" "newline \<notin> set l" using n by (metis split_list_first)
  have "w = l @ [newline]" using w l by (simp add: takeWhile_split)
  moreover have "s = w @ t @ drop buffer_size s"
    using append_take_drop_id [of buffer_size s] l(1) calculation by simp
  moreover have "length w \<le> buffer_size" using arg_cong [OF l(1), of length] calculation(1) by (auto simp: min_def split: if_split_asm)
  ultimately show thesis using l(2) that by blast
qed

text \<open>
  The loop of \<open>readRecord\<close>: the record so far, what is left of the input, and its end.  A clean
  end before any byte is \<open>Inr None\<close>, \<open>io.EOF\<close> with an empty record.
\<close>

function read_record ::
  "(nat \<Rightarrow> bool) \<Rightarrow> int \<Rightarrow> string option \<Rightarrow> nat \<Rightarrow> string \<Rightarrow> string \<Rightarrow> (session_error, (string \<times> string) option) result"
where
  "read_record ctx most err pos rec s =
     (if ctx pos then Inl Interrupted
      else case read_slice s of (fragment, e) \<Rightarrow>
        if int (length fragment) > most - int (length rec) then Inl (Refused ''record exceeds configured limit'')
        else let rec' = rec @ fragment; rest = drop (length fragment) s in
        (case e of
           BufferFull \<Rightarrow> read_record ctx most err (pos + length fragment) rec' rest
         | AtNewline \<Rightarrow> Inr (Some (rec', rest))
         | AtEnd \<Rightarrow>
             (case err of
                Some msg \<Rightarrow> Inl (Refused msg)
              | None \<Rightarrow> if rec' \<noteq> [] then Inl (Refused ''incomplete final JSONL record'') else Inr None)))"
  by pat_completeness auto
termination
  by (relation "measure (\<lambda>(ctx, most, err, pos, rec, s). length s)")
    (auto dest!: sym [of _ "read_slice _"] read_slice_full simp: buffer_size_def)

declare read_record.simps [simp del]

section \<open>Metadata\<close>

definition max_u64 :: u64 where
  "max_u64 = - 1"

definition validate_base :: "metadata \<Rightarrow> history_position \<Rightarrow> (session_error, metadata) result" where
  "validate_base meta base =
     (case parse_id (hp_rollout base) of
        Inl _ \<Rightarrow> Inl (Refused ''invalid inherited history'')
      | Inr i \<Rightarrow>
          if hp_ordinal base = 0 \<or> hp_ordinal base = max_u64 \<or> hp_offset base = 0 \<or> sm_mode meta \<noteq> ''paginated''
          then Inl (Refused ''invalid inherited history'')
          else Inr (meta\<lparr>sm_base := Some (base\<lparr>hp_rollout := i\<rparr>)\<rparr>))"

definition validate_metadata :: "metadata \<Rightarrow> candidate \<Rightarrow> (session_error, metadata) result" where
  "validate_metadata meta c =
     (case parse_id (sm_thread meta) of
        Inl _ \<Rightarrow> Inl (Refused ''session metadata disagrees with filename identity'')
      | Inr i \<Rightarrow>
          if i \<noteq> cn_thread c then Inl (Refused ''session metadata disagrees with filename identity'')
          else
            let meta1 = meta\<lparr>sm_thread := i, sm_mode := (if sm_mode meta = [] then ''legacy'' else sm_mode meta)\<rparr> in
            if sm_mode meta1 \<noteq> ''legacy'' \<and> sm_mode meta1 \<noteq> ''paginated'' then Inl (Refused ''unsupported history mode'')
            else (case sm_base meta1 of None \<Rightarrow> Inr meta1 | Some base \<Rightarrow> validate_base meta1 base))"

section \<open>The record loop\<close>

text \<open>
  The variables of the loop: the metadata, the bytes hashed and counted, the ordinal before and
  the number of records.
\<close>

record reading =
  rd_meta :: metadata
  rd_saw :: bool
  rd_content :: string
  rd_previous :: u64
  rd_records :: nat

definition no_metadata :: metadata where
  "no_metadata = \<lparr>sm_thread = [], sm_timestamp = [], sm_version = [], sm_cwd = [], sm_mode = [], sm_base = None\<rparr>"

definition start_reading :: reading where
  "start_reading = \<lparr>rd_meta = no_metadata, rd_saw = False, rd_content = [], rd_previous = 0, rd_records = 0\<rparr>"

text \<open>\<open>utf8.Valid\<close>.\<close>

function valid_utf8 :: "string \<Rightarrow> bool" where
  "valid_utf8 [] = True"
| "valid_utf8 (c # s) =
     (case decode_rune (c # s) of (r, k) \<Rightarrow>
        \<not> (r = 65533 \<and> k = 1) \<and> valid_utf8 (drop k (c # s)))"
  by pat_completeness auto
termination
proof (relation "measure length", goal_cases)
  case (2 c s r k)
  then have "k > 0" using decode_rune_size [of "c # s"] by (metis snd_conv)
  then show ?case by simp
qed simp

definition take_metadata ::
  "codec \<Rightarrow> candidate \<Rightarrow> reading \<Rightarrow> json_line \<Rightarrow> (session_error, reading) result" where
  "take_metadata cd c st line =
     (if jl_type line = ''session_meta'' \<and> \<not> rd_saw st then
        (case cd_meta cd (jl_payload line) of
           None \<Rightarrow> Inl (Refused ''invalid session metadata'')
         | Some m \<Rightarrow>
             bindE (validate_metadata m c) (\<lambda>meta.
               if sm_mode meta = ''paginated'' \<and> rd_records st \<noteq> 0
               then Inl (Refused ''paginated rollout does not begin with session metadata'')
               else Inr (st\<lparr>rd_meta := meta, rd_saw := True\<rparr>)))
      else if jl_type line = ''session_meta'' \<and> sm_mode (rd_meta st) = ''paginated''
      then Inl (Refused ''repeated session metadata'')
      else Inr st)"

definition initial_ordinal :: "metadata \<Rightarrow> u64" where
  "initial_ordinal meta = (case sm_base meta of None \<Rightarrow> 0 | Some base \<Rightarrow> hp_ordinal base)"

definition take_ordinal :: "reading \<Rightarrow> json_line \<Rightarrow> (session_error, reading) result" where
  "take_ordinal st line =
     (if sm_mode (rd_meta st) = ''paginated'' then
        (case jl_ordinal line of
           None \<Rightarrow> Inl (Refused ''missing paginated ordinal'')
         | Some n \<Rightarrow>
             if rd_records st = 0 \<and> n \<noteq> initial_ordinal (rd_meta st)
             then Inl (Refused ''metadata ordinal disagrees with inherited history'')
             else if rd_records st \<noteq> 0 \<and> n \<le> rd_previous st
             then Inl (Refused ''non-increasing paginated ordinals'')
             else Inr (st\<lparr>rd_previous := n\<rparr>))
      else Inr st)"

definition take_record ::
  "codec \<Rightarrow> limits \<Rightarrow> candidate \<Rightarrow> reading \<Rightarrow> string \<Rightarrow> (session_error, reading) result" where
  "take_record cd l c st bytes =
     (if int (length bytes) > lm_file l - int (length (rd_content st))
      then Inl (Refused ''rollout exceeds the configured file limit'')
      else if \<not> valid_utf8 bytes then Inl (Refused ''invalid UTF-8'')
      else case cd_line cd bytes of
        None \<Rightarrow> Inl (Refused ''invalid JSON'')
      | Some line \<Rightarrow>
          if jl_type line = [] \<or> jl_payload line = [] then Inl (Refused ''missing record type or payload'')
          else
            bindE (take_metadata cd c st line) (\<lambda>st.
            bindE (take_ordinal st line) (\<lambda>st.
              Inr (st\<lparr>rd_content := rd_content st @ bytes, rd_records := rd_records st + 1\<rparr>))))"

lemma read_record_shorter:
  "read_record ctx most err pos rec s = Inr (Some (r, rest)) \<Longrightarrow> length rest < length s"
proof (induction ctx most err pos rec s rule: read_record.induct)
  case (1 ctx most err pos rec s)
  obtain w e where sl: "read_slice s = (w, e)" by fastforce
  show ?case
  proof (cases e)
    case AtNewline
    then obtain l t where "w = l @ [newline]" "s = w @ t" using sl by (auto elim: read_slice_newline)
    then show ?thesis using 1(2) sl AtNewline
      by (subst (asm) read_record.simps) (auto simp: Let_def split: if_split_asm)
  next
    case BufferFull
    then have "0 < length w" "length w \<le> length s" using read_slice_full [of s w] sl by (auto simp: buffer_size_def)
    then show ?thesis using 1 sl BufferFull
      by (subst (asm) (2) read_record.simps) (fastforce simp: Let_def split: if_split_asm)
  next
    case AtEnd
    then show ?thesis using 1(2) sl
      by (subst (asm) read_record.simps) (auto simp: Let_def split: if_split_asm option.splits)
  qed
qed

function read_records ::
  "codec \<Rightarrow> limits \<Rightarrow> candidate \<Rightarrow> (nat \<Rightarrow> bool) \<Rightarrow> string option \<Rightarrow> reading \<Rightarrow> string \<Rightarrow> (session_error, reading) result"
where
  "read_records cd l c ctx err st s =
     (if ctx (length (rd_content st)) then Inl Interrupted
      else case read_record ctx (lm_record l) err (length (rd_content st)) [] s of
        Inl e \<Rightarrow> Inl e
      | Inr None \<Rightarrow> Inr st
      | Inr (Some (bytes, rest)) \<Rightarrow>
          bindE (take_record cd l c st bytes) (\<lambda>st'. read_records cd l c ctx err st' rest))"
  by pat_completeness auto
termination
  by (relation "measure (\<lambda>(cd, l, c, ctx, err, st, s). length s)") (auto dest!: read_record_shorter)

declare read_records.simps [simp del]

section \<open>The boundary of what is saved\<close>

definition last_index :: "string \<Rightarrow> nat option" where
  "last_index s =
     (if newline \<in> set s then Some (length s - 1 - length (takeWhile (\<lambda>c. c \<noteq> newline) (rev s))) else None)"

text \<open>
  The backward scan of \<open>savedRecordBoundary\<close> in blocks of the buffer's size; \<open>data\<close> is what
  \<open>ReadAt\<close> finds in the file, and a short read is its error.
\<close>

function saved_boundary ::
  "(nat \<Rightarrow> bool) \<Rightarrow> string \<Rightarrow> nat \<Rightarrow> int \<Rightarrow> nat \<Rightarrow> (session_error, nat) result"
where
  "saved_boundary ctx data sz most remaining =
     (if remaining = 0 then Inl (Refused ''conversation has no complete saved records yet'')
      else if ctx remaining then Inl Interrupted
      else
        let count = min remaining buffer_size; block = take count (drop (remaining - count) data) in
        if length block < count then Inl (Refused ''read'')
        else case last_index block of
          Some i \<Rightarrow>
            let boundary = remaining - count + i + 1 in
            if int sz - int boundary > most then Inl (Refused ''unfinished record exceeds configured limit'')
            else Inr boundary
        | None \<Rightarrow>
            if int sz - int (remaining - count) > most
            then Inl (Refused ''unfinished record exceeds configured limit'')
            else saved_boundary ctx data sz most (remaining - count))"
  by pat_completeness auto
termination
  by (relation "measure (\<lambda>(ctx, data, sz, most, remaining). remaining)") (auto simp: buffer_size_def)

declare saved_boundary.simps [simp del]

section \<open>Reading an open rollout\<close>

text \<open>
  What one call meets: the two answers of \<open>Stat\<close>, the file as \<open>ReadAt\<close> and as sequential reads
  find it, and whether the context is cancelled at a position of the scan and of the input.
\<close>

record opened =
  op_before :: "stat option"
  op_after :: "stat option"
  op_scan :: string
  op_input :: input
  op_scan_cancel :: "nat \<Rightarrow> bool"
  op_cancel :: "nat \<Rightarrow> bool"

definition compressed :: "string \<Rightarrow> bool" where
  "compressed path = has_suffix path ''.zst''"

definition captured_input ::
  "opened \<Rightarrow> stat \<Rightarrow> candidate \<Rightarrow> history_position option \<Rightarrow> limits \<Rightarrow> bool \<Rightarrow> (session_error, input) result" where
  "captured_input opn before c end_at l snap =
     (if \<not> snap then Inr (op_input opn)
      else bindE
        (if end_at = None \<and> \<not> compressed (cn_path c)
         then bindE (saved_boundary (op_scan_cancel opn) (op_scan opn) (nat (st_size before)) (lm_record l)
                (nat (st_size before))) (\<lambda>n. Inr (int n))
         else Inr (st_size before))
        (\<lambda>n. Inr (section_input n (op_input opn))))"

definition decoded_input :: "codec \<Rightarrow> candidate \<Rightarrow> input \<Rightarrow> (session_error, input) result" where
  "decoded_input cd c i =
     (if compressed (cn_path c) then try_opt (Refused ''open compressed rollout'') (cd_zstd cd i) else Inr i)"

definition bounded_input ::
  "limits \<Rightarrow> history_position option \<Rightarrow> input \<Rightarrow> (session_error, input) result" where
  "bounded_input l end_at i =
     (case end_at of
        None \<Rightarrow> Inr i
      | Some e \<Rightarrow>
          if hp_offset e = 0 \<or> uint (hp_offset e) > lm_file l \<or> hp_ordinal e = 0
          then Inl (Refused ''invalid history boundary'')
          else Inr (limit_input (unat (hp_offset e)) i))"

text \<open>The checks after the loop.\<close>

definition boundary_holds :: "reading \<Rightarrow> history_position \<Rightarrow> bool" where
  "boundary_holds st e =
     (sm_mode (rd_meta st) = ''paginated'' \<and> int (length (rd_content st)) = uint (hp_offset e) \<and>
      rd_previous st \<noteq> max_u64 \<and> rd_previous st + 1 = hp_ordinal e)"

definition unchanged :: "stat \<Rightarrow> stat \<Rightarrow> bool" where
  "unchanged before after =
     (st_size before = st_size after \<and> mo_nanos (st_modified before) = mo_nanos (st_modified after))"

definition finished_file :: "candidate \<Rightarrow> history_position option \<Rightarrow> stat \<Rightarrow> reading \<Rightarrow> rollout_file" where
  "finished_file c end_at before st =
     \<lparr>rf_source = cn_path c, rf_path = trim_suffix (cn_path c) ''.zst'', rf_thread = cn_thread c,
      rf_rollout = cn_rollout c, rf_bytes = int (length (rd_content st)), rf_sha256 = sha256_hex (rd_content st),
      rf_modified = st_modified before, rf_prefix = (end_at \<noteq> None), rf_meta = rd_meta st,
      rf_last = rd_previous st, rf_stored = Some before\<rparr>"

definition finish_reading ::
  "opened \<Rightarrow> stat \<Rightarrow> candidate \<Rightarrow> history_position option \<Rightarrow> bool \<Rightarrow> reading \<Rightarrow> (session_error, rollout_file) result" where
  "finish_reading opn before c end_at snap st =
     ensure (rd_saw st) (Refused ''missing session metadata in rollout'') (
     ensure (case end_at of None \<Rightarrow> True | Some e \<Rightarrow> boundary_holds st e)
       (Refused ''history byte and ordinal boundaries disagree'') (
     bindE (try_opt (Refused ''stat'') (op_after opn)) (\<lambda>after.
     ensure (snap \<or> unchanged before after) (Refused ''rollout changed during inspection'')
       (Inr (finished_file c end_at before st)))))"

definition read_rollout_file ::
  "codec \<Rightarrow> opened \<Rightarrow> candidate \<Rightarrow> history_position option \<Rightarrow> limits \<Rightarrow> bool \<Rightarrow> (session_error, rollout_file) result" where
  "read_rollout_file cd opn c end_at l snap =
     bindE (try_opt (Refused ''stat'') (op_before opn)) (\<lambda>before.
     bindE (captured_input opn before c end_at l snap) (\<lambda>raw.
     bindE (decoded_input cd c raw) (\<lambda>decoded.
     bindE (bounded_input l end_at decoded) (\<lambda>i.
     bindE (read_records cd l c (op_cancel opn) (in_error i) start_reading (in_bytes i)) (\<lambda>st.
       finish_reading opn before c end_at snap st)))))"

text \<open>\<open>Home.readRollout\<close>: \<open>regular\<close> opens the file or says why not.\<close>

definition read_rollout ::
  "codec \<Rightarrow> (string \<Rightarrow> (session_error, opened) result) \<Rightarrow> candidate \<Rightarrow> history_position option \<Rightarrow> limits
     \<Rightarrow> (session_error, rollout_file) result" where
  "read_rollout cd regular c end_at l =
     bindE (regular (cn_path c)) (\<lambda>opn. read_rollout_file cd opn c end_at l False)"

section \<open>Records are the lines of the input\<close>

definition whole_line :: "string \<Rightarrow> bool" where
  "whole_line w \<longleftrightarrow> w \<noteq> [] \<and> last w = newline \<and> newline \<notin> set (butlast w)"

lemma whole_line_append: "newline \<notin> set l \<Longrightarrow> whole_line (l @ [newline])"
  by (simp add: whole_line_def)

lemma whole_line_split: "whole_line w \<Longrightarrow> \<exists>l. w = l @ [newline] \<and> newline \<notin> set l"
  unfolding whole_line_def by (metis append_butlast_last_id)

lemma read_slice_plain:
  "read_slice s = (w, e) \<Longrightarrow> e \<noteq> AtNewline \<Longrightarrow> newline \<notin> set w \<and> s = w @ drop (length w) s"
  by (auto simp: read_slice_def Let_def split: if_split_asm dest: in_set_takeD)

lemma read_slice_end: "read_slice s = (w, AtEnd) \<Longrightarrow> w = s"
  by (auto simp: read_slice_def Let_def split: if_split_asm)

lemma read_record_sound:
  assumes "read_record ctx most err pos rec s = Inr r" "newline \<notin> set rec"
  shows "case r of
      None \<Rightarrow> rec = [] \<and> s = [] \<and> err = None
    | Some (w, rest) \<Rightarrow> rec @ s = w @ rest \<and> whole_line w \<and> int (length w) \<le> most"
  using assms
proof (induction ctx most err pos rec s rule: read_record.induct)
  case (1 ctx most err pos rec s)
  obtain w e where sl: "read_slice s = (w, e)" by fastforce
  have c: "\<not> ctx pos" "int (length w) \<le> most - int (length rec)" using 1(2) sl
    by (subst (asm) read_record.simps; simp split: if_split_asm)+
  show ?case
  proof (cases e)
    case AtNewline
    then obtain l t where l: "w = l @ [newline]" "newline \<notin> set l" "s = w @ t"
      using sl by (auto elim: read_slice_newline)
    have "r = Some (rec @ w, t)" using 1(2) sl c AtNewline l
      by (subst (asm) read_record.simps) (simp add: Let_def)
    moreover have "whole_line (rec @ w)" using whole_line_append [of "rec @ l"] 1(3) l by simp
    ultimately show ?thesis using l c by simp
  next
    case BufferFull
    then have "read_record ctx most err (pos + length w) (rec @ w) (drop (length w) s) = Inr r"
      using 1(2) sl c by (subst (asm) read_record.simps) (simp add: Let_def)
    from 1(1) [OF c(1) sl [symmetric] _ refl refl BufferFull this] show ?thesis
      using read_slice_plain [OF sl] BufferFull 1(3) c read_slice_full [of s w] sl
      by (auto simp: buffer_size_def split: option.splits)
  next
    case AtEnd
    then have "rec @ w = [] \<and> err = None \<and> r = None"
      using 1(2) sl c by (subst (asm) read_record.simps) (auto simp: Let_def split: option.splits if_split_asm)
    then show ?thesis using read_slice_end sl AtEnd by auto
  qed
qed

lemma read_record_complete:
  assumes "\<And>n. \<not> ctx n" "newline \<notin> set rec" "rec @ s = w @ rest" "whole_line w" "int (length w) \<le> most"
  shows "read_record ctx most err pos rec s = Inr (Some (w, rest))"
  using assms
proof (induction ctx most err pos rec s rule: read_record.induct)
  case (1 ctx most err pos rec s)
  obtain l where l: "w = l @ [newline]" "newline \<notin> set l" using whole_line_split 1(5) by blast
  then have "rec @ s = l @ newline # rest" using 1(4) by simp
  then obtain l' where l': "l = rec @ l'" "s = l' @ newline # rest"
    using 1(3) append_split_left by metis
  obtain v e where sl: "read_slice s = (v, e)" by fastforce
  show ?case
  proof (cases e)
    case AtNewline
    then obtain k t where k: "v = k @ [newline]" "newline \<notin> set k" "s = v @ t"
      using sl by (auto elim: read_slice_newline)
    then have "k = l' \<and> t = rest" using l' l(2)
      by (auto simp: append_eq_append_conv2 Cons_eq_append_conv append_eq_Cons_conv)
    then show ?thesis using 1 sl AtNewline k l l' by (subst read_record.simps) (simp add: Let_def)
  next
    case BufferFull
    have v: "newline \<notin> set v" "s = v @ drop (length v) s" using read_slice_plain [OF sl] BufferFull by auto
    then obtain u where u: "l' = v @ u" "drop (length v) s = u @ newline # rest"
      using l'(2) append_split_left [of v "drop (length v) s" l' newline rest] by metis
    have c: "int (length v) \<le> most - int (length rec)" using 1(6) l(1) l'(1) u(1) by simp
    have "read_record ctx most err (pos + length v) (rec @ v) (drop (length v) s) = Inr (Some (w, rest))"
      using 1 sl c BufferFull v u l l' by (intro 1(1)) auto
    then show ?thesis using 1(2) sl c BufferFull by (subst read_record.simps) (simp add: Let_def)
  next
    case AtEnd
    then have "newline \<notin> set s" using read_slice_plain [OF sl] read_slice_end [of s v] sl by auto
    then show ?thesis using l'(2) by simp
  qed
qed

lemma read_record_none:
  "(\<And>n. \<not> ctx n) \<Longrightarrow> 0 \<le> most \<Longrightarrow> read_record ctx most None pos [] [] = Inr None"
  by (subst read_record.simps) (simp add: read_slice_def buffer_size_def)

abbreviation record_lines :: "limits \<Rightarrow> string list \<Rightarrow> bool" where
  "record_lines l \<equiv> list_all (\<lambda>w. whole_line w \<and> int (length w) \<le> lm_record l)"

lemma read_records_sound:
  "read_records cd l c ctx err st s = Inr st' \<Longrightarrow>
     \<exists>ws. s = concat ws \<and> record_lines l ws \<and> foldE (take_record cd l c) st ws = Inr st' \<and> err = None"
proof (induction cd l c ctx err st s rule: read_records.induct)
  case (1 cd l c ctx err st s)
  have c: "\<not> ctx (length (rd_content st))" using 1(2) by (subst (asm) read_records.simps) (simp split: if_split_asm)
  obtain r where r: "read_record ctx (lm_record l) err (length (rd_content st)) [] s = Inr r"
    using 1(2) c by (subst (asm) read_records.simps) (auto split: sum.splits)
  note sound = read_record_sound [OF r, simplified]
  show ?case
  proof (cases r)
    case None
    then have "st' = st" using 1(2) c r by (subst (asm) read_records.simps) simp
    with None sound show ?thesis by (intro exI [of _ "[]"]) simp
  next
    case (Some p)
    obtain w rest where p: "p = (w, rest)" by fastforce
    obtain st1 where t: "take_record cd l c st w = Inr st1" "read_records cd l c ctx err st1 rest = Inr st'"
      using 1(2) c r Some p by (subst (asm) read_records.simps) (auto simp: result_iff)
    obtain ws where "rest = concat ws" "record_lines l ws" "foldE (take_record cd l c) st1 ws = Inr st'" "err = None"
      using 1(1) [OF c r Some p [symmetric] t] by blast
    then show ?thesis using t sound Some p by (intro exI [of _ "w # ws"]) simp
  qed
qed

lemma read_records_complete:
  assumes "\<And>n. \<not> ctx n" "0 \<le> lm_record l" "record_lines l ws" "foldE (take_record cd l c) st ws = Inr st'"
  shows "read_records cd l c ctx None st (concat ws) = Inr st'"
  using assms(3,4)
proof (induction ws arbitrary: st)
  case Nil
  then show ?case using assms(1,2) by (subst read_records.simps) (simp add: read_record_none)
next
  case (Cons w ws)
  obtain st1 where "take_record cd l c st w = Inr st1" "foldE (take_record cd l c) st1 ws = Inr st'"
    using Cons(3) by (auto simp: result_iff)
  moreover have "read_record ctx (lm_record l) None (length (rd_content st)) [] (concat (w # ws)) =
      Inr (Some (w, concat ws))"
    using Cons(2) assms(1) by (intro read_record_complete) auto
  moreover have "read_records cd l c ctx None st1 (concat ws) = Inr st'"
    using Cons(1,2) calculation(2) by simp
  ultimately show ?case using assms(1) by (subst read_records.simps) simp
qed

section \<open>What a reading has established\<close>

lemma take_record_parts:
  assumes "take_record cd l c st w = Inr st'"
  obtains line st1 st2 where "int (length w) \<le> lm_file l - int (length (rd_content st))" "cd_line cd w = Some line"
    "take_metadata cd c st line = Inr st1" "take_ordinal st1 line = Inr st2"
    "st' = st2\<lparr>rd_content := rd_content st2 @ w, rd_records := rd_records st2 + 1\<rparr>"
  using assms unfolding take_record_def
  by (auto simp: result_iff split: if_split_asm option.splits)

lemma validate_metadata_ok:
  assumes "validate_metadata m c = Inr m'"
  shows "sm_thread m' = cn_thread c" "sm_mode m' = ''legacy'' \<or> sm_mode m' = ''paginated''"
    "sm_base m' = Some b \<Longrightarrow>
       sm_mode m' = ''paginated'' \<and> hp_ordinal b \<noteq> 0 \<and> hp_ordinal b \<noteq> max_u64 \<and> hp_offset b \<noteq> 0 \<and>
       parse_id (hp_rollout b) = Inr (hp_rollout b)"
  using assms unfolding validate_metadata_def validate_base_def
  by (auto simp: Let_def parse_id_fixed split: sum.splits if_split_asm option.splits)

text \<open>The content is what was read; what the metadata say; the ordinals of a paginated rollout.\<close>

definition line_ordinal :: "codec \<Rightarrow> string \<Rightarrow> u64 option" where
  "line_ordinal cd w = Option.bind (cd_line cd w) jl_ordinal"

definition checked_metadata :: "candidate \<Rightarrow> metadata \<Rightarrow> bool" where
  "checked_metadata c m \<longleftrightarrow>
     sm_thread m = cn_thread c \<and> (sm_mode m = ''legacy'' \<or> sm_mode m = ''paginated'') \<and>
     (\<forall>b. sm_base m = Some b \<longrightarrow> sm_mode m = ''paginated'' \<and> hp_ordinal b \<noteq> 0 \<and> hp_ordinal b \<noteq> max_u64 \<and>
        hp_offset b \<noteq> 0 \<and> parse_id (hp_rollout b) = Inr (hp_rollout b))"

lemma validate_metadata_checked: "validate_metadata m c = Inr m' \<Longrightarrow> checked_metadata c m'"
  unfolding checked_metadata_def using validate_metadata_ok by blast

definition ordered_records :: "codec \<Rightarrow> reading \<Rightarrow> string list \<Rightarrow> bool" where
  "ordered_records cd st ws \<longleftrightarrow>
     (\<exists>ns. map (line_ordinal cd) ws = map Some ns \<and> sorted_wrt (<) ns \<and>
        (ns \<noteq> [] \<longrightarrow> hd ns = initial_ordinal (rd_meta st) \<and> last ns = rd_previous st))"

definition sound_reading :: "codec \<Rightarrow> limits \<Rightarrow> candidate \<Rightarrow> reading \<Rightarrow> string list \<Rightarrow> bool" where
  "sound_reading cd l c st ws \<longleftrightarrow>
     rd_content st = concat ws \<and> rd_records st = length ws \<and>
     (ws \<noteq> [] \<longrightarrow> int (length (concat ws)) \<le> lm_file l) \<and>
     (rd_saw st \<longrightarrow> checked_metadata c (rd_meta st)) \<and> (\<not> rd_saw st \<longrightarrow> rd_meta st = no_metadata) \<and>
     (sm_mode (rd_meta st) = ''paginated'' \<longrightarrow> ws \<noteq> [] \<and> ordered_records cd st ws)"

lemma sound_start: "sound_reading cd l c start_reading []"
  by (simp add: sound_reading_def start_reading_def no_metadata_def)

lemma take_metadata_cases:
  assumes "take_metadata cd c st line = Inr st1"
  obtains "st1 = st"
  | m where "\<not> rd_saw st" "checked_metadata c m" "st1 = st\<lparr>rd_meta := m, rd_saw := True\<rparr>"
      "sm_mode m = ''paginated'' \<Longrightarrow> rd_records st = 0"
proof (cases "jl_type line = ''session_meta'' \<and> \<not> rd_saw st")
  case True
  then obtain m0 m where m: "validate_metadata m0 c = Inr m" "\<not> (sm_mode m = ''paginated'' \<and> rd_records st \<noteq> 0)"
    "st1 = st\<lparr>rd_meta := m, rd_saw := True\<rparr>"
    using assms unfolding take_metadata_def by (auto simp: result_iff split: option.splits if_split_asm)
  show thesis
    by (rule that(2) [OF _ validate_metadata_checked [OF m(1)] m(3)]) (use True m(2) in simp_all)
next
  case False
  then have "st1 = st" using assms unfolding take_metadata_def by (simp split: if_split_asm)
  then show thesis by (rule that(1))
qed

lemma take_ordinal_cases:
  assumes "take_ordinal st line = Inr st2"
  obtains "sm_mode (rd_meta st) \<noteq> ''paginated''" "st2 = st"
  | n where "sm_mode (rd_meta st) = ''paginated''" "jl_ordinal line = Some n" "st2 = st\<lparr>rd_previous := n\<rparr>"
      "rd_records st = 0 \<Longrightarrow> n = initial_ordinal (rd_meta st)" "rd_records st \<noteq> 0 \<Longrightarrow> rd_previous st < n"
  using assms unfolding take_ordinal_def
  by (auto split: if_split_asm option.splits)

lemma ordered_snoc:
  assumes "ordered_records cd st ws" "line_ordinal cd w = Some n" "ws \<noteq> []" "rd_previous st < n"
    "rd_meta st' = rd_meta st" "rd_previous st' = n"
  shows "ordered_records cd st' (ws @ [w])"
proof -
  obtain ns where ns: "map (line_ordinal cd) ws = map Some ns" "sorted_wrt (<) ns"
    "ns \<noteq> [] \<longrightarrow> hd ns = initial_ordinal (rd_meta st) \<and> last ns = rd_previous st"
    using assms(1) by (auto simp: ordered_records_def)
  have ne: "ns \<noteq> []" using ns(1) assms(3) by auto
  have "m \<in> set ns \<Longrightarrow> m < n" for m
  proof -
    assume "m \<in> set ns"
    moreover have "sorted_wrt (<) (butlast ns @ [last ns])" "set ns = set (butlast ns @ [last ns])"
      using ns(2) ne by simp_all
    ultimately have "m \<le> last ns" unfolding sorted_wrt_append by auto
    then show ?thesis using assms(4) ns(3) ne by simp
  qed
  then show ?thesis using ns ne assms unfolding ordered_records_def
    by (intro exI [of _ "ns @ [n]"]) (auto simp: sorted_wrt_append)
qed

lemma sound_step:
  assumes "sound_reading cd l c st ws" "take_record cd l c st w = Inr st'"
  shows "sound_reading cd l c st' (ws @ [w])"
proof -
  obtain line st1 st2 where t: "int (length w) \<le> lm_file l - int (length (rd_content st))" "cd_line cd w = Some line"
    "take_metadata cd c st line = Inr st1" "take_ordinal st1 line = Inr st2"
    and st': "st' = st2\<lparr>rd_content := rd_content st2 @ w, rd_records := rd_records st2 + 1\<rparr>"
    by (rule take_record_parts [OF assms(2)])
  note s = assms(1) [unfolded sound_reading_def]
  have frame: "rd_content st1 = rd_content st" "rd_records st1 = rd_records st" "rd_previous st1 = rd_previous st"
    using t(3) by (cases rule: take_metadata_cases; simp)+
  have s1: "rd_saw st1 \<longrightarrow> checked_metadata c (rd_meta st1)" "\<not> rd_saw st1 \<longrightarrow> rd_meta st1 = no_metadata"
    using t(3) s by (cases rule: take_metadata_cases; simp)+
  have m1: "sm_mode (rd_meta st1) = ''paginated'' \<Longrightarrow> ws \<noteq> [] \<Longrightarrow> rd_meta st1 = rd_meta st"
    using t(3) s by (cases rule: take_metadata_cases) auto
  have frame2: "rd_content st2 = rd_content st1" "rd_records st2 = rd_records st1" "rd_meta st2 = rd_meta st1" "rd_saw st2 = rd_saw st1"
    using t(4) by (cases rule: take_ordinal_cases; simp)+
  have ord: "ordered_records cd st' (ws @ [w])" if p: "sm_mode (rd_meta st1) = ''paginated''"
    using t(4)
  proof (cases rule: take_ordinal_cases)
    case (2 n)
    have lo: "line_ordinal cd w = Some n" using 2 t(2) by (simp add: line_ordinal_def)
    show ?thesis
    proof (cases "ws = []")
      case True
      then show ?thesis using 2 lo s frame
        by (auto simp: ordered_records_def st' intro!: exI [of _ "[n]"])
    next
      case False
      then show ?thesis using 2 lo s m1 [OF p False] frame p
        by (intro ordered_snoc [of cd st ws w n]) (auto simp: st')
    qed
  qed (use p in simp)
  show ?thesis using s s1 ord t(1) frame frame2 unfolding sound_reading_def st'
    by (simp add: algebra_simps)
qed

lemma sound_fold:
  "sound_reading cd l c st ws \<Longrightarrow> foldE (take_record cd l c) st us = Inr st' \<Longrightarrow> sound_reading cd l c st' (ws @ us)"
proof (induction us arbitrary: st ws)
  case (Cons u us)
  then obtain st1 where "take_record cd l c st u = Inr st1" "foldE (take_record cd l c) st1 us = Inr st'"
    by (auto simp: result_iff)
  with Cons sound_step [of cd l c st ws u st1] have "sound_reading cd l c st' ((ws @ [u]) @ us)" by blast
  then show ?case by simp
qed simp

lemma read_rollout_fileE:
  assumes "read_rollout_file cd opn c e l snap = Inr f"
  obtains before raw decoded i st ws where "op_before opn = Some before" "captured_input opn before c e l snap = Inr raw"
    "decoded_input cd c raw = Inr decoded" "bounded_input l e decoded = Inr i"
    "in_bytes i = concat ws" "record_lines l ws" "foldE (take_record cd l c) start_reading ws = Inr st"
    "sound_reading cd l c st ws" "rd_saw st" "f = finished_file c e before st"
    "case e of None \<Rightarrow> True | Some x \<Rightarrow> boundary_holds st x"
proof -
  obtain before raw decoded i st where r: "op_before opn = Some before" "captured_input opn before c e l snap = Inr raw"
    "decoded_input cd c raw = Inr decoded" "bounded_input l e decoded = Inr i"
    "read_records cd l c (op_cancel opn) (in_error i) start_reading (in_bytes i) = Inr st"
    "finish_reading opn before c e snap st = Inr f"
    using assms unfolding read_rollout_file_def by (auto simp: result_iff)
  obtain ws where ws: "in_bytes i = concat ws" "record_lines l ws" "foldE (take_record cd l c) start_reading ws = Inr st"
    using read_records_sound [OF r(5)] by blast
  have "sound_reading cd l c st ws" using sound_fold [OF sound_start ws(3)] by simp
  then show thesis using that [OF r(1-4) ws] r(6) unfolding finish_reading_def by (auto simp: result_iff)
qed

text \<open>An inherited prefix, read on its own, is the same file.\<close>

lemma take_record_cong:
  assumes "cn_thread c = cn_thread c'" shows "take_record cd l c = take_record cd l c'"
proof (intro ext)
  fix st w
  have v: "validate_metadata m c = validate_metadata m c'" for m by (simp only: validate_metadata_def assms)
  show "take_record cd l c st w = take_record cd l c' st w" unfolding take_record_def take_metadata_def v ..
qed

definition calm_file :: "string \<Rightarrow> stat \<Rightarrow> opened" where
  "calm_file content info =
     \<lparr>op_before = Some info, op_after = Some info, op_scan = content,
      op_input = \<lparr>in_bytes = content, in_error = None, in_eager = False\<rparr>,
      op_scan_cancel = (\<lambda>_. False), op_cancel = (\<lambda>_. False)\<rparr>"

lemma read_again:
  assumes "record_lines l ws" "foldE (take_record cd l c) start_reading ws = Inr st" "rd_saw st" "0 \<le> lm_record l"
    "cn_thread c' = cn_thread c" "\<not> compressed (cn_path c')"
  shows "read_rollout_file cd (calm_file (concat ws) info) c' None l False = Inr (finished_file c' None info st)"
proof -
  have "read_records cd l c' (\<lambda>_. False) None start_reading (concat ws) = Inr st"
    using assms take_record_cong [of c' c cd l] by (intro read_records_complete) simp_all
  then show ?thesis using assms(3,6)
    by (simp add: read_rollout_file_def calm_file_def captured_input_def decoded_input_def bounded_input_def
        finish_reading_def unchanged_def)
qed

section \<open>The boundary is the last line feed\<close>

lemma last_index_Some: "last_index (a @ newline # b) = Some (length a)" if "newline \<notin> set b"
  using that by (simp add: last_index_def takeWhile_split)

lemma last_index_None: "last_index s = None \<longleftrightarrow> newline \<notin> set s"
  by (simp add: last_index_def)

lemma last_indexE:
  assumes "last_index s = Some i"
  obtains a b where "s = a @ newline # b" "newline \<notin> set b" "i = length a"
proof -
  have "newline \<in> set s" using assms by (auto simp: last_index_def split: if_split_asm)
  then obtain a b where ab: "s = a @ newline # b" "newline \<notin> set b" by (metis split_list_last)
  then show thesis using assms last_index_Some that by simp
qed

text \<open>\<open>b\<close> is the end of the last complete record of \<open>s\<close>.\<close>

definition record_end :: "string \<Rightarrow> nat \<Rightarrow> bool" where
  "record_end s b \<longleftrightarrow> (\<exists>x y. s = x @ newline # y \<and> newline \<notin> set y \<and> b = length x + 1)"

lemma record_end_unique: "record_end s b \<Longrightarrow> record_end s b' \<Longrightarrow> b = b'"
  unfolding record_end_def by (metis last_index_Some option.inject)

lemma record_end_extend: "newline \<notin> set u \<Longrightarrow> record_end s b \<Longrightarrow> record_end (s @ u) b"
  unfolding record_end_def by (metis append.assoc append_Cons Un_iff set_append)

lemma record_end_shrink:
  assumes "newline \<notin> set u" "record_end (s @ u) b" shows "record_end s b"
proof -
  obtain x y where xy: "s @ u = x @ newline # y" "newline \<notin> set y" "b = length x + 1"
    using assms(2) by (auto simp: record_end_def)
  then obtain y' where y': "s = x @ newline # y'" using append_split_right [OF xy(1) assms(1)] by blast
  then have "y = y' @ u" using xy(1) by simp
  with xy y' show ?thesis by (auto simp: record_end_def)
qed

lemma record_end_bound: "record_end s b \<Longrightarrow> 0 < b \<and> b \<le> length s"
  by (auto simp: record_end_def)

lemma saved_boundary_sound:
  assumes "saved_boundary ctx data sz most remaining = Inr b"
    and "take sz data = take remaining data @ tl'" "newline \<notin> set tl'" "remaining \<le> length data"
  shows "record_end (take sz data) b \<and> int sz - int b \<le> most"
  using assms
proof (induction ctx data sz most remaining arbitrary: tl' rule: saved_boundary.induct)
  case (1 ctx data sz most remaining)
  define count where "count = min remaining buffer_size"
  define block where "block = take count (drop (remaining - count) data)"
  have r: "remaining \<noteq> 0" "\<not> ctx remaining" using 1(2) by (subst (asm) saved_boundary.simps; simp split: if_split_asm)+
  have lb: "length block = count" using 1(5) by (simp add: block_def count_def)
  have split: "take remaining data = take (remaining - count) data @ block"
    unfolding block_def count_def using take_add [of "remaining - min remaining buffer_size" "min remaining buffer_size" data] by simp
  show ?case
  proof (cases "last_index block")
    case (Some i)
    then obtain x y where xy: "block = x @ newline # y" "newline \<notin> set y" "i = length x" by (rule last_indexE)
    have b: "b = remaining - count + i + 1" "int sz - int b \<le> most"
      using 1(2) r lb Some unfolding saved_boundary.simps [of ctx data sz most remaining] count_def [symmetric] Let_def block_def [symmetric]
      by (simp_all split: if_split_asm)
    have "take sz data = (take (remaining - count) data @ x) @ newline # (y @ tl')"
      using 1(3) split xy(1) by simp
    moreover have "length (take (remaining - count) data @ x) + 1 = b" using b xy(3) 1(5) by simp
    ultimately show ?thesis using xy(2) 1(4) b unfolding record_end_def
      by (metis Un_iff set_append)
  next
    case None
    then have nb: "newline \<notin> set block" by (simp add: last_index_None)
    have rec: "saved_boundary ctx data sz most (remaining - count) = Inr b"
      using 1(2) r lb None unfolding saved_boundary.simps [of ctx data sz most remaining] count_def [symmetric] Let_def block_def [symmetric]
      by (simp split: if_split_asm)
    have nl: "\<not> int sz - int (remaining - count) > most"
      using 1(2) r lb None unfolding saved_boundary.simps [of ctx data sz most remaining] count_def [symmetric] Let_def block_def [symmetric]
      by (simp split: if_split_asm)
    show ?thesis
      by (rule 1(1) [OF r count_def block_def _ None nl rec, of "block @ tl'"])
        (use lb split 1 nb in simp_all)
  qed
qed

lemma saved_boundary_complete:
  assumes "record_end (take sz data) b" "int sz - int b \<le> most" "\<And>n. \<not> ctx n"
    and "take sz data = take remaining data @ tl'" "newline \<notin> set tl'" "remaining \<le> length data"
  shows "saved_boundary ctx data sz most remaining = Inr b"
  using assms
proof (induction ctx data sz most remaining arbitrary: tl' rule: saved_boundary.induct)
  case (1 ctx data sz most remaining)
  define count where "count = min remaining buffer_size"
  define block where "block = take count (drop (remaining - count) data)"
  have re: "record_end (take remaining data) b" using 1(2,5,6) record_end_shrink by metis
  then have r: "remaining \<noteq> 0" using record_end_bound by fastforce
  have lb: "length block = count" using 1(7) by (simp add: block_def count_def)
  have split: "take remaining data = take (remaining - count) data @ block"
    unfolding block_def count_def using take_add [of "remaining - min remaining buffer_size" "min remaining buffer_size" data] by simp
  show ?case
  proof (cases "last_index block")
    case (Some i)
    then obtain x y where xy: "block = x @ newline # y" "newline \<notin> set y" "i = length x" by (rule last_indexE)
    have "record_end (take remaining data) (remaining - count + i + 1)"
      unfolding record_end_def split xy(1) using xy 1(7)
      by (intro exI [of _ "take (remaining - count) data @ x"] exI [of _ y]) simp
    then have "b = remaining - count + i + 1" using re record_end_unique by blast
    then show ?thesis using 1(3,4) r lb Some
      unfolding saved_boundary.simps [of ctx data sz most remaining] count_def [symmetric] Let_def block_def [symmetric]
      by simp
  next
    case None
    then have nb: "newline \<notin> set block" by (simp add: last_index_None)
    have "record_end (take (remaining - count) data) b" using re nb split record_end_shrink by metis
    then have "b \<le> remaining - count" using record_end_bound by fastforce
    then have nl: "\<not> int sz - int (remaining - count) > most" using 1(3) by linarith
    have "saved_boundary ctx data sz most (remaining - count) = Inr b"
      by (rule 1(1) [OF r 1(4) count_def block_def _ None nl 1(2,3,4), of "block @ tl'"])
        (use lb split 1 nb in simp_all)
    then show ?thesis using 1(4) r lb None nl
      unfolding saved_boundary.simps [of ctx data sz most remaining] count_def [symmetric] Let_def block_def [symmetric]
      by simp
  qed
qed

lemma input_bytes:
  assumes "captured_input opn before c e l snap = Inr raw" "decoded_input cd c raw = Inr decoded"
    "bounded_input l e decoded = Inr i" "\<not> compressed (cn_path c)"
  shows "\<exists>n. in_bytes i = take n (in_bytes (op_input opn))"
proof -
  have limit: "\<exists>n. in_bytes (limit_input k j) = take n (in_bytes j)" for k j
    by (auto simp: limit_input_def intro: exI [of _ "length (in_bytes j)"])
  have "\<exists>n. in_bytes raw = take n (in_bytes (op_input opn))"
    using assms(1) limit by (auto simp: captured_input_def section_input_def result_iff split: if_split_asm
        intro: exI [of _ "length (in_bytes (op_input opn))"])
  moreover have "decoded = raw" using assms(2,4) by (simp add: decoded_input_def)
  moreover have "\<exists>n. in_bytes i = take n (in_bytes decoded)"
    using assms(3) limit by (auto simp: bounded_input_def split: option.splits if_split_asm
        intro: exI [of _ "length (in_bytes decoded)"])
  ultimately show ?thesis by (metis take_take)
qed

section \<open>A sample\<close>

definition first_line :: string where
  "first_line = ''{meta}'' @ [newline]"

definition second_line :: string where
  "second_line = ''{event}'' @ [newline]"

definition toy_codec :: codec where
  "toy_codec =
     \<lparr>cd_line = (\<lambda>w. if w = first_line then Some \<lparr>jl_type = ''session_meta'', jl_ordinal = Some 0, jl_payload = ''{}''\<rparr>
                     else if w = second_line then Some \<lparr>jl_type = ''event'', jl_ordinal = Some 4, jl_payload = ''{}''\<rparr>
                     else None),
      cd_meta = (\<lambda>_. Some (sample_meta\<lparr>sm_mode := ''paginated''\<rparr>)),
      cd_zstd = (\<lambda>_. None)\<rparr>"

definition toy_stat :: stat where
  "toy_stat = \<lparr>st_regular = True, st_node = 7, st_size = 15, st_modified = \<lparr>mo_nanos = 5, mo_year = 1970\<rparr>,
     st_perm = 384, st_uid = 1000, st_gid = 1000, st_links = 1\<rparr>"

definition toy_candidate :: candidate where
  "toy_candidate = \<lparr>cn_path = ''sessions/a.jsonl'', cn_thread = sample_id, cn_rollout = sample_id\<rparr>"

definition toy_state :: reading where
  "toy_state = \<lparr>rd_meta = sample_meta\<lparr>sm_mode := ''paginated''\<rparr>, rd_saw = True,
     rd_content = first_line @ second_line, rd_previous = 4, rd_records = 2\<rparr>"

lemma toy_utf8: "valid_utf8 first_line" "valid_utf8 second_line"
  by code_simp+

lemma toy_id: "parse_id sample_id = Inr sample_id"
  by code_simp

lemma toy_lengths: "length first_line = 7" "length second_line = 8" "second_line \<noteq> first_line"
  by (simp_all add: first_line_def second_line_def)

lemma toy_metadata:
  "validate_metadata (sample_meta\<lparr>sm_mode := ''paginated''\<rparr>) toy_candidate = Inr (sample_meta\<lparr>sm_mode := ''paginated''\<rparr>)"
  using toy_id by (simp add: validate_metadata_def sample_meta_def toy_candidate_def)

lemma toy_fold:
  "foldE (take_record toy_codec default_limits toy_candidate) start_reading [first_line, second_line] = Inr toy_state"
  by (simp add: take_record_def toy_codec_def toy_utf8 toy_lengths default_limits_def start_reading_def
      take_metadata_def toy_metadata [unfolded sample_meta_def, simplified]
      take_ordinal_def initial_ordinal_def sample_meta_def toy_state_def)

lemma toy_lines: "record_lines default_limits [first_line, second_line]"
  by (simp add: toy_lengths default_limits_def whole_line_def) (simp add: first_line_def second_line_def newline_def)

lemma toy_read:
  "read_rollout_file toy_codec (calm_file (concat [first_line, second_line]) toy_stat) toy_candidate None default_limits False =
     Inr (finished_file toy_candidate None toy_stat toy_state)"
proof -
  have a: "rd_saw toy_state" by (simp add: toy_state_def)
  have b: "0 \<le> lm_record default_limits" by (simp add: default_limits_def)
  have c: "\<not> compressed (cn_path toy_candidate)" by (simp add: toy_candidate_def compressed_def has_suffix_def)
  show ?thesis by (rule read_again [OF toy_lines toy_fold a b refl c])
qed

section \<open>Properties\<close>

text \<open>C32: A rollout that \<open>readRolloutFile\<close> accepts is a sequence of complete records within the
  limits, for a plain file the beginning of what the file holds: size and SHA-256 are those of
  exactly these bytes, the metadata name the thread of the file name, the ordinals of a paginated
  rollout all exist, increase strictly, start at the inherited boundary and end at the recorded
  last one, and an inherited prefix ends exactly at its byte offset and ordinal.\<close>

theorem rollout_file_sound:
  assumes "read_rollout_file cd opn c e l snap = Inr f"
  shows "\<exists>ws. ws \<noteq> [] \<and> record_lines l ws \<and> rf_bytes f = int (length (concat ws)) \<and>
    rf_sha256 f = sha256_hex (concat ws) \<and> rf_bytes f \<le> lm_file l \<and> sm_thread (rf_meta f) = cn_thread c \<and>
    (compressed (cn_path c) \<or> (\<exists>n. concat ws = take n (in_bytes (op_input opn)))) \<and>
    (sm_mode (rf_meta f) = ''legacy'' \<or> sm_mode (rf_meta f) = ''paginated'' \<and>
       (\<exists>ns. map (line_ordinal cd) ws = map Some ns \<and> sorted_wrt (<) ns \<and>
          hd ns = initial_ordinal (rf_meta f) \<and> last ns = rf_last f)) \<and>
    (case e of None \<Rightarrow> \<not> rf_prefix f
     | Some x \<Rightarrow> rf_prefix f \<and> rf_bytes f = uint (hp_offset x) \<and> rf_last f \<noteq> max_u64 \<and> rf_last f + 1 = hp_ordinal x)"
proof -
  obtain before raw decoded i st ws where r: "captured_input opn before c e l snap = Inr raw"
    "decoded_input cd c raw = Inr decoded" "bounded_input l e decoded = Inr i"
    and ws: "in_bytes i = concat ws" "record_lines l ws" "foldE (take_record cd l c) start_reading ws = Inr st"
    and st: "sound_reading cd l c st ws" "rd_saw st" and f: "f = finished_file c e before st"
    and e: "case e of None \<Rightarrow> True | Some x \<Rightarrow> boundary_holds st x"
    by (rule read_rollout_fileE [OF assms])
  have ne: "ws \<noteq> []" using ws(3) st(2) by (auto simp: start_reading_def)
  have m: "checked_metadata c (rd_meta st)" "rd_content st = concat ws" "int (length (concat ws)) \<le> lm_file l"
    using st ne by (simp_all add: sound_reading_def)
  have "sm_mode (rd_meta st) = ''paginated'' \<Longrightarrow> ordered_records cd st ws" using st by (simp add: sound_reading_def)
  moreover have "ns \<noteq> []" if "map (line_ordinal cd) ws = map Some ns" for ns using that ne by auto
  ultimately have "sm_mode (rd_meta st) = ''legacy'' \<or> sm_mode (rd_meta st) = ''paginated'' \<and>
      (\<exists>ns. map (line_ordinal cd) ws = map Some ns \<and> sorted_wrt (<) ns \<and>
         hd ns = initial_ordinal (rd_meta st) \<and> last ns = rd_previous st)"
    using m(1) unfolding checked_metadata_def ordered_records_def by metis
  moreover have "compressed (cn_path c) \<or> (\<exists>n. concat ws = take n (in_bytes (op_input opn)))"
    using input_bytes [OF r] ws(1) by metis
  ultimately show ?thesis using ne ws(2) m e
    by (intro exI [of _ ws]) (auto simp: f finished_file_def checked_metadata_def boundary_holds_def split: option.splits)
qed

theorem rollout_file_sound_witness:
  "\<exists>ws. record_lines default_limits ws \<and>
     rf_sha256 (finished_file toy_candidate None toy_stat toy_state) = sha256_hex (concat ws)"
proof -
  obtain ws where "record_lines default_limits ws"
    "rf_sha256 (finished_file toy_candidate None toy_stat toy_state) = sha256_hex (concat ws)"
    using rollout_file_sound [OF toy_read] by (elim exE conjE)
  then show ?thesis by (intro exI [of _ ws] conjI)
qed

text \<open>C33: The buffered record loop reads the lines of its input: with a reader that ends without
  an error and a context that stays open, \<open>readRecord\<close>'s loop over 64 KiB fragments accepts an
  input exactly when it is a concatenation of line-feed-terminated lines within the record limit
  that the record checks accept one after another, and it ends in the state they leave.\<close>

theorem read_records_lines:
  assumes "0 \<le> lm_record l"
  shows "read_records cd l c (\<lambda>_. False) None st s = Inr st' \<longleftrightarrow>
    (\<exists>ws. s = concat ws \<and> record_lines l ws \<and> foldE (take_record cd l c) st ws = Inr st')"
proof
  assume "read_records cd l c (\<lambda>_. False) None st s = Inr st'"
  then show "\<exists>ws. s = concat ws \<and> record_lines l ws \<and> foldE (take_record cd l c) st ws = Inr st'"
    using read_records_sound by metis
next
  assume "\<exists>ws. s = concat ws \<and> record_lines l ws \<and> foldE (take_record cd l c) st ws = Inr st'"
  then obtain ws where ws: "s = concat ws" "record_lines l ws" "foldE (take_record cd l c) st ws = Inr st'"
    by (elim exE conjE)
  show "read_records cd l c (\<lambda>_. False) None st s = Inr st'"
    unfolding ws(1) by (rule read_records_complete [OF _ assms ws(2,3)]) simp
qed

theorem read_records_lines_witness:
  "read_records toy_codec default_limits toy_candidate (\<lambda>_. False) None start_reading (first_line @ second_line) = Inr toy_state"
proof -
  have "0 \<le> lm_record default_limits" by (simp add: default_limits_def)
  have "first_line @ second_line = concat [first_line, second_line]" by simp
  then show ?thesis using read_records_lines [OF \<open>0 \<le> lm_record default_limits\<close>] toy_fold toy_lines by blast
qed

text \<open>The backward scan finds the end of the last complete record: over a file of at least the
  captured size, \<open>savedRecordBoundary\<close> returns exactly the position behind the last line feed
  within that size, when the unfinished tail is within the record limit, and nothing otherwise.\<close>

theorem saved_boundary_exact:
  assumes "sz \<le> length data"
  shows "saved_boundary (\<lambda>_. False) data sz most sz = Inr b \<longleftrightarrow>
    record_end (take sz data) b \<and> int sz - int b \<le> most"
  using saved_boundary_sound [of "\<lambda>_. False" data sz most sz b "[]"]
    saved_boundary_complete [of sz data b most "\<lambda>_. False" sz "[]"] assms by auto

theorem saved_boundary_exact_witness:
  "saved_boundary (\<lambda>_. False) (first_line @ ''{eve'') 11 100 11 = Inr 7"
proof -
  have "record_end (take 11 (first_line @ ''{eve'')) 7"
    unfolding record_end_def first_line_def newline_def
    by (intro exI [of _ "''{meta}''"] exI [of _ "''{eve''"]) simp
  moreover have "11 \<le> length (first_line @ ''{eve'')" by (simp add: first_line_def)
  ultimately show ?thesis using saved_boundary_exact [of 11 "first_line @ ''{eve''" 100 7]
    by (simp add: first_line_def)
qed

end
