(* ===== verification/Session_Lineage.thy ===== *)
theory Session_Lineage
  imports Session_Rollout "HOL-Library.Multiset"
begin

text \<open>
  From a thread to its validated history (\<open>internal/session/home.go\<close> inventory,
  \<open>inspect.go\<close>, \<open>snapshot.go\<close>, and the checks of the receiver in \<open>stream.go\<close> that the result
  has to pass).  The session directories are a tree as the enumeration finds it; opening a file
  and reading the selection of the state database are functions of what is asked for.
\<close>

section \<open>The inventory\<close>

text \<open>A directory entry: a directory with its entries or one that cannot be opened, a symbolic
  link, or anything else.\<close>

datatype entry = Other | Link | Denied | Directory "(string \<times> entry) list"

fun entry_size :: "entry \<Rightarrow> nat" where
  "entry_size (Directory es) = 1 + sum_list (map (\<lambda>p. entry_size (snd p)) es)"
| "entry_size _ = 1"

type_synonym pending = "(string \<times> entry) list"

text \<open>One pass over the entries of an open directory: what it pushes and what it finds.\<close>

fun scan_entries ::
  "string \<Rightarrow> (string \<times> entry) list \<Rightarrow> pending \<Rightarrow> candidate list \<Rightarrow> (session_error, pending \<times> candidate list) result"
where
  "scan_entries name [] stack found = Inr (stack, found)"
| "scan_entries name ((n, e) # es) stack found =
     (let path = path_join [name, n] in
      case e of
        Link \<Rightarrow> Inl (Refused ''symlink in session storage'')
      | Directory _ \<Rightarrow> scan_entries name es ((path, e) # stack) found
      | Denied \<Rightarrow> scan_entries name es ((path, e) # stack) found
      | Other \<Rightarrow> scan_entries name es stack (case parse_name path of None \<Rightarrow> found | Some c \<Rightarrow> found @ [c]))"

definition stack_size :: "pending \<Rightarrow> nat" where
  "stack_size st = sum_list (map (\<lambda>p. entry_size (snd p)) st)"

lemma scan_entries_size:
  "scan_entries name es stack found = Inr (stack', found') \<Longrightarrow>
     stack_size stack' \<le> stack_size stack + sum_list (map (\<lambda>p. entry_size (snd p)) es)"
  by (induction name es stack found rule: scan_entries.induct)
    (fastforce simp: stack_size_def Let_def split: entry.splits option.splits)+

text \<open>The directories still to be visited, the one pushed last first.\<close>

function walk :: "pending \<Rightarrow> candidate list \<Rightarrow> (session_error, candidate list) result" where
  "walk [] found = Inr found"
| "walk ((name, e) # stack) found =
     (case e of
        Directory es \<Rightarrow>
          bindE (scan_entries name es stack found) (\<lambda>(stack', found'). walk stack' found')
      | _ \<Rightarrow> Inl (Refused ''open directory''))"
  by pat_completeness auto
termination
proof (relation "measure (\<lambda>(st, f). stack_size st)", goal_cases)
  case (2 name e stack found es r stack' found')
  then show ?case using scan_entries_size [of name es stack found stack' found']
    by (cases r) (auto simp: stack_size_def)
qed simp

record home =
  hm_path :: string
  hm_logical :: string
  hm_roots :: "(string \<times> entry) list"
  hm_regular :: "string \<Rightarrow> (session_error, opened) result"

text \<open>A missing root directory is skipped; the second one pushed is visited first.\<close>

definition root_entry :: "home \<Rightarrow> string \<Rightarrow> pending" where
  "root_entry h name = (case map_of (hm_roots h) name of None \<Rightarrow> [] | Some e \<Rightarrow> [(name, e)])"

definition inventory :: "home \<Rightarrow> (session_error, candidate list) result" where
  "inventory h =
     bindE (walk (root_entry h ''archived_sessions'' @ root_entry h ''sessions'') []) (\<lambda>found.
       Inr (sort_key cn_path found))"

section \<open>Selection and candidates\<close>

record selection =
  sl_path :: string
  sl_mode :: string
  sl_archived :: bool

definition same_rollout :: "string \<Rightarrow> string \<Rightarrow> bool" where
  "same_rollout a b = (trim_suffix a ''.zst'' = trim_suffix b ''.zst'')"

text \<open>A noncanonical legacy file is looked for under both of its names.\<close>

fun legacy_candidates :: "home \<Rightarrow> string \<Rightarrow> string list \<Rightarrow> (session_error, candidate list) result" where
  "legacy_candidates h thread [] = Inr []"
| "legacy_candidates h thread (name # names) =
     (case hm_regular h name of
        Inr _ \<Rightarrow> bindE (legacy_candidates h thread names) (\<lambda>cs.
                 Inr (\<lparr>cn_path = name, cn_thread = thread, cn_rollout = thread\<rparr> # cs))
      | Inl (Absent _) \<Rightarrow> legacy_candidates h thread names
      | Inl e \<Rightarrow> Inl e)"

definition both_names :: "string \<Rightarrow> string list" where
  "both_names path = [trim_suffix path ''.zst'', trim_suffix path ''.zst'' @ ''.zst'']"

definition main_candidates ::
  "home \<Rightarrow> string \<Rightarrow> selection option \<Rightarrow> candidate list \<Rightarrow> (session_error, candidate list) result" where
  "main_candidates h thread selected known =
     (case selected of
        None \<Rightarrow> Inr (filter (\<lambda>c. cn_thread c = thread \<and> \<not> prerequisite_path (cn_path c)) known)
      | Some sel \<Rightarrow>
          bindE (managed_relative (hm_path h) (hm_logical h) (sl_path sel)) (\<lambda>path.
          if prerequisite_path path then Inl (Refused ''thread selects only an inherited history prefix'')
          else let main = filter (\<lambda>c. same_rollout (cn_path c) path) known in
          bindE (if main = [] \<and> sl_mode sel = ''legacy'' then legacy_candidates h thread (both_names path) else Inr main)
            (\<lambda>main. if main = [] then Inl (Refused ''selected rollout is missing'') else Inr main)))"

definition check_main :: "string \<Rightarrow> string \<Rightarrow> candidate \<Rightarrow> session_error option" where
  "check_main thread rollout c =
     (if cn_thread c \<noteq> thread then Some (Refused ''selected rollout belongs to another thread'')
      else if cn_rollout c \<noteq> rollout then Some (Refused ''ambiguous session'')
      else None)"

section \<open>The lineage\<close>

type_synonym reader = "candidate \<Rightarrow> history_position option \<Rightarrow> (session_error, rollout_file) result"

text \<open>The representations of one rollout have to agree; the first is chosen.\<close>

definition add_representation ::
  "reader \<Rightarrow> history_position option \<Rightarrow> rollout_file option \<Rightarrow> candidate \<Rightarrow> (session_error, rollout_file option) result"
where
  "add_representation reader end_at chosen c =
     bindE (reader c end_at) (\<lambda>f.
       case chosen of
         None \<Rightarrow> Inr (Some f)
       | Some g \<Rightarrow>
           if rf_bytes f \<noteq> rf_bytes g \<or> rf_sha256 f \<noteq> rf_sha256 g \<or> rf_thread f \<noteq> rf_thread g
           then Inl (Refused ''conflicting representations of rollout'') else Inr (Some g))"

definition check_selected :: "selection option \<Rightarrow> rollout_file \<Rightarrow> session_error option" where
  "check_selected selected chosen =
     (case selected of
        None \<Rightarrow> None
      | Some sel \<Rightarrow>
          if sl_mode sel \<noteq> sm_mode (rf_meta chosen) then Some (Refused ''SQLite and rollout history modes disagree'')
          else if sl_archived sel \<noteq> has_prefix (rf_source chosen) ''archived_sessions/''
          then Some (Refused ''SQLite and rollout archive status disagree'') else None)"

text \<open>One round: the chosen file of the rollout \<open>next\<close> represents.\<close>

definition chosen_file ::
  "reader \<Rightarrow> selection option \<Rightarrow> bool \<Rightarrow> candidate list \<Rightarrow> history_position option \<Rightarrow> (session_error, rollout_file) result"
where
  "chosen_file reader selected first next end_at =
     bindE (foldE (add_representation reader end_at) None next) (\<lambda>chosen.
     bindE (try_opt (Refused ''no representation'') chosen) (\<lambda>f.
       if first then (case check_selected selected f of Some e \<Rightarrow> Inl e | None \<Rightarrow> Inr f) else Inr f))"

function lineage ::
  "reader \<Rightarrow> limits \<Rightarrow> candidate list \<Rightarrow> selection option \<Rightarrow> rollout_file list \<Rightarrow> candidate list
     \<Rightarrow> history_position option \<Rightarrow> string list \<Rightarrow> (session_error, rollout_file list) result"
where
  "lineage reader l known selected files next end_at seen =
     (if int (length files) \<ge> lm_files l then Inl (Refused ''session lineage exceeds the configured file limit'')
      else let rollout = cn_rollout (hd next) in
      if rollout \<in> set seen then Inl (Refused ''cycle in inherited history'')
      else bindE (chosen_file reader selected (files = []) next end_at) (\<lambda>chosen.
        case sm_base (rf_meta chosen) of
          None \<Rightarrow> Inr (files @ [chosen])
        | Some base \<Rightarrow>
            let next' = filter (\<lambda>c. cn_rollout c = hp_rollout base) known in
            if next' = [] then Inl (Refused ''missing inherited rollout'')
            else lineage reader l known selected (files @ [chosen]) next' (Some base) (rollout # seen)))"
  by pat_completeness auto
termination
  by (relation "measure (\<lambda>(r, l, i, s, files, n, e, seen). nat (lm_files l - int (length files)))") auto

declare lineage.simps [simp del]

record plan =
  pl_thread :: string
  pl_files :: "rollout_file list"

text \<open>
  \<open>Home.inspect\<close>.  \<open>select\<close> answers the two reads of the state database, the second one after
  the files are read; \<open>snap\<close> is whether files are captured.
\<close>

definition inspect_with ::
  "home \<Rightarrow> string \<Rightarrow> (bool \<Rightarrow> (session_error, selection option) result) option \<Rightarrow> limits \<Rightarrow> reader \<Rightarrow> bool
     \<Rightarrow> (session_error, plan) result"
where
  "inspect_with h threadID sqliteHome l reader snap =
     bindE (parse_id threadID) (\<lambda>thread.
     bindE (valid_limits l) (\<lambda>_.
     bindE (try_opt (Refused ''effective SQLite home is required for session selection'') sqliteHome) (\<lambda>select.
     bindE (select False) (\<lambda>selected.
     bindE (inventory h) (\<lambda>known.
     bindE (main_candidates h thread selected known) (\<lambda>main.
     if main = [] then Inl (Refused ''session was not found in the selected Codex home'')
     else case checkE (check_main thread (cn_rollout (hd main))) main of
       Some e \<Rightarrow> Inl e
     | None \<Rightarrow>
         bindE (lineage reader l known selected [] main None []) (\<lambda>files.
         bindE (if snap then select True else Inr selected) (\<lambda>after.
         if after \<noteq> selected then Inl (Refused ''conversation selection changed during snapshot'')
         else Inr \<lparr>pl_thread = thread, pl_files = rev files\<rparr>))))))))"

definition inspect ::
  "codec \<Rightarrow> home \<Rightarrow> string \<Rightarrow> (bool \<Rightarrow> (session_error, selection option) result) option \<Rightarrow> limits
     \<Rightarrow> (session_error, plan) result" where
  "inspect cd h threadID sqliteHome l =
     inspect_with h threadID sqliteHome l (\<lambda>c e. read_rollout cd (hm_regular h) c e l) False"

text \<open>\<open>Snapshot\<close>: every captured file stays open.\<close>

definition snapshot_reader :: "codec \<Rightarrow> home \<Rightarrow> limits \<Rightarrow> reader" where
  "snapshot_reader cd h l c end_at =
     bindE (hm_regular h (cn_path c)) (\<lambda>opn. read_rollout_file cd opn c end_at l True)"

definition snapshot ::
  "codec \<Rightarrow> home \<Rightarrow> bool \<Rightarrow> string \<Rightarrow> (bool \<Rightarrow> (session_error, selection option) result) option \<Rightarrow> limits
     \<Rightarrow> (session_error, plan) result" where
  "snapshot cd h cancelled threadID sqliteHome l =
     (if cancelled then Inl Interrupted
      else inspect_with h threadID sqliteHome l (snapshot_reader cd h l) True)"

section \<open>What the inventory finds\<close>

text \<open>The files below an entry, and trees without symbolic links and unreadable directories.\<close>

fun files_below :: "string \<Rightarrow> entry \<Rightarrow> string list" where
  "files_below name (Directory es) = concat (map (\<lambda>p. files_below (path_join [name, fst p]) (snd p)) es)"
| "files_below name Other = [name]"
| "files_below name _ = []"

fun plain_tree :: "entry \<Rightarrow> bool" where
  "plain_tree (Directory es) = list_all (\<lambda>p. plain_tree (snd p)) es"
| "plain_tree Other = True"
| "plain_tree _ = False"

definition named :: "string list \<Rightarrow> candidate multiset" where
  "named paths = mset (List.map_filter parse_name paths)"

lemma named_simps [simp]:
  "named [] = {#}" "named (xs @ ys) = named xs + named ys"
  "named [p] = (case parse_name p of None \<Rightarrow> {#} | Some c \<Rightarrow> {#c#})"
  by (auto simp: named_def map_filter_simps List.map_filter_def split: option.splits)

definition below :: "pending \<Rightarrow> candidate multiset" where
  "below st = named (concat (map (\<lambda>p. files_below (fst p) (snd p)) st))"

definition plain_stack :: "pending \<Rightarrow> bool" where
  "plain_stack st \<longleftrightarrow> list_all (\<lambda>p. plain_tree (snd p) \<and> snd p \<noteq> Other) st"

definition entries_below :: "string \<Rightarrow> (string \<times> entry) list \<Rightarrow> candidate multiset" where
  "entries_below name es = named (concat (map (\<lambda>p. files_below (path_join [name, fst p]) (snd p)) es))"

lemma below_simps [simp]:
  "below [] = {#}" "below ((n, e) # st) = named (files_below n e) + below st"
  "entries_below name [] = {#}"
  "entries_below name ((n, e) # es) = named (files_below (path_join [name, n]) e) + entries_below name es"
  "below (st @ st') = below st + below st'"
  by (simp_all add: below_def entries_below_def)

lemma scan_entries_ok:
  "scan_entries name es stack found = Inr (stack', found') \<Longrightarrow>
     mset found' + below stack' = mset found + below stack + entries_below name es \<and>
     plain_stack stack' = (plain_stack stack \<and> list_all (\<lambda>p. plain_tree (snd p)) es)"
proof (induction name es stack found rule: scan_entries.induct)
  case (2 name n e es stack found)
  then show ?case
    by (cases e) (auto simp: Let_def plain_stack_def split: option.splits)
qed simp

lemma scan_entries_error:
  "scan_entries name es stack found = Inl x \<Longrightarrow> \<not> list_all (\<lambda>p. plain_tree (snd p)) es"
proof (induction name es stack found rule: scan_entries.induct)
  case (2 name n e es stack found)
  then show ?case by (cases e) (auto simp: Let_def)
qed simp

lemma walk_exact:
  "case walk st found of
     Inl _ \<Rightarrow> \<not> plain_stack st
   | Inr cs \<Rightarrow> plain_stack st \<and> mset cs = mset found + below st"
proof (induction st found rule: walk.induct)
  case (2 name e stack found)
  show ?case
  proof (cases e)
    case (Directory es)
    show ?thesis
    proof (cases "scan_entries name es stack found")
      case (Inl x)
      then show ?thesis using scan_entries_error [OF Inl] Directory by (simp add: plain_stack_def)
    next
      case (Inr r)
      obtain stack' found' where r: "r = (stack', found')" by fastforce
      note s = scan_entries_ok [OF Inr [unfolded r]]
      have b: "named (files_below name e) = entries_below name es" by (simp add: Directory entries_below_def)
      have p: "plain_stack ((name, e) # stack) = plain_stack stack'"
        using s Directory by (auto simp: plain_stack_def)
      have m: "mset found + below ((name, e) # stack) = mset found' + below stack'"
        using s b by (simp add: ac_simps)
      have w: "walk ((name, e) # stack) found = walk stack' found'" by (simp add: Directory Inr r)
      show ?thesis unfolding w p m using 2(1) [OF Directory Inr r [symmetric]] .
    qed
  qed (simp_all add: plain_stack_def)
qed (simp add: plain_stack_def)

section \<open>Every candidate has identifiers and a decoded name\<close>

definition sound_candidate :: "candidate \<Rightarrow> bool" where
  "sound_candidate c \<longleftrightarrow>
     parse_id (cn_thread c) = Inr (cn_thread c) \<and> parse_id (cn_rollout c) = Inr (cn_rollout c) \<and>
     has_suffix (trim_suffix (cn_path c) ''.zst'') ''.jsonl''"

lemma split_last: "\<exists>q. s = q @ last (split_char c s)"
proof -
  obtain xs x where xs: "split_char c s = xs @ [x]" by (metis append_butlast_last_id split_char_nonempty)
  show ?thesis
  proof (cases "xs = []")
    case True
    then have "s = x" using join_split [of c s] xs by simp
    then show ?thesis using xs by (intro exI [of _ "[]"]) simp
  next
    case False
    then have "s = (join_char c xs @ [c]) @ x" using join_split [of c s] xs join_char_snoc [OF False, of c x] by simp
    then show ?thesis using xs by (metis last_snoc)
  qed
qed

lemma clean_no_trailing:
  assumes "clean p = p" "p \<noteq> ''/''" shows "last p \<noteq> slash"
proof -
  have "last (join_char slash cs) \<noteq> slash" if n: "normal_comps r cs" and ne: "cs \<noteq> []" for r cs
  proof -
    have no: "slash \<notin> set (last cs)" "last cs \<noteq> []" using normal_no_slash [OF n] ne by auto
    obtain xs where xs: "cs = xs @ [last cs]" using ne by (metis append_butlast_last_id)
    have "last (join_char slash cs) = last (last cs)"
    proof (cases "xs = []")
      case False
      then show ?thesis using join_char_snoc [OF False, of slash "last cs"] xs no(2) by (metis last_ConsR last_appendR list.distinct(1))
    qed (use xs in \<open>metis append_Nil join_char.simps(2)\<close>)
    then show ?thesis using no by (metis last_in_set)
  qed
  note l = this
  show ?thesis
  proof (cases p rule: clean_cases)
    case (abs cs)
    then have p: "p = slash # join_char slash cs" using assms(1) by simp
    then have "cs \<noteq> []" using assms(2) by (auto simp: slash_def)
    then have "join_char slash cs \<noteq> []" using join_normal_Nil [OF abs(1)] by simp
    then show ?thesis using l [OF abs(1) \<open>cs \<noteq> []\<close>] p by simp
  next
    case (rel cs)
    then show ?thesis using l [OF rel(1,2)] assms(1) by simp
  next
    case dot
    then show ?thesis using assms(1) by (auto simp: slash_def)
  qed
qed

lemma parse_name_sound:
  assumes "parse_name p = Some c" "clean p = p"
  shows "sound_candidate c"
proof -
  obtain core where core: "trim_suffix (path_base p) ''.zst'' = ''rollout-'' @ core @ ''.jsonl''" "cn_path c = p"
    "parse_id (cn_thread c) = Inr (cn_thread c)" "parse_id (cn_rollout c) = Inr (cn_rollout c)"
    by (rule parse_nameD [OF assms(1)])
  let ?u = "path_base p"
  have "p \<noteq> ''/''" using core(1) by (auto simp: path_base_def slash_def trim_suffix_def has_suffix_def)
  moreover have "p \<noteq> []" using core(1) by (auto simp: path_base_def trim_suffix_def has_suffix_def)
  ultimately have l: "last p \<noteq> slash" "p \<noteq> []" using clean_no_trailing [OF assms(2)] by auto
  then have "rev (dropWhile (\<lambda>c. c = slash) (rev p)) = p" by (cases p rule: rev_cases) auto
  moreover obtain q where q: "p = q @ last (split_char slash p)" using split_last by blast
  moreover have "last (split_char slash p) \<noteq> []"
  proof
    assume n: "last (split_char slash p) = []"
    obtain xs where xs: "split_char slash p = xs @ [[]]" using n by (metis append_butlast_last_id split_char_nonempty)
    have "xs \<noteq> []" using xs join_split [of slash p] l(2) by auto
    then have "p = join_char slash xs @ [slash]" using join_split [of slash p] xs join_char_snoc by metis
    with l(1) show False by simp
  qed
  ultimately have pq: "p = q @ ?u" using l(2) by (simp add: path_base_def Let_def)
  have "has_suffix (trim_suffix p ''.zst'') ''.jsonl''"
  proof (cases "has_suffix ?u ''.zst''")
    case True
    have u: "?u = (''rollout-'' @ core @ ''.jsonl'') @ ''.zst''"
      using has_suffix_trim [OF True] unfolding core(1) by (rule sym)
    have "p = (q @ ''rollout-'' @ core @ ''.jsonl'') @ ''.zst''"
      using arg_cong [OF u, of "\<lambda>u. q @ u"] pq by (metis append.assoc)
    then have "trim_suffix p ''.zst'' = q @ ''rollout-'' @ core @ ''.jsonl''" using trim_suffix_append by metis
    then show ?thesis using has_suffix_append [of "q @ ''rollout-'' @ core" "''.jsonl''"] by simp
  next
    case False
    have "?u = ''rollout-'' @ core @ ''.jsonl''" using core(1) unfolding trim_suffix_id [OF False] .
    then have "p = (q @ ''rollout-'' @ core) @ ''.jsonl''" using pq by (metis append.assoc)
    then show ?thesis using jsonl_not_zst has_suffix_append by metis
  qed
  then show ?thesis using core by (simp add: sound_candidate_def)
qed

lemma scan_entries_sound:
  "scan_entries name es stack found = Inr (stack', found') \<Longrightarrow> list_all sound_candidate found \<Longrightarrow>
     list_all sound_candidate found'"
proof (induction name es stack found rule: scan_entries.induct)
  case (2 name n e es stack found)
  show ?case
  proof (cases e)
    case Other
    let ?p = "path_join [name, n]"
    have "sound_candidate c" if "parse_name ?p = Some c" for c
    proof (rule parse_name_sound [OF that])
      have "?p \<noteq> []" using that by (auto simp: parse_name_def path_base_def trim_suffix_def has_suffix_def Let_def)
      then show "clean ?p = ?p" by (rule clean_path_join)
    qed
    then show ?thesis using 2 Other by (auto simp: Let_def split: option.splits)
  qed (use 2 in \<open>auto simp: Let_def\<close>)
qed simp

lemma walk_sound: "walk st found = Inr cs \<Longrightarrow> list_all sound_candidate found \<Longrightarrow> list_all sound_candidate cs"
proof (induction st found rule: walk.induct)
  case (2 name e stack found)
  then obtain es stack' found' where w: "e = Directory es" "scan_entries name es stack found = Inr (stack', found')"
    "walk stack' found' = Inr cs" by (auto simp: result_iff split: entry.splits)
  show ?case using 2(1) [OF w(1,2) refl w(3)] scan_entries_sound [OF w(2)] 2(3) by blast
qed simp

lemma inventory_sound: "inventory h = Inr cs \<Longrightarrow> list_all sound_candidate cs"
  using walk_sound by (fastforce simp: inventory_def result_iff list_all_iff)

lemma legacy_candidates_sound:
  assumes "parse_id thread = Inr thread"
  shows "legacy_candidates h thread names = Inr cs \<Longrightarrow>
    list_all (\<lambda>n. has_suffix (trim_suffix n ''.zst'') ''.jsonl'') names \<Longrightarrow> list_all sound_candidate cs"
proof (induction names arbitrary: cs)
  case (Cons n names)
  then show ?case using assms
    by (auto simp: result_iff sound_candidate_def split: sum.splits session_error.splits)
qed simp

lemma main_candidates_sound:
  assumes "main_candidates h thread selected known = Inr main" "list_all sound_candidate known"
    "parse_id thread = Inr thread"
  shows "list_all sound_candidate main"
proof (cases selected)
  case None
  then show ?thesis using assms by (auto simp: main_candidates_def list_all_iff)
next
  case (Some sel)
  obtain path where p: "managed_relative (hm_path h) (hm_logical h) (sl_path sel) = Inr path"
    and m: "main = filter (\<lambda>c. same_rollout (cn_path c) path) known \<or> legacy_candidates h thread (both_names path) = Inr main"
    using assms(1) Some unfolding main_candidates_def
    by (auto simp: result_iff Let_def split: if_split_asm)
  have "has_suffix path ''.jsonl'' \<or> has_suffix path ''.jsonl.zst''"
    using p by (auto simp: managed_relative_def Let_def split: if_split_asm)
  then have "has_suffix (trim_suffix path ''.zst'') ''.jsonl''"
  proof
    assume "has_suffix path ''.jsonl''"
    then show ?thesis using jsonl_not_zst by (auto simp: has_suffix_iff)
  next
    assume "has_suffix path ''.jsonl.zst''"
    then obtain q where "path = q @ ''.jsonl.zst''" by (auto simp: has_suffix_iff)
    then have "path = (q @ ''.jsonl'') @ ''.zst''" by simp
    then show ?thesis using trim_suffix_append has_suffix_append by metis
  qed
  then have "list_all (\<lambda>n. has_suffix (trim_suffix n ''.zst'') ''.jsonl'') (both_names path)"
    using jsonl_not_zst by (auto simp: both_names_def has_suffix_iff)
  then show ?thesis using m legacy_candidates_sound [OF assms(3)] assms(2) by (auto simp: list_all_iff)
qed

section \<open>What the lineage is\<close>

text \<open>\<open>child\<close> inherits exactly \<open>parent\<close>.\<close>

definition linked :: "rollout_file \<Rightarrow> rollout_file \<Rightarrow> bool" where
  "linked child parent \<longleftrightarrow>
     (\<exists>b. sm_base (rf_meta child) = Some b \<and> hp_rollout b = rf_rollout parent \<and> uint (hp_offset b) = rf_bytes parent \<and>
        sm_mode (rf_meta parent) = ''paginated'' \<and> rf_last parent \<noteq> max_u64 \<and> rf_last parent + 1 = hp_ordinal b)"

text \<open>The invariant of the rounds: files read so far, newest first, and what comes next.\<close>

definition pending_round :: "rollout_file list \<Rightarrow> candidate list \<Rightarrow> history_position option \<Rightarrow> string list \<Rightarrow> bool" where
  "pending_round files next e seen \<longleftrightarrow>
     next \<noteq> [] \<and> (\<forall>c \<in> set next. cn_rollout c = cn_rollout (hd next)) \<and>
     (files = [] \<longleftrightarrow> e = None) \<and> (\<forall>b. e = Some b \<longrightarrow> sm_base (rf_meta (last files)) = Some b) \<and>
     (\<forall>b. e = Some b \<longrightarrow> cn_rollout (hd next) = hp_rollout b) \<and>
     set seen = rf_rollout ` set files \<and> distinct (map rf_rollout files) \<and>
     successively linked files \<and> map rf_prefix files = map (\<lambda>i. 0 < i) [0..<length files]"

definition resolved :: "rollout_file list \<Rightarrow> bool" where
  "resolved files \<longleftrightarrow> files \<noteq> [] \<and> distinct (map rf_rollout files) \<and> successively linked files \<and>
     sm_base (rf_meta (last files)) = None \<and> map rf_prefix files = map (\<lambda>i. 0 < i) [0..<length files] \<and>
     list_all (\<lambda>f. 0 < rf_bytes f) files"

text \<open>A plan: prerequisites first, the requested conversation last.\<close>

definition sound_file :: "rollout_file \<Rightarrow> bool" where
  "sound_file f \<longleftrightarrow>
     parse_id (rf_thread f) = Inr (rf_thread f) \<and> parse_id (rf_rollout f) = Inr (rf_rollout f) \<and>
     has_suffix (rf_path f) ''.jsonl''"

definition sound_plan :: "limits \<Rightarrow> plan \<Rightarrow> bool" where
  "sound_plan l p \<longleftrightarrow>
     list_all sound_file (pl_files p) \<and>
     resolved (rev (pl_files p)) \<and> int (length (pl_files p)) \<le> lm_files l \<and> valid_limits l = Inr () \<and>
     parse_id (pl_thread p) = Inr (pl_thread p) \<and> rf_thread (last (pl_files p)) = pl_thread p"

text \<open>What the resolution of a lineage relies on: a file is read for its candidate, and a prefix
  ends where it was asked to.\<close>

locale history_reader =
  fixes reader :: reader
  assumes reader_names: "reader c e = Inr f \<Longrightarrow> rf_rollout f = cn_rollout c \<and> rf_thread f = cn_thread c"
    and reader_source: "reader c e = Inr f \<Longrightarrow> rf_path f = trim_suffix (cn_path c) ''.zst'' \<and> rf_source f = cn_path c"
    and reader_prefix: "reader c e = Inr f \<Longrightarrow> rf_prefix f \<longleftrightarrow> e \<noteq> None"
    and reader_end: "reader c (Some x) = Inr f \<Longrightarrow>
      sm_mode (rf_meta f) = ''paginated'' \<and> rf_bytes f = uint (hp_offset x) \<and> rf_last f \<noteq> max_u64 \<and> rf_last f + 1 = hp_ordinal x"
    and reader_bytes: "reader c e = Inr f \<Longrightarrow> 0 < rf_bytes f"
begin

lemma add_representation_cases:
  assumes "add_representation reader e chosen c = Inr chosen'"
  obtains g where "reader c e = Inr g" "chosen' = Some g" | g where "reader c e = Inr g" "chosen' = chosen" "chosen \<noteq> None"
  using assms unfolding add_representation_def
  by (cases "reader c e"; cases chosen) (auto split: if_split_asm)

lemma representations:
  assumes "foldE (add_representation reader e) chosen next = Inr (Some f)"
    and "\<And>g. chosen = Some g \<Longrightarrow> \<exists>c \<in> set cs. reader c e = Inr g"
  shows "\<exists>c \<in> set cs \<union> set next. reader c e = Inr f"
  using assms
proof (induction "next" arbitrary: chosen cs)
  case (Cons c "next")
  obtain chosen' where c': "add_representation reader e chosen c = Inr chosen'"
    "foldE (add_representation reader e) chosen' next = Inr (Some f)"
    using Cons(2) by (auto simp: result_iff)
  have "\<exists>d \<in> set (c # cs) \<union> set next. reader d e = Inr f"
  proof (rule Cons(1) [OF c'(2)])
    fix g assume g: "chosen' = Some g"
    from c'(1) show "\<exists>d \<in> set (c # cs). reader d e = Inr g"
      by (cases rule: add_representation_cases) (use g Cons(3) in auto)
  qed
  then show ?case by auto
qed auto

lemma chosen_member:
  assumes "chosen_file reader selected first next e = Inr f"
  obtains c where "c \<in> set next" "reader c e = Inr f"
  using assms representations [of e None "next" f "[]"]
  by (auto simp: chosen_file_def result_iff split: if_split_asm option.splits)

lemma round_step:
  assumes p: "pending_round files next e seen" and c: "chosen_file reader sel first next e = Inr f"
    and s: "cn_rollout (hd next) \<notin> set seen"
  shows "distinct (map rf_rollout (files @ [f]))" "successively linked (files @ [f])"
    "map rf_prefix (files @ [f]) = map (\<lambda>i. 0 < i) [0..<length (files @ [f])]" "rf_rollout f = cn_rollout (hd next)"
    "0 < rf_bytes f"
proof -
  have same: "\<forall>c \<in> set next. cn_rollout c = cn_rollout (hd next)" and e: "files = [] \<longleftrightarrow> e = None"
    and base: "\<forall>b. e = Some b \<longrightarrow> sm_base (rf_meta (last files)) = Some b"
    and next_base: "\<forall>b. e = Some b \<longrightarrow> cn_rollout (hd next) = hp_rollout b"
    and seen: "set seen = rf_rollout ` set files" and dist: "distinct (map rf_rollout files)"
    and links: "successively linked files" and pre: "map rf_prefix files = map (\<lambda>i. 0 < i) [0..<length files]"
    using p unfolding pending_round_def by - (elim conjE, assumption)+
  obtain d where d: "d \<in> set next" "reader d e = Inr f" by (rule chosen_member [OF c])
  show r: "rf_rollout f = cn_rollout (hd next)" using reader_names [OF d(2)] same d(1) by simp
  show "0 < rf_bytes f" using d reader_bytes by blast
  show "distinct (map rf_rollout (files @ [f]))" using dist s r seen by simp
  show "successively linked (files @ [f])"
  proof (cases "files = []")
    case False
    then obtain b where b: "e = Some b" using e by auto
    then have "linked (last files) f"
      using reader_end [OF d(2) [unfolded b]] base next_base r by (simp add: linked_def)
    then show ?thesis using links by (simp add: successively_append_iff)
  qed simp
  have "rf_prefix f \<longleftrightarrow> files \<noteq> []" using reader_prefix [OF d(2)] e by simp
  then show "map rf_prefix (files @ [f]) = map (\<lambda>i. 0 < i) [0..<length (files @ [f])]" using pre by simp
qed

lemma lineage_resolved:
  assumes "lineage reader l known sel files next e seen = Inr fs" "pending_round files next e seen"
    "list_all (\<lambda>f. 0 < rf_bytes f) files"
  shows "resolved fs \<and> int (length fs) \<le> lm_files l \<and> (\<exists>gs. fs = files @ gs)"
  using assms
proof (induction "nat (lm_files l - int (length files))" arbitrary: files "next" e seen rule: less_induct)
  case less
  let ?r = "cn_rollout (hd next)"
  have g: "int (length files) < lm_files l" "?r \<notin> set seen"
    using less(2) by (subst (asm) lineage.simps; simp add: Let_def split: if_split_asm)+
  obtain f where f: "chosen_file reader sel (files = []) next e = Inr f"
    using less(2) g by (subst (asm) lineage.simps) (auto simp: Let_def result_iff)
  note step = round_step [OF less(3) f g(2)]
  have pos: "list_all (\<lambda>f. 0 < rf_bytes f) (files @ [f])" using less(4) step(5) by simp
  show ?case
  proof (cases "sm_base (rf_meta f)")
    case None
    then have "fs = files @ [f]" using less(2) g f by (subst (asm) lineage.simps) (simp add: Let_def)
    then show ?thesis using step(1-3) None pos g(1) unfolding resolved_def by simp
  next
    case (Some base)
    let ?next = "filter (\<lambda>c. cn_rollout c = hp_rollout base) known"
    have ne: "?next \<noteq> []" and rec: "lineage reader l known sel (files @ [f]) ?next (Some base) (?r # seen) = Inr fs"
      using less(2) g f Some by (subst (asm) lineage.simps; simp add: Let_def split: if_split_asm)+
    have "hd ?next \<in> set ?next" using ne by (rule hd_in_set)
    then have h: "cn_rollout (hd ?next) = hp_rollout base" by simp
    have "pending_round (files @ [f]) ?next (Some base) (?r # seen)"
    proof -
      have "set (?r # seen) = rf_rollout ` set (files @ [f])"
      proof -
        have "set seen = rf_rollout ` set files"
          using less(3) unfolding pending_round_def by - (elim conjE, assumption)
        then show ?thesis by (simp add: step(4))
      qed
      moreover have "\<forall>c \<in> set ?next. cn_rollout c = cn_rollout (hd ?next)"
        unfolding h by (rule ballI) simp
      moreover have "files @ [f] = [] \<longleftrightarrow> Some base = None" by simp
      moreover have "\<forall>b. Some base = Some b \<longrightarrow> sm_base (rf_meta (last (files @ [f]))) = Some b" using Some by simp
      moreover have "\<forall>b. Some base = Some b \<longrightarrow> cn_rollout (hd ?next) = hp_rollout b" unfolding h by simp
      ultimately show ?thesis unfolding pending_round_def using step(1-3) ne
        by (intro conjI; assumption?)
    qed
    moreover have "nat (lm_files l - int (length (files @ [f]))) < nat (lm_files l - int (length files))"
      using g(1) by simp
    ultimately have "resolved fs \<and> int (length fs) \<le> lm_files l \<and> (\<exists>gs. fs = (files @ [f]) @ gs)"
      using less(1) [OF _ rec _ pos] by blast
    then show ?thesis by (metis append.assoc)
  qed
qed

lemma lineage_extends:
  "lineage r l known sel files next e seen = Inr fs \<Longrightarrow> \<exists>gs. fs = files @ gs"
proof (induction r l known sel files "next" e seen rule: lineage.induct)
  case (1 r l known sel files "next" e seen)
  have g: "int (length files) < lm_files l" "cn_rollout (hd next) \<notin> set seen"
    using 1(2) by (subst (asm) lineage.simps; simp add: Let_def split: if_split_asm)+
  obtain f where f: "chosen_file r sel (files = []) next e = Inr f"
    using 1(2) g by (subst (asm) lineage.simps) (auto simp: Let_def result_iff)
  show ?case
  proof (cases "sm_base (rf_meta f)")
    case None
    then have "fs = files @ [f]" using 1(2) g f by (subst (asm) lineage.simps) (simp add: Let_def)
    then show ?thesis by blast
  next
    case (Some base)
    let ?next = "filter (\<lambda>c. cn_rollout c = hp_rollout base) known"
    have rec: "?next \<noteq> []" "lineage r l known sel (files @ [f]) ?next (Some base) (cn_rollout (hd next) # seen) = Inr fs"
      using 1(2) g f Some by (subst (asm) lineage.simps; simp add: Let_def split: if_split_asm)+
    then have "\<exists>gs. fs = (files @ [f]) @ gs"
      using 1(1) [OF _ refl g(2) f Some refl] g(1) by simp
    then show ?thesis by auto
  qed
qed

lemma lineage_head:
  assumes "lineage reader l known sel [] next None [] = Inr fs"
  shows "\<exists>c \<in> set next. reader c None = Inr (hd fs)"
proof -
  have g: "0 < lm_files l"
    using assms by (subst (asm) lineage.simps) (simp add: Let_def split: if_split_asm)
  obtain f where f: "chosen_file reader sel True next None = Inr f"
    using assms g by (subst (asm) lineage.simps) (auto simp: Let_def result_iff)
  obtain c where c: "c \<in> set next" "reader c None = Inr f" by (rule chosen_member [OF f])
  have "hd fs = f"
  proof (cases "sm_base (rf_meta f)")
    case None
    then show ?thesis using assms g f by (subst (asm) lineage.simps) (auto simp: Let_def)
  next
    case (Some base)
    then have "lineage reader l known sel [f] (filter (\<lambda>c. cn_rollout c = hp_rollout base) known) (Some base)
        [cn_rollout (hd next)] = Inr fs"
      using assms g f by (subst (asm) lineage.simps) (auto simp: Let_def split: if_split_asm)
    from lineage_extends [OF this] show ?thesis by auto
  qed
  with c show ?thesis by blast
qed

lemma lineage_members:
  assumes "lineage reader l known sel files next e seen = Inr fs" "list_all sound_candidate known"
    "list_all sound_candidate next" "\<forall>f \<in> set files. \<exists>c x. sound_candidate c \<and> reader c x = Inr f"
  shows "\<forall>f \<in> set fs. \<exists>c x. sound_candidate c \<and> reader c x = Inr f"
  using assms
proof (induction "nat (lm_files l - int (length files))" arbitrary: files "next" e seen rule: less_induct)
  case less
  have g: "int (length files) < lm_files l" "cn_rollout (hd next) \<notin> set seen"
    using less(2) by (subst (asm) lineage.simps; simp add: Let_def split: if_split_asm)+
  obtain f where f: "chosen_file reader sel (files = []) next e = Inr f"
    using less(2) g by (subst (asm) lineage.simps) (auto simp: Let_def result_iff)
  obtain c where "c \<in> set next" "reader c e = Inr f" by (rule chosen_member [OF f])
  then have m: "\<forall>f \<in> set (files @ [f]). \<exists>c x. sound_candidate c \<and> reader c x = Inr f"
    using less(4,5) by (auto simp: list_all_iff)
  show ?case
  proof (cases "sm_base (rf_meta f)")
    case None
    then have "fs = files @ [f]" using less(2) g f by (subst (asm) lineage.simps) (simp add: Let_def)
    then show ?thesis using m by simp
  next
    case (Some base)
    let ?next = "filter (\<lambda>c. cn_rollout c = hp_rollout base) known"
    have rec: "lineage reader l known sel (files @ [f]) ?next (Some base) (cn_rollout (hd next) # seen) = Inr fs"
      using less(2) g f Some by (subst (asm) lineage.simps; simp add: Let_def split: if_split_asm)
    have "list_all sound_candidate ?next" using less(3) by (simp add: list_all_iff)
    moreover have "nat (lm_files l - int (length (files @ [f]))) < nat (lm_files l - int (length files))"
      using g(1) by simp
    ultimately show ?thesis using less(1) [OF _ rec less(3) _ m] by blast
  qed
qed

lemma candidate_file: "sound_candidate c \<Longrightarrow> reader c x = Inr f \<Longrightarrow> sound_file f"
  using reader_names [of c x f] reader_source [of c x f] by (simp add: sound_candidate_def sound_file_def)

text \<open>The plan is sound, and every file of it was read for a candidate.\<close>

lemma inspect_with_sound:
  assumes "inspect_with h threadID q l reader snap = Inr p"
  shows "sound_plan l p \<and> (\<forall>f \<in> set (pl_files p). \<exists>c x. reader c x = Inr f)"
proof -
  obtain thread main files select selected known where inv: "inventory h = Inr known" and r: "parse_id threadID = Inr thread" "valid_limits l = Inr ()"
    "main_candidates h thread selected known = Inr main" "main \<noteq> []"
    "checkE (check_main thread (cn_rollout (hd main))) main = None"
    "lineage reader l known selected [] main None [] = Inr files" "p = \<lparr>pl_thread = thread, pl_files = rev files\<rparr>"
    using assms unfolding inspect_with_def
    by (simp only: result_iff, elim exE conjE)
      (simp split: if_split_asm option.splits; auto simp: bindE_Inr checkE_None split: if_split_asm)
  have same: "\<forall>c \<in> set main. cn_thread c = thread \<and> cn_rollout c = cn_rollout (hd main)"
  proof
    fix c assume "c \<in> set main"
    then have "check_main thread (cn_rollout (hd main)) c = None" using r(5) unfolding checkE_None by blast
    then show "cn_thread c = thread \<and> cn_rollout c = cn_rollout (hd main)"
      unfolding check_main_def by (simp split: if_split_asm)
  qed
  then have "\<forall>c \<in> set main. cn_rollout c = cn_rollout (hd main)" by blast
  then have "pending_round [] main None []" unfolding pending_round_def by (intro conjI r(4)) simp_all
  then have "resolved files \<and> int (length files) \<le> lm_files l"
    using lineage_resolved [OF r(6)] by simp
  moreover obtain c where "c \<in> set main" "reader c None = Inr (hd files)" using lineage_head [OF r(6)] by blast
  then have "rf_thread (hd files) = thread" using reader_names [of c None "hd files"] same by metis
  moreover have "files \<noteq> []" using calculation by (simp add: resolved_def)
  moreover have k: "list_all sound_candidate known" by (rule inventory_sound [OF inv])
  have "list_all sound_candidate main"
    by (rule main_candidates_sound [OF r(3) k parse_id_fixed [OF r(1)]])
  then have m: "\<forall>f \<in> set files. \<exists>c x. sound_candidate c \<and> reader c x = Inr f"
    using lineage_members [OF r(6) k] by simp
  then have "list_all sound_file files" using candidate_file unfolding list_all_iff by metis
  ultimately have "sound_plan l p" using r parse_id_fixed [OF r(1)]
    by (auto simp: sound_plan_def last_rev list_all_iff)
  moreover have "\<forall>f \<in> set (pl_files p). \<exists>c x. reader c x = Inr f" using m r(7) by (metis set_rev plan.select_convs(2))
  ultimately show ?thesis by blast
qed

end

section \<open>Both readers keep the contract\<close>

lemma read_file_contract:
  assumes "read_rollout_file cd opn c e l snap = Inr f"
  shows "rf_rollout f = cn_rollout c \<and> rf_thread f = cn_thread c"
    "rf_path f = trim_suffix (cn_path c) ''.zst'' \<and> rf_source f = cn_path c"
    "rf_prefix f \<longleftrightarrow> e \<noteq> None"
    "e = Some x \<Longrightarrow> sm_mode (rf_meta f) = ''paginated'' \<and> rf_bytes f = uint (hp_offset x) \<and> rf_last f \<noteq> max_u64 \<and>
       rf_last f + 1 = hp_ordinal x"
    "0 < rf_bytes f"
proof -
  obtain before raw decoded i st ws where ws: "record_lines l ws" "foldE (take_record cd l c) start_reading ws = Inr st"
    and st: "sound_reading cd l c st ws" "rd_saw st" and f: "f = finished_file c e before st"
    and e: "case e of None \<Rightarrow> True | Some x \<Rightarrow> boundary_holds st x"
    by (rule read_rollout_fileE [OF assms])
  show "rf_rollout f = cn_rollout c \<and> rf_thread f = cn_thread c"
    "rf_path f = trim_suffix (cn_path c) ''.zst'' \<and> rf_source f = cn_path c" "rf_prefix f \<longleftrightarrow> e \<noteq> None"
    by (simp_all add: f finished_file_def)
  show "e = Some x \<Longrightarrow> sm_mode (rf_meta f) = ''paginated'' \<and> rf_bytes f = uint (hp_offset x) \<and> rf_last f \<noteq> max_u64 \<and>
       rf_last f + 1 = hp_ordinal x"
    using e by (simp add: f finished_file_def boundary_holds_def)
  have "ws \<noteq> []" using ws(2) st(2) by (auto simp: start_reading_def)
  then have "concat ws \<noteq> []" using ws(1) by (cases ws) (auto simp: whole_line_def)
  moreover have "rd_content st = concat ws" using st(1) by (simp add: sound_reading_def)
  ultimately show "0 < rf_bytes f" by (simp add: f finished_file_def)
qed

interpretation direct: history_reader "\<lambda>c e. read_rollout cd regular c e l"
  by unfold_locales (auto simp: read_rollout_def result_iff dest: read_file_contract)

interpretation captured: history_reader "snapshot_reader cd h l"
  by unfold_locales (auto simp: snapshot_reader_def result_iff dest: read_file_contract)

lemma inspect_sound: "inspect cd h threadID q l = Inr p \<Longrightarrow> sound_plan l p"
  unfolding inspect_def using direct.inspect_with_sound by blast

lemma snapshot_sound:
  assumes "snapshot cd h cancelled threadID q l = Inr p"
  shows "sound_plan l p" "f \<in> set (pl_files p) \<Longrightarrow> \<exists>opn c e. read_rollout_file cd opn c e l True = Inr f"
proof -
  have "inspect_with h threadID q l (snapshot_reader cd h l) True = Inr p"
    using assms by (simp add: snapshot_def split: if_split_asm)
  note s = captured.inspect_with_sound [OF this]
  then show "sound_plan l p" by blast
  assume "f \<in> set (pl_files p)"
  then obtain c x where "snapshot_reader cd h l c x = Inr f" using s by blast
  then show "\<exists>opn c e. read_rollout_file cd opn c e l True = Inr f"
    unfolding snapshot_reader_def bindE_Inr by blast
qed

lemma inspect_with_thread:
  "inspect_with h threadID q l reader snap = Inr p \<Longrightarrow> parse_id threadID = Inr (pl_thread p)"
  unfolding inspect_with_def by (auto simp: result_iff split: if_split_asm option.splits)

lemma prefix_flags:
  assumes "map g (rev fs) = map (\<lambda>i. 0 < i) [0..<length (rev fs)]"
  shows "map g fs = map (\<lambda>i. i + 1 < length fs) [0..<length fs]"
proof (rule nth_equalityI)
  fix i assume "i < length (map g fs)"
  then have i: "i < length fs" by simp
  have "map g (rev fs) ! (length fs - 1 - i) = (0 < length fs - 1 - i)"
    unfolding assms using i by simp
  then have "g (rev fs ! (length fs - 1 - i)) = (i + 1 < length fs)" using i by (auto simp: nth_map)
  moreover have "rev fs ! (length fs - 1 - i) = fs ! i" using i by (simp add: rev_nth)
  ultimately show "map g fs ! i = map (\<lambda>i. i + 1 < length fs) [0..<length fs] ! i" using i by simp
qed simp

lemma sound_plan_shape:
  assumes "sound_plan l p"
  shows "pl_files p \<noteq> []" "distinct (map rf_rollout (pl_files p))" "int (length (pl_files p)) \<le> lm_files l"
    "sm_base (rf_meta (hd (pl_files p))) = None" "successively (\<lambda>parent child. linked child parent) (pl_files p)"
    "map rf_prefix (pl_files p) = map (\<lambda>i. i + 1 < length (pl_files p)) [0..<length (pl_files p)]"
    "rf_thread (last (pl_files p)) = pl_thread p"
proof -
  let ?fs = "pl_files p"
  have s: "resolved (rev ?fs)" "int (length ?fs) \<le> lm_files l" "rf_thread (last ?fs) = pl_thread p"
    using assms by (simp_all add: sound_plan_def)
  note r = s(1) [unfolded resolved_def]
  show "?fs \<noteq> []" "distinct (map rf_rollout ?fs)" "int (length ?fs) \<le> lm_files l"
    "sm_base (rf_meta (hd ?fs)) = None" "successively (\<lambda>parent child. linked child parent) ?fs"
    "map rf_prefix ?fs = map (\<lambda>i. i + 1 < length ?fs) [0..<length ?fs]" "rf_thread (last ?fs) = pl_thread p"
    using r s prefix_flags [of rf_prefix ?fs] by (simp_all add: rev_map [symmetric] last_rev)
qed

section \<open>A sample\<close>

definition toy_name :: string where
  "toy_name = ''rollout-2026-02-28T23-30-00-'' @ sample_id @ ''.jsonl''"

definition toy_home :: home where
  "toy_home = \<lparr>hm_path = ''/h'', hm_logical = ''/h'', hm_roots = [(''sessions'', Directory [(toy_name, Other)])],
     hm_regular = (\<lambda>_. Inr (calm_file (concat [first_line, second_line]) toy_stat))\<rparr>"

definition toy_member :: candidate where
  "toy_member = \<lparr>cn_path = ''sessions/'' @ toy_name, cn_thread = sample_id, cn_rollout = sample_id\<rparr>"

definition toy_file :: rollout_file where
  "toy_file = finished_file toy_member None toy_stat toy_state"

lemma toy_inventory: "inventory toy_home = Inr [toy_member]"
  by code_simp

lemma toy_member_read:
  "read_rollout toy_codec (hm_regular toy_home) toy_member None default_limits = Inr toy_file"
proof -
  have "rd_saw toy_state" by (simp add: toy_state_def)
  moreover have "0 \<le> lm_record default_limits" by (simp add: default_limits_def)
  moreover have "cn_thread toy_member = cn_thread toy_candidate" by (simp add: toy_member_def toy_candidate_def)
  moreover have "\<not> compressed (cn_path toy_member)" by code_simp
  ultimately have "read_rollout_file toy_codec (calm_file (concat [first_line, second_line]) toy_stat) toy_member None default_limits False
      = Inr toy_file"
    unfolding toy_file_def by (rule read_again [OF toy_lines toy_fold])
  then show ?thesis by (simp add: read_rollout_def toy_home_def)
qed

lemma toy_base: "sm_base (rf_meta toy_file) = None"
  by (simp add: toy_file_def finished_file_def toy_state_def sample_meta_def)

lemma toy_inspect:
  "inspect toy_codec toy_home sample_id (Some (\<lambda>_. Inr None)) default_limits =
     Inr \<lparr>pl_thread = sample_id, pl_files = [toy_file]\<rparr>"
proof -
  let ?reader = "\<lambda>c e. read_rollout toy_codec (hm_regular toy_home) c e default_limits"
  have main: "main_candidates toy_home sample_id None [toy_member] = Inr [toy_member]"
    by code_simp
  have "chosen_file ?reader None True [toy_member] None = Inr toy_file"
    by (simp add: chosen_file_def add_representation_def toy_member_read check_selected_def)
  then have "lineage ?reader default_limits [toy_member] None [] [toy_member] None [] = Inr [toy_file]"
    by (subst lineage.simps) (simp add: default_limits_def toy_base)
  moreover have "valid_limits default_limits = Inr ()" by (simp add: valid_limits_def default_limits_def)
  moreover have "checkE (check_main sample_id (cn_rollout toy_member)) [toy_member] = None"
    by (simp add: check_main_def toy_member_def)
  ultimately show ?thesis
    by (simp add: inspect_def inspect_with_def toy_id toy_inventory main)
qed

section \<open>Properties\<close>

text \<open>The inventory is complete and refuses what it cannot see through: it fails exactly when
  one of the session trees holds a symbolic link or a directory that cannot be opened, and
  otherwise it finds every file with a canonical rollout name, each once, sorted by path.\<close>

theorem inventory_complete:
  "case inventory h of
     Inl _ \<Rightarrow> \<not> plain_stack (root_entry h ''archived_sessions'' @ root_entry h ''sessions'')
   | Inr cs \<Rightarrow> plain_stack (root_entry h ''archived_sessions'' @ root_entry h ''sessions'') \<and> sorted (map cn_path cs) \<and>
       mset cs = below (root_entry h ''archived_sessions'' @ root_entry h ''sessions'')"
  using walk_exact [of "root_entry h ''archived_sessions'' @ root_entry h ''sessions''" "[]"]
  by (auto simp: inventory_def split: sum.splits)

text \<open>C15: A resolved plan is a lineage: the files \<open>Inspect\<close> returns have pairwise different rollouts,
  at most as many as the limits allow, the first inherits nothing, every later one inherits the
  file before it at exactly its size and last ordinal, all but the last are prefixes, and the
  last is a rollout of the requested thread; so inherited history cannot loop.\<close>

theorem inspect_lineage:
  assumes "inspect cd h threadID q l = Inr p"
  shows "pl_files p \<noteq> [] \<and> distinct (map rf_rollout (pl_files p)) \<and> int (length (pl_files p)) \<le> lm_files l \<and>
    sm_base (rf_meta (hd (pl_files p))) = None \<and> successively (\<lambda>parent child. linked child parent) (pl_files p) \<and>
    map rf_prefix (pl_files p) = map (\<lambda>i. i + 1 < length (pl_files p)) [0..<length (pl_files p)] \<and>
    parse_id threadID = Inr (pl_thread p) \<and> rf_thread (last (pl_files p)) = pl_thread p"
proof -
  have "parse_id threadID = Inr (pl_thread p)" using assms unfolding inspect_def by (rule inspect_with_thread)
  then show ?thesis using sound_plan_shape [OF inspect_sound [OF assms]] by simp
qed

theorem inspect_lineage_witness:
  "rf_thread (last [toy_file]) = sample_id"
  using inspect_lineage [OF toy_inspect] by simp

end
