(* ===== verification/Session_Stream.thy ===== *)
theory Session_Stream
  imports Session_Lineage
begin

text \<open>
  The transfer stream (\<open>internal/session/stream.go\<close>).  A tar stream is the list of its members
  with what its reader meets after the last one; JSON of the manifest is a parameter.  Export
  returns what it wrote with its error, so that a stream that was cut short is a value too.
\<close>

section \<open>The manifest\<close>

record wire_file =
  wf_path :: string
  wf_thread :: string
  wf_rollout :: string
  wf_bytes :: int
  wf_sha256 :: string
  wf_modified :: moment
  wf_prefix :: bool

record manifest =
  mf_version :: int
  mf_thread :: string
  mf_files :: "wire_file list"

definition hex_char :: "char \<Rightarrow> bool" where
  "hex_char c = (is_digit c \<or> CHR ''a'' \<le> c \<and> c \<le> CHR ''f'' \<or> CHR ''A'' \<le> c \<and> c \<le> CHR ''F'')"

text \<open>\<open>hex.DecodeString\<close> gives 32 bytes, and the text is in lower case.\<close>

definition checksum_text :: "string \<Rightarrow> bool" where
  "checksum_text s = (length s = 64 \<and> list_all hex_char s \<and> s = to_lower s)"

definition fixed_id :: "string \<Rightarrow> bool" where
  "fixed_id s = (parse_id s = Inr s)"

definition check_wire ::
  "limits \<Rightarrow> manifest \<Rightarrow> nat \<Rightarrow> string list \<Rightarrow> wire_file \<Rightarrow> session_error option" where
  "check_wire l m i seen f =
     (if \<not> fixed_id (wf_thread f) then Some (Refused ''invalid thread identity in transfer manifest'')
      else if \<not> fixed_id (wf_rollout f) \<or> wf_rollout f \<in> set seen
      then Some (Refused ''invalid or repeated rollout identity in transfer manifest'')
      else if \<not> checksum_text (wf_sha256 f) then Some (Refused ''invalid transfer checksum'')
      else if \<not> valid_relative (wf_path f) \<or> \<not> in_storage (wf_path f) \<or> \<not> has_suffix (wf_path f) ''.jsonl''
      then Some (Refused ''invalid transfer destination path'')
      else if wf_bytes f < 1 \<or> wf_bytes f > lm_file l \<or> wf_prefix f \<noteq> (i < length (mf_files m) - 1) \<or>
              mo_year (wf_modified f) < 1970 \<or> mo_year (wf_modified f) > 2261
      then Some (Refused ''invalid transfer size, timestamp or prerequisite order'')
      else if \<not> wf_prefix f \<and> wf_thread f \<noteq> mf_thread m then Some (Refused ''main rollout belongs to another thread'')
      else None)"

fun check_wires :: "limits \<Rightarrow> manifest \<Rightarrow> nat \<Rightarrow> string list \<Rightarrow> wire_file list \<Rightarrow> session_error option" where
  "check_wires l m i seen [] = None"
| "check_wires l m i seen (f # fs) =
     (case check_wire l m i seen f of Some e \<Rightarrow> Some e | None \<Rightarrow> check_wires l m (i + 1) (wf_rollout f # seen) fs)"

definition validate_manifest :: "manifest \<Rightarrow> limits \<Rightarrow> session_error option" where
  "validate_manifest m l =
     (if \<not> fixed_id (mf_thread m) \<or> mf_version m \<noteq> 1 \<or> mf_files m = [] \<or> int (length (mf_files m)) > lm_files l
      then Some (Refused ''invalid or unsupported session transfer manifest'')
      else check_wires l m 0 [] (mf_files m))"

section \<open>The lineage of a received plan\<close>

fun validate_links :: "rollout_file \<Rightarrow> rollout_file list \<Rightarrow> session_error option" where
  "validate_links parent [] = None"
| "validate_links parent (f # fs) =
     (case sm_base (rf_meta f) of
        None \<Rightarrow> Some (Refused ''transferred history dependencies or boundaries do not match'')
      | Some base \<Rightarrow>
          if hp_rollout base \<noteq> rf_rollout parent \<or> uint (hp_offset base) \<noteq> rf_bytes parent \<or>
             sm_mode (rf_meta parent) \<noteq> ''paginated'' \<or> rf_last parent = max_u64 \<or>
             rf_last parent + 1 \<noteq> hp_ordinal base
          then Some (Refused ''transferred history dependencies or boundaries do not match'')
          else validate_links f fs)"

definition validate_lineage :: "rollout_file list \<Rightarrow> session_error option" where
  "validate_lineage files =
     (case files of
        [] \<Rightarrow> None
      | f # fs \<Rightarrow>
          if sm_base (rf_meta f) \<noteq> None then Some (Refused ''transfer omits an inherited rollout'')
          else validate_links f fs)"

section \<open>Export\<close>

record tar_member =
  tm_name :: string
  tm_regular :: bool
  tm_link :: string
  tm_size :: int
  tm_data :: string

definition regular_member :: "string \<Rightarrow> int \<Rightarrow> string \<Rightarrow> tar_member" where
  "regular_member name n data = \<lparr>tm_name = name, tm_regular = True, tm_link = [], tm_size = n, tm_data = data\<rparr>"

definition payload_name :: "nat \<Rightarrow> string" where
  "payload_name i = ''files/'' @ pad 6 i @ ''.jsonl''"

text \<open>
  \<open>copyPayload\<close>: what is written, and the error.  An input whose context is cancelled ends with an
  error of its own.
\<close>

definition copy_payload :: "codec \<Rightarrow> rollout_file \<Rightarrow> input \<Rightarrow> bool \<Rightarrow> string \<times> session_error option" where
  "copy_payload cd f i exact =
     (case (if compressed (rf_source f) then cd_zstd cd i else Some i) of
        None \<Rightarrow> ([], Some (Refused ''zstd''))
      | Some d \<Rightarrow>
          let data = take (nat (rf_bytes f)) (in_bytes d) in
          if int (length data) < rf_bytes f then (data, Some (Refused ''stream''))
          else if sha256_hex data \<noteq> rf_sha256 f then (data, Some (Refused ''source rollout changed after inspection''))
          else if exact \<and> (in_bytes d \<noteq> data \<or> in_error d \<noteq> None)
          then (data, Some (Refused ''source rollout length or compressed trailer changed''))
          else (data, None))"

text \<open>Whether files are still pinned and which, the manifest's encoder, the output (which members it
  takes, and how the stream closes) and the context.\<close>

record exporter =
  ex_codec :: codec
  ex_open :: bool
  ex_pinned :: "string \<Rightarrow> input option"
  ex_encode :: "manifest \<Rightarrow> string option"
  ex_accepts :: "tar_member list \<Rightarrow> tar_member \<Rightarrow> bool"
  ex_cancel :: "nat \<Rightarrow> bool"
  ex_close :: "session_error option"

definition wire_of :: "exporter \<Rightarrow> rollout_file \<Rightarrow> (session_error, wire_file) result" where
  "wire_of ex f =
     (if ex_pinned ex (rf_source f) = None then Inl (Refused ''snapshot no longer owns all required source files'')
      else bindE (publication_path f) (\<lambda>path.
        Inr \<lparr>wf_path = path, wf_thread = rf_thread f, wf_rollout = rf_rollout f, wf_bytes = rf_bytes f,
             wf_sha256 = rf_sha256 f, wf_modified = rf_modified f, wf_prefix = rf_prefix f\<rparr>))"

definition write_member ::
  "exporter \<Rightarrow> tar_member list \<Rightarrow> tar_member \<Rightarrow> (tar_member list \<times> session_error option)" where
  "write_member ex out m = (if ex_accepts ex out m then (out @ [m], None) else (out, Some (Refused ''write'')))"

definition stored_size :: "rollout_file \<Rightarrow> int" where
  "stored_size f = (case rf_stored f of None \<Rightarrow> 0 | Some s \<Rightarrow> st_size s)"

fun export_payloads ::
  "exporter \<Rightarrow> nat \<Rightarrow> tar_member list \<Rightarrow> rollout_file list \<Rightarrow> tar_member list \<times> session_error option" where
  "export_payloads ex i out [] = (out, None)"
| "export_payloads ex i out (f # fs) =
     (if ex_cancel ex i then (out, Some Interrupted)
      else case ex_pinned ex (rf_source f) of
        None \<Rightarrow> (out, Some (Refused ''closed''))
      | Some pinned \<Rightarrow>
          (case copy_payload (ex_codec ex) f (section_input (stored_size f) pinned)
                  (compressed (rf_source f) \<and> \<not> rf_prefix f) of
             (data, err) \<Rightarrow>
               (case write_member ex out (regular_member (payload_name i) (rf_bytes f) data) of
                  (out', Some e) \<Rightarrow> (out', Some e)
                | (out', None) \<Rightarrow>
                    (case err of Some e \<Rightarrow> (out', Some e) | None \<Rightarrow> export_payloads ex (i + 1) out' fs))))"

definition export_plan ::
  "exporter \<Rightarrow> limits \<Rightarrow> plan \<Rightarrow> tar_member list \<times> session_error option" where
  "export_plan ex l p =
     (if pl_files p = [] \<or> \<not> ex_open ex then ([], Some (Refused ''session snapshot is empty or closed''))
      else case mapE (wire_of ex) (pl_files p) of
        Inl e \<Rightarrow> ([], Some e)
      | Inr wires \<Rightarrow>
          (case ex_encode ex \<lparr>mf_version = 1, mf_thread = pl_thread p, mf_files = wires\<rparr> of
             None \<Rightarrow> ([], Some (Refused ''encode''))
           | Some encoded \<Rightarrow>
               if int (length encoded) > lm_manifest l
               then ([], Some (Refused ''session manifest exceeds configured limit''))
               else (case write_member ex [] (regular_member ''manifest.json'' (int (length encoded)) encoded) of
                  (out, Some e) \<Rightarrow> (out, Some e)
                | (out, None) \<Rightarrow>
                    (case export_payloads ex 0 out (pl_files p) of
                       (out, Some e) \<Rightarrow> (out, Some e)
                     | (out, None) \<Rightarrow>
                         (case write_member ex out
                             (regular_member ''complete.sha256'' 65 (sha256_hex encoded @ [newline])) of
                            (out, Some e) \<Rightarrow> (out, Some e)
                          | (out, None) \<Rightarrow> (out, ex_close ex))))))"

section \<open>Receive\<close>

text \<open>
  The stream as its reader finds it: the members, an error instead of EOF after the last one, the
  bytes read from the end of the completion record to EOF, and whether anything follows.
\<close>

record tar_stream =
  ts_members :: "tar_member list"
  ts_error :: "string option"
  ts_trailer :: int
  ts_extra :: bool

text \<open>
  The destination: the decoder of the manifest with whether anything follows it, the reservation
  of a staging directory, the creation of a slot, writing its data, its mode, times, synchronisation
  and close, and how a slot reads back.
\<close>

record receiver =
  rc_codec :: codec
  rc_decode :: "string \<Rightarrow> (manifest \<times> bool) option"
  rc_staging :: "session_error option"
  rc_open :: "nat \<Rightarrow> session_error option"
  rc_write :: "nat \<Rightarrow> string \<Rightarrow> session_error option"
  rc_store :: "nat \<Rightarrow> session_error option"
  rc_slot :: "nat \<Rightarrow> string \<Rightarrow> moment \<Rightarrow> (session_error, opened) result"

definition expected_member :: "tar_member list \<Rightarrow> string \<Rightarrow> int \<Rightarrow> (session_error, tar_member \<times> tar_member list) result" where
  "expected_member ms name n =
     (case ms of
        [] \<Rightarrow> Inl (Refused ''read transfer member'')
      | m # rest \<Rightarrow>
          if tm_name m \<noteq> name \<or> \<not> tm_regular m \<or> tm_link m \<noteq> [] \<or> tm_size m \<noteq> n
          then Inl (Refused ''unexpected transfer member'') else Inr (m, rest))"

definition member_data :: "tar_member \<Rightarrow> (session_error, string) result" where
  "member_data m = (if int (length (tm_data m)) < tm_size m then Inl (Refused ''unexpected EOF'')
      else Inr (take (nat (tm_size m)) (tm_data m)))"

definition slot_name :: "nat \<Rightarrow> string" where
  "slot_name i = pad 6 i @ ''.jsonl''"

definition receive_file ::
  "receiver \<Rightarrow> limits \<Rightarrow> nat \<Rightarrow> wire_file \<Rightarrow> tar_member list \<Rightarrow> (session_error, rollout_file \<times> tar_member list) result"
where
  "receive_file rc l i entry ms =
     bindE (expected_member ms (payload_name i) (wf_bytes entry)) (\<lambda>(m, rest).
     bindE (fail_opt (rc_open rc i)) (\<lambda>_.
     bindE (member_data m) (\<lambda>data.
     bindE (fail_opt (rc_write rc i data)) (\<lambda>_.
     if sha256_hex data \<noteq> wf_sha256 entry then Inl (Refused ''checksum mismatch for rollout'')
     else
         bindE (fail_opt (rc_store rc i)) (\<lambda>_.
         bindE (read_rollout (rc_codec rc) (\<lambda>_. rc_slot rc i data (wf_modified entry))
                  \<lparr>cn_path = slot_name i, cn_thread = wf_thread entry, cn_rollout = wf_rollout entry\<rparr> None l) (\<lambda>f.
         let f = f\<lparr>rf_path := wf_path entry, rf_prefix := wf_prefix entry\<rparr> in
         if rf_bytes f \<noteq> wf_bytes entry \<or> rf_sha256 f \<noteq> wf_sha256 entry
         then Inl (Refused ''staging content changed during validation'')
         else bindE (publication_path f) (\<lambda>want.
           if want \<noteq> wf_path entry then Inl (Refused ''noncanonical destination path in session manifest'')
           else Inr (f, rest))))))))"

fun receive_files ::
  "receiver \<Rightarrow> limits \<Rightarrow> nat \<Rightarrow> wire_file list \<Rightarrow> tar_member list \<Rightarrow> (session_error, rollout_file list \<times> tar_member list) result"
where
  "receive_files rc l i [] ms = Inr ([], ms)"
| "receive_files rc l i (entry # es) ms =
     bindE (receive_file rc l i entry ms) (\<lambda>(f, rest).
     bindE (receive_files rc l (i + 1) es rest) (\<lambda>(fs, rest'). Inr (f # fs, rest')))"

definition receive_manifest ::
  "receiver \<Rightarrow> limits \<Rightarrow> tar_stream \<Rightarrow> (session_error, string \<times> manifest \<times> tar_member list) result" where
  "receive_manifest rc l s =
     (case ts_members s of
        [] \<Rightarrow> Inl (Refused ''read session manifest'')
      | h # ms \<Rightarrow>
          if tm_name h \<noteq> ''manifest.json'' \<or> \<not> tm_regular h \<or> tm_link h \<noteq> [] \<or> tm_size h < 1 \<or> tm_size h > lm_manifest l
          then Inl (Refused ''invalid session manifest member or size'')
          else bindE (member_data h) (\<lambda>encoded.
            case rc_decode rc encoded of
              None \<Rightarrow> Inl (Refused ''invalid session manifest'')
            | Some (m, at_end) \<Rightarrow>
                if \<not> at_end then Inl (Refused ''unexpected content after session manifest'')
                else (case validate_manifest m l of Some e \<Rightarrow> Inl e | None \<Rightarrow> Inr (encoded, m, ms))))"

definition receive_end :: "tar_stream \<Rightarrow> string \<Rightarrow> tar_member list \<Rightarrow> (session_error, unit) result" where
  "receive_end s encoded ms =
     bindE (expected_member ms ''complete.sha256'' 65) (\<lambda>(m, rest).
     bindE (member_data m) (\<lambda>completion.
     if completion \<noteq> sha256_hex encoded @ [newline] then Inl (Refused ''transfer completion checksum mismatch'')
     else if rest \<noteq> [] \<or> ts_error s \<noteq> None then Inl (Refused ''unexpected content after transfer completion'')
     else if ts_trailer s \<noteq> (512 - 65) + 2 * 512 then Inl (Refused ''truncated session transfer trailer'')
     else if ts_extra s then Inl (Refused ''unexpected trailing transfer data'')
     else Inr ()))"

definition receive_staged ::
  "receiver \<Rightarrow> limits \<Rightarrow> tar_stream \<Rightarrow> string \<Rightarrow> manifest \<Rightarrow> tar_member list \<Rightarrow> (session_error, plan) result" where
  "receive_staged rc l s encoded m ms =
     bindE (receive_files rc l 0 (mf_files m) ms) (\<lambda>(files, rest).
     case validate_lineage files of
       Some e \<Rightarrow> Inl e
     | None \<Rightarrow> bindE (receive_end s encoded rest) (\<lambda>_. Inr \<lparr>pl_thread = mf_thread m, pl_files = files\<rparr>))"

text \<open>The result, and whether the deferred \<open>Close\<close> gave up the staging directory.\<close>

definition receive :: "receiver \<Rightarrow> limits \<Rightarrow> tar_stream \<Rightarrow> (session_error, plan) result \<times> bool" where
  "receive rc l s =
     (case bindE (valid_limits l) (\<lambda>_. receive_manifest rc l s) of
        Inl e \<Rightarrow> (Inl e, False)
      | Inr (encoded, m, ms) \<Rightarrow>
          (case rc_staging rc of
             Some e \<Rightarrow> (Inl e, False)
           | None \<Rightarrow>
               (case receive_staged rc l s encoded m ms of
                  Inl e \<Rightarrow> (Inl e, True)
                | Inr p \<Rightarrow> (Inr p, False))))"

section \<open>The content of a file\<close>

text \<open>\<open>data\<close> are the bytes from which \<open>f\<close> was read.\<close>

definition file_content :: "codec \<Rightarrow> limits \<Rightarrow> rollout_file \<Rightarrow> string \<Rightarrow> bool" where
  "file_content cd l f data \<longleftrightarrow>
     (\<exists>c ws st. record_lines l ws \<and> foldE (take_record cd l c) start_reading ws = Inr st \<and> rd_saw st \<and>
        sound_reading cd l c st ws \<and> ws \<noteq> [] \<and>
        cn_thread c = rf_thread f \<and> data = concat ws \<and> rf_meta f = rd_meta st \<and> rf_last f = rd_previous st \<and>
        rf_bytes f = int (length data) \<and> rf_sha256 f = sha256_hex data)"

lemma read_content:
  assumes "read_rollout_file cd opn c e l snap = Inr f" shows "\<exists>data. file_content cd l f data"
proof -
  obtain before raw decoded i st ws where ws: "record_lines l ws" "foldE (take_record cd l c) start_reading ws = Inr st"
    and st: "sound_reading cd l c st ws" "rd_saw st" and f: "f = finished_file c e before st"
    by (rule read_rollout_fileE [OF assms])
  have "rd_content st = concat ws" using st(1) by (simp add: sound_reading_def)
  moreover have "ws \<noteq> []" using ws(2) st(2) by (auto simp: start_reading_def)
  ultimately show ?thesis unfolding file_content_def using ws st
    by (intro exI [of _ "concat ws"] exI [of _ c] exI [of _ ws] exI [of _ st]) (simp add: f finished_file_def)
qed

definition same_history :: "rollout_file \<Rightarrow> rollout_file \<Rightarrow> bool" where
  "same_history f g \<longleftrightarrow>
     rf_thread f = rf_thread g \<and> rf_rollout f = rf_rollout g \<and> rf_bytes f = rf_bytes g \<and> rf_sha256 f = rf_sha256 g \<and>
     rf_prefix f = rf_prefix g \<and> rf_meta f = rf_meta g \<and> rf_last f = rf_last g"

lemma publication_path_cong:
  assumes "rf_path f = rf_path g" "rf_thread f = rf_thread g" "rf_rollout f = rf_rollout g" "rf_prefix f = rf_prefix g"
    "rf_meta f = rf_meta g"
  shows "publication_path f = publication_path g"
  unfolding publication_path_def canonical_name_def assms ..

definition wire :: "rollout_file \<Rightarrow> string \<Rightarrow> wire_file" where
  "wire f path = \<lparr>wf_path = path, wf_thread = rf_thread f, wf_rollout = rf_rollout f, wf_bytes = rf_bytes f,
     wf_sha256 = rf_sha256 f, wf_modified = rf_modified f, wf_prefix = rf_prefix f\<rparr>"

definition received :: "rollout_file \<Rightarrow> string \<Rightarrow> nat \<Rightarrow> stat \<Rightarrow> rollout_file" where
  "received f path i info = f\<lparr>rf_source := slot_name i, rf_path := path, rf_modified := st_modified info, rf_stored := Some info\<rparr>"

lemma slot_plain: "\<not> compressed (slot_name i)"
  by (simp add: compressed_def slot_name_def has_suffix_def)

lemma content_length: "file_content cd l f data \<Longrightarrow> rf_bytes f = int (length data) \<and> rf_sha256 f = sha256_hex data"
  by (auto simp: file_content_def)

lemma content_bounds: "file_content cd l f data \<Longrightarrow> 1 \<le> rf_bytes f \<and> rf_bytes f \<le> lm_file l"
proof -
  assume "file_content cd l f data"
  then obtain c ws st where w: "record_lines l ws" "sound_reading cd l c st ws" "ws \<noteq> []" "rf_bytes f = int (length (concat ws))"
    by (auto simp: file_content_def)
  then have "concat ws \<noteq> []" by (cases ws) (auto simp: whole_line_def)
  then have "1 \<le> rf_bytes f" unfolding w(4) by (cases "concat ws") auto
  then show ?thesis using w(2-4) by (simp add: sound_reading_def)
qed

lemma receive_one:
  assumes c: "file_content cd l f data" and p: "publication_path f = Inr path" "sound_file f" "0 \<le> lm_record l"
    and rc: "rc_codec rc = cd" "rc_store rc i = None \<and> rc_open rc i = None \<and> rc_write rc i data = None"
      "rc_slot rc i data (rf_modified f) = Inr (calm_file data info)"
  shows "receive_file rc l i (wire f path) (regular_member (payload_name i) (rf_bytes f) data # rest) =
    Inr (received f path i info, rest)"
proof -
  obtain c ws st where w: "record_lines l ws" "foldE (take_record cd l c) start_reading ws = Inr st" "rd_saw st"
    "sound_reading cd l c st ws" "cn_thread c = rf_thread f" "data = concat ws" "rf_meta f = rd_meta st"
    "rf_last f = rd_previous st" "rf_bytes f = int (length data)" "rf_sha256 f = sha256_hex data"
    using c by (auto simp: file_content_def)
  let ?c = "\<lparr>cn_path = slot_name i, cn_thread = rf_thread f, cn_rollout = rf_rollout f\<rparr>"
  have "read_rollout_file cd (calm_file data info) ?c None l False = Inr (finished_file ?c None info st)"
    unfolding w(6) by (rule read_again [OF w(1-3) p(3)]) (simp_all add: w(5) slot_plain)
  moreover have "rd_content st = data" using w(4,6) by (simp add: sound_reading_def)
  then have "(finished_file ?c None info st)\<lparr>rf_path := path, rf_prefix := rf_prefix f\<rparr> = received f path i info"
    by (simp add: finished_file_def received_def w(7-10))
  moreover have "publication_path (received f path i info) = Inr path"
    using publication_path_date [OF p(1)] p(2) publication_path_cong [of "received f path i info" "f\<lparr>rf_path := path\<rparr>"]
    by (simp add: received_def sound_file_def)
  moreover have "rf_bytes (finished_file ?c None info st) = int (length data)"
    "rf_sha256 (finished_file ?c None info st) = sha256_hex data"
    by (simp_all add: finished_file_def \<open>rd_content st = data\<close>)
  ultimately show ?thesis using rc w(9,10)
    by (simp add: receive_file_def expected_member_def regular_member_def wire_def member_data_def read_rollout_def Let_def)
qed

section \<open>What export has written\<close>

fun payload_members :: "nat \<Rightarrow> rollout_file list \<Rightarrow> string list \<Rightarrow> tar_member list" where
  "payload_members i (f # fs) (d # ds) = regular_member (payload_name i) (rf_bytes f) d # payload_members (i + 1) fs ds"
| "payload_members i _ _ = []"

text \<open>Size and hash of the bytes sent are those of the file.\<close>

definition verified :: "rollout_file \<Rightarrow> string \<Rightarrow> bool" where
  "verified f d \<longleftrightarrow> (0 \<le> rf_bytes f \<longrightarrow> int (length d) = rf_bytes f) \<and> sha256_hex d = rf_sha256 f"

lemma copy_payload_ok:
  assumes "copy_payload cd f i exact = (d, None)"
  shows "0 \<le> rf_bytes f \<longrightarrow> int (length d) = rf_bytes f" "sha256_hex d = rf_sha256 f"
proof -
  obtain y where y: "(if compressed (rf_source f) then cd_zstd cd i else Some i) = Some y"
    using assms unfolding copy_payload_def by (cases "if compressed (rf_source f) then cd_zstd cd i else Some i") auto
  define t where "t = take (nat (rf_bytes f)) (in_bytes y)"
  have "d = t \<and> \<not> int (length t) < rf_bytes f \<and> sha256_hex t = rf_sha256 f"
    using assms unfolding copy_payload_def y option.case Let_def t_def [symmetric] by (simp split: if_split_asm)
  then have x: "d = take (nat (rf_bytes f)) (in_bytes y)" "\<not> int (length d) < rf_bytes f" "sha256_hex d = rf_sha256 f"
    by (simp_all add: t_def)
  have "length d \<le> nat (rf_bytes f)" unfolding x(1) by simp
  then show "0 \<le> rf_bytes f \<longrightarrow> int (length d) = rf_bytes f" using x(2) by linarith
  show "sha256_hex d = rf_sha256 f" by (rule x(3))
qed

lemma export_payloads_ok:
  "export_payloads ex i out fs = (out', None) \<Longrightarrow>
     \<exists>ds. length ds = length fs \<and> out' = out @ payload_members i fs ds \<and>
       list_all2 verified fs ds"
proof (induction ex i out fs rule: export_payloads.induct)
  case (2 ex i out f fs)
  obtain pinned where p: "\<not> ex_cancel ex i" "ex_pinned ex (rf_source f) = Some pinned"
    using 2(2) by (auto split: if_split_asm option.splits)
  obtain d err where c: "copy_payload (ex_codec ex) f (section_input (stored_size f) pinned)
      (compressed (rf_source f) \<and> \<not> rf_prefix f) = (d, err)" by fastforce
  let ?m = "regular_member (payload_name i) (rf_bytes f) d"
  have w: "write_member ex out ?m = (out @ [?m], None)" "err = None"
    "export_payloads ex (i + 1) (out @ [?m]) fs = (out', None)"
    using 2(2) p c by (auto simp: write_member_def split: if_split_asm option.splits)
  obtain ds where ds: "length ds = length fs" "out' = (out @ [?m]) @ payload_members (i + 1) fs ds"
    "list_all2 verified fs ds"
    using 2(1) [OF p c [symmetric] w(1) [symmetric] refl w(2) w(3)] by blast
  moreover have "verified f d" using copy_payload_ok c w(2) by (simp add: verified_def)
  ultimately show ?case by (intro exI [of _ "d # ds"]) simp
qed simp

text \<open>Every file was sent: the only error left is that of closing the stream.\<close>

lemma export_written:
  assumes "export_payloads ex 0 [h] (pl_files p) = (out, None)" "h = regular_member ''manifest.json'' (int (length encoded)) encoded"
    "write_member ex out (regular_member ''complete.sha256'' 65 (sha256_hex encoded @ [newline])) = (ms, None)"
  shows "\<exists>ds. length ds = length (pl_files p) \<and> list_all2 verified (pl_files p) ds \<and>
    ms = regular_member ''manifest.json'' (int (length encoded)) encoded # payload_members 0 (pl_files p) ds @
      [regular_member ''complete.sha256'' 65 (sha256_hex encoded @ [newline])]"
  using export_payloads_ok [OF assms(1)] assms(2,3) by (auto simp: write_member_def split: if_split_asm)

text \<open>No payload is named like the completion record.\<close>

lemma payload_not_complete: "payload_name i \<noteq> ''complete.sha256''"
  by (simp add: payload_name_def)

lemma export_payloads_names:
  "export_payloads ex i out fs = (out', err) \<Longrightarrow> list_all (\<lambda>m. tm_name m \<noteq> ''complete.sha256'') out \<Longrightarrow>
     list_all (\<lambda>m. tm_name m \<noteq> ''complete.sha256'') out'"
proof (induction ex i out fs rule: export_payloads.induct)
  case (2 ex i out f fs)
  show ?case
  proof (cases "ex_cancel ex i \<or> ex_pinned ex (rf_source f) = None")
    case True
    then show ?thesis using 2(2,3) by (auto split: if_split_asm)
  next
    case False
    then obtain pinned where p: "\<not> ex_cancel ex i" "ex_pinned ex (rf_source f) = Some pinned" by auto
    obtain d e where c: "copy_payload (ex_codec ex) f (section_input (stored_size f) pinned)
        (compressed (rf_source f) \<and> \<not> rf_prefix f) = (d, e)" by fastforce
    let ?m = "regular_member (payload_name i) (rf_bytes f) d"
    obtain o' e' where w: "write_member ex out ?m = (o', e')" by fastforce
    have o': "list_all (\<lambda>m. tm_name m \<noteq> ''complete.sha256'') o'"
      using w 2(3) by (auto simp: write_member_def regular_member_def payload_not_complete split: if_split_asm)
    show ?thesis
    proof (cases "e' = None \<and> e = None")
      case True
      then show ?thesis using 2(1) [OF p c [symmetric] w [symmetric]] 2(2) p c w o' by simp
    next
      case False
      then show ?thesis using 2(2) p c w o' by (auto split: option.splits)
    qed
  qed
qed simp

lemma export_completeE:
  assumes e: "export_plan ex l p = (ms, err)" and c: "err = None \<or> (\<exists>m \<in> set ms. tm_name m = ''complete.sha256'')"
  obtains wires encoded ds where "pl_files p \<noteq> []" "mapE (wire_of ex) (pl_files p) = Inr wires"
    "ex_encode ex \<lparr>mf_version = 1, mf_thread = pl_thread p, mf_files = wires\<rparr> = Some encoded"
    "int (length encoded) \<le> lm_manifest l" "length ds = length (pl_files p)"
    "ms = regular_member ''manifest.json'' (int (length encoded)) encoded # payload_members 0 (pl_files p) ds @
      [regular_member ''complete.sha256'' 65 (sha256_hex encoded @ [newline])]"
    "list_all2 verified (pl_files p) ds" "err = ex_close ex"
proof -
  have "pl_files p \<noteq> [] \<and> ex_open ex" using e c by (auto simp: export_plan_def split: if_split_asm)
  then obtain wires where w: "mapE (wire_of ex) (pl_files p) = Inr wires"
    using e c by (auto simp: export_plan_def split: sum.splits)
  let ?m = "\<lparr>mf_version = 1, mf_thread = pl_thread p, mf_files = wires\<rparr>"
  obtain encoded where enc: "ex_encode ex ?m = Some encoded" "int (length encoded) \<le> lm_manifest l"
    using e c w \<open>pl_files p \<noteq> [] \<and> ex_open ex\<close> by (auto simp: export_plan_def split: option.splits if_split_asm)
  let ?h = "regular_member ''manifest.json'' (int (length encoded)) encoded"
  let ?e = "regular_member ''complete.sha256'' 65 (sha256_hex encoded @ [newline])"
  have "ex_accepts ex [] ?h"
  proof (rule ccontr)
    assume "\<not> ex_accepts ex [] ?h"
    then show False using e c w enc \<open>pl_files p \<noteq> [] \<and> ex_open ex\<close> by (auto simp: export_plan_def write_member_def)
  qed
  then have "write_member ex [] ?h = ([?h], None)" by (simp add: write_member_def)
  moreover obtain out err' where o': "export_payloads ex 0 [?h] (pl_files p) = (out, err')" by fastforce
  moreover have n: "list_all (\<lambda>m. tm_name m \<noteq> ''complete.sha256'') out"
    by (rule export_payloads_names [OF o']) (simp add: regular_member_def)
  ultimately have "err' = None" using e c w enc \<open>pl_files p \<noteq> [] \<and> ex_open ex\<close>
    by (cases err') (auto simp: export_plan_def list_all_iff)
  moreover have "write_member ex out ?e = (ms, None) \<and> err = ex_close ex"
    using e c w enc \<open>pl_files p \<noteq> [] \<and> ex_open ex\<close> \<open>write_member ex [] ?h = ([?h], None)\<close> o' \<open>err' = None\<close> n
    by (auto simp: export_plan_def write_member_def list_all_iff split: if_split_asm)
  ultimately show thesis
    using export_written [of ex ?h p out encoded ms] o' that [OF _ w enc] \<open>pl_files p \<noteq> [] \<and> ex_open ex\<close> by blast
qed

lemma export_planE:
  assumes "export_plan ex l p = (ms, None)"
  obtains wires encoded ds where "pl_files p \<noteq> []" "mapE (wire_of ex) (pl_files p) = Inr wires"
    "ex_encode ex \<lparr>mf_version = 1, mf_thread = pl_thread p, mf_files = wires\<rparr> = Some encoded"
    "int (length encoded) \<le> lm_manifest l" "length ds = length (pl_files p)"
    "ms = regular_member ''manifest.json'' (int (length encoded)) encoded # payload_members 0 (pl_files p) ds @
      [regular_member ''complete.sha256'' 65 (sha256_hex encoded @ [newline])]"
    "list_all2 verified (pl_files p) ds"
  by (rule export_completeE [OF assms]) (simp_all add: that)

section \<open>What the receiver accepts\<close>

lemma wire_of_ok: "wire_of ex f = Inr w \<longleftrightarrow> ex_pinned ex (rf_source f) \<noteq> None \<and>
    (\<exists>path. publication_path f = Inr path \<and> w = wire f path)"
  by (auto simp: wire_of_def wire_def result_iff)

lemma checksum_sha256: "checksum_text (sha256_hex d)"
proof -
  have l: "lower_hex c" if "c \<in> set (sha256_hex d)" for c using that by (rule sha.sum_alphabet)
  then have "to_lower (sha256_hex d) = sha256_hex d" by (intro to_lower_id) (simp add: id_char_def)
  moreover have "list_all hex_char (sha256_hex d)" using l by (auto simp: list_all_iff lower_hex_def hex_char_def)
  ultimately show ?thesis by (simp add: checksum_text_def sha.sum_length)
qed

definition in_years :: "moment \<Rightarrow> bool" where
  "in_years t \<longleftrightarrow> 1970 \<le> mo_year t \<and> mo_year t \<le> 2261"

lemma check_wire_ok:
  assumes "sound_file f" "publication_path f = Inr path" "file_content cd l f d" "in_years (rf_modified f)"
    "rf_rollout f \<notin> set seen" "rf_prefix f = (i < length (mf_files m) - 1)" "rf_prefix f \<or> rf_thread f = mf_thread m"
  shows "check_wire l m i seen (wire f path) = None"
proof -
  have s: "parse_id (rf_thread f) = Inr (rf_thread f)" "has_suffix (rf_path f) ''.jsonl''"
    "parse_id (rf_rollout f) = Inr (rf_rollout f)" using assms(1) by (simp_all add: sound_file_def)
  obtain dirs name where d: "p = join_char slash (dirs @ [name])" "dirs \<noteq> []" "list_all name_part (dirs @ [name])"
    "has_suffix name ''.jsonl''"
    "parse_name name = Some \<lparr>cn_path = name, cn_thread = rf_thread f, cn_rollout = rf_rollout f\<rparr>"
    "p = join_char slash dirs @ slash # name" "in_storage p" "prerequisite_path p = rf_prefix f"
    "rf_prefix f \<or> has_prefix p ''archived_sessions/'' = has_prefix (rf_path f) ''archived_sessions/''"
    if "p = path" for p
    by (rule publication_parts [OF assms(2) s(2,1)]) blast
  note d = d [OF refl]
  have "valid_relative path" unfolding d(1) using d(2,3) by (intro ordinary_names) (cases dirs; simp)+
  moreover have "has_suffix path ''.jsonl''"
    using d(4,6) has_suffix_append_left [of name _ "join_char slash dirs @ [slash]"] by simp
  moreover have "checksum_text (rf_sha256 f)" using content_length [OF assms(3)] checksum_sha256 by simp
  ultimately show ?thesis using s d(7) content_bounds [OF assms(3)] assms(4-7)
    by (simp add: check_wire_def wire_def fixed_id_def in_years_def)
qed

lemma check_wires_ok:
  assumes "list_all2 (\<lambda>f w. \<exists>path. publication_path f = Inr path \<and> w = wire f path) fs ws"
    "list_all2 (file_content cd l) fs ds" "list_all sound_file fs" "list_all (\<lambda>f. in_years (rf_modified f)) fs"
    "distinct (map rf_rollout fs)" "set seen \<inter> rf_rollout ` set fs = {}"
    "map rf_prefix fs = map (\<lambda>j. i + j + 1 < length (mf_files m)) [0..<length fs]"
    "list_all (\<lambda>f. rf_prefix f \<or> rf_thread f = mf_thread m) fs"
  shows "check_wires l m i seen ws = None"
  using assms
proof (induction fs arbitrary: i seen ws ds)
  case (Cons f fs)
  obtain path ws' where w: "ws = wire f path # ws'" "publication_path f = Inr path"
    "list_all2 (\<lambda>f w. \<exists>path. publication_path f = Inr path \<and> w = wire f path) fs ws'"
    using Cons(2) by (auto simp: list_all2_Cons1)
  obtain d ds' where d: "ds = d # ds'" "file_content cd l f d" "list_all2 (file_content cd l) fs ds'"
    using Cons(3) by (auto simp: list_all2_Cons1)
  have pf: "rf_prefix f = (i + 1 < length (mf_files m))"
    "map rf_prefix fs = map (\<lambda>j. (i + 1) + j + 1 < length (mf_files m)) [0..<length fs]"
    using Cons(8) by (simp_all add: upt_conv_Cons map_Suc_upt [symmetric] del: upt_Suc)
  have "check_wire l m i seen (wire f path) = None"
    using Cons(4,5,7,9) d(2) w(2) pf(1) by (intro check_wire_ok [of f path cd l d]) auto
  moreover have "check_wires l m (i + 1) (rf_rollout f # seen) ws' = None"
    using Cons(4,5,6,7,9) d(3) w(3) pf(2) by (intro Cons(1)) auto
  ultimately show ?case by (simp add: w(1) wire_def)
qed simp

lemma validate_links_ok:
  "successively (\<lambda>p c. linked c p) (f # fs) \<Longrightarrow> validate_links f fs = None"
  by (induction f fs rule: validate_links.induct) (auto simp: linked_def)

lemma linked_cong: "same_history c c' \<Longrightarrow> same_history p p' \<Longrightarrow> linked c p = linked c' p'"
  by (simp add: same_history_def linked_def)

lemma successively_same:
  "list_all2 same_history fs gs \<Longrightarrow> successively (\<lambda>p c. linked c p) fs \<Longrightarrow> successively (\<lambda>p c. linked c p) gs"
proof (induction fs gs rule: list_all2_induct)
  case (Cons f fs g gs)
  then show ?case
  proof (cases fs)
    case (Cons f' fs')
    then obtain g' gs' where g: "gs = g' # gs'" "same_history f' g'" using Cons.hyps(2) by (auto simp: list_all2_Cons1)
    then show ?thesis using Cons.IH Cons.prems Cons.hyps(1) linked_cong [of f' g' f g] \<open>fs = f' # fs'\<close> by simp
  qed (auto simp: list_all2_Cons1)
qed simp

lemma validate_lineage_ok:
  assumes "list_all2 same_history fs gs" "successively (\<lambda>p c. linked c p) fs" "fs \<noteq> [] \<longrightarrow> sm_base (rf_meta (hd fs)) = None"
  shows "validate_lineage gs = None"
proof (cases gs)
  case (Cons g gs')
  then obtain f fs' where f: "fs = f # fs'" "same_history f g" using assms(1) by (auto simp: list_all2_Cons2)
  have "validate_links g gs' = None" using successively_same [OF assms(1,2)] Cons validate_links_ok by blast
  then show ?thesis using f assms(3) Cons by (simp add: validate_lineage_def same_history_def)
qed (simp add: validate_lineage_def)

text \<open>A destination in which every step of the staging succeeds.\<close>

definition calm_destination :: "receiver \<Rightarrow> bool" where
  "calm_destination rc \<longleftrightarrow> rc_staging rc = None \<and> (\<forall>i d. rc_store rc i = None \<and> rc_open rc i = None \<and> rc_write rc i d = None) \<and>
     (\<forall>i d t. \<exists>info. rc_slot rc i d t = Inr (calm_file d info))"

lemma receive_files_ok:
  assumes "list_all2 (\<lambda>f w. \<exists>path. publication_path f = Inr path \<and> w = wire f path) fs ws"
    "list_all2 (file_content cd l) fs ds" "list_all sound_file fs" "0 \<le> lm_record l" "rc_codec rc = cd" "calm_destination rc"
  shows "\<exists>gs. receive_files rc l i ws (payload_members i fs ds @ rest) = Inr (gs, rest) \<and>
    list_all2 same_history fs gs \<and> list_all2 (\<lambda>f g. publication_path f = Inr (rf_path g)) fs gs"
  using assms(1-3)
proof (induction fs arbitrary: i ws ds)
  case (Cons f fs)
  obtain path ws' where w: "ws = wire f path # ws'" "publication_path f = Inr path"
    "list_all2 (\<lambda>f w. \<exists>path. publication_path f = Inr path \<and> w = wire f path) fs ws'"
    using Cons(2) by (auto simp: list_all2_Cons1)
  obtain d ds' where d: "ds = d # ds'" "file_content cd l f d" "list_all2 (file_content cd l) fs ds'"
    using Cons(3) by (auto simp: list_all2_Cons1)
  have sf: "sound_file f" "list_all sound_file fs" using Cons(4) by simp_all
  have calm: "rc_store rc i = None \<and> rc_open rc i = None \<and> rc_write rc i d = None" "\<exists>info. rc_slot rc i d (rf_modified f) = Inr (calm_file d info)"
    using assms(6) unfolding calm_destination_def by blast+
  then obtain info where info: "rc_slot rc i d (rf_modified f) = Inr (calm_file d info)"
    "rc_store rc i = None \<and> rc_open rc i = None \<and> rc_write rc i d = None"
    by blast
  have one: "receive_file rc l i (wire f path)
      (regular_member (payload_name i) (rf_bytes f) d # payload_members (i + 1) fs ds' @ rest) =
      Inr (received f path i info, payload_members (i + 1) fs ds' @ rest)"
    by (rule receive_one [OF d(2) w(2) sf(1) assms(4,5) info(2,1)])
  obtain gs where gs: "receive_files rc l (i + 1) ws' (payload_members (i + 1) fs ds' @ rest) = Inr (gs, rest)"
    "list_all2 same_history fs gs" "list_all2 (\<lambda>f g. publication_path f = Inr (rf_path g)) fs gs"
    using Cons(1) [OF w(3) d(3) sf(2)] by blast
  have "same_history f (received f path i info)" "rf_path (received f path i info) = path"
    by (simp_all add: same_history_def received_def)
  then show ?case using one gs w(2)
    by (intro exI [of _ "received f path i info # gs"]) (simp add: w(1) d(1))
qed simp

lemma wires_ok:
  "mapE (wire_of ex) fs = Inr ws \<Longrightarrow> list_all2 (\<lambda>f w. \<exists>path. publication_path f = Inr path \<and> w = wire f path) fs ws"
  unfolding mapE_Inr by (erule list_all2_mono) (simp add: wire_of_ok)

lemma payload_data: "length ds = length fs \<Longrightarrow> map tm_data (payload_members i fs ds) = ds"
  by (induction i fs ds rule: payload_members.induct) (auto simp: regular_member_def)

lemma manifest_ok:
  assumes p: "sound_plan l p" and w: "list_all2 (\<lambda>f w. \<exists>path. publication_path f = Inr path \<and> w = wire f path) (pl_files p) ws"
    and d: "list_all2 (file_content cd l) (pl_files p) ds" and y: "list_all (\<lambda>f. in_years (rf_modified f)) (pl_files p)"
  shows "validate_manifest \<lparr>mf_version = 1, mf_thread = pl_thread p, mf_files = ws\<rparr> l = None"
proof -
  let ?m = "\<lparr>mf_version = 1, mf_thread = pl_thread p, mf_files = ws\<rparr>"
  note shape = sound_plan_shape [OF p]
  have len: "length ws = length (pl_files p)" using w by (simp add: list_all2_lengthD)
  have threads: "list_all (\<lambda>f. rf_prefix f \<or> rf_thread f = pl_thread p) (pl_files p)"
  proof -
    have "rf_prefix (pl_files p ! i) \<or> rf_thread (pl_files p ! i) = pl_thread p" if i: "i < length (pl_files p)" for i
    proof (cases "i + 1 < length (pl_files p)")
      case True
      have "map rf_prefix (pl_files p) ! i = (i + 1 < length (pl_files p))" unfolding shape(6) using i by simp
      then show ?thesis using i True by simp
    next
      case False
      then have "i = length (pl_files p) - 1" using i by simp
      then show ?thesis using shape(1,7) by (simp add: last_conv_nth)
    qed
    then show ?thesis by (simp add: list_all_length)
  qed
  have "check_wires l ?m 0 [] ws = None"
    by (rule check_wires_ok [OF w d _ y shape(2)]) (use p shape(6) threads len in \<open>simp_all add: sound_plan_def\<close>)
  moreover have "fixed_id (pl_thread p)" using p by (simp add: sound_plan_def fixed_id_def)
  ultimately show ?thesis using shape(1,3) len by (auto simp: validate_manifest_def)
qed

text \<open>A stream as the exporter closes it: the padding of the completion record and two end blocks.\<close>

definition closed_stream :: "tar_member list \<Rightarrow> tar_stream" where
  "closed_stream ms = \<lparr>ts_members = ms, ts_error = None, ts_trailer = (512 - 65) + 2 * 512, ts_extra = False\<rparr>"

definition faithful_json :: "(manifest \<Rightarrow> string option) \<Rightarrow> (string \<Rightarrow> (manifest \<times> bool) option) \<Rightarrow> bool" where
  "faithful_json enc dec \<longleftrightarrow> (\<forall>m t. enc m = Some t \<longrightarrow> t \<noteq> [] \<and> dec t = Some (m, True))"

lemma transfer_received:
  assumes plan: "sound_plan l p" and exp: "export_plan ex l p = (ms, None)"
    and pinned: "list_all2 (file_content cd l) (pl_files p) (map tm_data (butlast (tl ms)))"
    and years: "list_all (\<lambda>f. in_years (rf_modified f)) (pl_files p)"
    and json: "faithful_json (ex_encode ex) (rc_decode rc)" and dest: "rc_codec rc = cd" "calm_destination rc"
  shows "\<exists>p'. receive rc l (closed_stream ms) = (Inr p', False) \<and> pl_thread p' = pl_thread p \<and>
    list_all2 same_history (pl_files p) (pl_files p') \<and>
    list_all2 (\<lambda>f g. publication_path f = Inr (rf_path g)) (pl_files p) (pl_files p')"
proof -
  obtain ws encoded ds where e: "mapE (wire_of ex) (pl_files p) = Inr ws"
    "ex_encode ex \<lparr>mf_version = 1, mf_thread = pl_thread p, mf_files = ws\<rparr> = Some encoded"
    "int (length encoded) \<le> lm_manifest l" "length ds = length (pl_files p)"
    and ms: "ms = regular_member ''manifest.json'' (int (length encoded)) encoded # payload_members 0 (pl_files p) ds @
      [regular_member ''complete.sha256'' 65 (sha256_hex encoded @ [newline])]"
    by (rule export_planE [OF exp])
  let ?m = "\<lparr>mf_version = 1, mf_thread = pl_thread p, mf_files = ws\<rparr>"
  let ?final = "[regular_member ''complete.sha256'' 65 (sha256_hex encoded @ [newline])]"
  note w = wires_ok [OF e(1)]
  have "map tm_data (butlast (tl ms)) = ds" by (simp add: ms butlast_append payload_data [OF e(4)])
  then have c: "list_all2 (file_content cd l) (pl_files p) ds" using pinned by simp
  have j: "encoded \<noteq> []" "rc_decode rc encoded = Some (?m, True)" using json e(2) by (simp_all add: faithful_json_def)
  have limits: "valid_limits l = Inr ()" "0 \<le> lm_record l" "list_all sound_file (pl_files p)"
    using plan by (auto simp: sound_plan_def valid_limits_def split: if_split_asm)
  have "receive_manifest rc l (closed_stream ms) = Inr (encoded, ?m, payload_members 0 (pl_files p) ds @ ?final)"
    using e(3) j manifest_ok [OF plan w c years]
    by (cases encoded) (simp_all add: receive_manifest_def closed_stream_def ms regular_member_def member_data_def)
  moreover obtain gs where gs: "receive_files rc l 0 ws (payload_members 0 (pl_files p) ds @ ?final) = Inr (gs, ?final)"
    "list_all2 same_history (pl_files p) gs" "list_all2 (\<lambda>f g. publication_path f = Inr (rf_path g)) (pl_files p) gs"
    using receive_files_ok [OF w c limits(3,2) dest] by blast
  moreover have "validate_lineage gs = None"
    using sound_plan_shape(4,5) [OF plan] by (intro validate_lineage_ok [OF gs(2)]) simp_all
  moreover have "receive_end (closed_stream ms) encoded ?final = Inr ()"
    by (simp add: receive_end_def expected_member_def regular_member_def member_data_def closed_stream_def sha.sum_length)
  ultimately have "receive rc l (closed_stream ms) = (Inr \<lparr>pl_thread = pl_thread p, pl_files = gs\<rparr>, False)"
    using limits(1) dest(2) by (simp add: receive_def receive_staged_def calm_destination_def)
  then show ?thesis using gs(2,3) by simp
qed

section \<open>What was received\<close>

text \<open>A received file as its manifest entry announced it.\<close>

definition accepted :: "receiver \<Rightarrow> limits \<Rightarrow> wire_file \<Rightarrow> rollout_file \<Rightarrow> bool" where
  "accepted rc l w f \<longleftrightarrow>
     rf_path f = wf_path w \<and> rf_thread f = wf_thread w \<and> rf_rollout f = wf_rollout w \<and> rf_prefix f = wf_prefix w \<and>
     rf_bytes f = wf_bytes w \<and> rf_sha256 f = wf_sha256 w \<and> publication_path f = Inr (wf_path w) \<and>
     (\<exists>data. file_content (rc_codec rc) l f data)"

lemma receive_fileE:
  assumes "receive_file rc l i w ms = Inr (f, rest)"
  obtains m data where "ms = m # rest" "tm_name m = payload_name i" "tm_regular m" "tm_size m = wf_bytes w"
    "member_data m = Inr data" "sha256_hex data = wf_sha256 w" "accepted rc l w f"
proof -
  obtain m data g where m: "expected_member ms (payload_name i) (wf_bytes w) = Inr (m, rest)" "member_data m = Inr data"
    "sha256_hex data = wf_sha256 w"
    and g: "read_rollout (rc_codec rc) (\<lambda>_. rc_slot rc i data (wf_modified w))
      \<lparr>cn_path = slot_name i, cn_thread = wf_thread w, cn_rollout = wf_rollout w\<rparr> None l = Inr g"
    and f: "f = g\<lparr>rf_path := wf_path w, rf_prefix := wf_prefix w\<rparr>" "rf_bytes f = wf_bytes w" "rf_sha256 f = wf_sha256 w"
    "publication_path f = Inr (wf_path w)"
    using assms unfolding receive_file_def by (auto simp: result_iff Let_def split: if_split_asm option.splits)
  obtain opn where o': "read_rollout_file (rc_codec rc) opn
      \<lparr>cn_path = slot_name i, cn_thread = wf_thread w, cn_rollout = wf_rollout w\<rparr> None l False = Inr g"
    using g by (auto simp: read_rollout_def result_iff)
  have "rf_thread f = wf_thread w" "rf_rollout f = wf_rollout w" using read_file_contract(1) [OF o'] f(1) by simp_all
  moreover obtain d where "file_content (rc_codec rc) l g d" using read_content [OF o'] by blast
  then have "file_content (rc_codec rc) l f d" by (simp add: f(1) file_content_def)
  ultimately have "accepted rc l w f" using f by (auto simp: accepted_def)
  with m show thesis by (auto simp: expected_member_def split: list.splits if_split_asm intro: that)
qed

lemma receive_files_accepted:
  "receive_files rc l i ws ms = Inr (fs, rest) \<Longrightarrow>
     list_all2 (accepted rc l) ws fs \<and> (\<exists>sent. ms = sent @ rest \<and> map tm_name sent = map payload_name [i..<i + length ws])"
proof (induction ws arbitrary: i ms fs)
  case (Cons w ws)
  obtain f rest' fs' where r: "receive_file rc l i w ms = Inr (f, rest')" "receive_files rc l (i + 1) ws rest' = Inr (fs', rest)"
    "fs = f # fs'" using Cons(2) by (auto simp: result_iff)
  obtain m where m: "ms = m # rest'" "tm_name m = payload_name i" "accepted rc l w f" by (rule receive_fileE [OF r(1)])
  obtain sent where s: "rest' = sent @ rest" "map tm_name sent = map payload_name [i + 1..<i + 1 + length ws]"
    "list_all2 (accepted rc l) ws fs'" using Cons(1) [OF r(2)] by blast
  show ?case using m s r(3)
    by (intro conjI exI [of _ "m # sent"]) (simp_all add: upt_conv_Cons del: upt_Suc)
qed simp

lemma receive_manifestE:
  assumes "receive_manifest rc l s = Inr (encoded, m, ms)"
  obtains h where "ts_members s = h # ms" "member_data h = Inr encoded" "rc_decode rc encoded = Some (m, True)"
    "validate_manifest m l = None"
proof -
  obtain h ms' where h: "ts_members s = h # ms'" using assms by (auto simp: receive_manifest_def split: list.splits)
  then obtain d where d: "member_data h = Inr d" using assms
    by (auto simp: receive_manifest_def result_iff split: if_split_asm)
  then obtain m' b where r: "rc_decode rc d = Some (m', b)" using assms h
    by (auto simp: receive_manifest_def split: if_split_asm option.splits)
  have "b" "m' = m" "validate_manifest m' l = None" "d = encoded" "ms' = ms" using assms h d r
    by (auto simp: receive_manifest_def split: if_split_asm option.splits)
  then show thesis using h d r by (intro that [of h]) simp_all
qed

lemma receive_endE:
  assumes "receive_end s encoded ms = Inr ()"
  obtains m where "ms = [m]" "tm_name m = ''complete.sha256''" "member_data m = Inr (sha256_hex encoded @ [newline])"
    "ts_error s = None" "\<not> ts_extra s"
  using assms unfolding receive_end_def expected_member_def
  by (auto simp: result_iff split: list.splits if_split_asm)

section \<open>What was sent is what was read\<close>

text \<open>The bytes \<open>d\<close> do not merely share a hash with the content of \<open>f\<close>.\<close>

definition no_collision :: "codec \<Rightarrow> limits \<Rightarrow> rollout_file \<Rightarrow> string \<Rightarrow> bool" where
  "no_collision cd l f d \<longleftrightarrow> (\<forall>data. file_content cd l f data \<and> sha256_hex data = sha256_hex d \<longrightarrow> data = d)"

lemma export_payloads_data:
  assumes "export_plan ex l p = (ms, None)"
  obtains ds where "map tm_data (butlast (tl ms)) = ds" "list_all2 verified (pl_files p) ds"
  by (rule export_planE [OF assms]) (simp add: butlast_append payload_data that)

lemma sent_content:
  assumes "\<And>f. f \<in> set fs \<Longrightarrow> \<exists>data. file_content cd l f data" "list_all2 verified fs ds" "list_all2 (no_collision cd l) fs ds"
  shows "list_all2 (file_content cd l) fs ds"
proof -
  have "file_content cd l (fs ! i) (ds ! i)" if i: "i < length fs" for i
  proof -
    obtain data where c: "file_content cd l (fs ! i) data" using assms(1) [of "fs ! i"] i by auto
    then have "sha256_hex data = sha256_hex (ds ! i)"
      using content_length list_all2_nthD [OF assms(2) i] by (simp add: verified_def)
    then have "data = ds ! i" using c list_all2_nthD [OF assms(3) i] by (simp add: no_collision_def)
    then show ?thesis using c by simp
  qed
  then show ?thesis using list_all2_lengthD [OF assms(2)] by (simp add: list_all2_conv_all_nth)
qed

section \<open>A sample\<close>

lemma read_pinned:
  assumes "record_lines l ws" "foldE (take_record cd l c) start_reading ws = Inr st" "rd_saw st" "0 \<le> lm_record l"
    "\<not> compressed (cn_path c)" "st_size info = int (length (concat ws))" "record_end (concat ws) (length (concat ws))"
  shows "read_rollout_file cd (calm_file (concat ws) info) c None l True = Inr (finished_file c None info st)"
proof -
  let ?n = "length (concat ws)"
  have "saved_boundary (\<lambda>_. False) (concat ws) ?n (lm_record l) ?n = Inr ?n"
    by (rule saved_boundary_complete [where tl' = "[]"]) (use assms(4,7) in simp_all)
  moreover have "read_records cd l c (\<lambda>_. False) None start_reading (concat ws) = Inr st"
    using assms(1-4) by (intro read_records_complete) simp_all
  ultimately show ?thesis using assms(3,5,6)
    by (simp add: read_rollout_file_def calm_file_def captured_input_def section_input_def limit_input_def
        decoded_input_def bounded_input_def finish_reading_def)
qed

lemma toy_snapshot:
  "snapshot toy_codec toy_home False sample_id (Some (\<lambda>_. Inr None)) default_limits =
     Inr \<lparr>pl_thread = sample_id, pl_files = [toy_file]\<rparr>"
proof -
  let ?reader = "snapshot_reader toy_codec toy_home default_limits"
  have "foldE (take_record toy_codec default_limits toy_member) start_reading [first_line, second_line] = Inr toy_state"
    using toy_fold take_record_cong [of toy_member toy_candidate toy_codec default_limits]
    by (simp add: toy_member_def toy_candidate_def)
  moreover have "record_end (concat [first_line, second_line]) (length (concat [first_line, second_line]))"
    unfolding record_end_def second_line_def by (intro exI [of _ "first_line @ ''{event}''"] exI [of _ "[]"]) simp
  moreover have "rd_saw toy_state" "0 \<le> lm_record default_limits" "\<not> compressed (cn_path toy_member)"
    "st_size toy_stat = int (length (concat [first_line, second_line]))"
    by (simp_all add: toy_state_def default_limits_def toy_stat_def toy_lengths) (code_simp)
  ultimately have "read_rollout_file toy_codec (calm_file (concat [first_line, second_line]) toy_stat) toy_member None
      default_limits True = Inr toy_file"
    unfolding toy_file_def using read_pinned [OF toy_lines] by blast
  then have read: "?reader toy_member None = Inr toy_file" by (simp add: snapshot_reader_def toy_home_def)
  have main: "main_candidates toy_home sample_id None [toy_member] = Inr [toy_member]" by code_simp
  have "chosen_file ?reader None True [toy_member] None = Inr toy_file"
    by (simp add: chosen_file_def add_representation_def read check_selected_def)
  then have "lineage ?reader default_limits [toy_member] None [] [toy_member] None [] = Inr [toy_file]"
    by (subst lineage.simps) (simp add: default_limits_def toy_base)
  moreover have "valid_limits default_limits = Inr ()" by (simp add: valid_limits_def default_limits_def)
  moreover have "checkE (check_main sample_id (cn_rollout toy_member)) [toy_member] = None"
    by (simp add: check_main_def toy_member_def)
  ultimately show ?thesis by (simp add: snapshot_def inspect_with_def toy_id toy_inventory main)
qed

definition toy_data :: string where
  "toy_data = concat [first_line, second_line]"

definition toy_path :: string where
  "toy_path = ''sessions/2026/02/28/'' @ toy_name"

definition toy_manifest :: manifest where
  "toy_manifest = \<lparr>mf_version = 1, mf_thread = sample_id, mf_files = [wire toy_file toy_path]\<rparr>"

definition toy_exporter :: exporter where
  "toy_exporter = \<lparr>ex_codec = toy_codec, ex_open = True,
     ex_pinned = (\<lambda>_. Some \<lparr>in_bytes = toy_data, in_error = None, in_eager = False\<rparr>),
     ex_encode = (\<lambda>m. if m = toy_manifest then Some ''M'' else None), ex_accepts = (\<lambda>_ _. True), ex_cancel = (\<lambda>_. False), ex_close = None\<rparr>"

definition toy_receiver :: receiver where
  "toy_receiver = \<lparr>rc_codec = toy_codec, rc_decode = (\<lambda>t. if t = ''M'' then Some (toy_manifest, True) else None),
     rc_staging = None, rc_open = (\<lambda>_. None), rc_write = (\<lambda>_ _. None), rc_store = (\<lambda>_. None), rc_slot = (\<lambda>_ d _. Inr (calm_file d toy_stat))\<rparr>"

definition toy_members :: "tar_member list" where
  "toy_members = [regular_member ''manifest.json'' 1 ''M'', regular_member (payload_name 0) 15 toy_data,
     regular_member ''complete.sha256'' 65 (sha256_hex ''M'' @ [newline])]"

lemma toy_data_length: "length toy_data = 15"
  by (simp add: toy_data_def toy_lengths)

lemma toy_file_simps:
  "rf_bytes toy_file = 15" "rf_sha256 toy_file = sha256_hex toy_data" "rf_thread toy_file = sample_id"
  "rf_rollout toy_file = sample_id" "rf_prefix toy_file = False" "rf_stored toy_file = Some toy_stat"
  "rf_modified toy_file = st_modified toy_stat" "rf_source toy_file = ''sessions/'' @ toy_name"
  "rf_path toy_file = trim_suffix (''sessions/'' @ toy_name) ''.zst''"
  "rf_meta toy_file = sample_meta\<lparr>sm_mode := ''paginated''\<rparr>"
  by (simp_all add: toy_file_def finished_file_def toy_state_def toy_member_def toy_data_def toy_lengths)

lemma toy_publication: "publication_path toy_file = Inr toy_path"
proof -
  let ?g = "\<lparr>rf_source = [], rf_path = trim_suffix (''sessions/'' @ toy_name) ''.zst'', rf_thread = sample_id, rf_rollout = sample_id,
     rf_bytes = 0, rf_sha256 = [], rf_modified = st_modified toy_stat, rf_prefix = False,
     rf_meta = sample_meta\<lparr>sm_mode := ''paginated''\<rparr>, rf_last = 0, rf_stored = None\<rparr>"
  have "publication_path toy_file = publication_path ?g"
    by (rule publication_path_cong) (simp_all add: toy_file_simps)
  also have "\<dots> = Inr toy_path" by code_simp
  finally show ?thesis .
qed

lemma toy_records:
  assumes "foldE (take_record toy_codec default_limits c) start_reading ws = Inr st" "length (concat ws) = 15"
  shows "concat ws = toy_data"
proof -
  have "list_all (\<lambda>w. cd_line toy_codec w \<noteq> None) ws" if "foldE (take_record toy_codec default_limits c) s ws = Inr st" for s
    using that by (induction ws arbitrary: s) (auto simp: result_iff take_record_def split: if_split_asm option.splits)
  then have "\<forall>w \<in> set ws. cd_line toy_codec w \<noteq> None" using assms(1) unfolding list_all_iff by blast
  moreover have "w = first_line \<or> w = second_line" if "cd_line toy_codec w \<noteq> None" for w
    using that by (simp add: toy_codec_def split: if_split_asm)
  ultimately have lines: "\<forall>w \<in> set ws. w = first_line \<or> w = second_line" by blast
  have two: "w = first_line \<and> length w = 7 \<or> w = second_line \<and> length w = 8" if "w \<in> set ws" for w
    using bspec [OF lines that] toy_lengths(1,2) by (elim disjE) simp_all
  obtain a b where ws: "ws = [a, b]" "length a + length b = 15"
  proof (cases ws)
    case (Cons a vs)
    show ?thesis
    proof (cases vs)
      case (Cons b us)
      have "us = []"
      proof (cases us)
        case (Cons c ts)
        then show ?thesis using assms(2) two [of a] two [of b] two [of c] \<open>ws = a # vs\<close> \<open>vs = b # us\<close> by auto
      qed simp
      then show ?thesis using that assms(2) \<open>ws = a # vs\<close> Cons by simp
    qed (use assms(2) two [of a] Cons in auto)
  qed (use assms(2) in simp)
  have "a = first_line"
  proof (rule ccontr)
    assume "a \<noteq> first_line"
    then have ab: "ws = [second_line, first_line]" using ws two [of a] two [of b] by auto
    show False using assms(1) toy_lengths unfolding ab
      by (auto simp: result_iff take_record_def take_metadata_def take_ordinal_def toy_codec_def start_reading_def
          validate_metadata_def toy_id [unfolded sample_id_def] toy_id sample_meta_def no_metadata_def Let_def
          split: if_split_asm option.splits sum.splits)
  qed
  then show ?thesis using ws two [of b] toy_lengths by (auto simp: toy_data_def)
qed

lemma toy_export: "export_plan toy_exporter default_limits \<lparr>pl_thread = sample_id, pl_files = [toy_file]\<rparr> = (toy_members, None)"
proof -
  have w: "wire_of toy_exporter toy_file = Inr (wire toy_file toy_path)"
    unfolding wire_of_ok using toy_publication by (simp add: toy_exporter_def)
  have plain: "\<not> compressed (rf_source toy_file)" unfolding toy_file_simps by code_simp
  have "copy_payload toy_codec toy_file (section_input 15 \<lparr>in_bytes = toy_data, in_error = None, in_eager = False\<rparr>) False =
      (toy_data, None)"
    by (simp add: copy_payload_def plain section_input_def limit_input_def toy_data_length toy_file_simps(1,2))
  moreover have "stored_size toy_file = 15" by (simp add: stored_size_def toy_file_simps toy_stat_def)
  ultimately show ?thesis
    using w plain by (simp add: export_plan_def toy_exporter_def toy_manifest_def default_limits_def write_member_def
        toy_members_def toy_file_simps)
qed

lemma toy_unique: "no_collision toy_codec default_limits toy_file toy_data"
  unfolding no_collision_def
proof (intro allI impI)
  fix data assume "file_content toy_codec default_limits toy_file data \<and> sha256_hex data = sha256_hex toy_data"
  then obtain c ws st where "foldE (take_record toy_codec default_limits c) start_reading ws = Inr st" "data = concat ws"
    "int (length data) = 15" by (auto simp: file_content_def toy_file_simps(1))
  then show "data = toy_data" using toy_records by simp
qed

text \<open>What the roundtrip asks of the sample.\<close>

lemma toy_transfer:
  "snapshot (rc_codec toy_receiver) toy_home False sample_id (Some (\<lambda>_. Inr None)) default_limits =
     Inr \<lparr>pl_thread = sample_id, pl_files = [toy_file]\<rparr>"
  "list_all2 (no_collision (rc_codec toy_receiver) default_limits) [toy_file] (map tm_data (butlast (tl toy_members)))"
  "list_all (\<lambda>f. in_years (rf_modified f)) [toy_file]"
  "faithful_json (ex_encode toy_exporter) (rc_decode toy_receiver)"
  using toy_snapshot toy_unique
  by (simp_all add: toy_receiver_def toy_members_def regular_member_def toy_file_simps toy_stat_def in_years_def
      faithful_json_def toy_exporter_def)

lemma toy_calm: "calm_destination toy_receiver"
  unfolding calm_destination_def by (intro conjI allI exI [of _ toy_stat]) (simp_all add: toy_receiver_def)

lemma toy_receive: "\<exists>p. receive toy_receiver default_limits (closed_stream toy_members) = (Inr p, False)"
proof -
  let ?p = "\<lparr>pl_thread = sample_id, pl_files = [toy_file]\<rparr>"
  note sound = snapshot_sound [OF toy_transfer(1)]
  have "list_all2 verified [toy_file] [toy_data]" by (simp add: verified_def toy_file_simps toy_data_length)
  then have "list_all2 (file_content toy_codec default_limits) [toy_file] [toy_data]"
    by (rule sent_content [rotated]) (use toy_unique sound(2) read_content in \<open>auto simp: toy_receiver_def\<close>)
  then have "list_all2 (file_content toy_codec default_limits) (pl_files ?p) (map tm_data (butlast (tl toy_members)))"
    by (simp add: toy_members_def regular_member_def)
  then show ?thesis
    using transfer_received [OF sound(1) toy_export, of toy_codec toy_receiver] toy_transfer(3,4) toy_calm
    by (auto simp: toy_receiver_def)
qed

section \<open>Properties\<close>

text \<open>C4: Export and receive are inverse: whatever \<open>Snapshot\<close> captured and \<open>Export\<close> wrote without an
  error, \<open>Receive\<close> accepts when its own steps succeed; it gives the same thread and the same files in
  the same order, each with its history, size and hash and with the publication path as its path,
  and keeps the staging directory.  This needs that the JSON encoder and decoder agree, that the
  modification times are in the years a manifest can carry, and that no payload collides with the
  content that was hashed at capture.\<close>

theorem transfer_roundtrip:
  assumes snap: "snapshot (rc_codec rc) h cancelled threadID q l = Inr p" and exp: "export_plan ex l p = (ms, None)"
    and hash: "list_all2 (no_collision (rc_codec rc) l) (pl_files p) (map tm_data (butlast (tl ms)))"
    and years: "list_all (\<lambda>f. in_years (rf_modified f)) (pl_files p)"
    and json: "faithful_json (ex_encode ex) (rc_decode rc)" and dest: "calm_destination rc"
  shows "\<exists>p'. receive rc l (closed_stream ms) = (Inr p', False) \<and> pl_thread p' = pl_thread p \<and>
    list_all2 same_history (pl_files p) (pl_files p') \<and>
    list_all2 (\<lambda>f g. publication_path f = Inr (rf_path g)) (pl_files p) (pl_files p')"
proof -
  obtain ds where ds: "map tm_data (butlast (tl ms)) = ds" "list_all2 verified (pl_files p) ds"
    by (rule export_payloads_data [OF exp])
  have "list_all2 (file_content (rc_codec rc) l) (pl_files p) ds"
    by (rule sent_content [OF _ ds(2) hash [unfolded ds(1)]]) (use snapshot_sound(2) [OF snap] read_content in blast)
  then show ?thesis
    using transfer_received [OF snapshot_sound(1) [OF snap] exp _ years json refl dest] ds(1) by simp
qed

theorem transfer_roundtrip_witness:
  "\<exists>p' :: plan. receive toy_receiver default_limits (closed_stream toy_members) = (Inr p', False) \<and> pl_thread p' = sample_id \<and>
     list_all2 same_history [toy_file] (pl_files p')"
proof -
  have "list_all2 (no_collision (rc_codec toy_receiver) default_limits) (pl_files \<lparr>pl_thread = sample_id, pl_files = [toy_file]\<rparr>)
      (map tm_data (butlast (tl toy_members)))"
    "list_all (\<lambda>f. in_years (rf_modified f)) (pl_files \<lparr>pl_thread = sample_id, pl_files = [toy_file]\<rparr>)"
    using toy_transfer by simp_all
  from transfer_roundtrip [OF toy_transfer(1) toy_export this toy_transfer(4) toy_calm] show ?thesis by (simp, elim exE conjE) blast
qed

text \<open>C6: A completion record is never written over a bad stream: when the output of \<open>Export\<close> has a
  member \<open>complete.sha256\<close>, only closing the stream can have failed, the manifest lists every file of the plan in order
  with its publication path, each payload that was written has exactly the size and the SHA-256 of
  its file, and the record is the hash of the manifest.\<close>

theorem export_verified:
  assumes "export_plan ex l p = (ms, err)" "m \<in> set ms" "tm_name m = ''complete.sha256''"
  shows "err = ex_close ex \<and> (\<exists>ws encoded ds.
    ex_encode ex \<lparr>mf_version = 1, mf_thread = pl_thread p, mf_files = ws\<rparr> = Some encoded \<and>
    list_all2 (\<lambda>f w. \<exists>path. publication_path f = Inr path \<and> w = wire f path) (pl_files p) ws \<and>
    list_all2 verified (pl_files p) ds \<and>
    ms = regular_member ''manifest.json'' (int (length encoded)) encoded # payload_members 0 (pl_files p) ds @
      [regular_member ''complete.sha256'' 65 (sha256_hex encoded @ [newline])])"
proof -
  have "err = None \<or> (\<exists>m \<in> set ms. tm_name m = ''complete.sha256'')" using assms(2,3) by blast
  from assms(1) this show ?thesis by (rule export_completeE) (use wires_ok in blast)
qed

theorem export_verified_witness:
  "\<exists>ds. list_all2 verified [toy_file] ds \<and> toy_members = regular_member ''manifest.json'' 1 ''M'' #
     payload_members 0 [toy_file] ds @ [regular_member ''complete.sha256'' 65 (sha256_hex ''M'' @ [newline])]"
proof -
  have "last toy_members \<in> set toy_members" "tm_name (last toy_members) = ''complete.sha256''"
    by (simp_all add: toy_members_def regular_member_def)
  from export_verified [OF toy_export this] show ?thesis
    by (auto simp: toy_exporter_def split: if_split_asm)
qed

text \<open>C5: What \<open>Receive\<close> accepts is what was announced: a plan it returns keeps its staging directory
  and comes from a manifest that decoded to its end and passed \<open>validateManifest\<close>; its files are the
  manifest's entries in order, each read back from staging with the announced identity, size and
  hash and with the canonical publication path of its own metadata, they form a lineage, and the
  stream held just these members and the completion record with the manifest's hash.\<close>

theorem receive_validated:
  assumes "receive rc l s = (Inr p, gone)"
  shows "\<not> gone \<and> (\<exists>h encoded m sent final.
    ts_members s = h # sent @ [final] \<and> member_data h = Inr encoded \<and> rc_decode rc encoded = Some (m, True) \<and>
    validate_manifest m l = None \<and> pl_thread p = mf_thread m \<and> list_all2 (accepted rc l) (mf_files m) (pl_files p) \<and>
    validate_lineage (pl_files p) = None \<and> map tm_name sent = map payload_name [0..<length (mf_files m)] \<and>
    tm_name final = ''complete.sha256'' \<and> member_data final = Inr (sha256_hex encoded @ [newline]) \<and>
    ts_error s = None \<and> \<not> ts_extra s)"
proof -
  obtain encoded m ms where r: "receive_manifest rc l s = Inr (encoded, m, ms)" "receive_staged rc l s encoded m ms = Inr p"
    and g: "\<not> gone"
    using assms unfolding receive_def by (auto simp: result_iff split: sum.splits option.splits prod.splits)
  obtain h where h: "ts_members s = h # ms" "member_data h = Inr encoded" "rc_decode rc encoded = Some (m, True)"
    "validate_manifest m l = None" by (rule receive_manifestE [OF r(1)])
  obtain files rest where f: "receive_files rc l 0 (mf_files m) ms = Inr (files, rest)" "validate_lineage files = None"
    "receive_end s encoded rest = Inr ()" "p = \<lparr>pl_thread = mf_thread m, pl_files = files\<rparr>"
    using r(2) unfolding receive_staged_def by (auto simp: result_iff split: option.splits)
  obtain final where e: "rest = [final]" "tm_name final = ''complete.sha256''" "member_data final = Inr (sha256_hex encoded @ [newline])"
    "ts_error s = None" "\<not> ts_extra s" by (rule receive_endE [OF f(3)])
  show ?thesis using receive_files_accepted [OF f(1)] g h f(2,4) e by fastforce
qed

theorem receive_validated_witness:
  "\<exists>p :: plan. list_all2 (accepted toy_receiver default_limits) [wire toy_file toy_path] (pl_files p) \<and>
     validate_lineage (pl_files p) = None"
proof -
  obtain p gone where "receive toy_receiver default_limits (closed_stream toy_members) = (Inr p, gone)"
    using toy_receive by blast
  then obtain encoded m where m: "rc_decode toy_receiver encoded = Some (m, True)"
    "list_all2 (accepted toy_receiver default_limits) (mf_files m) (pl_files p)" "validate_lineage (pl_files p) = None"
    using receive_validated by blast
  have "m = toy_manifest" using m(1) by (simp add: toy_receiver_def split: if_split_asm)
  then have "mf_files m = [wire toy_file toy_path]" by (simp add: toy_manifest_def)
  then show ?thesis using m(2,3) by metis
qed

end
