(* ===== verification/Session_Selection.thy ===== *)
theory Session_Selection
  imports Session_Lineage
begin

text \<open>
  The state database of Codex (\<open>internal/session/sqlite.go\<close>, \<open>selection_update.go\<close>): which rollout
  of a thread is selected, and the one update of it.  SQLite is what its queries answer; a
  connection is a record of those answers.  Of the path and the options of the connection string
  only whether it is writable matters here.
\<close>

section \<open>The database\<close>

record thread_row =
  tr_id :: string
  tr_path :: string
  tr_mode :: string
  tr_archived :: bool
  tr_archived_at :: "int option"

text \<open>
  One connection: the start of the transaction, the answers of the queries, the file found at its
  path whenever its identity is verified, the execution of the update, and its commit: an error,
  and whether it took effect all the same.
\<close>

record database =
  db_info :: stat
  db_begin :: "session_error option"
  db_columns :: "(session_error, string list) result"
  db_threads :: "(session_error, thread_row list) result"
  db_tables :: "(session_error, int) result"
  db_migrations :: "(session_error, (int \<times> string \<times> bool) list) result"
  db_backfill :: "(session_error, string option) result"
  db_layout :: "(session_error, (string \<times> string \<times> int) list) result"
  db_triggers :: "(session_error, (string \<times> string) list) result"
  db_lstat :: "nat \<Rightarrow> stat option"
  db_exec :: "session_error option"
  db_commit :: "session_error option \<times> bool"

definition verify_identity :: "database \<Rightarrow> nat \<Rightarrow> session_error option" where
  "verify_identity db n =
     (case db_lstat db n of
        None \<Rightarrow> Some (Refused ''Codex state database changed identity during inspection'')
      | Some after \<Rightarrow>
          if \<not> st_regular after \<or> st_node (db_info db) \<noteq> st_node after
          then Some (Refused ''Codex state database changed identity during inspection'') else None)"

record sqlite_home =
  sq_entries :: "(session_error, string list) result"
  sq_regular :: "string \<Rightarrow> (session_error, opened) result"
  sq_connect :: "bool \<Rightarrow> stat \<Rightarrow> (session_error, database) result"

definition state_name :: string where
  "state_name = ''state_5.sqlite''"

definition is_missing :: "session_error \<Rightarrow> bool" where
  "is_missing e = (case e of Absent _ \<Rightarrow> True | _ \<Rightarrow> False)"

definition other_database :: "string \<Rightarrow> bool" where
  "other_database n = (has_prefix n ''state_'' \<and> has_suffix n ''.sqlite'' \<and> n \<noteq> state_name)"

fun old_database :: "string \<Rightarrow> string list \<Rightarrow> (session_error, string) result" where
  "old_database old [] = Inr old"
| "old_database old (n # ns) =
     (if other_database n then
        (case atoi (trim_suffix (trim_prefix n ''state_'') ''.sqlite'') of
           None \<Rightarrow> Inl (Refused ''unsupported or ambiguous Codex state database'')
         | Some version \<Rightarrow>
             if version > 5 then Inl (Refused ''unsupported or ambiguous Codex state database'')
             else old_database n ns)
      else old_database old ns)"

definition check_sidecar :: "sqlite_home \<Rightarrow> string \<Rightarrow> session_error option" where
  "check_sidecar h suffix =
     (case sq_regular h (state_name @ suffix) of
        Inr _ \<Rightarrow> None
      | Inl e \<Rightarrow> if is_missing e then None else Some e)"

definition open_state_db :: "sqlite_home \<Rightarrow> bool \<Rightarrow> (session_error, database option) result" where
  "open_state_db h writable =
     bindE (sq_entries h) (\<lambda>entries.
     bindE (old_database [] entries) (\<lambda>old.
     case sq_regular h state_name of
       Inl e \<Rightarrow>
         if is_missing e then
           (if old \<noteq> [] then Inl (Refused ''refusing to ignore its thread selection'') else Inr None)
         else Inl e
     | Inr opn \<Rightarrow>
         bindE (try_opt (Refused ''stat'') (op_before opn)) (\<lambda>before.
         bindE (fail_opt (checkE (check_sidecar h) [''-wal'', ''-shm'', ''-journal''])) (\<lambda>_.
         bindE (sq_connect h writable before) (\<lambda>db. Inr (Some db))))))"

text \<open>The row of the thread; without the column \<open>history_mode\<close> the query answers \<open>'legacy'\<close>.\<close>

definition row_of :: "bool \<Rightarrow> thread_row \<Rightarrow> selection" where
  "row_of has_mode r = \<lparr>sl_path = tr_path r, sl_mode = (if has_mode then tr_mode r else ''legacy''), sl_archived = tr_archived r\<rparr>"

definition read_selection :: "database \<Rightarrow> string \<Rightarrow> (session_error, selection option) result" where
  "read_selection db thread =
     bindE (db_columns db) (\<lambda>columns.
     if \<not> set [''id'', ''rollout_path'', ''archived''] \<subseteq> set columns
     then Inl (Refused ''unsupported Codex thread schema'')
     else bindE (db_threads db) (\<lambda>rows.
       case find (\<lambda>r. tr_id r = thread) rows of
         None \<Rightarrow> Inr None
       | Some r \<Rightarrow>
           let s = row_of (''history_mode'' \<in> set columns) r in
           if sl_mode s \<noteq> ''legacy'' \<and> sl_mode s \<noteq> ''paginated''
           then Inl (Refused ''unsupported SQLite history mode'') else Inr (Some s)))"

definition read_selected :: "sqlite_home \<Rightarrow> string \<Rightarrow> (session_error, selection option) result" where
  "read_selected h thread =
     bindE (open_state_db h False) (\<lambda>state.
     case state of
       None \<Rightarrow> Inr None
     | Some db \<Rightarrow>
         bindE (fail_opt (db_begin db)) (\<lambda>_.
         bindE (read_selection db thread) (\<lambda>s.
         bindE (fail_opt (verify_identity db 0)) (\<lambda>_. Inr s))))"

section \<open>The qualified layout\<close>

definition selection_migrations :: "(int \<times> string) list" where
  "selection_migrations =
     [(58, ''68467af3ce1ff09777c3f7167d522e11d88586fbb80a1588c631cf643a7d4985b221a6c8e8623997b37d44605b7e1091''),
      (59, ''4297dffb4fb308f0c665e4d126b7d2a96db7be48eb2e13c7e1245a5d95c4df4e66d64e79ad00fec26b0910436703090c'')]"

definition hex_bytes :: "string \<Rightarrow> string" where
  "hex_bytes s = concat (map (\<lambda>c. [hex_digit (of_char c div 16), hex_digit (of_char c mod 16)]) s)"

definition qualified_migration :: "int \<times> string \<times> bool \<Rightarrow> bool" where
  "qualified_migration m =
     (case m of (version, checksum, success) \<Rightarrow>
        (case map_of selection_migrations version of None \<Rightarrow> False | Some want \<Rightarrow> success \<and> hex_bytes checksum = want))"

text \<open>\<open>ORDER BY version DESC LIMIT 1\<close>.\<close>

definition latest_migration :: "(int \<times> string \<times> bool) list \<Rightarrow> (int \<times> string \<times> bool) option" where
  "latest_migration ms = (case ms of [] \<Rightarrow> None | _ \<Rightarrow> Some (last (sort_key fst ms)))"

definition selection_triggers :: "(string \<times> string) list" where
  "selection_triggers =
     [(''threads_created_at_ms_after_insert'', ''586126949b44728f1aceff4a390164913f5906a01111a2c8dad855287342b511''),
      (''threads_updated_at_ms_after_insert'', ''6f880f1cc9191fe60877a7cbb2b1538ea4b2d7b9dfacd2992f03f4795b8ba800''),
      (''threads_created_at_ms_after_update'', ''5a54826b36daa1b4451714ce187b238116390a16a53e513cc30074c1b4fc3611''),
      (''threads_updated_at_ms_after_update'', ''9de2de92b3540251ab93ca8bf7041dff312084a5e1174bf0dc4eb41bb3faaf65''),
      (''threads_recency_at_after_insert'', ''44e9dd026465a1ebdcfcb53f3a87f35cf860af73d37f5dde2c0a29b55dab9650'')]"

definition required_columns :: "(string \<times> string) list" where
  "required_columns =
     [(''id'', ''TEXT''), (''rollout_path'', ''TEXT''), (''history_mode'', ''TEXT''), (''archived'', ''INTEGER''),
      (''archived_at'', ''INTEGER'')]"

text \<open>The statement with its white space normalised and without the final semicolon.\<close>

definition normal_statement :: "string \<Rightarrow> string" where
  "normal_statement s = join_str '' '' (str_fields (trim_suffix (trim_space s) '';''))"

definition check_trigger :: "string \<times> string \<Rightarrow> session_error option" where
  "check_trigger t =
     (case t of (name, statement) \<Rightarrow>
        if map_of selection_triggers name \<noteq> Some (sha256_hex (normal_statement statement))
        then Some (Refused ''unsupported destination thread trigger'') else None)"

fun scan_columns ::
  "(string \<times> string) list \<Rightarrow> nat \<Rightarrow> (string \<times> string \<times> int) list \<Rightarrow> (session_error, (string \<times> string) list \<times> nat) result"
where
  "scan_columns required keys [] = Inr (required, keys)"
| "scan_columns required keys ((name, kind, primary) # rest) =
     (if primary > 0 \<and> name \<noteq> ''id'' then Inl (Refused ''unsupported destination thread primary key'')
      else scan_columns
        (case map_of required name of
           None \<Rightarrow> required
         | Some want \<Rightarrow> if to_lower kind = to_lower want then filter (\<lambda>p. fst p \<noteq> name) required else required)
        (if primary > 0 then keys + 1 else keys) rest)"

definition qualified_layout :: "(session_error, (int \<times> string \<times> bool) list) result \<Rightarrow> bool" where
  "qualified_layout q =
     (case q of Inl _ \<Rightarrow> False
      | Inr ms \<Rightarrow> (case latest_migration ms of None \<Rightarrow> False | Some m \<Rightarrow> qualified_migration m))"

definition validate_selection_schema :: "database \<Rightarrow> (session_error, unit) result" where
  "validate_selection_schema db =
     ensure (qualified_layout (db_migrations db))
       (Refused ''destination metadata promotion requires a qualified state_5 migration layout'') (
     ensure (db_backfill db = Inr (Some ''complete''))
       (Busy ''destination initial indexing must finish before prerequisite promotion'') (
     bindE (db_layout db) (\<lambda>layout.
     bindE (scan_columns required_columns 0 layout) (\<lambda>(required, keys).
     ensure (required = [] \<and> keys = 1)
       (Refused ''unsupported destination thread columns for metadata promotion'') (
     bindE (db_triggers db) (\<lambda>triggers. fail_opt (checkE check_trigger triggers)))))))"

section \<open>The update\<close>

definition begin_update :: "sqlite_home \<Rightarrow> string \<Rightarrow> selection \<Rightarrow> (session_error, database) result" where
  "begin_update h thread expected =
     bindE (open_state_db h True) (\<lambda>state.
     case state of
       None \<Rightarrow> Inl (Conflict ''destination metadata disappeared before prerequisite promotion'')
     | Some db \<Rightarrow>
         bindE (fail_opt (db_begin db)) (\<lambda>_.
         bindE (validate_selection_schema db) (\<lambda>_.
         bindE (read_selection db thread) (\<lambda>actual.
         if actual \<noteq> Some expected \<or> sl_mode expected \<noteq> ''paginated''
         then Inl (Conflict ''destination selected rollout changed before prerequisite promotion'')
         else bindE (fail_opt (verify_identity db 0)) (\<lambda>_. Inr db)))))"

text \<open>The \<open>UPDATE\<close> statement on the rows of \<open>threads\<close>: \<open>seconds\<close> is \<open>modified.Unix()\<close>.\<close>

definition updates_row :: "string \<Rightarrow> selection \<Rightarrow> thread_row \<Rightarrow> bool" where
  "updates_row thread old r =
     (tr_id r = thread \<and> tr_path r = sl_path old \<and> tr_mode r = sl_mode old \<and> tr_archived r = sl_archived old)"

definition updated_row :: "string \<Rightarrow> bool \<Rightarrow> int \<Rightarrow> thread_row \<Rightarrow> thread_row" where
  "updated_row path archived seconds r =
     r\<lparr>tr_path := path, tr_archived := archived,
       tr_archived_at := (if archived then (case tr_archived_at r of None \<Rightarrow> Some seconds | Some s \<Rightarrow> Some s) else None)\<rparr>"

definition update_threads ::
  "string \<Rightarrow> selection \<Rightarrow> string \<Rightarrow> bool \<Rightarrow> int \<Rightarrow> thread_row list \<Rightarrow> thread_row list \<times> nat" where
  "update_threads thread old path archived seconds rows =
     (map (\<lambda>r. if updates_row thread old r then updated_row path archived seconds r else r) rows,
      length (filter (updates_row thread old) rows))"

definition unix_seconds :: "moment \<Rightarrow> int" where
  "unix_seconds t = mo_nanos t div 10 ^ 9"

text \<open>The error, and the rows the database has afterwards.\<close>

definition finish_update ::
  "database \<Rightarrow> string \<Rightarrow> selection \<Rightarrow> thread_row list \<Rightarrow> string \<Rightarrow> bool \<Rightarrow> moment \<Rightarrow> session_error option \<times> thread_row list"
where
  "finish_update db thread old rows path archived modified =
     (case verify_identity db 1 of Some e \<Rightarrow> (Some e, rows) | None \<Rightarrow>
     (case db_exec db of Some e \<Rightarrow> (Some e, rows) | None \<Rightarrow>
     (case update_threads thread old path archived (unix_seconds modified) rows of (rows', n) \<Rightarrow>
        if n \<noteq> 1 then (Some (Conflict ''destination metadata no longer selects the validated prerequisite''), rows)
        else (case verify_identity db 2 of Some e \<Rightarrow> (Some e, rows) | None \<Rightarrow>
          (fst (db_commit db), if snd (db_commit db) then rows' else rows)))))"

section \<open>The selection after publication\<close>

definition publication_selection :: "sqlite_home \<Rightarrow> string \<Rightarrow> (session_error, string \<times> selection option) result" where
  "publication_selection h thread =
     bindE (open_state_db h False) (\<lambda>state.
     case state of
       None \<Rightarrow> Inr (''absent'', None)
     | Some db \<Rightarrow>
         bindE (fail_opt (db_begin db)) (\<lambda>_.
         bindE (db_tables db) (\<lambda>tables.
         if tables \<noteq> 3 then Inl (Busy ''destination indexing schema is not initialized'')
         else bindE (db_migrations db) (\<lambda>ms.
         case latest_migration ms of
           None \<Rightarrow> Inl (Busy ''destination schema migrations have not completed'')
         | Some m \<Rightarrow>
             if fst m < 58 \<and> snd (snd m) then Inl (Busy ''destination schema migrations have not reached the qualified layout'')
             else if \<not> qualified_migration m
             then Inl (Refused ''cannot confirm destination indexing against an unqualified state_5 schema'')
             else bindE (db_backfill db) (\<lambda>b.
               let status = (case b of None \<Rightarrow> ''pending'' | Some s \<Rightarrow> s) in
               if status \<noteq> ''pending'' \<and> status \<noteq> ''running'' \<and> status \<noteq> ''complete''
               then Inl (Refused ''unsupported destination indexing status'')
               else bindE (read_selection db thread) (\<lambda>selected.
                 bindE (fail_opt (verify_identity db 0)) (\<lambda>_. Inr (status, selected))))))))"

text \<open>
  The loop of \<open>awaitPublicationSelection\<close>: \<open>answer\<close> is the \<open>n\<close>-th reading, \<open>managed\<close> is
  \<open>managedRelative\<close> of the home, \<open>expired\<close> whether the context is over before and after the
  \<open>n\<close>-th wait; no result means that the fuel is used up.
\<close>

definition waits :: "session_error \<Rightarrow> bool" where
  "waits e = (case e of Busy _ \<Rightarrow> True | Coded c \<Rightarrow> c mod 256 = 5 \<or> c mod 256 = 6 | _ \<Rightarrow> False)"

definition settled ::
  "(string \<Rightarrow> (session_error, string) result) \<Rightarrow> string \<Rightarrow> selection option \<Rightarrow> (session_error, bool) result" where
  "settled managed status selected =
     (case selected of
        Some s \<Rightarrow>
          if status = ''pending'' then bindE (managed (sl_path s)) (\<lambda>path. Inr (\<not> prerequisite_path path))
          else Inr (status \<noteq> ''running'')
      | None \<Rightarrow> Inr (status \<noteq> ''running''))"

fun await_selection ::
  "(nat \<Rightarrow> (session_error, string \<times> selection option) result) \<Rightarrow> (string \<Rightarrow> (session_error, string) result)
     \<Rightarrow> (nat \<Rightarrow> bool \<times> bool) \<Rightarrow> nat \<Rightarrow> nat \<Rightarrow> (session_error, selection option) result option"
where
  "await_selection answer managed expired n 0 = None"
| "await_selection answer managed expired n (Suc fuel) =
     (case (case answer n of
              Inl e \<Rightarrow> if waits e then Inr None else Inl e
            | Inr (status, selected) \<Rightarrow>
                bindE (settled managed status selected) (\<lambda>done. Inr (if done then Some selected else None))) of
        Inl e \<Rightarrow> Some (Inl e)
      | Inr (Some selected) \<Rightarrow> Some (Inr selected)
      | Inr None \<Rightarrow>
          if fst (expired n) \<or> snd (expired n) then Some (Inl Interrupted)
          else await_selection answer managed expired (n + 1) fuel)"
section \<open>The layout that qualifies\<close>

definition column_present :: "(string \<times> string \<times> int) list \<Rightarrow> string \<times> string \<Rightarrow> bool" where
  "column_present layout p = (\<exists>kind primary. (fst p, kind, primary) \<in> set layout \<and> to_lower kind = to_lower (snd p))"

definition key_columns :: "(string \<times> string \<times> int) list \<Rightarrow> string list" where
  "key_columns layout = map fst (filter (\<lambda>c. snd (snd c) > 0) layout)"

lemma filter_names: "map_of (filter P xs) n = Some w \<Longrightarrow> distinct (map fst xs) \<Longrightarrow> map_of xs n = Some w"
  by (induction xs) (auto split: if_split_asm dest: map_of_SomeD simp: image_iff)

lemma scan_columns_exact:
  "distinct (map fst required) \<Longrightarrow>
     scan_columns required keys layout = Inr (required', keys') \<longleftrightarrow>
       set (key_columns layout) \<subseteq> {''id''} \<and> keys' = keys + length (key_columns layout) \<and>
       required' = filter (\<lambda>p. \<not> column_present layout p) required"
proof (induction required keys layout rule: scan_columns.induct)
  case (1 required keys)
  then show ?case by (auto simp: key_columns_def column_present_def)
next
  case (2 required keys name kind primary rest)
  let ?next = "case map_of required name of None \<Rightarrow> required
    | Some want \<Rightarrow> if to_lower kind = to_lower want then filter (\<lambda>p. fst p \<noteq> name) required else required"
  have n: "?next = filter (\<lambda>p. \<not> (fst p = name \<and> to_lower kind = to_lower (snd p))) required"
  proof (cases "map_of required name")
    case None
    then have "\<forall>p \<in> set required. fst p \<noteq> name" by (auto simp: map_of_eq_None_iff image_iff)
    then show ?thesis using None by (simp cong: filter_cong)
  next
    case (Some want)
    then have "\<forall>p \<in> set required. fst p = name \<longrightarrow> snd p = want" using 2(2) by (metis map_of_eq_Some_iff prod.collapse option.inject)
    then show ?thesis using Some by (auto intro!: filter_cong)
  qed
  have d: "distinct (map fst ?next)" unfolding n using 2(2) by (simp add: distinct_map_filter)
  show ?case
  proof (cases "primary > 0 \<and> name \<noteq> ''id''")
    case True
    then show ?thesis by (auto simp: key_columns_def)
  next
    case False
    have "filter (\<lambda>p. \<not> column_present rest p) ?next = filter (\<lambda>p. \<not> column_present ((name, kind, primary) # rest) p) required"
      unfolding n filter_filter by (intro filter_cong) (auto simp: column_present_def)
    then show ?thesis using 2(1) [OF False d] False by (auto simp: key_columns_def)
  qed
qed

definition columns_qualify :: "(string \<times> string \<times> int) list \<Rightarrow> bool" where
  "columns_qualify layout \<longleftrightarrow> (\<forall>p \<in> set required_columns. column_present layout p) \<and> key_columns layout = [''id'']"

lemma scan_columns_qualify:
  "scan_columns required_columns 0 layout = Inr ([], 1) \<longleftrightarrow> columns_qualify layout"
proof -
  have "distinct (map fst required_columns)" by (simp add: required_columns_def)
  note s = scan_columns_exact [OF this, of 0 layout "[]" 1]
  have "set (key_columns layout) \<subseteq> {''id''} \<and> 1 = length (key_columns layout) \<longleftrightarrow> key_columns layout = [''id'']"
    by (cases "key_columns layout") auto
  moreover have "[] = filter (\<lambda>p. \<not> column_present layout p) required_columns \<longleftrightarrow>
      (\<forall>p \<in> set required_columns. column_present layout p)"
    by (metis (no_types, lifting) filter_empty_conv)
  ultimately show ?thesis unfolding s columns_qualify_def add_0 by blast
qed

definition known_trigger :: "string \<times> string \<Rightarrow> bool" where
  "known_trigger t \<longleftrightarrow> map_of selection_triggers (fst t) = Some (sha256_hex (normal_statement (snd t)))"

definition schema_qualifies :: "database \<Rightarrow> bool" where
  "schema_qualifies db \<longleftrightarrow>
     (\<exists>ms m layout triggers. db_migrations db = Inr ms \<and> latest_migration ms = Some m \<and> qualified_migration m \<and>
        db_backfill db = Inr (Some ''complete'') \<and> db_layout db = Inr layout \<and> columns_qualify layout \<and>
        db_triggers db = Inr triggers \<and> (\<forall>t \<in> set triggers. known_trigger t))"

lemma schema_iff: "validate_selection_schema db = Inr () \<longleftrightarrow> schema_qualifies db"
proof -
  have "qualified_layout (db_migrations db) \<longleftrightarrow>
      (\<exists>ms m. db_migrations db = Inr ms \<and> latest_migration ms = Some m \<and> qualified_migration m)"
    by (auto simp: qualified_layout_def split: sum.splits option.splits)
  moreover have "check_trigger t = None \<longleftrightarrow> known_trigger t" for t
    by (auto simp: check_trigger_def known_trigger_def split: prod.splits)
  ultimately show ?thesis
    unfolding validate_selection_schema_def schema_qualifies_def
    using scan_columns_qualify by (auto simp: result_iff)
qed

section \<open>What is read\<close>

lemma old_database_none: "old_database old ns = Inr [] \<Longrightarrow> old = [] \<and> \<not> list_ex other_database ns"
proof (induction old ns rule: old_database.induct)
  case (2 old n ns)
  have "n \<noteq> []" if "other_database n" using that by (auto simp: other_database_def)
  then show ?case using 2 by (auto split: if_split_asm option.splits)
qed simp

lemma open_none:
  "open_state_db h writable = Inr None \<Longrightarrow>
     \<exists>entries e. sq_entries h = Inr entries \<and> \<not> list_ex other_database entries \<and> sq_regular h state_name = Inl (Absent e)"
proof (cases "sq_regular h state_name")
  case (Inl e)
  assume a: "open_state_db h writable = Inr None"
  then obtain entries old where o': "sq_entries h = Inr entries" "old_database [] entries = Inr old"
    by (auto simp: open_state_db_def result_iff)
  then have "is_missing e \<and> old = []" using a Inl by (simp add: open_state_db_def split: if_split_asm)
  moreover from this obtain x where "e = Absent x" by (cases e) (simp_all add: is_missing_def)
  ultimately show ?thesis using o' old_database_none [of "[]" entries] Inl by blast
next
  case (Inr opn)
  assume "open_state_db h writable = Inr None"
  then show ?thesis using Inr by (auto simp: open_state_db_def result_iff simp del: checkE.simps)
qed

lemma open_some:
  assumes "open_state_db h writable = Inr (Some db)"
  obtains info where "sq_connect h writable info = Inr db" "checkE (check_sidecar h) [''-wal'', ''-shm'', ''-journal''] = None"
proof (cases "sq_regular h state_name")
  case (Inl e)
  then show thesis using assms by (auto simp: open_state_db_def result_iff split: if_split_asm)
next
  case (Inr opn)
  then obtain entries old before where "sq_entries h = Inr entries" "old_database [] entries = Inr old"
    "op_before opn = Some before" "checkE (check_sidecar h) [''-wal'', ''-shm'', ''-journal''] = None"
    "sq_connect h writable before = Inr db"
    using assms by (auto simp: open_state_db_def result_iff simp del: checkE.simps)
  then show thesis using that by blast
qed

lemma read_selection_cases:
  assumes "read_selection db thread = Inr r"
  obtains columns rows where "db_columns db = Inr columns" "db_threads db = Inr rows"
    "case r of None \<Rightarrow> \<forall>row \<in> set rows. tr_id row \<noteq> thread
     | Some s \<Rightarrow> (\<exists>row \<in> set rows. tr_id row = thread \<and> s = row_of (''history_mode'' \<in> set columns) row) \<and>
         sl_mode s \<in> {''legacy'', ''paginated''}"
proof -
  obtain columns rows where c: "db_columns db = Inr columns" "db_threads db = Inr rows"
    using assms by (auto simp: read_selection_def result_iff split: if_split_asm)
  show thesis
  proof (cases "find (\<lambda>r. tr_id r = thread) rows")
    case None
    then have "r = None" using assms c by (simp add: read_selection_def split: if_split_asm)
    then show thesis using that c None by (auto simp: find_None_iff)
  next
    case (Some row)
    then have "row \<in> set rows" "tr_id row = thread" by (auto simp: find_Some_iff)
    moreover have "r = Some (row_of (''history_mode'' \<in> set columns) row) \<and>
        sl_mode (row_of (''history_mode'' \<in> set columns) row) \<in> {''legacy'', ''paginated''}"
      using assms c Some by (simp add: read_selection_def Let_def split: if_split_asm)
    ultimately show thesis by (intro that [OF c]) auto
  qed
qed

section \<open>The loop that waits\<close>

lemma await_returns_from:
  "(\<And>k. n + fuel \<le> k \<Longrightarrow> fst (expired k) \<or> snd (expired k)) \<Longrightarrow>
     \<exists>r. await_selection answer managed expired n (Suc fuel) = Some r"
proof (induction fuel arbitrary: n)
  case 0
  then show ?case by (auto split: sum.splits option.splits)
next
  case (Suc fuel)
  have "\<exists>r. await_selection answer managed expired (n + 1) (Suc fuel) = Some r"
    by (rule Suc(1)) (use Suc(2) in simp)
  then show ?case by (subst await_selection.simps) (auto split: sum.splits option.splits simp del: await_selection.simps)
qed

section \<open>The update changes one row\<close>

lemma finish_update_rows:
  assumes "finish_update db thread old rows path archived modified = (e, rows')"
  shows "rows' = rows \<or> length (filter (updates_row thread old) rows) = 1 \<and>
    rows' = map (\<lambda>r. if updates_row thread old r then updated_row path archived (unix_seconds modified) r else r) rows"
  using assms by (auto simp: finish_update_def update_threads_def split: option.splits if_split_asm)

lemma begin_updateE:
  assumes "begin_update h thread expected = Inr db"
  obtains "schema_qualifies db" "read_selection db thread = Inr (Some expected)" "sl_mode expected = ''paginated''"
    "verify_identity db 0 = None"
  using assms unfolding begin_update_def
  by (auto simp: result_iff schema_iff split: option.splits if_split_asm)

section \<open>A sample\<close>

definition sample_row :: thread_row where
  "sample_row = \<lparr>tr_id = ''t'', tr_path = ''old'', tr_mode = ''paginated'', tr_archived = True, tr_archived_at = Some 7\<rparr>"

definition sample_checksum :: string where
  "sample_checksum =
    [CHR 0x68, CHR 0x46, CHR 0x7A, CHR 0xF3, CHR 0xCE, CHR 0x1F, CHR 0xF0, CHR 0x97, CHR 0x77, CHR 0xC3,
     CHR 0xF7, CHR 0x16, CHR 0x7D, CHR 0x52, CHR 0x2E, CHR 0x11, CHR 0xD8, CHR 0x85, CHR 0x86, CHR 0xFB,
     CHR 0xB8, CHR 0x0A, CHR 0x15, CHR 0x88, CHR 0xC6, CHR 0x31, CHR 0xCF, CHR 0x64, CHR 0x3A, CHR 0x7D,
     CHR 0x49, CHR 0x85, CHR 0xB2, CHR 0x21, CHR 0xA6, CHR 0xC8, CHR 0xE8, CHR 0x62, CHR 0x39, CHR 0x97,
     CHR 0xB3, CHR 0x7D, CHR 0x44, CHR 0x60, CHR 0x5B, CHR 0x7E, CHR 0x10, CHR 0x91]"

definition sample_db :: database where
  "sample_db = \<lparr>db_info = \<lparr>st_regular = True, st_node = 1, st_size = 0, st_modified = \<lparr>mo_nanos = 0, mo_year = 1970\<rparr>,
       st_perm = 0, st_uid = 0, st_gid = 0, st_links = 1\<rparr>,
     db_begin = None, db_columns = Inr [''id'', ''rollout_path'', ''archived'', ''history_mode''],
     db_threads = Inr [sample_row], db_tables = Inr 3, db_migrations = Inr [(58, sample_checksum, True)],
     db_backfill = Inr (Some ''complete''),
     db_layout = Inr [(''id'', ''TEXT'', 1), (''rollout_path'', ''text'', 0), (''history_mode'', ''TEXT'', 0),
       (''archived'', ''INTEGER'', 0), (''archived_at'', ''INTEGER'', 0)],
     db_triggers = Inr [], db_lstat = (\<lambda>_. Some \<lparr>st_regular = True, st_node = 1, st_size = 0,
       st_modified = \<lparr>mo_nanos = 0, mo_year = 1970\<rparr>, st_perm = 0, st_uid = 0, st_gid = 0, st_links = 1\<rparr>),
     db_exec = None, db_commit = (None, True)\<rparr>"

definition sample_state :: opened where
  "sample_state = calm_file [] (db_info sample_db)"

definition sample_sqlite :: sqlite_home where
  "sample_sqlite = \<lparr>sq_entries = Inr [''state_4.sqlite'', state_name, ''config.toml''],
     sq_regular = (\<lambda>n. if n = state_name then Inr sample_state else Inl (Absent n)),
     sq_connect = (\<lambda>_ _. Inr sample_db)\<rparr>"

definition sample_selection :: selection where
  "sample_selection = \<lparr>sl_path = ''old'', sl_mode = ''paginated'', sl_archived = True\<rparr>"

lemma sample_open: "open_state_db sample_sqlite writable = Inr (Some sample_db)"
proof -
  have "old_database [] [''state_4.sqlite'', state_name, ''config.toml''] = Inr ''state_4.sqlite''"
    "map (\<lambda>x. state_name @ x = state_name) [''-wal'', ''-shm'', ''-journal''] = [False, False, False]" by code_simp+
  then show ?thesis
    by (simp add: open_state_db_def sample_sqlite_def check_sidecar_def is_missing_def sample_state_def calm_file_def)
qed

lemma sample_selected: "read_selection sample_db ''t'' = Inr (Some sample_selection)"
  by (simp add: read_selection_def sample_db_def sample_row_def row_of_def sample_selection_def)

lemma sample_identity: "verify_identity sample_db n = None"
  by (simp add: verify_identity_def sample_db_def)

lemma sample_schema: "validate_selection_schema sample_db = Inr ()"
proof -
  have "latest_migration [(58, sample_checksum, True)] = Some (58, sample_checksum, True)"
    by (simp add: latest_migration_def)
  moreover have "qualified_migration (58, sample_checksum, True)"
    by (simp add: qualified_migration_def selection_migrations_def hex_bytes_def hex_digit_def sample_checksum_def)
      (simp add: char_of_def bit_0)
  moreover have "case db_layout sample_db of Inl _ \<Rightarrow> False
      | Inr layout \<Rightarrow> scan_columns required_columns 0 layout = Inr ([], 1)" by code_simp
  ultimately show ?thesis by (simp add: validate_selection_schema_def sample_db_def qualified_layout_def)
qed

lemma sample_begin: "begin_update sample_sqlite ''t'' sample_selection = Inr sample_db"
  using sample_schema sample_selected sample_identity sample_open
  by (simp add: begin_update_def) (simp add: sample_db_def sample_selection_def)

lemma sample_read: "read_selected sample_sqlite ''t'' = Inr (Some sample_selection)"
  using sample_selected sample_identity sample_open by (simp add: read_selected_def) (simp add: sample_db_def)

lemma sample_finish:
  "finish_update sample_db ''t'' sample_selection [sample_row] ''new'' False \<lparr>mo_nanos = 0, mo_year = 1970\<rparr> =
     (None, [sample_row\<lparr>tr_path := ''new'', tr_archived := False, tr_archived_at := None\<rparr>])"
  using sample_identity
  by (simp add: finish_update_def) (simp add: sample_db_def update_threads_def updates_row_def updated_row_def sample_row_def
      sample_selection_def)

section \<open>Properties\<close>

text \<open>C35: An existing selection is never overlooked: when \<open>Home.selection\<close> answers that nothing is
  selected, there is no state database at all, not even an older one, or the opened database has no
  row of the thread; and a selection it returns is that of a row of the thread, with a history mode
  the package knows.\<close>

theorem selection_never_overlooked:
  assumes "read_selected h thread = Inr r"
  shows "case r of
      None \<Rightarrow> (\<exists>entries. sq_entries h = Inr entries \<and> (\<forall>n \<in> set entries. \<not> other_database n)) \<and>
          (\<exists>e. sq_regular h state_name = Inl (Absent e)) \<or>
        (\<exists>db info rows. sq_connect h False info = Inr db \<and> db_threads db = Inr rows \<and> (\<forall>row \<in> set rows. tr_id row \<noteq> thread))
    | Some s \<Rightarrow> sl_mode s \<in> {''legacy'', ''paginated''} \<and>
        (\<exists>db info rows row. sq_connect h False info = Inr db \<and> db_threads db = Inr rows \<and> row \<in> set rows \<and>
           tr_id row = thread \<and> sl_path s = tr_path row \<and> sl_archived s = tr_archived row)"
proof -
  obtain state where st: "open_state_db h False = Inr state"
    and r: "(case state of None \<Rightarrow> Inr None
      | Some db \<Rightarrow> bindE (fail_opt (db_begin db)) (\<lambda>_. bindE (read_selection db thread) (\<lambda>s.
          bindE (fail_opt (verify_identity db 0)) (\<lambda>_. Inr s)))) = Inr r"
    using assms unfolding read_selected_def bindE_Inr by blast
  show ?thesis
  proof (cases state)
    case None
    then show ?thesis using r open_none [of h False] st by (auto simp: list_ex_iff)
  next
    case (Some db)
    then have "read_selection db thread = Inr r" using r by (auto simp: result_iff)
    then obtain columns rows where rows: "db_threads db = Inr rows"
      "case r of None \<Rightarrow> \<forall>row \<in> set rows. tr_id row \<noteq> thread
       | Some s \<Rightarrow> (\<exists>row \<in> set rows. tr_id row = thread \<and> s = row_of (''history_mode'' \<in> set columns) row) \<and>
           sl_mode s \<in> {''legacy'', ''paginated''}" by (rule read_selection_cases)
    obtain info where "sq_connect h False info = Inr db" using open_some st Some by metis
    show ?thesis
    proof (cases r)
      case None
      then show ?thesis using rows \<open>sq_connect h False info = Inr db\<close> by simp blast
    next
      case (Some s)
      then obtain row where "row \<in> set rows" "tr_id row = thread" "s = row_of (''history_mode'' \<in> set columns) row"
        "sl_mode s \<in> {''legacy'', ''paginated''}" using rows(2) by auto
      moreover from this have "sl_path s = tr_path row" "sl_archived s = tr_archived row" by (simp_all add: row_of_def)
      ultimately show ?thesis using Some rows(1) \<open>sq_connect h False info = Inr db\<close> by simp blast
    qed
  qed
qed

theorem selection_never_overlooked_witness:
  "sl_mode sample_selection \<in> {''legacy'', ''paginated''}"
  using selection_never_overlooked [OF sample_read] by simp

text \<open>C36: A repair changes one row and nothing else: \<open>beginSelectionUpdate\<close> only succeeds on a
  database whose latest migration, indexing status, columns, keys and triggers are the qualified
  ones and that still selects what was expected; and \<open>finish\<close>, whatever it returns, leaves the rows
  as they are or, if exactly one row holds the old selection of the thread, changes path and archive
  state of this row.\<close>

theorem selection_update_narrow:
  assumes "begin_update h thread expected = Inr db" "finish_update db thread expected rows path archived modified = (e, rows')"
  shows "schema_qualifies db \<and> read_selection db thread = Inr (Some expected) \<and> sl_mode expected = ''paginated'' \<and>
    (rows' = rows \<or> (\<exists>pre row post. rows = pre @ row # post \<and> updates_row thread expected row \<and>
       rows' = pre @ updated_row path archived (unix_seconds modified) row # post))"
proof -
  note f = finish_update_rows [OF assms(2)]
  have "\<exists>pre row post. rows = pre @ row # post \<and> updates_row thread expected row \<and>
      map (\<lambda>r. if updates_row thread expected r then u r else r) rows = pre @ u row # post"
    if n: "length (filter (updates_row thread expected) rows) = 1" for u
  proof -
    obtain row where "filter (updates_row thread expected) rows = [row]"
      using n by (cases "filter (updates_row thread expected) rows") auto
    then obtain pre post where p: "rows = pre @ row # post" "\<forall>x \<in> set pre. \<not> updates_row thread expected x"
      "updates_row thread expected row" "filter (updates_row thread expected) post = []"
      using filter_eq_ConsD [of "updates_row thread expected" rows row "[]"] by auto
    have "map (\<lambda>r. if updates_row thread expected r then u r else r) pre = pre" using p(2) by (simp add: map_idI)
    moreover have "map (\<lambda>r. if updates_row thread expected r then u r else r) post = post"
      using p(4) by (auto simp: filter_empty_conv intro: map_idI)
    ultimately have "map (\<lambda>r. if updates_row thread expected r then u r else r) rows = pre @ u row # post"
      using p(1,3) by simp
    then show ?thesis using p(1,3) by blast
  qed
  with f show ?thesis by (rule_tac begin_updateE [OF assms(1)]) blast
qed

theorem selection_update_narrow_witness:
  "schema_qualifies sample_db"
  using selection_update_narrow [OF sample_begin sample_finish] by simp

text \<open>Waiting for the index ends: with the deadline of 15 seconds passed at the latest after 600
  waits of 25 milliseconds, \<open>awaitPublicationSelection\<close> returns, whatever the database answers.\<close>

theorem await_selection_returns:
  assumes "\<And>k. 600 \<le> k \<Longrightarrow> fst (expired k) \<or> snd (expired k)"
  shows "\<exists>r. await_selection answer managed expired 0 601 = Some r"
  using await_returns_from [of 0 600 expired answer managed] assms by simp

theorem await_selection_returns_witness:
  "\<exists>r. await_selection (\<lambda>_. Inl (Coded 5)) Inr (\<lambda>k. (False, 600 \<le> k)) 0 601 = Some r"
  by (rule await_selection_returns) simp

end
