(* ===== verification/Session_Publish.thy ===== *)
theory Session_Publish
  imports Session_Stream Session_Selection
begin

text \<open>
  Publication of a received conversation (\<open>internal/session/publish.go\<close>, \<open>extend.go\<close>, and the writer
  guards of \<open>locks.go\<close>).  The destination and the private staging directory are maps from names to
  files.  Between its own changes other processes may act: what they do before each change is a
  parameter, and so is every error a system call can give.  Each change is kept in a log together
  with the store it found.
\<close>

section \<open>Files\<close>

record stored =
  sd_data :: string
  sd_stat :: stat

type_synonym store = "string \<Rightarrow> stored option"

text \<open>A staged slot, which nobody else writes, reads back as it is.\<close>

definition stage_regular :: "store \<Rightarrow> string \<Rightarrow> (session_error, opened) result" where
  "stage_regular stage n =
     (case stage n of None \<Rightarrow> Inl (Absent n) | Some f \<Rightarrow> Inr (calm_file (sd_data f) (sd_stat f)))"

record incoming =
  im_open :: bool
  im_plan :: plan
  im_stage :: store
  im_slots :: nat
  im_limits :: limits
  im_codec :: codec

section \<open>Writer guards\<close>

datatype flock = Locked | WouldBlock | FlockFailed

text \<open>The answers for a lock file: opening it, whether it is a regular file, and taking the lock.\<close>

type_synonym lock_answer = "session_error option \<times> bool option \<times> flock"

definition lock_file :: "lock_answer \<Rightarrow> session_error option" where
  "lock_file answer =
     (case answer of
        (Some e, regular, lock) \<Rightarrow> Some (Refused ''open Codex writer lock'')
      | (None, regular, lock) \<Rightarrow>
          if regular \<noteq> Some True then Some (Refused ''Codex writer lock is not a readable regular file'')
          else (case lock of
            Locked \<Rightarrow> None
          | WouldBlock \<Rightarrow> Some (Busy ''destination is in use'')
          | FlockFailed \<Rightarrow> Some (Refused ''acquire Codex writer lock'')))"

definition writer_lock :: "string \<Rightarrow> string" where
  "writer_lock i = ''thread-writer-locks/'' @ i @ ''.lock''"

text \<open>\<open>made\<close> is the error of creating the directory, other than that it exists.\<close>

definition coordination :: "session_error option \<Rightarrow> (string \<Rightarrow> lock_answer) \<Rightarrow> session_error option" where
  "coordination made lock =
     (case made of
        Some e \<Rightarrow> Some (Refused ''create Codex writer-lock directory'')
      | None \<Rightarrow> lock_file (lock (writer_lock ''.coordination'')))"

fun take_locks :: "(string \<Rightarrow> lock_answer) \<Rightarrow> string list \<Rightarrow> string list \<Rightarrow> string list \<times> session_error option" where
  "take_locks lock held [] = (held, None)"
| "take_locks lock held (i # ids) =
     (if i \<in> set held then take_locks lock held ids
      else case parse_id i of
        Inl e \<Rightarrow> (held, Some e)
      | Inr _ \<Rightarrow> (case lock_file (lock (writer_lock i)) of Some e \<Rightarrow> (held, Some e) | None \<Rightarrow> take_locks lock (held @ [i]) ids))"

definition acquire_guards ::
  "session_error option \<Rightarrow> (string \<Rightarrow> lock_answer) \<Rightarrow> string list \<Rightarrow> string list \<Rightarrow> string list \<times> session_error option"
where
  "acquire_guards made lock held ids =
     (let pending = filter (\<lambda>i. i \<notin> set held) ids in
      if pending = [] then (held, None)
      else (case coordination made lock of
          Some e \<Rightarrow> (held, Some e)
        | None \<Rightarrow> take_locks lock held (sort pending)))"

section \<open>Comparison with what exists\<close>

definition compare_existing ::
  "codec \<Rightarrow> limits \<Rightarrow> home \<Rightarrow> store \<Rightarrow> rollout_file \<Rightarrow> candidate \<Rightarrow> history_position option
     \<Rightarrow> (session_error, rollout_file \<times> rollout_file option) result" where
  "compare_existing cd l h stage inc c end_at =
     (let first = read_rollout cd (hm_regular h) c end_at l in
      if \<not> prerequisite_path (cn_path c) \<or> (rf_prefix inc \<and> is_ok first) \<or> (\<not> rf_prefix inc \<and> \<not> is_ok first)
      then bindE first (\<lambda>f. Inr (f, None))
      else
        bindE (case first of
            Inr f \<Rightarrow> Inr f
          | Inl e \<Rightarrow> (case read_rollout cd (hm_regular h) c None l of Inl _ \<Rightarrow> Inl e | Inr f \<Rightarrow> Inr f)) (\<lambda>existing.
        if rf_bytes existing \<ge> rf_bytes inc then
          (case first of Inl e \<Rightarrow> Inl e | Inr _ \<Rightarrow> Inr (existing, None))
        else if sm_mode (rf_meta existing) \<noteq> ''paginated'' \<or> rf_last existing = max_u64
        then Inl (Refused ''managed prerequisite is not a valid paginated prefix'')
        else
          bindE (read_rollout cd (stage_regular stage)
              \<lparr>cn_path = rf_source inc, cn_thread = rf_thread inc, cn_rollout = rf_rollout inc\<rparr>
              (Some \<lparr>hp_rollout = rf_rollout inc, hp_ordinal = rf_last existing + 1, hp_offset = of_int (rf_bytes existing)\<rparr>) l)
            (\<lambda>staged.
              if rf_sha256 staged \<noteq> rf_sha256 existing \<or> rf_bytes staged \<noteq> rf_bytes existing
              then Inl (Refused ''incoming history diverges from the existing inherited prefix'')
              else Inr (existing, Some existing))))"

record choice =
  ch_path :: string
  ch_exists :: bool
  ch_extensions :: "rollout_file list"
  ch_promoted :: bool
  ch_repair :: "selection option"

definition no_candidate :: candidate where
  "no_candidate = \<lparr>cn_path = [], cn_thread = [], cn_rollout = []\<rparr>"

definition main_file :: "plan \<Rightarrow> rollout_file" where
  "main_file p = last (pl_files p)"

text \<open>The candidate the selected path stands for, and whether it needs a repair.\<close>

definition selected_candidate :: "plan \<Rightarrow> selection \<Rightarrow> string \<Rightarrow> (session_error, candidate \<times> bool) result" where
  "selected_candidate p sel path =
     (let main = main_file p;
          parsed = parse_name path;
          legacy = (parsed = None \<and> sl_mode sel = ''legacy'');
          c = (if legacy then \<lparr>cn_path = path, cn_thread = rf_thread main, cn_rollout = rf_thread main\<rparr>
               else case parsed of None \<Rightarrow> no_candidate | Some c \<Rightarrow> c);
          ok = (legacy \<or> parsed \<noteq> None);
          managed = prerequisite_path path;
          matches = list_ex (\<lambda>f. rf_thread f = rf_thread main \<and> rf_rollout f = cn_rollout c) (pl_files p);
          canonical = prerequisite_root @ cn_rollout c @ ''/'' @ path_base (trim_suffix path ''.zst'') in
      if managed \<and> (\<not> ok \<or> \<not> matches \<or> sl_mode sel \<noteq> ''paginated'' \<or> sm_mode (rf_meta main) \<noteq> ''paginated'' \<or>
           trim_suffix path ''.zst'' \<noteq> canonical)
      then Inl (Conflict ''selects a prerequisite outside the validated incoming lineage'')
      else if \<not> ok \<or> cn_thread c \<noteq> rf_thread main \<or> (\<not> managed \<and> cn_rollout c \<noteq> rf_rollout main) \<or>
           sl_mode sel \<noteq> sm_mode (rf_meta main)
      then Inl (Conflict ''selects a different rollout or history mode'')
      else Inr (c, managed))"

fun present_names :: "home \<Rightarrow> candidate \<Rightarrow> string list \<Rightarrow> (session_error, candidate list) result" where
  "present_names h c [] = Inr []"
| "present_names h c (n # ns) =
     (case hm_regular h n of
        Inr _ \<Rightarrow> bindE (present_names h c ns) (\<lambda>cs. Inr (c\<lparr>cn_path := n\<rparr> # cs))
      | Inl e \<Rightarrow> if is_missing e then present_names h c ns else Inl e)"

text \<open>The selected path, the selection to repair, and the candidates to compare with.\<close>

definition check_selection ::
  "home \<Rightarrow> plan \<Rightarrow> selection option \<Rightarrow> candidate list \<Rightarrow> (session_error, string \<times> selection option \<times> candidate list) result"
where
  "check_selection h p selected known =
     (case selected of
        None \<Rightarrow> Inr ([], None, known)
      | Some sel \<Rightarrow>
          bindE (managed_relative (hm_path h) (hm_logical h) (sl_path sel)) (\<lambda>path.
          bindE (selected_candidate p sel path) (\<lambda>(c, repair).
          bindE (if list_ex (\<lambda>k. same_rollout (cn_path k) path) known then Inr known
                 else bindE (present_names h c (both_names path)) (\<lambda>cs.
                   if cs = [] then Inl (Conflict ''missing authoritative destination rollout'') else Inr (known @ cs)))
            (\<lambda>known. Inr (path, if repair then Some sel else None, known)))))"

definition consider_candidate ::
  "codec \<Rightarrow> limits \<Rightarrow> home \<Rightarrow> store \<Rightarrow> string \<Rightarrow> rollout_file \<Rightarrow> history_position option \<Rightarrow> choice \<Rightarrow> candidate
     \<Rightarrow> (session_error, choice) result" where
  "consider_candidate cd l h stage path inc end_at pick c =
     (if cn_rollout c \<noteq> rf_rollout inc then Inr pick
      else if cn_thread c \<noteq> rf_thread inc then Inl (Conflict ''belongs to another thread'')
      else case compare_existing cd l h stage inc c end_at of
        Inl _ \<Rightarrow> Inl (Conflict ''cannot validate existing rollout'')
      | Inr (existing, extension) \<Rightarrow>
          if extension = None \<and> (rf_sha256 inc \<noteq> rf_sha256 existing \<or> rf_bytes inc \<noteq> rf_bytes existing)
          then Inl (Conflict ''has different bytes'')
          else let pick = pick\<lparr>ch_extensions := ch_extensions pick @ (case extension of None \<Rightarrow> [] | Some f \<Rightarrow> [f])\<rparr> in
            if \<not> rf_prefix inc \<and> prerequisite_path (cn_path c) then Inr (pick\<lparr>ch_promoted := True\<rparr>)
            else if \<not> ch_exists pick \<or> (\<not> prerequisite_path (cn_path c) \<and> prerequisite_path (ch_path pick)) \<or>
                    same_rollout (cn_path c) path
            then Inr (pick\<lparr>ch_path := cn_path c, ch_exists := True\<rparr>) else Inr pick)"

fun choose_files ::
  "codec \<Rightarrow> limits \<Rightarrow> home \<Rightarrow> store \<Rightarrow> string \<Rightarrow> selection option \<Rightarrow> candidate list \<Rightarrow> rollout_file list
     \<Rightarrow> (session_error, choice list) result" where
  "choose_files cd l h stage path repair known [] = Inr []"
| "choose_files cd l h stage path repair known (f # fs) =
     bindE (foldE (consider_candidate cd l h stage path f
                    (if rf_prefix f then (case fs of [] \<Rightarrow> None | g # _ \<Rightarrow> sm_base (rf_meta g)) else None))
              \<lparr>ch_path = rf_path f, ch_exists = False, ch_extensions = [], ch_promoted = False,
               ch_repair = (if rf_prefix f then None else repair)\<rparr> known) (\<lambda>pick.
     bindE (choose_files cd l h stage path repair known fs) (\<lambda>chs. Inr (pick # chs)))"

definition check_conflicts ::
  "incoming \<Rightarrow> home \<Rightarrow> sqlite_home \<Rightarrow> (session_error, choice list) result" where
  "check_conflicts im h sq =
     bindE (inventory h) (\<lambda>known.
     bindE (read_selected sq (rf_thread (main_file (im_plan im)))) (\<lambda>selected.
     bindE (check_selection h (im_plan im) selected known) (\<lambda>(path, repair, known).
     if (path = [] \<or> repair \<noteq> None) \<and>
        list_ex (\<lambda>c. cn_thread c = rf_thread (main_file (im_plan im)) \<and> \<not> prerequisite_path (cn_path c) \<and>
          cn_rollout c \<noteq> rf_rollout (main_file (im_plan im))) known
     then Inl (Conflict ''already has a different rollout without authoritative selection'')
     else choose_files (im_codec im) (im_limits im) h (im_stage im) path repair known (pl_files (im_plan im)))))"

section \<open>Publication\<close>

text \<open>
  What surrounds a publication: how a store is seen through the home, the guards, the zstd encoder,
  the inode and the errors of the \<open>n\<close>-th extension slot, what others do before the \<open>n\<close>-th change of
  the store (between its checks and the change itself they are assumed to wait: the writer guards
  are held), the errors of opening the directory, of the rename or link and of the sync of that
  change, the context at the beginning, before each file and before each rename, the seam
  \<open>afterFile\<close>, the rows of the database at each update, and the time left for the index.
\<close>

record destination =
  de_view :: "store \<Rightarrow> home"
  de_made :: "session_error option"
  de_lock :: "string \<Rightarrow> lock_answer"
  de_encode :: "string \<Rightarrow> string option"
  de_inode :: "nat \<Rightarrow> nat"
  de_slot :: "nat \<Rightarrow> session_error option"
  de_finish :: "nat \<Rightarrow> session_error option"
  de_others :: "nat \<Rightarrow> store \<Rightarrow> store"
  de_directory :: "nat \<Rightarrow> session_error option"
  de_move :: "nat \<Rightarrow> session_error option"
  de_sync :: "nat \<Rightarrow> session_error option"
  de_over :: bool
  de_cancel :: "nat \<Rightarrow> bool"
  de_rename :: "nat \<Rightarrow> bool"
  de_after :: "nat \<Rightarrow> session_error option"
  de_rows :: "bool \<Rightarrow> thread_row list"
  de_expired :: "nat \<Rightarrow> bool \<times> bool"

text \<open>
  The two stores, the slots used, the changes attempted; every change made, with the store it found
  and the store it left; and every update of the database, with the rows before and after.
\<close>

record publication =
  pb_store :: store
  pb_stage :: store
  pb_slots :: nat
  pb_changes :: nat
  pb_log :: "(store \<times> store) list"
  pb_rows :: "(thread_row list \<times> thread_row list) list"

text \<open>\<open>unix.NsecToTimeval\<close> drops what is below a microsecond, towards zero.\<close>

definition microseconds :: "moment \<Rightarrow> moment" where
  "microseconds t = t\<lparr>mo_nanos := (if mo_nanos t \<ge> 0 then mo_nanos t div 1000 else - (- mo_nanos t div 1000)) * 1000\<rparr>"

text \<open>\<open>preparePrefix\<close>: the new content of a managed prerequisite in a slot of its own.\<close>

definition prepare_prefix ::
  "destination \<Rightarrow> codec \<Rightarrow> rollout_file \<Rightarrow> rollout_file \<Rightarrow> publication \<Rightarrow> publication \<times> (session_error, rollout_file \<times> string) result"
where
  "prepare_prefix d cd inc old pb =
     (if sm_mode (rf_meta inc) \<noteq> ''paginated'' \<or> \<not> prerequisite_path (rf_source old) \<or> rf_stored old = None
      then (pb, Inl (Refused ''extension requires a validated managed prerequisite''))
      else let n = pb_slots pb; slot = ''extension-'' @ pad 6 n; pb = pb\<lparr>pb_slots := n + 1\<rparr> in
        (case (if pb_stage pb slot \<noteq> None then Some (Refused ''file exists'') else de_slot d n) of
           Some e \<Rightarrow> (pb\<lparr>pb_slots := n\<rparr>, Inl e)
         | None \<Rightarrow>
             (case pb_stage pb (rf_source inc) of
                None \<Rightarrow> (pb, Inl (Absent (rf_source inc)))
              | Some s \<Rightarrow>
                  (case copy_payload cd inc \<lparr>in_bytes = sd_data s, in_error = None, in_eager = False\<rparr> (\<not> rf_prefix inc) of
                     (data, Some e) \<Rightarrow> (pb, Inl e)
                   | (data, None) \<Rightarrow>
                       (case (if compressed (rf_source old) then de_encode d data else Some data) of
                          None \<Rightarrow> (pb, Inl (Refused ''zstd''))
                        | Some bytes \<Rightarrow>
                            (case de_finish d n of
                               Some e \<Rightarrow> (pb, Inl e)
                             | None \<Rightarrow>
                                 (pb\<lparr>pb_stage := (pb_stage pb)(slot \<mapsto>
                                    \<lparr>sd_data = bytes, sd_stat = (the (rf_stored old))
                                       \<lparr>st_node := de_inode d n, st_size := int (length bytes), st_modified := microseconds (rf_modified inc),
                                        st_links := 1\<rparr>\<rparr>)\<rparr>,
                                  Inr (old, slot))))))))"

fun prepare_all ::
  "destination \<Rightarrow> codec \<Rightarrow> rollout_file \<Rightarrow> rollout_file list \<Rightarrow> publication
     \<Rightarrow> publication \<times> (session_error, (rollout_file \<times> string) list) result" where
  "prepare_all d cd inc [] pb = (pb, Inr [])"
| "prepare_all d cd inc (old # olds) pb =
     (case prepare_prefix d cd inc old pb of
        (pb, Inl e) \<Rightarrow> (pb, Inl e)
      | (pb, Inr x) \<Rightarrow> (case prepare_all d cd inc olds pb of (pb, r) \<Rightarrow> (pb, bindE r (\<lambda>xs. Inr (x # xs)))))"

fun prepare_files ::
  "destination \<Rightarrow> codec \<Rightarrow> (rollout_file \<times> choice) list \<Rightarrow> publication
     \<Rightarrow> publication \<times> (session_error, (rollout_file \<times> string) list list) result" where
  "prepare_files d cd [] pb = (pb, Inr [])"
| "prepare_files d cd ((f, pick) # rest) pb =
     (case prepare_all d cd f (ch_extensions pick) pb of
        (pb, Inl e) \<Rightarrow> (pb, Inl e)
      | (pb, Inr x) \<Rightarrow> (case prepare_files d cd rest pb of (pb, r) \<Rightarrow> (pb, bindE r (\<lambda>xs. Inr (x # xs)))))"

text \<open>Others act, then the store is what this change finds.\<close>

definition interfere :: "destination \<Rightarrow> publication \<Rightarrow> publication" where
  "interfere d pb = pb\<lparr>pb_store := de_others d (pb_changes pb) (pb_store pb), pb_changes := pb_changes pb + 1\<rparr>"

definition change :: "store \<Rightarrow> publication \<Rightarrow> publication" where
  "change st pb = pb\<lparr>pb_store := st, pb_log := pb_log pb @ [(pb_store pb, st)]\<rparr>"

definition same_file :: "stat \<Rightarrow> stat \<Rightarrow> bool" where
  "same_file a b = (st_node a = st_node b \<and> st_size a = st_size b \<and> mo_nanos (st_modified a) = mo_nanos (st_modified b))"

definition publish_prefix :: "destination \<Rightarrow> rollout_file \<times> string \<Rightarrow> publication \<Rightarrow> publication \<times> session_error option" where
  "publish_prefix d prepared pb =
     (case prepared of (old, slot) \<Rightarrow>
        let n = pb_changes pb; pb = interfere d pb in
        (case de_directory d n of Some e \<Rightarrow> (pb, Some e) | None \<Rightarrow>
        (case pb_store pb (rf_source old) of None \<Rightarrow> (pb, Some (Absent (rf_source old))) | Some current \<Rightarrow>
           if \<not> st_regular (sd_stat current) then (pb, Some (Refused ''not a regular file''))
           else if (case rf_stored old of None \<Rightarrow> True | Some info \<Rightarrow> \<not> same_file info (sd_stat current))
           then (pb, Some (Conflict ''managed prerequisite changed before extension''))
           else if de_rename d n then (pb, Some Interrupted)
           else (case de_move d n of Some e \<Rightarrow> (pb, Some e) | None \<Rightarrow>
           (case pb_stage pb slot of None \<Rightarrow> (pb, Some (Absent slot)) | Some f \<Rightarrow>
             (change ((pb_store pb)(rf_source old \<mapsto> f)) (pb\<lparr>pb_stage := (pb_stage pb)(slot := None)\<rparr>), de_sync d n))))))"

fun publish_prefixes ::
  "destination \<Rightarrow> (rollout_file \<times> string) list \<Rightarrow> publication \<Rightarrow> publication \<times> session_error option" where
  "publish_prefixes d [] pb = (pb, None)"
| "publish_prefixes d (x # xs) pb =
     (case publish_prefix d x pb of (pb, Some e) \<Rightarrow> (pb, Some e) | (pb, None) \<Rightarrow> publish_prefixes d xs pb)"

definition linked_file :: "stored \<Rightarrow> stored" where
  "linked_file f = f\<lparr>sd_stat := (sd_stat f)\<lparr>st_links := st_links (sd_stat f) + 1\<rparr>\<rparr>"

text \<open>An exclusive hard link: an existing name is an error.\<close>

definition install_file :: "destination \<Rightarrow> rollout_file \<Rightarrow> string \<Rightarrow> publication \<Rightarrow> publication \<times> session_error option" where
  "install_file d inc path pb =
     (let n = pb_changes pb; pb = interfere d pb in
      (case de_directory d n of Some e \<Rightarrow> (pb, Some e) | None \<Rightarrow>
      (case de_move d n of Some e \<Rightarrow> (pb, Some e) | None \<Rightarrow>
      (case pb_stage pb (rf_source inc) of None \<Rightarrow> (pb, Some (Absent (rf_source inc))) | Some f \<Rightarrow>
         if pb_store pb path \<noteq> None then (pb, Some (Refused ''install rollout without overwrite''))
         else (change ((pb_store pb)(path \<mapsto> linked_file f)) pb, de_sync d n)))))"

record installed =
  il_path :: string
  il_rollout :: string
  il_prefix :: bool
  il_created :: bool
  il_extended :: bool
  il_promoted :: bool

definition installed_file :: "rollout_file \<Rightarrow> choice \<Rightarrow> installed" where
  "installed_file f pick =
     \<lparr>il_path = ch_path pick, il_rollout = rf_rollout f, il_prefix = rf_prefix f, il_created = \<not> ch_exists pick,
      il_extended = (rf_prefix f \<and> ch_extensions pick \<noteq> []),
      il_promoted = (ch_promoted pick \<and> (\<not> ch_exists pick \<or> ch_extensions pick \<noteq> [] \<or> ch_repair pick \<noteq> None))\<rparr>"

fun publish_files ::
  "destination \<Rightarrow> nat \<Rightarrow> (rollout_file \<times> choice \<times> (rollout_file \<times> string) list) list \<Rightarrow> publication
     \<Rightarrow> publication \<times> (session_error, installed list) result" where
  "publish_files d i [] pb = (pb, Inr [])"
| "publish_files d i ((f, pick, prepared) # rest) pb =
     (if de_cancel d i then (pb, Inl Interrupted)
      else case publish_prefixes d prepared pb of
        (pb, Some e) \<Rightarrow> (pb, Inl e)
      | (pb, None) \<Rightarrow>
          (case (if ch_exists pick then (pb, None) else install_file d f (ch_path pick) pb) of
             (pb, Some e) \<Rightarrow> (pb, Inl e)
           | (pb, None) \<Rightarrow>
               (case de_after d i of
                  Some e \<Rightarrow> (pb, Inl e)
                | None \<Rightarrow>
                    (case publish_files d (i + 1) rest pb of (pb, r) \<Rightarrow> (pb, bindE r (\<lambda>xs. Inr (installed_file f pick # xs)))))))"

record published =
  ps_thread :: string
  ps_destination :: string
  ps_main :: string
  ps_archived :: bool
  ps_files :: "installed list"
  ps_meta :: "metadata option"
  ps_repaired :: bool

text \<open>The fields of the result are set at every file that is not a prefix.\<close>

fun result_files :: "published \<Rightarrow> (rollout_file \<times> installed) list \<Rightarrow> published" where
  "result_files r [] = r"
| "result_files r ((f, i) # rest) =
     (let r = r\<lparr>ps_files := ps_files r @ [i]\<rparr> in
      result_files
        (if rf_prefix f then r
         else r\<lparr>ps_main := il_path i, ps_archived := has_prefix (il_path i) ''archived_sessions/'', ps_meta := Some (rf_meta f)\<rparr>)
        rest)"

section \<open>The selection\<close>

definition complete_update ::
  "destination \<Rightarrow> incoming \<Rightarrow> bool \<Rightarrow> database \<Rightarrow> selection \<Rightarrow> published \<Rightarrow> publication \<Rightarrow> publication \<times> session_error option" where
  "complete_update d im again db old r pb =
     (case finish_update db (pl_thread (im_plan im)) old (de_rows d again)
         (path_join [ps_destination r, ps_main r]) (ps_archived r) (rf_modified (main_file (im_plan im))) of
        (e, rows) \<Rightarrow> (pb\<lparr>pb_rows := pb_rows pb @ [(de_rows d again, rows)]\<rparr>, e))"

text \<open>
  \<open>finishPublicationSelection\<close>: whether a selection was repaired.  The database is read through
  \<open>sq\<close>, the \<open>n\<close>-th time it is opened.
\<close>

definition same_selection :: "published \<Rightarrow> string \<Rightarrow> selection \<Rightarrow> bool" where
  "same_selection r path sel =
     (same_rollout path (ps_main r) \<and> ps_meta r \<noteq> None \<and> sl_mode sel = sm_mode (the (ps_meta r)) \<and> sl_archived sel = ps_archived r)"

definition repair_selection ::
  "destination \<Rightarrow> incoming \<Rightarrow> (nat \<Rightarrow> sqlite_home) \<Rightarrow> selection \<Rightarrow> published \<Rightarrow> publication
     \<Rightarrow> publication \<times> (session_error, bool) result" where
  "repair_selection d im sq selected r pb =
     (case check_conflicts (im\<lparr>im_stage := pb_stage pb\<rparr>) (de_view d (pb_store pb)) (sq 2) of
        Inl e \<Rightarrow> (pb, Inl e)
      | Inr chs \<Rightarrow>
          if ch_repair (last chs) \<noteq> Some selected
          then (pb, Inl (Conflict ''destination selection changed during index verification''))
          else (case begin_update (sq 3) (pl_thread (im_plan im)) selected of
              Inl e \<Rightarrow> (pb, Inl e)
            | Inr db \<Rightarrow> (case complete_update d im True db selected r pb of
                (pb, Some e) \<Rightarrow> (pb, Inl e) | (pb, None) \<Rightarrow> (pb, Inr True))))"

definition finish_selection ::
  "destination \<Rightarrow> incoming \<Rightarrow> (nat \<Rightarrow> sqlite_home) \<Rightarrow> published \<Rightarrow> publication \<Rightarrow> publication \<times> (session_error, bool) result" where
  "finish_selection d im sq r pb =
     (let pb = interfere d pb; h = de_view d (pb_store pb); managed = managed_relative (hm_path h) (hm_logical h) in
      (case await_selection (\<lambda>n. publication_selection (sq (n + 4)) (pl_thread (im_plan im))) managed (de_expired d) 0 601 of
         None \<Rightarrow> (pb, Inl Interrupted)
       | Some (Inl e) \<Rightarrow> (pb, Inl e)
       | Some (Inr None) \<Rightarrow> (pb, Inr False)
       | Some (Inr (Some selected)) \<Rightarrow>
           (case managed (sl_path selected) of
              Inl e \<Rightarrow> (pb, Inl e)
            | Inr path \<Rightarrow>
                if prerequisite_path path then repair_selection d im sq selected r pb
                else if same_selection r path selected then (pb, Inr False)
                else (pb, Inl (Conflict ''destination selected a different complete conversation during publication'')))))"

section \<open>Publish\<close>

definition guard_ids :: "plan \<Rightarrow> string list" where
  "guard_ids p = concat (map (\<lambda>f. [rf_thread f, rf_rollout f]) (pl_files p))"

definition start_publication :: "incoming \<Rightarrow> store \<Rightarrow> publication" where
  "start_publication im st =
     \<lparr>pb_store = st, pb_stage = im_stage im, pb_slots = im_slots im, pb_changes = 0, pb_log = [], pb_rows = []\<rparr>"

definition start_update :: "incoming \<Rightarrow> (nat \<Rightarrow> sqlite_home) \<Rightarrow> choice list \<Rightarrow> (session_error, (selection \<times> database) option) result" where
  "start_update im sq chs =
     (case ch_repair (last chs) of
        None \<Rightarrow> Inr None
      | Some sel \<Rightarrow> bindE (begin_update (sq 1) (pl_thread (im_plan im)) sel) (\<lambda>db. Inr (Some (sel, db))))"

text \<open>What follows the installation of the files: the update that was begun, then the index.\<close>

definition conclude ::
  "destination \<Rightarrow> incoming \<Rightarrow> (nat \<Rightarrow> sqlite_home) \<Rightarrow> choice list \<Rightarrow> (selection \<times> database) option \<Rightarrow> published
     \<Rightarrow> publication \<Rightarrow> publication \<times> (session_error, published) result" where
  "conclude d im sq chs update r pb =
     (case (case update of None \<Rightarrow> (pb, None) | Some (sel, db) \<Rightarrow> complete_update d im False db sel r pb) of
        (pb, Some e) \<Rightarrow> (pb, Inl e)
      | (pb, None) \<Rightarrow>
          let r = r\<lparr>ps_repaired := (update \<noteq> None)\<rparr> in
          if length (pl_files (im_plan im)) \<le> 1 \<and> \<not> ch_promoted (last chs) then (pb, Inr r)
          else (case finish_selection d im sq r pb of
              (pb, Inl e) \<Rightarrow> (pb, Inl e)
            | (pb, Inr repaired) \<Rightarrow> (pb, Inr (r\<lparr>ps_repaired := (ps_repaired r \<or> repaired)\<rparr>))))"

definition install_all ::
  "destination \<Rightarrow> incoming \<Rightarrow> (nat \<Rightarrow> sqlite_home) \<Rightarrow> choice list \<Rightarrow> publication \<Rightarrow> publication \<times> (session_error, published) result" where
  "install_all d im sq chs pb =
     (let files = pl_files (im_plan im) in
      (case prepare_files d (im_codec im) (zip files chs) pb of
         (pb, Inl e) \<Rightarrow> (pb, Inl e)
       | (pb, Inr prepared) \<Rightarrow>
           (case start_update im sq chs of
              Inl e \<Rightarrow> (pb, Inl e)
            | Inr update \<Rightarrow>
                (case publish_files d 0 (zip files (zip chs prepared)) pb of
                   (pb, Inl e) \<Rightarrow> (pb, Inl e)
                 | (pb, Inr done) \<Rightarrow>
                     conclude d im sq chs update
                       (result_files \<lparr>ps_thread = pl_thread (im_plan im), ps_destination = hm_path (de_view d (pb_store pb)), ps_main = [],
                          ps_archived = False, ps_files = [], ps_meta = None, ps_repaired = False\<rparr> (zip files done)) pb))))"

definition publish ::
  "destination \<Rightarrow> incoming \<Rightarrow> (nat \<Rightarrow> sqlite_home) option \<Rightarrow> store \<Rightarrow> publication \<times> (session_error, published) result" where
  "publish d im sq st =
     (let pb = start_publication im st in
      if \<not> im_open im \<or> pl_files (im_plan im) = [] then (pb, Inl (Refused ''incoming session is empty or closed''))
      else (case sq of
          None \<Rightarrow> (pb, Inl (Refused ''effective destination SQLite home is required''))
        | Some sq \<Rightarrow>
            if de_over d then (pb, Inl Interrupted)
            else (case snd (acquire_guards (de_made d) (de_lock d) [] (guard_ids (im_plan im))) of
                Some e \<Rightarrow> (pb, Inl e)
              | None \<Rightarrow>
                  (case check_conflicts im (de_view d st) (sq 0) of
                     Inl e \<Rightarrow> (pb, Inl e)
                   | Inr chs \<Rightarrow> install_all d im sq chs pb))))"

section \<open>An extension keeps what it extends\<close>

lemma read_rolloutE:
  assumes "read_rollout cd regular c e l = Inr f"
  shows "rf_source f = cn_path c" "rf_stored f \<noteq> None" "0 \<le> rf_bytes f"
proof -
  obtain opn where "read_rollout_file cd opn c e l False = Inr f" using assms by (auto simp: read_rollout_def result_iff)
  then show "rf_source f = cn_path c" "rf_stored f \<noteq> None" "0 \<le> rf_bytes f"
    by (auto elim!: read_rollout_fileE simp: finished_file_def)
qed

lemma staged_prefix:
  assumes "read_rollout cd (stage_regular stage) c e l = Inr g" "\<not> compressed (cn_path c)"
  obtains s where "stage (cn_path c) = Some s" "rf_bytes g \<le> int (length (sd_data s))"
    "rf_sha256 g = sha256_hex (take (nat (rf_bytes g)) (sd_data s))"
proof -
  obtain s where s: "stage (cn_path c) = Some s"
    and r: "read_rollout_file cd (calm_file (sd_data s) (sd_stat s)) c e l False = Inr g"
    using assms(1) by (auto simp: read_rollout_def stage_regular_def result_iff split: option.splits)
  obtain before raw decoded i st ws where x: "captured_input (calm_file (sd_data s) (sd_stat s)) before c e l False = Inr raw" "decoded_input cd c raw = Inr decoded"
    "bounded_input l e decoded = Inr i" "in_bytes i = concat ws" "sound_reading cd l c st ws" "g = finished_file c e before st"
    by (rule read_rollout_fileE [OF r])
  obtain n where "in_bytes i = take n (sd_data s)"
    using input_bytes [OF x(1-3) assms(2)] by (auto simp: calm_file_def)
  moreover have "rd_content st = concat ws" using x(5) by (simp add: sound_reading_def)
  ultimately have "rd_content st = take n (sd_data s)" using x(4) by simp
  then show thesis using that [OF s] by (simp add: x(6) finished_file_def min_def)
qed

lemma compare_extension:
  assumes "compare_existing cd l h stage f c e = Inr (x, Some old)"
  obtains e' cut g where "x = old" "prerequisite_path (cn_path c)" "read_rollout cd (hm_regular h) c e' l = Inr old"
    "rf_bytes old < rf_bytes f"
    "read_rollout cd (stage_regular stage) \<lparr>cn_path = rf_source f, cn_thread = rf_thread f, cn_rollout = rf_rollout f\<rparr> (Some cut) l = Inr g"
    "rf_sha256 g = rf_sha256 old" "rf_bytes g = rf_bytes old"
  using assms unfolding compare_existing_def Let_def
  by (auto simp: result_iff split: if_split_asm sum.splits)

text \<open>What the new content of a managed prerequisite has to be.\<close>

definition lengthens :: "destination \<Rightarrow> rollout_file \<Rightarrow> rollout_file \<Rightarrow> string \<Rightarrow> bool" where
  "lengthens d f old content =
     (\<exists>data. rf_bytes old < int (length data) \<and> sha256_hex (take (nat (rf_bytes old)) data) = rf_sha256 old \<and>
        int (length data) = rf_bytes f \<and> sha256_hex data = rf_sha256 f \<and>
        (if compressed (rf_source old) then de_encode d data = Some content else content = data))"

definition validated :: "incoming \<Rightarrow> home \<Rightarrow> rollout_file \<Rightarrow> rollout_file \<Rightarrow> bool" where
  "validated im h f old =
     (\<exists>c e x. cn_rollout c = rf_rollout f \<and> cn_thread c = rf_thread f \<and>
        compare_existing (im_codec im) (im_limits im) h (im_stage im) f c e = Inr (x, Some old))"

lemma validated_read:
  assumes "validated im h f old"
  shows "prerequisite_path (rf_source old)" "rf_stored old \<noteq> None" "0 \<le> rf_bytes old"
    "\<exists>c e. read_rollout (im_codec im) (hm_regular h) c e (im_limits im) = Inr old \<and> cn_path c = rf_source old"
proof -
  obtain c e x where "compare_existing (im_codec im) (im_limits im) h (im_stage im) f c e = Inr (x, Some old)"
    using assms by (auto simp: validated_def)
  then obtain e' where p: "prerequisite_path (cn_path c)" and r: "read_rollout (im_codec im) (hm_regular h) c e' (im_limits im) = Inr old"
    by (rule compare_extension)
  show "prerequisite_path (rf_source old)" "rf_stored old \<noteq> None" "0 \<le> rf_bytes old"
    using read_rolloutE [OF r] p by auto
  show "\<exists>c e. read_rollout (im_codec im) (hm_regular h) c e (im_limits im) = Inr old \<and> cn_path c = rf_source old"
    using r read_rolloutE(1) [OF r] by auto
qed

lemma copied_extension:
  assumes "validated im h f old" "\<not> compressed (rf_source f)" "im_stage im (rf_source f) = Some s"
    "copy_payload (im_codec im) f \<lparr>in_bytes = sd_data s, in_error = None, in_eager = False\<rparr> exact = (data, None)"
  shows "rf_bytes old < int (length data)" "sha256_hex (take (nat (rf_bytes old)) data) = rf_sha256 old"
    "int (length data) = rf_bytes f" "sha256_hex data = rf_sha256 f"
proof -
  obtain c e x where "compare_existing (im_codec im) (im_limits im) h (im_stage im) f c e = Inr (x, Some old)"
    using assms by (auto simp: validated_def)
  then obtain cut g e' where o: "read_rollout (im_codec im) (hm_regular h) c e' (im_limits im) = Inr old" "rf_bytes old < rf_bytes f"
    and g: "read_rollout (im_codec im) (stage_regular (im_stage im))
        \<lparr>cn_path = rf_source f, cn_thread = rf_thread f, cn_rollout = rf_rollout f\<rparr> (Some cut) (im_limits im) = Inr g"
      "rf_sha256 g = rf_sha256 old" "rf_bytes g = rf_bytes old"
    by (rule compare_extension)
  have p: "rf_sha256 old = sha256_hex (take (nat (rf_bytes old)) (sd_data s))"
    using assms(2,3) g(2,3) by (elim staged_prefix [OF g(1), unfolded candidate.simps]) auto
  have data: "data = take (nat (rf_bytes f)) (sd_data s)" using assms(2,4)
    by (auto simp: copy_payload_def Let_def split: if_split_asm)
  have n: "0 \<le> rf_bytes f" using read_rolloutE(3) [OF o(1)] o(2) by simp
  show len: "int (length data) = rf_bytes f" and "sha256_hex data = rf_sha256 f"
    using copy_payload_ok [OF assms(4)] n by simp_all
  show "rf_bytes old < int (length data)" using len o(2) by simp
  have "take (nat (rf_bytes old)) data = take (nat (rf_bytes old)) (sd_data s)"
    unfolding data using o(2) by (simp add: min_def)
  then show "sha256_hex (take (nat (rf_bytes old)) data) = rf_sha256 old" using p by simp
qed

section \<open>Every candidate is compared\<close>

text \<open>A candidate with the rollout of an incoming file: the same bytes, or a shorter managed prefix.\<close>

definition agrees :: "incoming \<Rightarrow> home \<Rightarrow> rollout_file \<Rightarrow> candidate \<Rightarrow> bool" where
  "agrees im h f c \<longleftrightarrow> cn_thread c = rf_thread f \<and>
     (\<exists>e x. read_rollout (im_codec im) (hm_regular h) c e (im_limits im) = Inr x \<and>
        (rf_sha256 x = rf_sha256 f \<and> rf_bytes x = rf_bytes f \<or> prerequisite_path (cn_path c) \<and> rf_bytes x < rf_bytes f))"

lemma compare_reads:
  "compare_existing cd l h stage f c e = Inr (x, ext) \<Longrightarrow> \<exists>e'. read_rollout cd (hm_regular h) c e' l = Inr x"
  unfolding compare_existing_def Let_def by (auto simp: result_iff split: if_split_asm sum.splits)

lemma consider_step:
  assumes "consider_candidate (im_codec im) (im_limits im) h (im_stage im) path f e pick c = Inr pick'"
  shows "cn_rollout c = rf_rollout f \<Longrightarrow> agrees im h f c"
    "old \<in> set (ch_extensions pick') \<Longrightarrow> old \<in> set (ch_extensions pick) \<or> validated im h f old"
proof -
  let ?compare = "compare_existing (im_codec im) (im_limits im) h (im_stage im) f c e"
  {
    assume r: "cn_rollout c = rf_rollout f"
    obtain x ext where c: "cn_thread c = rf_thread f" "?compare = Inr (x, ext)"
      "ext = None \<longrightarrow> rf_sha256 f = rf_sha256 x \<and> rf_bytes f = rf_bytes x"
      "ch_extensions pick' = ch_extensions pick @ (case ext of None \<Rightarrow> [] | Some f \<Rightarrow> [f])"
      using assms r unfolding consider_candidate_def Let_def
      by (auto split: if_split_asm sum.splits prod.splits option.splits)
    have "agrees im h f c"
    proof (cases ext)
      case None
      then show ?thesis using c compare_reads [OF c(2)] by (auto simp: agrees_def)
    next
      case (Some old)
      then have "compare_existing (im_codec im) (im_limits im) h (im_stage im) f c e = Inr (x, Some old)" using c(2) by simp
      then obtain e' where "prerequisite_path (cn_path c)" "rf_bytes old < rf_bytes f"
        "read_rollout (im_codec im) (hm_regular h) c e' (im_limits im) = Inr old"
        by (rule compare_extension)
      then show ?thesis using c(1) unfolding agrees_def by blast
    qed
    moreover have "old \<in> set (ch_extensions pick') \<Longrightarrow> old \<in> set (ch_extensions pick) \<or> validated im h f old"
      using c r by (auto simp: validated_def split: option.splits)
    ultimately have "agrees im h f c \<and> (old \<in> set (ch_extensions pick') \<longrightarrow> old \<in> set (ch_extensions pick) \<or> validated im h f old)"
      by blast
  }
  moreover have "cn_rollout c \<noteq> rf_rollout f \<Longrightarrow> pick' = pick" using assms by (simp add: consider_candidate_def)
  ultimately show "cn_rollout c = rf_rollout f \<Longrightarrow> agrees im h f c"
    "old \<in> set (ch_extensions pick') \<Longrightarrow> old \<in> set (ch_extensions pick) \<or> validated im h f old" by metis+
qed

lemma consider_fold:
  assumes "foldE (consider_candidate (im_codec im) (im_limits im) h (im_stage im) path f e) pick cs = Inr pick'"
  shows "c \<in> set cs \<Longrightarrow> cn_rollout c = rf_rollout f \<Longrightarrow> agrees im h f c"
    "old \<in> set (ch_extensions pick') \<Longrightarrow> old \<in> set (ch_extensions pick) \<or> validated im h f old"
  using assms
proof (induction cs arbitrary: pick)
  case (Cons a cs)
  {
    case 1
    then show ?case using Cons.IH(1) consider_step(1) by (auto simp: result_iff)
  next
    case 2
    then show ?case using Cons.IH(2) consider_step(2) by (fastforce simp: result_iff)
  }
qed auto

lemma choose_files_ok:
  assumes "choose_files (im_codec im) (im_limits im) h (im_stage im) path repair known fs = Inr chs"
  shows "list_all2 (\<lambda>f pick. (\<forall>c \<in> set known. cn_rollout c = rf_rollout f \<longrightarrow> agrees im h f c) \<and>
      (\<forall>old \<in> set (ch_extensions pick). validated im h f old)) fs chs"
  using assms
proof (induction fs arbitrary: chs)
  case (Cons f fs)
  let ?e = "if rf_prefix f then (case fs of [] \<Rightarrow> None | g # _ \<Rightarrow> sm_base (rf_meta g)) else None"
  let ?pick = "\<lparr>ch_path = rf_path f, ch_exists = False, ch_extensions = [], ch_promoted = False,
     ch_repair = (if rf_prefix f then None else repair)\<rparr>"
  obtain pick chs' where p: "foldE (consider_candidate (im_codec im) (im_limits im) h (im_stage im) path f ?e) ?pick known = Inr pick"
    and r: "choose_files (im_codec im) (im_limits im) h (im_stage im) path repair known fs = Inr chs'" "chs = pick # chs'"
    using Cons.prems by (auto simp: result_iff)
  show ?case using Cons.IH [OF r(1)] consider_fold [OF p] by (simp add: r(2))
qed simp

lemma check_selection_known:
  "check_selection h p selected known = Inr (path, repair, known') \<Longrightarrow> set known \<subseteq> set known'"
  by (auto simp: check_selection_def result_iff split: option.splits if_split_asm prod.splits)

lemma check_conflictsE:
  assumes "check_conflicts im h sq = Inr chs"
  obtains known where "inventory h = Inr known"
    "list_all2 (\<lambda>f pick. (\<forall>c \<in> set known. cn_rollout c = rf_rollout f \<longrightarrow> agrees im h f c) \<and>
      (\<forall>old \<in> set (ch_extensions pick). validated im h f old)) (pl_files (im_plan im)) chs"
proof -
  obtain known selected path repair known' where k: "inventory h = Inr known"
    "check_selection h (im_plan im) selected known = Inr (path, repair, known')"
    and c: "choose_files (im_codec im) (im_limits im) h (im_stage im) path repair known' (pl_files (im_plan im)) = Inr chs"
    using assms unfolding check_conflicts_def by (auto simp: result_iff split: if_split_asm)
  have "set known \<subseteq> set known'" using check_selection_known [OF k(2)] .
  then show thesis using that [OF k(1)] list_all2_mono [OF choose_files_ok [OF c]] by (smt (verit) subsetD)
qed

section \<open>Preparation changes nothing\<close>

definition unwritten :: "publication \<Rightarrow> publication \<Rightarrow> bool" where
  "unwritten pb pb' \<longleftrightarrow> pb_store pb' = pb_store pb \<and> pb_log pb' = pb_log pb \<and> pb_rows pb' = pb_rows pb \<and>
     pb_changes pb' = pb_changes pb \<and> pb_stage pb \<subseteq>\<^sub>m pb_stage pb'"

lemma unwritten_refl [simp]: "unwritten pb pb"
  by (simp add: unwritten_def)

lemma unwritten_trans: "unwritten a b \<Longrightarrow> unwritten b c \<Longrightarrow> unwritten a c"
  by (auto simp: unwritten_def intro: map_le_trans)

text \<open>A slot that holds the extension of a validated prefix.\<close>

definition ready :: "destination \<Rightarrow> incoming \<Rightarrow> home \<Rightarrow> store \<Rightarrow> rollout_file \<Rightarrow> rollout_file \<times> string \<Rightarrow> bool" where
  "ready d im h stage f x \<longleftrightarrow> validated im h f (fst x) \<and>
     (\<exists>new. stage (snd x) = Some new \<and> lengthens d f (fst x) (sd_data new))"

lemma ready_mono: "ready d im h stage f x \<Longrightarrow> stage \<subseteq>\<^sub>m stage' \<Longrightarrow> ready d im h stage' f x"
  by (force simp: ready_def map_le_def dom_def)

lemma prepare_prefix_ok:
  assumes "prepare_prefix d (im_codec im) f old pb = (pb', r)" "validated im h f old" "\<not> compressed (rf_source f)"
    "im_stage im \<subseteq>\<^sub>m pb_stage pb"
  shows "unwritten pb pb'" "r = Inr x \<Longrightarrow> ready d im h (pb_stage pb') f x"
proof -
  obtain c e y where "compare_existing (im_codec im) (im_limits im) h (im_stage im) f c e = Inr (y, Some old)"
    using assms(2) by (auto simp: validated_def)
  then obtain cut g where "read_rollout (im_codec im) (stage_regular (im_stage im))
        \<lparr>cn_path = rf_source f, cn_thread = rf_thread f, cn_rollout = rf_rollout f\<rparr> (Some cut) (im_limits im) = Inr g"
    by (rule compare_extension)
  then obtain s where s: "im_stage im (rf_source f) = Some s" "pb_stage pb (rf_source f) = Some s"
    using assms(3,4) by (auto elim!: staged_prefix simp: map_le_def dom_def)
  note ext = copied_extension [OF assms(2,3) s(1)]
  show "unwritten pb pb'" using assms(1) s(2) unfolding prepare_prefix_def Let_def
    by (auto simp: unwritten_def map_le_def split: if_split_asm option.splits prod.splits)
  assume "r = Inr x"
  then show "ready d im h (pb_stage pb') f x" using assms(1,2) s(2) unfolding prepare_prefix_def Let_def
    by (auto simp: ready_def lengthens_def split: if_split_asm option.splits prod.splits intro!: exI conjI ext)
qed

lemma prepare_all_ok:
  assumes "prepare_all d (im_codec im) f olds pb = (pb', r)" "\<forall>old \<in> set olds. validated im h f old"
    "\<not> compressed (rf_source f)" "im_stage im \<subseteq>\<^sub>m pb_stage pb"
  shows "unwritten pb pb' \<and> (\<forall>xs. r = Inr xs \<longrightarrow> (\<forall>x \<in> set xs. ready d im h (pb_stage pb') f x))"
  using assms
proof (induction olds arbitrary: pb pb' r)
  case (Cons old olds)
  obtain pb1 r1 where p: "prepare_prefix d (im_codec im) f old pb = (pb1, r1)" by (metis surj_pair)
  have v: "validated im h f old" using Cons.prems by simp
  note one = prepare_prefix_ok [OF p v Cons.prems(3,4)]
  show ?case
  proof (cases r1)
    case (Inr x)
    obtain pb2 r2 where q: "prepare_all d (im_codec im) f olds pb1 = (pb2, r2)" by (metis surj_pair)
    have "im_stage im \<subseteq>\<^sub>m pb_stage pb1" using Cons.prems(4) one(1) by (auto simp: unwritten_def intro: map_le_trans)
    from Cons.IH [OF q _ Cons.prems(3) this] Cons.prems(2)
    have ih: "unwritten pb1 pb2" "\<forall>xs. r2 = Inr xs \<longrightarrow> (\<forall>x \<in> set xs. ready d im h (pb_stage pb2) f x)" by auto
    have "ready d im h (pb_stage pb2) f x" using one(2) [OF Inr] ih(1) by (auto simp: unwritten_def intro: ready_mono)
    then show ?thesis using Cons.prems(1) p q Inr ih unwritten_trans [OF one(1) ih(1)] by (auto simp: result_iff)
  qed (use Cons.prems p one in auto)
qed auto

lemma prepare_files_ok:
  assumes "prepare_files d (im_codec im) fcs pb = (pb', r)"
    "\<forall>(f, pick) \<in> set fcs. \<not> compressed (rf_source f) \<and> (\<forall>old \<in> set (ch_extensions pick). validated im h f old)"
    "im_stage im \<subseteq>\<^sub>m pb_stage pb"
  shows "unwritten pb pb' \<and> (\<forall>xss. r = Inr xss \<longrightarrow> list_all2 (\<lambda>(f, pick) xs. \<forall>x \<in> set xs. ready d im h (pb_stage pb') f x) fcs xss)"
  using assms
proof (induction fcs arbitrary: pb pb' r)
  case (Cons a fcs)
  obtain f pick where a: "a = (f, pick)" by (cases a)
  obtain pb1 r1 where p: "prepare_all d (im_codec im) f (ch_extensions pick) pb = (pb1, r1)" by (metis surj_pair)
  have "\<not> compressed (rf_source f)" "\<forall>old \<in> set (ch_extensions pick). validated im h f old" using Cons.prems(2) by (auto simp: a)
  note one = prepare_all_ok [OF p this(2,1) Cons.prems(3)]
  show ?case
  proof (cases r1)
    case (Inr x)
    obtain pb2 r2 where q: "prepare_files d (im_codec im) fcs pb1 = (pb2, r2)" by (metis surj_pair)
    have "im_stage im \<subseteq>\<^sub>m pb_stage pb1" using Cons.prems(3) one by (auto simp: unwritten_def intro: map_le_trans)
    from Cons.IH [OF q _ this] Cons.prems(2)
    have ih: "unwritten pb1 pb2" "\<forall>xss. r2 = Inr xss \<longrightarrow> list_all2 (\<lambda>(f, pick) xs. \<forall>x \<in> set xs. ready d im h (pb_stage pb2) f x) fcs xss"
      by auto
    have "\<forall>y \<in> set x. ready d im h (pb_stage pb2) f y" using one Inr ih(1) by (auto simp: unwritten_def intro: ready_mono)
    then show ?thesis using Cons.prems(1) p q Inr ih unwritten_trans [OF conjunct1 [OF one] ih(1)] by (auto simp: a result_iff)
  qed (use Cons.prems(1) p one in \<open>auto simp: a\<close>)
qed auto

section \<open>Every change is an addition or an extension\<close>

text \<open>
  A change gives a free name a file, or replaces a managed prerequisite that is still the file
  validated before by a file with longer content.
\<close>

definition safe_change :: "destination \<Rightarrow> incoming \<Rightarrow> home \<Rightarrow> store \<Rightarrow> store \<Rightarrow> bool" where
  "safe_change d im h a b \<longleftrightarrow> (\<exists>n new. b = a(n \<mapsto> new) \<and>
     (a n = None \<or>
      (\<exists>f \<in> set (pl_files (im_plan im)). \<exists>old info cur. n = rf_source old \<and> validated im h f old \<and> a n = Some cur \<and>
         rf_stored old = Some info \<and> same_file info (sd_stat cur) \<and> lengthens d f old (sd_data new))))"

definition safe_log :: "destination \<Rightarrow> incoming \<Rightarrow> home \<Rightarrow> publication \<Rightarrow> bool" where
  "safe_log d im h pb \<longleftrightarrow> (\<forall>(a, b) \<in> set (pb_log pb). safe_change d im h a b)"

text \<open>The log only grows, the stage only loses slots, and the database is untouched.\<close>

definition forward :: "publication \<Rightarrow> publication \<Rightarrow> bool" where
  "forward pb pb' \<longleftrightarrow> pb_stage pb' \<subseteq>\<^sub>m pb_stage pb \<and> pb_rows pb' = pb_rows pb \<and> set (pb_log pb) \<subseteq> set (pb_log pb')"

lemma forward_refl [simp]: "forward pb pb"
  by (simp add: forward_def)

lemma forward_trans: "forward a b \<Longrightarrow> forward b c \<Longrightarrow> forward a c"
  by (auto simp: forward_def intro: map_le_trans)

lemma map_le_None: "m(k := None) \<subseteq>\<^sub>m m"
  by (simp add: map_le_def)

lemma publish_prefix_ok:
  assumes "publish_prefix d x pb = (pb', r)" "ready d im h stage f x" "f \<in> set (pl_files (im_plan im))"
    "pb_stage pb \<subseteq>\<^sub>m stage" "safe_log d im h pb"
  shows "forward pb pb' \<and> safe_log d im h pb'"
proof (cases "pb_log pb' = pb_log pb")
  case True
  then show ?thesis using assms(1,5) unfolding publish_prefix_def Let_def
    by (auto simp: forward_def safe_log_def interfere_def change_def map_le_None split: prod.splits option.splits if_split_asm)
next
  case False
  obtain old slot where x: "x = (old, slot)" by (cases x)
  define st where "st = de_others d (pb_changes pb) (pb_store pb)"
  obtain cur info g where c: "st (rf_source old) = Some cur" "rf_stored old = Some info" "same_file info (sd_stat cur)"
    "pb_stage pb slot = Some g" "pb_log pb' = pb_log pb @ [(st, st(rf_source old \<mapsto> g))]"
    "pb_rows pb' = pb_rows pb" "pb_stage pb' = (pb_stage pb)(slot := None)"
    using assms(1) False unfolding publish_prefix_def Let_def x st_def
    by (auto simp: interfere_def change_def split: option.splits if_split_asm)
  have "stage slot = Some g" using c(4) assms(4) by (force simp: map_le_def dom_def)
  then have "validated im h f old" "lengthens d f old (sd_data g)" using assms(2) by (auto simp: ready_def x)
  then have "safe_change d im h st (st(rf_source old \<mapsto> g))" using c(1-3) assms(3) unfolding safe_change_def by blast
  then show ?thesis using assms(5) c(5-7) by (auto simp: forward_def safe_log_def map_le_None)
qed

lemma publish_prefixes_ok:
  assumes "publish_prefixes d xs pb = (pb', r)" "\<forall>x \<in> set xs. ready d im h stage f x" "f \<in> set (pl_files (im_plan im))"
    "pb_stage pb \<subseteq>\<^sub>m stage" "safe_log d im h pb"
  shows "forward pb pb' \<and> safe_log d im h pb'"
  using assms
proof (induction xs arbitrary: pb)
  case (Cons x xs)
  obtain pb1 r1 where p: "publish_prefix d x pb = (pb1, r1)" by (metis surj_pair)
  have one: "forward pb pb1" "safe_log d im h pb1"
    using publish_prefix_ok [OF p _ Cons.prems(3-5)] Cons.prems(2) by auto
  show ?case
  proof (cases r1)
    case None
    have "pb_stage pb1 \<subseteq>\<^sub>m stage" using one(1) Cons.prems(4) by (auto simp: forward_def intro: map_le_trans)
    then show ?thesis using Cons.IH [OF _ _ Cons.prems(3) _ one(2)] Cons.prems(1,2) p None one(1) by (auto intro: forward_trans)
  qed (use Cons.prems(1) p one in auto)
qed simp

lemma safe_change_new: "a n = None \<Longrightarrow> safe_change d im h a (a(n \<mapsto> new))"
  unfolding safe_change_def by blast

lemma install_file_ok:
  assumes "install_file d f path pb = (pb', r)" "safe_log d im h pb"
  shows "forward pb pb' \<and> safe_log d im h pb'"
    "r = None \<Longrightarrow> \<exists>a g. pb_stage pb (rf_source f) = Some g \<and> a path = None \<and> (a, a(path \<mapsto> linked_file g)) \<in> set (pb_log pb')"
  using assms unfolding install_file_def Let_def
  by (auto simp: forward_def safe_log_def safe_change_new interfere_def change_def split: option.splits if_split_asm)

text \<open>A file of the plan is where the result says: it was there, or a change put it there.\<close>

definition present_file :: "store \<Rightarrow> publication \<Rightarrow> rollout_file \<Rightarrow> choice \<Rightarrow> bool" where
  "present_file stage pb f pick \<longleftrightarrow> ch_exists pick \<or>
     (\<exists>a g. stage (rf_source f) = Some g \<and> a (ch_path pick) = None \<and>
        (a, a(ch_path pick \<mapsto> linked_file g)) \<in> set (pb_log pb))"

lemma present_mono: "present_file stage pb f pick \<Longrightarrow> forward pb pb' \<Longrightarrow> present_file stage pb' f pick"
  by (force simp: present_file_def forward_def)

lemma publish_files_ok:
  assumes "publish_files d i (zip fs (zip chs xss)) pb = (pb', r)" "length fs = length chs" "length xss = length chs"
    "list_all2 (\<lambda>f xs. f \<in> set (pl_files (im_plan im)) \<and> (\<forall>x \<in> set xs. ready d im h stage f x)) fs xss"
    "pb_stage pb \<subseteq>\<^sub>m stage" "safe_log d im h pb"
  shows "forward pb pb' \<and> safe_log d im h pb' \<and>
    (\<forall>ins. r = Inr ins \<longrightarrow> list_all2 (present_file stage pb') fs chs \<and>
       ins = map2 installed_file fs chs)"
  using assms
proof (induction fs arbitrary: chs xss pb pb' i r)
  case (Cons f fs)
  obtain pick chs' xs xss' where l: "chs = pick # chs'" "xss = xs # xss'"
    using Cons.prems(2,3) by (cases chs; cases xss) auto
  have f: "f \<in> set (pl_files (im_plan im))" "\<forall>x \<in> set xs. ready d im h stage f x"
    and rest: "list_all2 (\<lambda>f xs. f \<in> set (pl_files (im_plan im)) \<and> (\<forall>x \<in> set xs. ready d im h stage f x)) fs xss'"
    using Cons.prems(4) by (auto simp: l)
  obtain pb1 r1 where p: "publish_prefixes d xs pb = (pb1, r1)" by (metis surj_pair)
  have one: "forward pb pb1" "safe_log d im h pb1"
    using publish_prefixes_ok [OF p f(2,1) Cons.prems(5,6)] by auto
  obtain pb2 r2 where q: "(if ch_exists pick then (pb1, None) else install_file d f (ch_path pick) pb1) = (pb2, r2)" by (metis surj_pair)
  have two: "forward pb1 pb2" "safe_log d im h pb2"
    using q one(2) install_file_ok(1) by (auto split: if_split_asm)
  have stage1: "pb_stage pb1 \<subseteq>\<^sub>m stage" using one(1) Cons.prems(5) by (auto simp: forward_def intro: map_le_trans)
  then have stage2: "pb_stage pb2 \<subseteq>\<^sub>m stage" using two(1) by (auto simp: forward_def intro: map_le_trans)
  show ?case
  proof (cases "\<not> de_cancel d i \<and> r1 = None \<and> r2 = None \<and> de_after d i = None")
    case True
    have here: "present_file stage pb2 f pick"
    proof (cases "ch_exists pick")
      case False
      then have "install_file d f (ch_path pick) pb1 = (pb2, None)" using q True by simp
      from install_file_ok(2) [OF this one(2) refl] show ?thesis using stage1
        by (force simp: present_file_def map_le_def dom_def)
    qed (simp add: present_file_def)
    obtain pb3 r3 where w: "publish_files d (i + 1) (zip fs (zip chs' xss')) pb2 = (pb3, r3)" by (metis surj_pair)
    have ih: "forward pb2 pb3" "safe_log d im h pb3"
      "\<forall>ins. r3 = Inr ins \<longrightarrow> list_all2 (present_file stage pb3) fs chs' \<and> ins = map2 installed_file fs chs'"
      using Cons.IH [OF w _ _ rest stage2 two(2)] Cons.prems(2,3) by (auto simp: l)
    have "pb' = pb3" "r = bindE r3 (\<lambda>xs. Inr (installed_file f pick # xs))"
      using Cons.prems(1) True p q w by (auto simp: l)
    then show ?thesis using ih forward_trans [OF forward_trans [OF one(1) two(1)] ih(1)] present_mono [OF here ih(1)]
      by (auto simp: l result_iff)
  next
    case False
    then have "(pb' = pb \<or> pb' = pb1 \<or> pb' = pb2) \<and> \<not> is_ok r"
      using Cons.prems(1) p q by (auto simp: l split: if_split_asm option.splits)
    then show ?thesis using one two Cons.prems(6) forward_trans [OF one(1) two(1)] by auto
  qed
qed (auto simp: list_all2_iff)

section \<open>Publication as a whole\<close>

lemma lock_file_None: "lock_file a = None \<longleftrightarrow> a = (None, Some True, Locked)"
  by (auto simp: lock_file_def split: option.splits flock.splits prod.splits if_split_asm)

lemma take_locks_ok:
  assumes "take_locks lock held ids = (held', None)"
  shows "set held \<subseteq> set held' \<and> (\<forall>i \<in> set ids. i \<in> set held' \<and> (i \<in> set held \<or> is_ok (parse_id i) \<and> lock_file (lock (writer_lock i)) = None))"
  using assms by (induction ids arbitrary: held) (fastforce split: if_split_asm sum.splits option.splits)+

lemma acquire_guards_ok:
  assumes "acquire_guards made lock [] ids = (held, None)" "i \<in> set ids"
  shows "i \<in> set held" "is_ok (parse_id i)" "lock (writer_lock i) = (None, Some True, Locked)"
  using assms take_locks_ok [of lock "[]" "sort ids" held]
  by (auto simp: acquire_guards_def lock_file_None split: if_split_asm option.splits)

lemma complete_update_log: "pb_log (fst (complete_update d im again db old r pb)) = pb_log pb"
  by (simp add: complete_update_def split: prod.split)

lemma repair_selection_log: "pb_log (fst (repair_selection d im sq sel r pb)) = pb_log pb"
  using complete_update_log [of d im True _ sel r pb]
  by (auto simp: repair_selection_def split: prod.splits option.splits sum.splits) (metis fst_conv)+

lemma finish_selection_log: "pb_log (fst (finish_selection d im sq r pb)) = pb_log pb"
  using repair_selection_log [of d im sq _ r "interfere d pb"]
  by (simp add: finish_selection_def Let_def interfere_def split: option.splits sum.splits)

lemma conclude_files:
  assumes "conclude d im sq chs update r pb = (pb', r')"
  shows "pb_log pb' = pb_log pb \<and> (\<forall>res. r' = Inr res \<longrightarrow> ps_files res = ps_files r)"
proof -
  obtain pb1 e where p: "(case update of None \<Rightarrow> (pb, None) | Some (sel, db) \<Rightarrow> complete_update d im False db sel r pb) = (pb1, e)"
    by (metis surj_pair)
  then have "pb_log pb1 = pb_log pb" using complete_update_log by (auto split: option.splits prod.splits) (metis fst_conv)
  moreover obtain pb2 x where q: "finish_selection d im sq (r\<lparr>ps_repaired := (update \<noteq> None)\<rparr>) pb1 = (pb2, x)"
    by (metis surj_pair)
  moreover have "pb_log pb2 = pb_log pb1" using finish_selection_log q by (metis fst_conv)
  ultimately show ?thesis using assms unfolding conclude_def p Let_def
    by (cases e; cases x) (auto simp: q split: if_split_asm)
qed

lemma result_files_list: "ps_files (result_files r fis) = ps_files r @ map snd fis"
  by (induction fis arbitrary: r) (auto simp: Let_def)

definition staged_files :: "incoming \<Rightarrow> bool" where
  "staged_files im \<longleftrightarrow> (\<forall>f \<in> set (pl_files (im_plan im)). \<not> compressed (rf_source f) \<and> im_stage im (rf_source f) \<noteq> None)"

lemma install_all_ok:
  assumes "install_all d im sq chs (start_publication im st) = (pb, r)" "staged_files im"
    "check_conflicts im h sq0 = Inr chs"
  shows "safe_log d im h pb"
    "r = Inr res \<or> pb_rows pb \<noteq> [] \<Longrightarrow> list_all2 (present_file (im_stage im) pb) (pl_files (im_plan im)) chs"
    "r = Inr res \<Longrightarrow> ps_files res = map2 installed_file (pl_files (im_plan im)) chs"
proof -
  let ?files = "pl_files (im_plan im)" and ?pb = "start_publication im st"
  obtain known where all: "list_all2 (\<lambda>f pick. (\<forall>c \<in> set known. cn_rollout c = rf_rollout f \<longrightarrow> agrees im h f c) \<and>
      (\<forall>old \<in> set (ch_extensions pick). validated im h f old)) ?files chs"
    by (rule check_conflictsE [OF assms(3)])
  have len: "length ?files = length chs" using list_all2_lengthD [OF all] .
  obtain pb1 r1 where p: "prepare_files d (im_codec im) (zip ?files chs) ?pb = (pb1, r1)" by (metis surj_pair)
  have "\<forall>(f, pick) \<in> set (zip ?files chs). \<not> compressed (rf_source f) \<and> (\<forall>old \<in> set (ch_extensions pick). validated im h f old)"
    using all assms(2) by (auto simp: list_all2_iff staged_files_def dest: set_zip_leftD)
  from prepare_files_ok [OF p this] have one: "unwritten ?pb pb1"
    "\<forall>xss. r1 = Inr xss \<longrightarrow> list_all2 (\<lambda>(f, pick) xs. \<forall>x \<in> set xs. ready d im h (pb_stage pb1) f x) (zip ?files chs) xss"
    by (simp_all add: start_publication_def)
  have safe1: "safe_log d im h pb1" "pb_rows pb1 = []" using one(1) by (simp_all add: unwritten_def safe_log_def start_publication_def)
  show "safe_log d im h pb"
    "r = Inr res \<or> pb_rows pb \<noteq> [] \<Longrightarrow> list_all2 (present_file (im_stage im) pb) ?files chs"
    "r = Inr res \<Longrightarrow> ps_files res = map2 installed_file ?files chs"
  proof (atomize (full), goal_cases)
    case 1
    show ?case
    proof (cases r1)
      case (Inr xss)
      note prepared = one(2) [rule_format, OF Inr]
      show ?thesis
      proof (cases "start_update im sq chs")
        case (Inr update)
        obtain pb2 r2 where q: "publish_files d 0 (zip ?files (zip chs xss)) pb1 = (pb2, r2)" by (metis surj_pair)
        have "length xss = length chs" using list_all2_lengthD [OF prepared] len by simp
        moreover have "list_all2 (\<lambda>f xs. f \<in> set ?files \<and> (\<forall>x \<in> set xs. ready d im h (pb_stage pb1) f x)) ?files xss"
          using prepared len by (auto simp: list_all2_conv_all_nth)
        ultimately have two: "forward pb1 pb2" "safe_log d im h pb2"
          "\<forall>ins. r2 = Inr ins \<longrightarrow> list_all2 (present_file (pb_stage pb1) pb2) ?files chs \<and> ins = map2 installed_file ?files chs"
          using publish_files_ok [OF q len _ _ _ safe1(1)] by auto
        show ?thesis
        proof (cases r2)
          case (Inl e)
          then have "pb = pb2" "\<not> is_ok r" using assms(1) p q Inr \<open>r1 = Inr xss\<close> by (auto simp: install_all_def Let_def)
          then show ?thesis using two safe1(2) by (auto simp: forward_def)
        next
          case ins: (Inr ins)
          have stage: "pb_stage pb1 (rf_source f) = im_stage im (rf_source f)" if "f \<in> set ?files" for f
            using that one(1) assms(2) by (force simp: unwritten_def start_publication_def staged_files_def map_le_def dom_def)
          obtain r0 where c: "conclude d im sq chs update r0 pb2 = (pb, r)" "ps_files r0 = map snd (zip ?files ins)"
            using assms(1) p q Inr ins \<open>r1 = Inr xss\<close> by (auto simp: install_all_def Let_def result_files_list)
          have log: "pb_log pb = pb_log pb2" using conclude_files [OF c(1)] by blast
          have "list_all2 (present_file (pb_stage pb1) pb2) ?files chs" and i: "ins = map2 installed_file ?files chs"
            using two(3) ins by blast+
          then have "list_all2 (present_file (im_stage im) pb) ?files chs"
            using stage by (auto simp: list_all2_conv_all_nth present_file_def log)
          moreover have "map snd (zip ?files ins) = map2 installed_file ?files chs" using len by (simp add: i)
          ultimately show ?thesis using two(2) conclude_files [OF c(1)] by (auto simp: safe_log_def log c(2))
        qed
      next
        case (Inl e)
        then have "pb = pb1" "\<not> is_ok r" using assms(1) p \<open>r1 = Inr xss\<close> by (auto simp: install_all_def Let_def)
        then show ?thesis using safe1 by auto
      qed
    next
      case (Inl e)
      then have "pb = pb1" "\<not> is_ok r" using assms(1) p by (auto simp: install_all_def Let_def)
      then show ?thesis using safe1 by auto
    qed
  qed
qed

lemma publish_cases:
  assumes "publish d im sq st = (pb, r)"
  obtains e where "r = Inl e" "pb = start_publication im st"
  | sq' chs held where "sq = Some sq'"
    "acquire_guards (de_made d) (de_lock d) [] (guard_ids (im_plan im)) = (held, None)"
    "check_conflicts im (de_view d st) (sq' 0) = Inr chs" "install_all d im sq' chs (start_publication im st) = (pb, r)"
  using assms unfolding publish_def Let_def
  by (auto split: if_split_asm option.splits sum.splits) (metis surjective_pairing)

section \<open>A sample\<close>

definition toy_incoming :: incoming where
  "toy_incoming = \<lparr>im_open = True, im_plan = \<lparr>pl_thread = sample_id, pl_files = [received toy_file toy_path 0 toy_stat]\<rparr>,
     im_stage = [slot_name 0 \<mapsto> \<lparr>sd_data = toy_data, sd_stat = toy_stat\<rparr>], im_slots = 1,
     im_limits = default_limits, im_codec = toy_codec\<rparr>"

definition vacant_home :: home where
  "vacant_home = \<lparr>hm_path = ''/d'', hm_logical = ''/d'', hm_roots = [], hm_regular = (\<lambda>n. Inl (Absent n))\<rparr>"

definition vacant_sqlite :: sqlite_home where
  "vacant_sqlite = \<lparr>sq_entries = Inr [], sq_regular = (\<lambda>n. Inl (Absent n)), sq_connect = (\<lambda>_ _. Inl (Refused ''closed''))\<rparr>"

definition toy_destination :: destination where
  "toy_destination = \<lparr>de_view = (\<lambda>_. vacant_home), de_made = None, de_lock = (\<lambda>_. (None, Some True, Locked)), de_encode = (\<lambda>_. None),
     de_inode = (\<lambda>n. n), de_slot = (\<lambda>_. None), de_finish = (\<lambda>_. None), de_others = (\<lambda>_ s. s), de_directory = (\<lambda>_. None),
     de_move = (\<lambda>_. None), de_sync = (\<lambda>_. None), de_over = False, de_cancel = (\<lambda>_. False), de_rename = (\<lambda>_. False),
     de_after = (\<lambda>_. None), de_rows = (\<lambda>_. []), de_expired = (\<lambda>_. (True, True))\<rparr>"

definition toy_installed :: store where
  "toy_installed = [toy_path \<mapsto> linked_file \<lparr>sd_data = toy_data, sd_stat = toy_stat\<rparr>]"

lemma toy_staged: "staged_files toy_incoming"
  by (simp add: staged_files_def toy_incoming_def received_def slot_plain)

lemma toy_conflicts: "check_conflicts toy_incoming vacant_home vacant_sqlite =
    Inr [\<lparr>ch_path = toy_path, ch_exists = False, ch_extensions = [], ch_promoted = False, ch_repair = None\<rparr>]"
proof -
  have "inventory vacant_home = Inr []" by code_simp
  moreover have "read_selected vacant_sqlite i = Inr None" for i
    by (simp add: read_selected_def open_state_db_def vacant_sqlite_def is_missing_def check_sidecar_def)
  ultimately show ?thesis
    by (simp add: check_conflicts_def check_selection_def toy_incoming_def received_def toy_file_simps)
qed

lemma toy_guards: "acquire_guards None (\<lambda>_. (None, Some True, Locked)) [] (guard_ids (im_plan toy_incoming)) = ([sample_id], None)"
  by (simp add: acquire_guards_def coordination_def lock_file_def guard_ids_def toy_incoming_def received_def toy_file_simps toy_id)

lemma toy_publish:
  "publish toy_destination toy_incoming (Some (\<lambda>_. vacant_sqlite)) Map.empty =
     (\<lparr>pb_store = toy_installed, pb_stage = im_stage toy_incoming, pb_slots = 1, pb_changes = 1,
       pb_log = [(Map.empty, toy_installed)], pb_rows = []\<rparr>,
      Inr \<lparr>ps_thread = sample_id, ps_destination = ''/d'', ps_main = toy_path, ps_archived = False,
        ps_files = [\<lparr>il_path = toy_path, il_rollout = sample_id, il_prefix = False, il_created = True, il_extended = False,
          il_promoted = False\<rparr>], ps_meta = Some (rf_meta toy_file), ps_repaired = False\<rparr>)"
proof -
  have main: "\<not> has_prefix toy_path ''archived_sessions/''" by code_simp
  have empty: "pl_files (im_plan toy_incoming) \<noteq> []" by (simp add: toy_incoming_def)
  have d: "de_view toy_destination = (\<lambda>_. vacant_home)" "de_made toy_destination = None" "de_lock toy_destination = (\<lambda>_. (None, Some True, Locked))"
    "\<not> de_over toy_destination" "\<not> de_cancel toy_destination n" "de_after toy_destination n = None" "de_others toy_destination n s = s"
    "de_directory toy_destination n = None" "de_move toy_destination n = None" "de_sync toy_destination n = None" for n s
    by (simp_all add: toy_destination_def)
  have im: "im_open toy_incoming" "im_stage toy_incoming = [slot_name 0 \<mapsto> \<lparr>sd_data = toy_data, sd_stat = toy_stat\<rparr>]"
    "im_slots toy_incoming = 1" "pl_thread (im_plan toy_incoming) = sample_id"
    "pl_files (im_plan toy_incoming) = [received toy_file toy_path 0 toy_stat]"
    by (simp_all add: toy_incoming_def)
  have f: "rf_source (received toy_file toy_path 0 toy_stat) = slot_name 0" "\<not> rf_prefix (received toy_file toy_path 0 toy_stat)"
    "rf_meta (received toy_file toy_path 0 toy_stat) = rf_meta toy_file" "rf_rollout (received toy_file toy_path 0 toy_stat) = sample_id"
    by (simp_all add: received_def toy_file_simps)
  have "publish toy_destination toy_incoming (Some (\<lambda>_. vacant_sqlite)) Map.empty =
      install_all toy_destination toy_incoming (\<lambda>_. vacant_sqlite)
        [\<lparr>ch_path = toy_path, ch_exists = False, ch_extensions = [], ch_promoted = False, ch_repair = None\<rparr>]
        (start_publication toy_incoming Map.empty)"
    unfolding publish_def d using toy_guards toy_conflicts empty im(1) d(4) by (simp add: d)
  also have "\<dots> = (\<lparr>pb_store = toy_installed, pb_stage = im_stage toy_incoming, pb_slots = 1, pb_changes = 1,
       pb_log = [(Map.empty, toy_installed)], pb_rows = []\<rparr>,
      Inr \<lparr>ps_thread = sample_id, ps_destination = ''/d'', ps_main = toy_path, ps_archived = False,
        ps_files = [\<lparr>il_path = toy_path, il_rollout = sample_id, il_prefix = False, il_created = True, il_extended = False,
          il_promoted = False\<rparr>], ps_meta = Some (rf_meta toy_file), ps_repaired = False\<rparr>)"
    by (simp add: install_all_def start_publication_def start_update_def install_file_def interfere_def change_def conclude_def
        d im f installed_file_def main vacant_home_def toy_installed_def)
  finally show ?thesis .
qed

section \<open>Properties\<close>

text \<open>C7: Publication only adds and lengthens: every change \<open>publish\<close> makes to the destination, whatever
  other processes do between the changes and whichever step fails, either gives a name that was free
  a file, or replaces a managed prerequisite that is still the inode, size and time validated before,
  by content of the incoming rollout that is longer and whose first bytes have the SHA-256 and the
  number of bytes of the prerequisite; every other name keeps its file.\<close>

theorem publish_preserves:
  assumes "publish d im sq st = (pb, r)" "staged_files im" "(a, b) \<in> set (pb_log pb)"
  shows "\<exists>n new. b = a(n \<mapsto> new) \<and> (a n = None \<or> prerequisite_path n \<and>
    (\<exists>f old info cur c e data. f \<in> set (pl_files (im_plan im)) \<and> cn_path c = n \<and>
       read_rollout (im_codec im) (hm_regular (de_view d st)) c e (im_limits im) = Inr old \<and>
       rf_stored old = Some info \<and> a n = Some cur \<and> same_file info (sd_stat cur) \<and>
       rf_bytes old < int (length data) \<and> sha256_hex (take (nat (rf_bytes old)) data) = rf_sha256 old \<and>
       int (length data) = rf_bytes f \<and> sha256_hex data = rf_sha256 f \<and>
       (if compressed n then de_encode d data = Some (sd_data new) else sd_data new = data)))"
proof -
  let ?h = "de_view d st"
  have "safe_change d im ?h a b" using assms(1)
  proof (cases rule: publish_cases)
    case 1
    then show ?thesis using assms(3) by (simp add: start_publication_def)
  next
    case (2 sq' chs held)
    from install_all_ok(1) [OF 2(4) assms(2) 2(3)] assms(3) show ?thesis by (auto simp: safe_log_def)
  qed
  then obtain n new where b: "b = a(n \<mapsto> new)" and or: "a n = None \<or> (\<exists>f \<in> set (pl_files (im_plan im)). \<exists>old info cur.
      n = rf_source old \<and> validated im ?h f old \<and> a n = Some cur \<and> rf_stored old = Some info \<and>
      same_file info (sd_stat cur) \<and> lengthens d f old (sd_data new))"
    unfolding safe_change_def by blast
  from or show ?thesis
  proof
    assume "\<exists>f \<in> set (pl_files (im_plan im)). \<exists>old info cur.
      n = rf_source old \<and> validated im ?h f old \<and> a n = Some cur \<and> rf_stored old = Some info \<and>
      same_file info (sd_stat cur) \<and> lengthens d f old (sd_data new)"
    then obtain f old info cur where f: "f \<in> set (pl_files (im_plan im))" "n = rf_source old" "validated im ?h f old"
      "a n = Some cur" "rf_stored old = Some info" "same_file info (sd_stat cur)" "lengthens d f old (sd_data new)" by blast
    obtain c e where c: "read_rollout (im_codec im) (hm_regular ?h) c e (im_limits im) = Inr old" "cn_path c = n"
      using validated_read(4) [OF f(3)] f(2) by blast
    have "prerequisite_path n" using validated_read(1) [OF f(3)] f(2) by simp
    then show ?thesis using b f c unfolding lengthens_def by blast
  qed (use b in blast)
qed

theorem publish_preserves_witness:
  "\<exists>n new. toy_installed = Map.empty(n \<mapsto> new)"
  using publish_preserves [OF toy_publish toy_staged, of Map.empty toy_installed] by fastforce





end
