(* ===== verification/Session_Staging.thy ===== *)
theory Session_Staging
  imports Session_Publish
begin

text \<open>
  The private staging directories of transfers (\<open>internal/session/stage.go\<close>, \<open>stage_recovery.go\<close>):
  how one is reserved, filled, removed, and recovered after its owner is gone.  A directory is
  modelled together with what a machine failure may leave of it: the names that survive every
  failure, and the entries that may survive.  Every system call may fail, and every content the
  directory has had is kept in a trace.
\<close>

section \<open>Names\<close>

definition staging_prefix :: string where
  "staging_prefix = ''.hcorral-transfer-v1-''"

definition staging_lease :: string where
  "staging_lease = ''.lease''"

text \<open>Thirty-two lower-case hexadecimal digits are what decodes to sixteen bytes and is its own lower case.\<close>

definition staging_name :: "string \<Rightarrow> bool" where
  "staging_name name =
     (has_prefix name staging_prefix \<and>
      (let suffix = trim_prefix name staging_prefix in length suffix = 32 \<and> list_all lower_hex suffix))"

definition staging_slot :: "string \<Rightarrow> bool" where
  "staging_slot name =
     (let digits =
        (if has_suffix name ''.jsonl'' then trim_suffix name ''.jsonl''
         else if has_prefix name ''extension-'' then trim_prefix name ''extension-'' else []) in
      6 \<le> length digits \<and> length digits \<le> 19 \<and> all_digits digits)"

section \<open>A directory and its run\<close>

record stage_dir =
  sg_node :: nat
  sg_perm :: nat
  sg_uid :: nat
  sg_files :: "(string \<times> stat) list"
  sg_sure :: "string list"
  sg_maybe :: "(string \<times> stat) list"

definition add_file :: "string \<Rightarrow> stat \<Rightarrow> stage_dir \<Rightarrow> stage_dir" where
  "add_file n info d = d\<lparr>sg_files := sg_files d @ [(n, info)], sg_maybe := sg_maybe d @ [(n, info)]\<rparr>"

definition drop_file :: "string \<Rightarrow> stage_dir \<Rightarrow> stage_dir" where
  "drop_file n d = d\<lparr>sg_files := filter (\<lambda>f. fst f \<noteq> n) (sg_files d), sg_sure := filter (\<lambda>m. m \<noteq> n) (sg_sure d)\<rparr>"

text \<open>\<open>Sync\<close> of the directory: the disk holds exactly its entries.\<close>

definition sync_dir :: "stage_dir \<Rightarrow> stage_dir" where
  "sync_dir d = d\<lparr>sg_sure := map fst (sg_files d), sg_maybe := sg_files d\<rparr>"

text \<open>Permission is told apart from other failures.\<close>

datatype fault = Denied | Faulty

record run =
  rn_dir :: "stage_dir option"
  rn_calls :: nat
  rn_trace :: "stage_dir list"

text \<open>
  The answers of the calls by number, the context at each of its checks, the effective user,
  whether a live process holds the lease, and the inode of a new directory.
\<close>

record stage_env =
  sr_fault :: "nat \<Rightarrow> fault option"
  sr_over :: "nat \<Rightarrow> bool"
  sr_uid :: nat
  sr_held :: bool
  sr_node :: nat

type_synonym 'a action = "run \<Rightarrow> (session_error, 'a) result \<times> run"

definition give :: "'a \<Rightarrow> 'a action" where
  "give x s = (Inr x, s)"

definition refuse_with :: "session_error \<Rightarrow> 'a action" where
  "refuse_with e s = (Inl e, s)"

definition next_do :: "'a action \<Rightarrow> ('a \<Rightarrow> 'b action) \<Rightarrow> 'b action" where
  "next_do m f s = (case m s of (Inl e, s) \<Rightarrow> (Inl e, s) | (Inr x, s) \<Rightarrow> f x s)"

text \<open>A call that changes nothing answers with its failure; one that changes the directory leaves it
  as it is when it fails.\<close>

definition probe :: "stage_env \<Rightarrow> run \<Rightarrow> fault option \<times> run" where
  "probe sr s = (sr_fault sr (rn_calls s), s\<lparr>rn_calls := rn_calls s + 1\<rparr>)"

definition look :: "stage_env \<Rightarrow> unit action" where
  "look sr s = (case probe sr s of (None, s) \<Rightarrow> (Inr (), s) | (Some e, s) \<Rightarrow> (Inl (Refused ''system call''), s))"

definition put_dir :: "stage_dir option \<Rightarrow> run \<Rightarrow> run" where
  "put_dir d s = s\<lparr>rn_dir := d, rn_trace := rn_trace s @ (case d of None \<Rightarrow> [] | Some x \<Rightarrow> [x])\<rparr>"

definition act :: "stage_env \<Rightarrow> (stage_dir \<Rightarrow> stage_dir) \<Rightarrow> unit action" where
  "act sr f = next_do (look sr) (\<lambda>_ s. (Inr (), put_dir (map_option f (rn_dir s)) s))"

text \<open>A call whose error is ignored.\<close>

definition try_act :: "stage_env \<Rightarrow> (stage_dir option \<Rightarrow> stage_dir option) \<Rightarrow> unit action" where
  "try_act sr f s = (case probe sr s of
     (None, s) \<Rightarrow> (Inr (), if f (rn_dir s) = rn_dir s then s else put_dir (f (rn_dir s)) s) | (Some e, s) \<Rightarrow> (Inr (), s))"

definition check_over :: "stage_env \<Rightarrow> unit action" where
  "check_over sr s = (if sr_over sr (rn_calls s) then Inl Interrupted else Inr (), s)"

definition entries_now :: "run \<Rightarrow> (string \<times> stat) list" where
  "entries_now s = (case rn_dir s of None \<Rightarrow> [] | Some d \<Rightarrow> sg_files d)"

section \<open>Walking the directory\<close>

fun visit_all :: "('b \<Rightarrow> string \<times> stat \<Rightarrow> 'b action) \<Rightarrow> 'b \<Rightarrow> (string \<times> stat) list \<Rightarrow> 'b action" where
  "visit_all visit acc [] = give acc"
| "visit_all visit acc (e # es) = next_do (visit acc e) (\<lambda>acc. visit_all visit acc es)"

text \<open>The context and a read before every batch, and once more for the end.\<close>

fun read_batches ::
  "stage_env \<Rightarrow> ('b \<Rightarrow> string \<times> stat \<Rightarrow> 'b action) \<Rightarrow> 'b \<Rightarrow> (string \<times> stat) list list \<Rightarrow> 'b action" where
  "read_batches sr visit acc [] = next_do (check_over sr) (\<lambda>_. next_do (look sr) (\<lambda>_. give acc))"
| "read_batches sr visit acc (b # bs) =
     next_do (check_over sr) (\<lambda>_. next_do (look sr) (\<lambda>_. next_do (visit_all visit acc b) (\<lambda>acc. read_batches sr visit acc bs)))"

definition staging_entries :: "stage_env \<Rightarrow> ('b \<Rightarrow> string \<times> stat \<Rightarrow> 'b action) \<Rightarrow> 'b \<Rightarrow> 'b action" where
  "staging_entries sr visit acc = next_do (look sr) (\<lambda>_ s. read_batches sr visit acc (chunks 128 (entries_now s)) s)"

section \<open>Removal\<close>

text \<open>\<open>stage.directory(name, false)\<close>: the node that the name leads to.\<close>

definition open_dir :: "stage_env \<Rightarrow> nat action" where
  "open_dir sr = next_do (look sr) (\<lambda>_ s. (case rn_dir s of None \<Rightarrow> Inl (Absent ''staging'') | Some d \<Rightarrow> Inr (sg_node d), s))"

text \<open>The first pass: whether a lease and whether a slot was seen.\<close>

definition check_entry :: "stage_env \<Rightarrow> bool \<times> bool \<Rightarrow> string \<times> stat \<Rightarrow> (bool \<times> bool) action" where
  "check_entry sr seen e s =
     (case e of (name, info) \<Rightarrow>
        if name \<noteq> staging_lease \<and> \<not> staging_slot name then (Inl Unfamiliar, s)
        else case probe sr s of (Some _, s) \<Rightarrow> (Inl Unfamiliar, s) | (None, s) \<Rightarrow>
        (case probe sr s of (Some _, s) \<Rightarrow> (Inl Unfamiliar, s) | (None, s) \<Rightarrow>
           if \<not> st_regular info then (Inl Unfamiliar, s)
           else next_do (look sr) (\<lambda>_ s.
             if name = staging_lease
             then (if st_size info \<noteq> 0 \<or> st_links info \<noteq> 1 then (Inl Unfamiliar, s) else (Inr (True, snd seen), s))
             else (Inr (fst seen, True), s)) s))"

definition unlink_entry :: "stage_env \<Rightarrow> unit \<Rightarrow> string \<times> stat \<Rightarrow> unit action" where
  "unlink_entry sr u e = (if fst e = staging_lease then give () else act sr (drop_file (fst e)))"

definition expect_lease :: "unit \<Rightarrow> string \<times> stat \<Rightarrow> unit action" where
  "expect_lease u e =
     (if fst e \<noteq> staging_lease then refuse_with (Refused ''staging cleanup left entries; retained lease for retry'') else give ())"

definition remove_dir :: "stage_env \<Rightarrow> unit action" where
  "remove_dir sr = next_do (look sr) (\<lambda>_ s.
     if entries_now s \<noteq> [] then (Inl (Refused ''remove transfer staging directory''), s) else (Inr (), put_dir None s))"

definition same_node :: "stage_env \<Rightarrow> nat \<Rightarrow> unit action" where
  "same_node sr node = next_do (open_dir sr) (\<lambda>current s.
     (case probe sr s of (e, s) \<Rightarrow>
        (if e \<noteq> None \<or> current \<noteq> node then Inl (Refused ''staging directory changed identity before cleanup'') else Inr (), s)))"

text \<open>The payloads go first and durably, then the lease, then the directory.\<close>

definition clear_stage :: "stage_env \<Rightarrow> bool \<Rightarrow> unit action" where
  "clear_stage sr hasLease =
     next_do (staging_entries sr (unlink_entry sr) ()) (\<lambda>_.
     next_do (staging_entries sr expect_lease ()) (\<lambda>_.
     next_do (act sr sync_dir) (\<lambda>_.
     next_do (if hasLease then act sr (drop_file staging_lease) else give ()) (\<lambda>_.
     next_do (act sr sync_dir) (\<lambda>_.
     next_do (remove_dir sr) (\<lambda>_. look sr))))))"

text \<open>\<open>removeStaging\<close>: \<open>node\<close> is the inode of the open directory.\<close>

definition remove_staging :: "stage_env \<Rightarrow> nat \<Rightarrow> unit action" where
  "remove_staging sr node =
     next_do (look sr) (\<lambda>_.
     next_do (same_node sr node) (\<lambda>_.
     next_do (staging_entries sr (check_entry sr) (False, False)) (\<lambda>(hasLease, slots).
     if slots \<and> \<not> hasLease then refuse_with Unfamiliar else clear_stage sr hasLease)))"

section \<open>Recovery\<close>

definition lease_of :: "run \<Rightarrow> stat option" where
  "lease_of s = map_of (entries_now s) staging_lease"

text \<open>The lease: whether the stage may be removed.\<close>

definition lease_free :: "stage_env \<Rightarrow> bool action" where
  "lease_free sr s =
     (case probe sr s of (Some _, s) \<Rightarrow> (Inr False, s) | (None, s) \<Rightarrow>
     (case lease_of s of None \<Rightarrow> (Inr True, s) | Some info \<Rightarrow>
        next_do (look sr) (\<lambda>_ s.
          if \<not> st_regular info \<or> st_size info \<noteq> 0 \<or> st_links info \<noteq> 1 \<or> st_uid info \<noteq> sr_uid sr then (Inr False, s)
          else next_do (look sr) (\<lambda>_ s.
            if sr_held sr then (Inr False, s) else next_do (look sr) (\<lambda>_. give True) s) s) s))"

definition recover_stage :: "stage_env \<Rightarrow> unit action" where
  "recover_stage sr s =
     (case probe sr s of (Some Denied, s) \<Rightarrow> (Inr (), s) | (Some Faulty, s) \<Rightarrow> (Inl (Refused ''system call''), s) | (None, s) \<Rightarrow>
     (case rn_dir s of None \<Rightarrow> (Inl (Absent ''staging''), s) | Some d \<Rightarrow>
        next_do (look sr) (\<lambda>_.
          if sg_perm d \<noteq> 448 \<or> sg_uid d \<noteq> sr_uid sr then give ()
          else next_do (lease_free sr) (\<lambda>free s.
            if \<not> free then (Inr (), s)
            else (case remove_staging sr (sg_node d) s of
                (Inl Unfamiliar, s) \<Rightarrow> (Inr (), s) | r \<Rightarrow> r))) s))"

text \<open>One entry of the home: its name and whether it is a directory.\<close>

definition recover_entry :: "stage_env \<Rightarrow> string \<Rightarrow> bool \<Rightarrow> unit action" where
  "recover_entry sr name directory =
     (if \<not> staging_name name then give ()
      else next_do (look sr) (\<lambda>_ s.
        (case rn_dir s of None \<Rightarrow> (Inl (Absent ''staging''), s) | Some d \<Rightarrow>
           if \<not> directory \<or> sg_perm d \<noteq> 448 \<or> sg_uid d \<noteq> sr_uid sr then (Inr (), s) else recover_stage sr s)))"

fun recover_all :: "(string \<times> stage_env \<times> bool \<times> run) list \<Rightarrow> session_error option \<times> run list" where
  "recover_all [] = (None, [])"
| "recover_all ((name, sr, directory, s) # rest) =
     (case recover_entry sr name directory s of
        (Inl e, s) \<Rightarrow> (Some e, s # map (\<lambda>(_, _, _, s). s) rest)
      | (Inr _, s) \<Rightarrow> (case recover_all rest of (e, ss) \<Rightarrow> (e, s # ss)))"

section \<open>Coordination\<close>

text \<open>The loop of \<open>stagingCoordination\<close>: no result means that the fuel is used up.\<close>

fun coordinate :: "(nat \<Rightarrow> bool) \<Rightarrow> (nat \<Rightarrow> flock) \<Rightarrow> nat \<Rightarrow> nat \<Rightarrow> session_error option option" where
  "coordinate over lock n 0 = None"
| "coordinate over lock n (Suc fuel) =
     (if over n then Some (Some Interrupted)
      else (case lock n of
          flock.Locked \<Rightarrow> Some None
        | FlockFailed \<Rightarrow> Some (Some (Refused ''coordinate transfer staging''))
        | WouldBlock \<Rightarrow> coordinate over lock (n + 1) fuel))"

definition staging_coordination ::
  "session_error option \<Rightarrow> stat option \<Rightarrow> (nat \<Rightarrow> bool) \<Rightarrow> (nat \<Rightarrow> flock) \<Rightarrow> nat \<Rightarrow> session_error option option" where
  "staging_coordination opening info over lock fuel =
     (case opening of
        Some e \<Rightarrow> Some (Some e)
      | None \<Rightarrow>
          (case info of
             None \<Rightarrow> Some (Some (Refused ''transfer staging coordinator must be a regular, unshared lock file''))
           | Some st \<Rightarrow>
               if \<not> st_regular st \<or> st_links st \<noteq> 1
               then Some (Some (Refused ''transfer staging coordinator must be a regular, unshared lock file''))
               else coordinate over lock 0 fuel))"

section \<open>A transfer's own stage\<close>

definition new_stage :: "stage_env \<Rightarrow> stage_dir" where
  "new_stage sr = \<lparr>sg_node = sr_node sr, sg_perm = 448, sg_uid = sr_uid sr, sg_files = [], sg_sure = [], sg_maybe = []\<rparr>"

definition lease_file :: "stage_env \<Rightarrow> nat \<Rightarrow> moment \<Rightarrow> stat" where
  "lease_file sr node t = \<lparr>st_regular = True, st_node = node, st_size = 0, st_modified = t, st_perm = 384,
     st_uid = sr_uid sr, st_gid = 0, st_links = 1\<rparr>"

definition rmdir_empty :: "stage_dir option \<Rightarrow> stage_dir option" where
  "rmdir_empty d = (case d of None \<Rightarrow> None | Some x \<Rightarrow> if sg_files x = [] then None else d)"

text \<open>The lease is created, locked and made durable; \<open>errors.Join\<close> makes all three \<open>Sync\<close> calls.\<close>

definition join_result :: "'a action \<Rightarrow> 'b action \<Rightarrow> unit action" where
  "join_result a b s =
     (case a s of (r, s) \<Rightarrow> (case b s of (r', s) \<Rightarrow> (bindE r (\<lambda>_. bindE r' (\<lambda>_. Inr ())), s)))"

definition reserve_lease :: "stage_env \<Rightarrow> stat \<Rightarrow> unit action" where
  "reserve_lease sr info =
     next_do (act sr (add_file staging_lease info)) (\<lambda>_.
     next_do (look sr) (\<lambda>_.
     join_result (look sr) (join_result (act sr sync_dir) (look sr))))"

definition reserve_stage :: "stage_env \<Rightarrow> stat \<Rightarrow> nat action" where
  "reserve_stage sr info s =
     (case probe sr s of (Some _, s) \<Rightarrow> (Inl (Refused ''system call''), s) | (None, s) \<Rightarrow>
      if rn_dir s \<noteq> None then (Inl (Refused ''file exists''), s)
      else let s = put_dir (Some (new_stage sr)) s in
        (case open_dir sr s of
           (Inl e, s) \<Rightarrow> (Inl e, snd (try_act sr rmdir_empty s))
         | (Inr node, s) \<Rightarrow>
             (case reserve_lease sr info s of
                (Inl e, s) \<Rightarrow>
                  (Inl (Refused ''reserve transfer staging''),
                   snd (try_act sr rmdir_empty (snd (try_act sr (map_option (drop_file staging_lease)) s))))
              | (Inr _, s) \<Rightarrow> (Inr node, s))))"

text \<open>\<open>Home.staging\<close> after the coordinator is held: recovery of what others left, then the own stage.\<close>

definition staging ::
  "session_error option \<Rightarrow> (string \<times> stage_env \<times> bool \<times> run) list \<Rightarrow> stage_env \<Rightarrow> stat \<Rightarrow> nat action" where
  "staging coordinator others sr info =
     (case coordinator of Some e \<Rightarrow> refuse_with e | None \<Rightarrow>
      (case fst (recover_all others) of Some e \<Rightarrow> refuse_with e | None \<Rightarrow> reserve_stage sr info))"

text \<open>A slot is created exclusively, and taken away by the rename of an extension.\<close>

definition create_slot :: "stage_env \<Rightarrow> string \<Rightarrow> stat \<Rightarrow> unit action" where
  "create_slot sr n info s =
     (if n \<in> set (map fst (entries_now s)) then (Inl (Refused ''file exists''), s) else act sr (add_file n info) s)"

definition move_slot :: "stage_env \<Rightarrow> string \<Rightarrow> unit action" where
  "move_slot sr n = act sr (drop_file n)"

text \<open>\<open>Incoming.Close\<close>: without the coordinator the stage is left for the next attempt.\<close>

definition close_incoming :: "session_error option \<Rightarrow> stage_env \<Rightarrow> nat \<Rightarrow> unit action" where
  "close_incoming coordinator sr node =
     (case coordinator of Some e \<Rightarrow> refuse_with e | None \<Rightarrow> next_do (look sr) (\<lambda>_. remove_staging sr node))"

section \<open>Actions that only look\<close>

lemma give_apply [simp]: "give x s = (Inr x, s)"
  by (simp add: give_def)

lemma refuse_with_apply [simp]: "refuse_with e s = (Inl e, s)"
  by (simp add: refuse_with_def)

lemma next_do_Inr [simp]: "m s = (Inr x, s') \<Longrightarrow> next_do m f s = f x s'"
  by (simp add: next_do_def)

lemma next_do_Inl [simp]: "m s = (Inl e, s') \<Longrightarrow> next_do m f s = (Inl e, s')"
  by (simp add: next_do_def)

lemma next_do_cases:
  assumes "next_do m f s = (r, s'')"
  obtains e where "m s = (Inl e, s'')" "r = Inl e" | x s' where "m s = (Inr x, s')" "f x s' = (r, s'')"
  using assms by (auto simp: next_do_def split: prod.splits sum.splits)

definition same_dirs :: "run \<Rightarrow> run \<Rightarrow> bool" where
  "same_dirs s s' \<longleftrightarrow> rn_dir s' = rn_dir s \<and> rn_trace s' = rn_trace s"

lemma same_dirs_trans: "same_dirs a b \<Longrightarrow> same_dirs b c \<Longrightarrow> same_dirs a c"
  by (simp add: same_dirs_def)

lemma same_entries: "same_dirs s s' \<Longrightarrow> entries_now s' = entries_now s"
  by (simp add: same_dirs_def entries_now_def)

definition observes :: "'a action \<Rightarrow> bool" where
  "observes m \<longleftrightarrow> (\<forall>s. same_dirs s (snd (m s)))"

lemma observesD: "observes m \<Longrightarrow> m s = (r, s') \<Longrightarrow> same_dirs s s'"
  by (metis observes_def snd_conv)

lemma observes_next [intro]: "observes m \<Longrightarrow> (\<And>x. observes (f x)) \<Longrightarrow> observes (next_do m f)"
  unfolding observes_def next_do_def by (auto split: prod.splits sum.splits) (metis same_dirs_trans snd_conv)+

lemma probe_same: "probe sr s = (r, s') \<Longrightarrow> same_dirs s s'"
  by (auto simp: probe_def same_dirs_def)

lemma observes_basic [simp, intro]:
  "observes (give x)" "observes (refuse_with e)" "observes (look sr)" "observes (check_over sr)" "observes (open_dir sr)"
  "observes (same_node sr node)"
  by (auto simp: observes_def give_def refuse_with_def look_def check_over_def open_dir_def same_node_def next_do_def probe_def
      same_dirs_def split: option.splits sum.splits prod.splits)

lemma check_entry_observes [simp, intro]: "observes (check_entry sr seen e)"
  by (auto simp: observes_def check_entry_def look_def next_do_def probe_def same_dirs_def
      split: option.splits sum.splits prod.splits)

lemma expect_lease_observes [simp, intro]: "observes (expect_lease u e)"
  by (simp add: expect_lease_def)

lemma visit_all_observes: "(\<And>acc e. observes (visit acc e)) \<Longrightarrow> observes (visit_all visit acc es)"
  by (induction es arbitrary: acc) auto

lemma read_batches_observes: "(\<And>acc e. observes (visit acc e)) \<Longrightarrow> observes (read_batches sr visit acc bs)"
proof (induction bs arbitrary: acc)
  case (Cons b bs)
  show ?case unfolding read_batches.simps by (intro observes_next observes_basic visit_all_observes Cons.IH Cons.prems)
qed auto


lemma staging_entries_observes:
  assumes "\<And>acc e. observes (visit acc e)"
  shows "observes (staging_entries sr visit acc)"
proof -
  have "observes (\<lambda>s. read_batches sr visit acc (chunks 128 (entries_now s)) s)"
    using read_batches_observes [OF assms] by (simp add: observes_def)
  then show ?thesis unfolding staging_entries_def by (rule observes_next [OF observes_basic(3)])
qed

lemma concat_chunks: "0 < n \<Longrightarrow> concat (chunks n xs) = xs"
  by (induction n xs rule: chunks.induct) (subst chunks.simps, auto)

text \<open>A walk that ends has visited every entry in order.\<close>

lemma visit_all_append:
  "visit_all visit acc (xs @ ys) = next_do (visit_all visit acc xs) (\<lambda>acc. visit_all visit acc ys)"
  by (induction xs arbitrary: acc) (auto simp: next_do_def fun_eq_iff split: prod.splits sum.splits)

section \<open>What the passes establish\<close>

definition known_entry :: "string \<times> stat \<Rightarrow> bool" where
  "known_entry e \<longleftrightarrow> st_regular (snd e) \<and>
     (if fst e = staging_lease then st_size (snd e) = 0 \<and> st_links (snd e) = 1 else staging_slot (fst e))"

lemma lease_not_slot: "\<not> staging_slot staging_lease"
  by code_simp

lemma check_entryE:
  assumes "check_entry sr seen e s = (Inr seen', s')"
  shows "known_entry e \<and> seen' = (fst seen \<or> fst e = staging_lease, snd seen \<or> fst e \<noteq> staging_lease)"
  using assms by (cases seen) (auto simp: check_entry_def known_entry_def next_do_def split: prod.splits option.splits sum.splits if_split_asm)

lemma visit_check:
  assumes "visit_all (check_entry sr) seen es s = (Inr seen', s')"
  shows "list_all known_entry es \<and> seen' = (fst seen \<or> list_ex (\<lambda>e. fst e = staging_lease) es, snd seen \<or> list_ex (\<lambda>e. fst e \<noteq> staging_lease) es)"
  using assms
proof (induction es arbitrary: seen s)
  case (Cons e es)
  then obtain seen1 s1 where "check_entry sr seen e s = (Inr seen1, s1)" "visit_all (check_entry sr) seen1 es s1 = (Inr seen', s')"
    by (auto elim: next_do_cases)
  from check_entryE [OF this(1)] Cons.IH [OF this(2)] show ?case by (simp add: disj_assoc)
qed auto

lemma batches_check:
  assumes "read_batches sr (check_entry sr) seen bs s = (Inr seen', s')"
  shows "list_all known_entry (concat bs) \<and>
    seen' = (fst seen \<or> list_ex (\<lambda>e. fst e = staging_lease) (concat bs), snd seen \<or> list_ex (\<lambda>e. fst e \<noteq> staging_lease) (concat bs))"
  using assms
proof (induction bs arbitrary: seen s)
  case (Cons b bs)
  then obtain seen1 s1 s2 where "visit_all (check_entry sr) seen b s1 = (Inr seen1, s2)"
    "read_batches sr (check_entry sr) seen1 bs s2 = (Inr seen', s')"
    by (auto elim!: next_do_cases)
  from visit_check [OF this(1)] Cons.IH [OF this(2)] show ?case by (simp add: disj_assoc)
qed (auto elim!: next_do_cases)

lemma entries_check:
  assumes "staging_entries sr (check_entry sr) (False, False) s = (Inr (lease, slots), s')"
  shows "list_all known_entry (entries_now s)" "lease = list_ex (\<lambda>e. fst e = staging_lease) (entries_now s)"
    "slots = list_ex (\<lambda>e. fst e \<noteq> staging_lease) (entries_now s)"
proof -
  obtain s1 where l: "look sr s = (Inr (), s1)"
    and b: "read_batches sr (check_entry sr) (False, False) (chunks 128 (entries_now s1)) s1 = (Inr (lease, slots), s')"
    using assms unfolding staging_entries_def by (auto elim: next_do_cases)
  have "entries_now s1 = entries_now s" using l by (intro same_entries observesD [OF observes_basic(3)])
  then show "list_all known_entry (entries_now s)" "lease = list_ex (\<lambda>e. fst e = staging_lease) (entries_now s)"
    "slots = list_ex (\<lambda>e. fst e \<noteq> staging_lease) (entries_now s)"
    using batches_check [OF b] by (simp_all add: concat_chunks)
qed

lemma visit_expect: "visit_all expect_lease u es s = (Inr u', s') \<Longrightarrow> list_all (\<lambda>e. fst e = staging_lease) es"
  by (induction es arbitrary: u s) (auto elim!: next_do_cases simp: expect_lease_def split: if_split_asm)

lemma batches_expect: "read_batches sr expect_lease u bs s = (Inr u', s') \<Longrightarrow> list_all (\<lambda>e. fst e = staging_lease) (concat bs)"
  by (induction bs arbitrary: u s) (auto elim!: next_do_cases dest!: visit_expect)

lemma entries_expect:
  assumes "staging_entries sr expect_lease () s = (Inr (), s')"
  shows "list_all (\<lambda>e. fst e = staging_lease) (entries_now s)"
proof -
  obtain s1 where l: "look sr s = (Inr (), s1)"
    and b: "read_batches sr expect_lease () (chunks 128 (entries_now s1)) s1 = (Inr (), s')"
    using assms unfolding staging_entries_def by (auto elim: next_do_cases)
  have "entries_now s1 = entries_now s" using l by (intro same_entries observesD [OF observes_basic(3)])
  then show ?thesis using batches_expect [OF b] by (simp add: concat_chunks)
qed

section \<open>A crash never leaves a slot without a lease\<close>

text \<open>A stage of this protocol: its owner's, holding only what the protocol writes, and with a lease that
  is sure to survive as long as something else may.\<close>

definition sound_stage :: "stage_env \<Rightarrow> stage_dir \<Rightarrow> bool" where
  "sound_stage sr d \<longleftrightarrow> sg_perm d = 448 \<and> sg_uid d = sr_uid sr \<and>
     (\<forall>e \<in> set (sg_maybe d). known_entry e \<and> (fst e = staging_lease \<longrightarrow> st_uid (snd e) = sr_uid sr)) \<and>
     set (sg_files d) \<subseteq> set (sg_maybe d) \<and> set (sg_sure d) \<subseteq> fst ` set (sg_files d) \<and>
     ((\<exists>e \<in> set (sg_maybe d). fst e \<noteq> staging_lease) \<longrightarrow> staging_lease \<in> set (sg_sure d))"

definition sound_run :: "stage_env \<Rightarrow> run \<Rightarrow> bool" where
  "sound_run sr s \<longleftrightarrow> (\<forall>d \<in> set (rn_trace s). sound_stage sr d) \<and> (\<forall>d. rn_dir s = Some d \<longrightarrow> sound_stage sr d)"

lemma sound_drop: "sound_stage sr d \<Longrightarrow> n \<noteq> staging_lease \<Longrightarrow> sound_stage sr (drop_file n d)"
  unfolding sound_stage_def drop_file_def by (auto simp: subset_iff image_iff Bex_def)

lemma sound_sync: "sound_stage sr d \<Longrightarrow> sound_stage sr (sync_dir d)"
  by (auto simp: sound_stage_def sync_dir_def)

lemma sound_drop_lease:
  "sound_stage sr d \<Longrightarrow> \<forall>e \<in> set (sg_maybe d). fst e = staging_lease \<Longrightarrow> sound_stage sr (drop_file n d)"
  unfolding sound_stage_def drop_file_def by (auto simp: subset_iff image_iff Bex_def)

lemma sound_add_slot:
  "sound_stage sr d \<Longrightarrow> staging_lease \<in> set (sg_sure d) \<Longrightarrow> staging_slot n \<Longrightarrow> st_regular info \<Longrightarrow> sound_stage sr (add_file n info d)"
  using lease_not_slot by (auto simp: sound_stage_def add_file_def known_entry_def)

text \<open>From \<open>P\<close> the action ends with \<open>Q\<close>, or with an error in a sound run.\<close>

definition valid :: "stage_env \<Rightarrow> (run \<Rightarrow> bool) \<Rightarrow> 'a action \<Rightarrow> ('a \<Rightarrow> run \<Rightarrow> bool) \<Rightarrow> bool" where
  "valid sr P m Q \<longleftrightarrow> (\<forall>s r s'. P s \<longrightarrow> m s = (r, s') \<longrightarrow> (case r of Inl e \<Rightarrow> sound_run sr s' | Inr x \<Rightarrow> Q x s'))"

lemma valid_next: "valid sr P m Q \<Longrightarrow> (\<And>x. valid sr (Q x) (f x) R) \<Longrightarrow> valid sr P (next_do m f) R"
  unfolding valid_def by (intro allI impI, erule next_do_cases) fastforce+

lemma valid_weaken: "valid sr P m Q \<Longrightarrow> (\<And>x s. Q x s \<Longrightarrow> R x s) \<Longrightarrow> valid sr P m R"
  unfolding valid_def by (fastforce split: sum.splits)

lemma sound_same: "sound_run sr s \<Longrightarrow> same_dirs s s' \<Longrightarrow> sound_run sr s'"
  by (simp add: sound_run_def same_dirs_def)

lemma valid_observes: "observes m \<Longrightarrow> valid sr (sound_run sr) m (\<lambda>_. sound_run sr)"
  unfolding valid_def by (auto split: sum.splits dest: observesD intro: sound_same)

text \<open>What a change of the directory has to establish.\<close>

definition dir_now :: "(stage_dir \<Rightarrow> bool) \<Rightarrow> run \<Rightarrow> bool" where
  "dir_now P s \<longleftrightarrow> (\<forall>d. rn_dir s = Some d \<longrightarrow> P d)"

lemma valid_act:
  assumes "\<And>d. sound_stage sr d \<Longrightarrow> P d \<Longrightarrow> sound_stage sr (f d) \<and> Q (f d)"
  shows "valid sr (\<lambda>s. sound_run sr s \<and> dir_now P s) (act sr f) (\<lambda>_ s. sound_run sr s \<and> dir_now Q s)"
  unfolding valid_def act_def look_def probe_def using assms
  by (auto simp: next_do_def sound_run_def put_dir_def dir_now_def split: option.splits sum.splits)

lemma valid_unlink: "valid sr (sound_run sr) (unlink_entry sr u e) (\<lambda>_. sound_run sr)"
proof (cases "fst e = staging_lease")
  case False
  have "valid sr (\<lambda>s. sound_run sr s \<and> dir_now (\<lambda>_. True) s) (act sr (drop_file (fst e))) (\<lambda>_ s. sound_run sr s \<and> dir_now (\<lambda>_. True) s)"
    by (rule valid_act) (simp add: sound_drop False)
  then show ?thesis using False by (simp add: unlink_entry_def dir_now_def)
qed (simp add: unlink_entry_def valid_observes)

lemma valid_visit: "(\<And>acc e. valid sr P (visit acc e) (\<lambda>_. P)) \<Longrightarrow> valid sr P (visit_all visit acc es) (\<lambda>_. P)"
proof (induction es arbitrary: acc)
  case (Cons e es)
  show ?case unfolding visit_all.simps by (rule valid_next [OF Cons.prems Cons.IH [OF Cons.prems]])
qed (simp add: valid_def)

lemma valid_batches:
  assumes "\<And>acc e. valid sr (sound_run sr) (visit acc e) (\<lambda>_. sound_run sr)"
  shows "valid sr (sound_run sr) (read_batches sr visit acc bs) (\<lambda>_. sound_run sr)"
proof (induction bs arbitrary: acc)
  case Nil
  show ?case unfolding read_batches.simps
    by (rule valid_next [OF valid_observes [OF observes_basic(4)] valid_next [OF valid_observes [OF observes_basic(3)] valid_observes [OF observes_basic(1)]]])
next
  case (Cons b bs)
  show ?case unfolding read_batches.simps
    by (rule valid_next [OF valid_observes [OF observes_basic(4)] valid_next [OF valid_observes [OF observes_basic(3)]
          valid_next [OF valid_visit [OF assms] Cons.IH]]])
qed

lemma valid_entries:
  assumes "\<And>acc e. valid sr (sound_run sr) (visit acc e) (\<lambda>_. sound_run sr)"
  shows "valid sr (sound_run sr) (staging_entries sr visit acc) (\<lambda>_. sound_run sr)"
proof -
  have "valid sr (sound_run sr) (\<lambda>s. read_batches sr visit acc (chunks 128 (entries_now s)) s) (\<lambda>_. sound_run sr)"
    using valid_batches [OF assms] by (simp add: valid_def)
  then show ?thesis unfolding staging_entries_def by (rule valid_next [OF valid_observes [OF observes_basic(3)]])
qed

lemma valid_remove_dir: "valid sr (sound_run sr) (remove_dir sr) (\<lambda>_. sound_run sr)"
  unfolding remove_dir_def
  by (rule valid_next [OF valid_observes [OF observes_basic(3)]])
    (auto simp: valid_def sound_run_def put_dir_def split: sum.splits)

definition only_lease :: "(string \<times> stat) list \<Rightarrow> bool" where
  "only_lease es \<longleftrightarrow> list_all (\<lambda>e. fst e = staging_lease) es"

lemma valid_expect:
  "valid sr (sound_run sr) (staging_entries sr expect_lease ()) (\<lambda>_ s. sound_run sr s \<and> dir_now (\<lambda>d. only_lease (sg_files d)) s)"
proof -
  have "sound_run sr s'" if "sound_run sr s" "staging_entries sr expect_lease () s = (r, s')" for s r s'
    using observesD [OF staging_entries_observes [OF expect_lease_observes] that(2)] that(1) by (rule sound_same [rotated])
  moreover have "dir_now (\<lambda>d. only_lease (sg_files d)) s'" if "staging_entries sr expect_lease () s = (Inr u, s')" for s u s'
    using entries_expect [of sr s s'] observesD [OF staging_entries_observes [OF expect_lease_observes] that] that
    by (auto simp: dir_now_def only_lease_def same_dirs_def entries_now_def)
  ultimately show ?thesis unfolding valid_def by (auto split: sum.splits)
qed

lemma valid_finish:
  "valid sr (\<lambda>s. sound_run sr s \<and> dir_now (\<lambda>d. only_lease (sg_files d)) s)
     (next_do (act sr sync_dir) (\<lambda>_. next_do (if hasLease then act sr (drop_file staging_lease) else give ()) (\<lambda>_.
        next_do (act sr sync_dir) (\<lambda>_. next_do (remove_dir sr) (\<lambda>_. look sr)))))
     (\<lambda>_. sound_run sr)"
proof -
  let ?Q = "\<lambda>d. only_lease (sg_maybe d)"
  have sync: "valid sr (\<lambda>s. sound_run sr s \<and> dir_now (\<lambda>d. only_lease (sg_files d)) s) (act sr sync_dir) (\<lambda>_ s. sound_run sr s \<and> dir_now ?Q s)"
    by (rule valid_act) (simp add: sound_sync, simp add: sync_dir_def)
  have drop: "valid sr (\<lambda>s. sound_run sr s \<and> dir_now ?Q s) (if hasLease then act sr (drop_file staging_lease) else give ()) (\<lambda>_. sound_run sr)"
  proof (cases hasLease)
    case True
    have "valid sr (\<lambda>s. sound_run sr s \<and> dir_now ?Q s) (act sr (drop_file staging_lease)) (\<lambda>_ s. sound_run sr s \<and> dir_now (\<lambda>_. True) s)"
      by (rule valid_act) (simp add: sound_drop_lease only_lease_def list_all_iff)
    then show ?thesis using True by (simp add: dir_now_def)
  qed (simp add: valid_def)
  have again: "valid sr (sound_run sr) (act sr sync_dir) (\<lambda>_. sound_run sr)"
    using valid_act [of sr "\<lambda>_. True" sync_dir "\<lambda>_. True"] by (simp add: sound_sync dir_now_def)
  show ?thesis
    by (rule valid_next [OF sync valid_next [OF drop valid_next [OF again valid_next [OF valid_remove_dir valid_observes [OF observes_basic(3)]]]]])
qed

lemma valid_clear: "valid sr (sound_run sr) (clear_stage sr hasLease) (\<lambda>_. sound_run sr)"
  unfolding clear_stage_def by (rule valid_next [OF valid_entries [OF valid_unlink] valid_next [OF valid_expect valid_finish]])

lemma remove_staging_sound: "valid sr (sound_run sr) (remove_staging sr node) (\<lambda>_. sound_run sr)"
proof -
  have clear: "valid sr (sound_run sr) (case x of (hasLease, slots) \<Rightarrow> if slots \<and> \<not> hasLease then refuse_with Unfamiliar else clear_stage sr hasLease)
     (\<lambda>_. sound_run sr)" for x
    by (cases x) (auto simp: valid_clear valid_observes)
  show ?thesis unfolding remove_staging_def
    by (rule valid_next [OF valid_observes [OF observes_basic(3)] valid_next [OF valid_observes [OF observes_basic(6)]
          valid_next [OF valid_observes [OF staging_entries_observes [OF check_entry_observes]] clear]]])
qed

text \<open>The coordinator's loop returns once the context is over, whatever the lock answers.\<close>

lemma coordinate_returns: "over (n + k) \<Longrightarrow> \<exists>r. coordinate over lock n (Suc k) = Some r"
proof (induction k arbitrary: n)
  case (Suc k)
  then show ?case by (subst coordinate.simps) (auto split: flock.splits)
qed simp

section \<open>The life of a stage\<close>

text \<open>The names \<open>receive\<close> and \<open>preparePrefix\<close> give their slots.\<close>

definition slot_of :: "nat \<Rightarrow> string \<Rightarrow> bool" where
  "slot_of i n \<longleftrightarrow> i < 10 ^ 19 \<and> (n = slot_name i \<or> n = ''extension-'' @ pad 6 i)"

lemma show_nat_short: "i < 10 ^ Suc k \<Longrightarrow> length (show_nat i) \<le> Suc k"
proof (induction k arbitrary: i)
  case (Suc k)
  then have "i div 10 < 10 ^ Suc k" by (simp add: div_less_iff_less_mult)
  from Suc.IH [OF this] show ?case by (subst show_nat.simps) simp
qed (simp add: show_nat.simps)

lemma slot_of_staging: "slot_of i n \<Longrightarrow> staging_slot n"
proof -
  assume "slot_of i n"
  then have n: "n = slot_name i \<or> n = ''extension-'' @ pad 6 i" and "length (show_nat i) \<le> 19"
    using show_nat_short [of i 18] by (auto simp: slot_of_def)
  then have len: "6 \<le> length (pad 6 i)" "length (pad 6 i) \<le> 19" by (auto simp: pad_def)
  have digits: "all_digits (pad 6 i)" using show_nat_digits [of i] by (auto simp: all_digits_def pad_def list_all_iff is_digit_def set_replicate_conv_if)
  have "pad 6 i \<noteq> []" using len by auto
  then have "is_digit (last (pad 6 i))" using digits by (simp add: all_digits_def list_all_iff)
  then have "last (pad 6 i) \<noteq> CHR ''l''" by (auto simp: is_digit_def)
  moreover have "last (''extension-'' @ pad 6 i) = CHR ''l''" if "has_suffix (''extension-'' @ pad 6 i) ''.jsonl''"
    using that unfolding has_suffix_iff by (elim exE) (simp only: last_appendR list.simps, simp)
  ultimately have "\<not> has_suffix (''extension-'' @ pad 6 i) ''.jsonl''" using \<open>pad 6 i \<noteq> []\<close> by auto
  then show ?thesis using n len digits
    by (auto simp: staging_slot_def slot_name_def trim_prefix_def)
qed

text \<open>
  A transfer reserves its stage, fills it while it owns it, and closes it; at each point it may
  have failed.  The second component is the inode while the stage is owned.
\<close>

inductive transfer_run :: "stage_env \<Rightarrow> nat option \<Rightarrow> run \<Rightarrow> bool" for sr where
  reserved: "reserve_stage sr (lease_file sr n t) \<lparr>rn_dir = None, rn_calls = k, rn_trace = []\<rparr> = (r, s) \<Longrightarrow>
     transfer_run sr (case r of Inl e \<Rightarrow> None | Inr node \<Rightarrow> Some node) s"
| created: "transfer_run sr (Some node) s \<Longrightarrow> slot_of i n \<Longrightarrow> st_regular info \<Longrightarrow> create_slot sr n info s = (r, s') \<Longrightarrow>
     transfer_run sr (Some node) s'"
| moved: "transfer_run sr (Some node) s \<Longrightarrow> slot_of i n \<Longrightarrow> move_slot sr n s = (r, s') \<Longrightarrow> transfer_run sr (Some node) s'"
| closed: "transfer_run sr (Some node) s \<Longrightarrow> close_incoming coordinator sr node s = (r, s') \<Longrightarrow> transfer_run sr None s'"

definition leased :: "run \<Rightarrow> bool" where
  "leased s \<longleftrightarrow> dir_now (\<lambda>d. staging_lease \<in> set (sg_sure d)) s"

definition young_stages :: "stage_env \<Rightarrow> stat \<Rightarrow> stage_dir set" where
  "young_stages sr info =
     (let a = new_stage sr; b = add_file staging_lease info a; c = sync_dir b in
      {a, b, c, drop_file staging_lease a, drop_file staging_lease b, drop_file staging_lease c})"

lemma young_sound: "d \<in> young_stages sr (lease_file sr n t) \<Longrightarrow> sound_stage sr d"
  by (auto simp: young_stages_def Let_def new_stage_def add_file_def sync_dir_def drop_file_def lease_file_def sound_stage_def
      known_entry_def)

definition young_run :: "stage_env \<Rightarrow> stat \<Rightarrow> stage_dir set \<Rightarrow> run \<Rightarrow> bool" where
  "young_run sr info ds s \<longleftrightarrow> set (rn_trace s) \<subseteq> young_stages sr info \<and> (\<forall>d. rn_dir s = Some d \<longrightarrow> d \<in> ds)"

lemma reserve_lease_young:
  assumes "reserve_lease sr info s = (r, s')" "rn_dir s = Some (new_stage sr)" "set (rn_trace s) \<subseteq> young_stages sr info"
  shows "\<exists>d \<in> {new_stage sr, add_file staging_lease info (new_stage sr), sync_dir (add_file staging_lease info (new_stage sr))}.
    rn_dir s' = Some d \<and> (r = Inr () \<longrightarrow> d = sync_dir (add_file staging_lease info (new_stage sr)))"
    "set (rn_trace s') \<subseteq> young_stages sr info"
  using assms unfolding reserve_lease_def join_result_def act_def look_def probe_def
  by (auto simp: next_do_def put_dir_def young_stages_def Let_def result_iff split: option.splits)

lemma try_drop_young:
  assumes "rn_dir s = Some d" "d \<in> {new_stage sr, add_file staging_lease info (new_stage sr), sync_dir (add_file staging_lease info (new_stage sr))}"
    "set (rn_trace s) \<subseteq> young_stages sr info"
  shows "\<exists>d' \<in> young_stages sr info. rn_dir (snd (try_act sr (map_option (drop_file staging_lease)) s)) = Some d'"
    "set (rn_trace (snd (try_act sr (map_option (drop_file staging_lease)) s))) \<subseteq> young_stages sr info"
  using assms by (auto simp: try_act_def probe_def put_dir_def young_stages_def Let_def split: option.splits)

lemma try_rmdir_young:
  assumes "\<exists>d \<in> young_stages sr info. rn_dir s = Some d" "set (rn_trace s) \<subseteq> young_stages sr info"
  shows "young_run sr info (young_stages sr info) (snd (try_act sr rmdir_empty s))"
  using assms by (auto simp: try_act_def probe_def put_dir_def young_run_def rmdir_empty_def split: option.splits if_split_asm)

lemma reserve_stage_sound:
  assumes "reserve_stage sr (lease_file sr n t) \<lparr>rn_dir = None, rn_calls = k, rn_trace = []\<rparr> = (r, s)"
  shows "sound_run sr s \<and> (is_ok r \<longrightarrow> leased s)"
proof -
  let ?info = "lease_file sr n t" and ?s0 = "\<lparr>rn_dir = None, rn_calls = k, rn_trace = []\<rparr>"
  have sound: "sound_run sr s'" if "young_run sr ?info (young_stages sr ?info) s'" for s'
    using that young_sound by (auto simp: young_run_def sound_run_def)
  obtain p s1 where p: "probe sr ?s0 = (p, s1)" by (metis surj_pair)
  then have s1: "rn_dir s1 = None" "rn_trace s1 = []" by (auto simp: probe_def)
  define s2 where "s2 = put_dir (Some (new_stage sr)) s1"
  have s2: "rn_dir s2 = Some (new_stage sr)" "set (rn_trace s2) \<subseteq> young_stages sr ?info" "new_stage sr \<in> young_stages sr ?info"
    using s1 by (simp_all add: s2_def put_dir_def young_stages_def Let_def)
  obtain o3 s3 where o3: "open_dir sr s2 = (o3, s3)" by (metis surj_pair)
  have s3: "rn_dir s3 = Some (new_stage sr)" "set (rn_trace s3) \<subseteq> young_stages sr ?info"
    using observesD [OF observes_basic(5) o3] s2 by (auto simp: same_dirs_def)
  obtain r4 s4 where r4: "reserve_lease sr ?info s3 = (r4, s4)" by (metis surj_pair)
  note young = reserve_lease_young [OF r4 s3]
  then obtain d where d: "rn_dir s4 = Some d" "d \<in> {new_stage sr, add_file staging_lease ?info (new_stage sr), sync_dir (add_file staging_lease ?info (new_stage sr))}"
    "r4 = Inr () \<longrightarrow> d = sync_dir (add_file staging_lease ?info (new_stage sr))" by blast
  consider (made) e where "p = Some e" | (opened) e where "p = None" "o3 = Inl e" | (locked) node e where "p = None" "o3 = Inr node" "r4 = Inl e"
    | (ok) node where "p = None" "o3 = Inr node" "r4 = Inr ()" by (cases p; cases o3; cases r4) auto
  then show ?thesis
  proof cases
    case made
    then show ?thesis using assms p s1 by (auto simp: reserve_stage_def sound_run_def)
  next
    case opened
    then have "s = snd (try_act sr rmdir_empty s3)" "r = Inl e" using assms p s1 o3 by (auto simp: reserve_stage_def s2_def)
    then show ?thesis using sound [OF try_rmdir_young [of sr ?info s3]] s3 s2(3) by auto
  next
    case locked
    then have s: "s = snd (try_act sr rmdir_empty (snd (try_act sr (map_option (drop_file staging_lease)) s4)))" "\<not> is_ok r"
      using assms p s1 o3 r4 by (auto simp: reserve_stage_def s2_def)
    then show ?thesis using sound [OF try_rmdir_young] try_drop_young [OF d(1,2) young(2)] by auto
  next
    case ok
    then have s: "s = s4" using assms p s1 o3 r4 by (auto simp: reserve_stage_def s2_def)
    have "young_run sr ?info (young_stages sr ?info) s4" using young(2) d(1,2) by (auto simp: young_run_def young_stages_def Let_def)
    moreover have "leased s4" using d(1,3) ok by (auto simp: leased_def dir_now_def sync_dir_def add_file_def)
    ultimately show ?thesis using sound s by auto
  qed
qed

lemma valid_sound: "valid sr (sound_run sr) m (\<lambda>_. sound_run sr) \<Longrightarrow> sound_run sr s \<Longrightarrow> m s = (r, s') \<Longrightarrow> sound_run sr s'"
  by (auto simp: valid_def split: sum.splits)

lemma act_cases:
  assumes "act sr f s = (r, s')"
  obtains "same_dirs s s'" | "rn_dir s' = map_option f (rn_dir s)"
    "rn_trace s' = rn_trace s @ (case map_option f (rn_dir s) of None \<Rightarrow> [] | Some x \<Rightarrow> [x])"
  using assms by (auto simp: act_def look_def probe_def next_do_def put_dir_def same_dirs_def split: option.splits)

lemma act_sound:
  assumes "act sr f s = (r, s')" "sound_run sr s \<and> leased s"
    "\<And>d. sound_stage sr d \<Longrightarrow> staging_lease \<in> set (sg_sure d) \<Longrightarrow> sound_stage sr (f d) \<and> staging_lease \<in> set (sg_sure (f d))"
  shows "sound_run sr s' \<and> leased s'"
proof (cases "rn_dir s")
  case None
  then show ?thesis using assms(1,2) by (elim act_cases) (auto simp: sound_run_def same_dirs_def leased_def dir_now_def)
next
  case (Some d)
  then have "sound_stage sr d" "staging_lease \<in> set (sg_sure d)" using assms(2) by (auto simp: sound_run_def leased_def dir_now_def)
  from assms(3) [OF this] show ?thesis using assms(1,2) Some
    by (elim act_cases) (auto simp: sound_run_def same_dirs_def leased_def dir_now_def)
qed

lemma transfer_run_sound: "transfer_run sr owned s \<Longrightarrow> sound_run sr s \<and> (owned \<noteq> None \<longrightarrow> leased s)"
proof (induction rule: transfer_run.induct)
  case (reserved n t k r s)
  then show ?case using reserve_stage_sound by (cases r) auto
next
  case (created node s i n info r s')
  show ?case
  proof (cases "n \<in> set (map fst (entries_now s))")
    case False
    then have "act sr (add_file n info) s = (r, s')" using created by (simp add: create_slot_def)
    from act_sound [OF this] show ?thesis using created.IH sound_add_slot slot_of_staging [OF created.hyps(2)] created.hyps(3) by (simp add: add_file_def)
  qed (use created in \<open>simp add: create_slot_def\<close>)
next
  case (moved node s i n r s')
  then have a: "act sr (drop_file n) s = (r, s')" "n \<noteq> staging_lease"
    using lease_not_slot slot_of_staging [OF moved.hyps(2)] by (auto simp: move_slot_def)
  from act_sound [OF a(1)] show ?case using moved.IH sound_drop [OF _ a(2)] a(2) by (simp add: drop_file_def)
next
  case (closed node s coordinator r s')
  have "valid sr (sound_run sr) (close_incoming coordinator sr node) (\<lambda>_. sound_run sr)"
    by (cases coordinator) (simp_all add: close_incoming_def valid_observes valid_next [OF valid_observes [OF observes_basic(3)] remove_staging_sound])
  then show ?case using valid_sound closed by blast
qed

section \<open>Recovery ends\<close>

text \<open>No call fails, the context stays open, and no live process holds the lease.\<close>

definition undisturbed :: "stage_env \<Rightarrow> bool" where
  "undisturbed sr \<longleftrightarrow> (\<forall>n. sr_fault sr n = None) \<and> (\<forall>n. \<not> sr_over sr n) \<and> \<not> sr_held sr"

definition ends :: "'a action \<Rightarrow> run \<Rightarrow> bool" where
  "ends m s \<longleftrightarrow> is_ok (fst (m s))"

lemma endsE: "ends m s \<Longrightarrow> (\<And>x s'. m s = (Inr x, s') \<Longrightarrow> thesis) \<Longrightarrow> thesis"
  by (cases "m s"; cases "fst (m s)") (auto simp: ends_def)

lemma ends_next: "m s = (Inr x, s') \<Longrightarrow> ends (f x) s' \<Longrightarrow> ends (next_do m f) s"
  by (simp add: ends_def)

lemma undisturbed_probe: "undisturbed sr \<Longrightarrow> probe sr s = (None, s\<lparr>rn_calls := rn_calls s + 1\<rparr>)"
  by (simp add: probe_def undisturbed_def)

lemma undisturbed_look: "undisturbed sr \<Longrightarrow> look sr s = (Inr (), s\<lparr>rn_calls := rn_calls s + 1\<rparr>)"
  by (simp add: look_def undisturbed_probe)

lemma undisturbed_over: "undisturbed sr \<Longrightarrow> check_over sr s = (Inr (), s)"
  by (simp add: check_over_def undisturbed_def)

lemma undisturbed_act: "undisturbed sr \<Longrightarrow> rn_dir s = Some d \<Longrightarrow> \<exists>s'. act sr f s = (Inr (), s') \<and> rn_dir s' = Some (f d)"
  by (simp add: act_def undisturbed_look put_dir_def)

lemma check_entry_ends: "undisturbed sr \<Longrightarrow> known_entry e \<Longrightarrow> ends (check_entry sr seen e) s"
  by (cases e) (auto simp: ends_def check_entry_def known_entry_def undisturbed_probe undisturbed_look)

lemma visit_ends:
  assumes "\<And>acc e s. e \<in> set es \<Longrightarrow> ends (visit acc e) s"
  shows "ends (visit_all visit acc es) s"
  using assms
proof (induction es arbitrary: acc s)
  case (Cons e es acc s)
  from Cons.prems [of e acc s] obtain x s' where "visit acc e s = (Inr x, s')" by (auto elim: endsE)
  then show ?case using Cons.IH [of x s'] Cons.prems by (auto intro: ends_next)
qed (simp add: ends_def)

lemma batches_ends:
  assumes "undisturbed sr" "\<And>acc e s. e \<in> set (concat bs) \<Longrightarrow> ends (visit acc e) s"
  shows "ends (read_batches sr visit acc bs) s"
  using assms(2)
proof (induction bs arbitrary: acc s)
  case (Cons b bs acc s)
  have "ends (visit_all visit acc b) (s\<lparr>rn_calls := rn_calls s + 1\<rparr>)" using Cons.prems by (intro visit_ends) auto
  then obtain x s' where "visit_all visit acc b (s\<lparr>rn_calls := rn_calls s + 1\<rparr>) = (Inr x, s')" by (rule endsE)
  then show ?case using Cons.IH [of x s'] Cons.prems assms(1)
    by (simp add: ends_def undisturbed_over undisturbed_look)
qed (simp add: ends_def undisturbed_over undisturbed_look assms(1))

lemma entries_calls: "entries_now (s\<lparr>rn_calls := k\<rparr>) = entries_now s"
  by (simp add: entries_now_def)

lemma staging_entries_ends:
  assumes "undisturbed sr" "\<And>acc e s'. e \<in> set (entries_now s) \<Longrightarrow> ends (visit acc e) s'"
  shows "ends (staging_entries sr visit acc) s"
proof -
  have "ends (read_batches sr visit acc (chunks 128 (entries_now s))) s'" for s'
    using assms by (intro batches_ends) (simp_all add: concat_chunks)
  then show ?thesis using assms(1) by (simp add: staging_entries_def ends_def undisturbed_look entries_calls)
qed

text \<open>The entries a pass of removals leaves.\<close>

definition leaves :: "(string \<times> stat) list \<Rightarrow> stage_dir \<Rightarrow> run \<Rightarrow> bool" where
  "leaves es d s \<longleftrightarrow> (\<exists>d'. rn_dir s = Some d' \<and>
     set (sg_files d') = {e \<in> set (sg_files d). fst e = staging_lease \<or> fst e \<notin> fst ` set es})"

lemma leaves_trans: "leaves es d s \<Longrightarrow> rn_dir s = Some d' \<Longrightarrow> leaves es' d' s' \<Longrightarrow> leaves (es @ es') d s'"
  by (auto simp: leaves_def)

lemma visit_unlink_leaves:
  assumes "undisturbed sr" "rn_dir s = Some d"
  shows "\<exists>s'. visit_all (unlink_entry sr) () es s = (Inr (), s') \<and> leaves es d s'"
  using assms(2)
proof (induction es arbitrary: s d)
  case (Cons e es)
  show ?case
  proof (cases "fst e = staging_lease")
    case True
    then show ?thesis using Cons.IH [OF Cons.prems] by (fastforce simp: unlink_entry_def leaves_def)
  next
    case False
    obtain s1 where s1: "act sr (drop_file (fst e)) s = (Inr (), s1)" "rn_dir s1 = Some (drop_file (fst e) d)"
      using undisturbed_act [OF assms(1) Cons.prems] by blast
    obtain s' where s': "visit_all (unlink_entry sr) () es s1 = (Inr (), s')" "leaves es (drop_file (fst e) d) s'"
      using Cons.IH [OF s1(2)] by blast
    have "leaves (e # es) d s'" using s'(2) False by (auto simp: leaves_def drop_file_def)
    moreover have "unlink_entry sr () e s = (Inr (), s1)" using s1(1) False by (simp add: unlink_entry_def)
    ultimately show ?thesis using s'(1) by simp
  qed
qed (simp add: leaves_def)

lemma batches_unlink_leaves:
  assumes "undisturbed sr" "rn_dir s = Some d"
  shows "\<exists>s'. read_batches sr (unlink_entry sr) () bs s = (Inr (), s') \<and> leaves (concat bs) d s'"
  using assms(2)
proof (induction bs arbitrary: s d)
  case Nil
  then show ?case by (simp add: undisturbed_over [OF assms(1)] undisturbed_look [OF assms(1)] leaves_def)
next
  case (Cons b bs)
  have "rn_dir (s\<lparr>rn_calls := rn_calls s + 1\<rparr>) = Some d" using Cons.prems by simp
  from visit_unlink_leaves [OF assms(1) this, of b] obtain s1 d1 where
    s1: "visit_all (unlink_entry sr) () b (s\<lparr>rn_calls := rn_calls s + 1\<rparr>) = (Inr (), s1)" "leaves b d s1" "rn_dir s1 = Some d1"
    by (auto simp: leaves_def)
  obtain s' where "read_batches sr (unlink_entry sr) () bs s1 = (Inr (), s')" "leaves (concat bs) d1 s'"
    using Cons.IH [OF s1(3)] by blast
  then show ?case using s1 leaves_trans [OF s1(2,3)] by (simp add: undisturbed_over [OF assms(1)] undisturbed_look [OF assms(1)])
qed

lemma entries_unlink_leaves:
  assumes "undisturbed sr" "rn_dir s = Some d"
  obtains s' d' where "staging_entries sr (unlink_entry sr) () s = (Inr (), s')" "rn_dir s' = Some d'"
    "set (sg_files d') = {e \<in> set (sg_files d). fst e = staging_lease}"
proof -
  have "rn_dir (s\<lparr>rn_calls := rn_calls s + 1\<rparr>) = Some d" using assms(2) by simp
  from batches_unlink_leaves [OF assms(1) this, of "chunks 128 (sg_files d)"] show thesis using that
    by (auto simp: staging_entries_def undisturbed_look [OF assms(1)] entries_now_def assms(2) concat_chunks leaves_def image_iff)
qed

lemma clear_stage_ends:
  assumes "undisturbed sr" "rn_dir s = Some d" "hasLease \<longleftrightarrow> staging_lease \<in> fst ` set (sg_files d)"
  shows "\<exists>s'. clear_stage sr hasLease s = (Inr (), s') \<and> rn_dir s' = None"
proof -
  obtain s1 d1 where s1: "staging_entries sr (unlink_entry sr) () s = (Inr (), s1)" "rn_dir s1 = Some d1"
    and d1: "set (sg_files d1) = {e \<in> set (sg_files d). fst e = staging_lease}"
    by (rule entries_unlink_leaves [OF assms(1,2)])
  have "ends (staging_entries sr expect_lease ()) s1"
    using s1(2) d1 by (intro staging_entries_ends [OF assms(1)]) (auto simp: entries_now_def ends_def expect_lease_def)
  then obtain s2 where s2: "staging_entries sr expect_lease () s1 = (Inr (), s2)" by (auto elim: endsE)
  have "rn_dir s2 = Some d1" using observesD [OF staging_entries_observes [OF expect_lease_observes] s2] s1(2) by (simp add: same_dirs_def)
  then obtain s3 where s3: "act sr sync_dir s2 = (Inr (), s3)" "rn_dir s3 = Some (sync_dir d1)"
    using undisturbed_act [OF assms(1)] by blast
  obtain s4 d4 where s4: "(if hasLease then act sr (drop_file staging_lease) else give ()) s3 = (Inr (), s4)" "rn_dir s4 = Some d4" "sg_files d4 = []"
  proof (cases hasLease)
    case True
    obtain s4 where "act sr (drop_file staging_lease) s3 = (Inr (), s4)" "rn_dir s4 = Some (drop_file staging_lease (sync_dir d1))"
      using undisturbed_act [OF assms(1) s3(2)] by blast
    then show ?thesis using that True d1 by (auto simp: drop_file_def sync_dir_def filter_empty_conv)
  next
    case False
    then have "sg_files d1 = []" using d1 assms(3) by (metis (mono_tags, lifting) Collect_empty_eq imageI set_empty)
    then show ?thesis using that [of s3] False s3(2) by (simp add: sync_dir_def)
  qed
  obtain s5 where s5: "act sr sync_dir s4 = (Inr (), s5)" "rn_dir s5 = Some (sync_dir d4)"
    using undisturbed_act [OF assms(1) s4(2)] by blast
  have "entries_now s5 = []" using s5(2) s4(3) by (simp add: entries_now_def sync_dir_def)
  then show ?thesis using s1(1) s2 s3(1) s4(1) s5(1)
    by (simp add: clear_stage_def remove_dir_def undisturbed_look [OF assms(1)] entries_calls put_dir_def)
qed

lemma remove_staging_ends:
  assumes "undisturbed sr" "rn_dir s = Some d" "list_all known_entry (sg_files d)"
    "(\<exists>e \<in> set (sg_files d). fst e \<noteq> staging_lease) \<longrightarrow> staging_lease \<in> fst ` set (sg_files d)"
  shows "\<exists>s'. remove_staging sr (sg_node d) s = (Inr (), s') \<and> rn_dir s' = None"
proof -
  define s1 where "s1 = s\<lparr>rn_calls := rn_calls s + 1 + 1 + 1\<rparr>"
  have s1: "rn_dir s1 = Some d" "entries_now s1 = sg_files d" using assms(2) by (simp_all add: s1_def entries_now_def)
  have "ends (staging_entries sr (check_entry sr) (False, False)) s1"
    using assms(3) by (intro staging_entries_ends [OF assms(1)] check_entry_ends [OF assms(1)]) (simp add: s1 list_all_iff)
  then obtain lease slots s2 where s2: "staging_entries sr (check_entry sr) (False, False) s1 = (Inr (lease, slots), s2)"
    by (auto elim: endsE)
  have l: "lease \<longleftrightarrow> staging_lease \<in> fst ` set (sg_files d)"
    unfolding entries_check(2) [OF s2] s1 list_ex_iff image_iff by metis
  have sl: "slots \<longrightarrow> lease"
    using assms(4) unfolding l entries_check(3) [OF s2] s1 list_ex_iff .
  have "rn_dir s2 = Some d" using observesD [OF staging_entries_observes [OF check_entry_observes] s2] s1 by (simp add: same_dirs_def)
  from clear_stage_ends [OF assms(1) this l] sl s2 show ?thesis
    by (simp add: remove_staging_def same_node_def open_dir_def undisturbed_look [OF assms(1)] undisturbed_probe [OF assms(1)] assms(2) next_do_def s1_def)
qed

section \<open>What a machine failure leaves, and what recovery touches\<close>

definition crash_image :: "stage_dir \<Rightarrow> stage_dir \<Rightarrow> bool" where
  "crash_image d x \<longleftrightarrow> sg_perm x = sg_perm d \<and> sg_uid x = sg_uid d \<and> set (sg_files x) \<subseteq> set (sg_maybe d) \<and>
     set (sg_sure d) \<subseteq> fst ` set (sg_files x)"

lemma recover_image:
  assumes "sound_stage sr d" "crash_image d x" "undisturbed sr'" "sr_uid sr' = sr_uid sr" "rn_dir t = Some x"
  shows "\<exists>t'. recover_stage sr' t = (Inr (), t') \<and> rn_dir t' = None"
proof -
  have x: "sg_perm x = 448" "sg_uid x = sr_uid sr'" "list_all known_entry (sg_files x)"
    "\<forall>e \<in> set (sg_files x). fst e = staging_lease \<longrightarrow> st_uid (snd e) = sr_uid sr'"
    "(\<exists>e \<in> set (sg_files x). fst e \<noteq> staging_lease) \<longrightarrow> staging_lease \<in> fst ` set (sg_files x)"
    using assms(1,2,4) by (auto simp: sound_stage_def crash_image_def list_all_iff)
  define t1 where "t1 = t\<lparr>rn_calls := rn_calls t + 1 + 1\<rparr>"
  have t1: "rn_dir t1 = Some x" "entries_now t1 = sg_files x" using assms(5) by (simp_all add: t1_def entries_now_def)
  obtain t2 where t2: "lease_free sr' t1 = (Inr True, t2)" "rn_dir t2 = Some x"
  proof (cases "map_of (sg_files x) staging_lease")
    case None
    then show ?thesis using that t1 by (simp add: lease_free_def undisturbed_probe [OF assms(3)] lease_of_def entries_calls)
  next
    case (Some info)
    then have "(staging_lease, info) \<in> set (sg_files x)" by (rule map_of_SomeD)
    then have "known_entry (staging_lease, info)" "st_uid info = sr_uid sr'" using x(3,4) by (auto simp: list_all_iff)
    moreover have "\<not> sr_held sr'" using assms(3) by (simp add: undisturbed_def)
    ultimately show ?thesis using that t1 Some
      by (simp add: lease_free_def undisturbed_probe [OF assms(3)] undisturbed_look [OF assms(3)] lease_of_def entries_calls known_entry_def)
  qed
  obtain t' where "remove_staging sr' (sg_node x) t2 = (Inr (), t')" "rn_dir t' = None"
    using remove_staging_ends [OF assms(3) t2(2) x(3,5)] by blast
  then show ?thesis using t2(1) x(1,2) assms(5)
    by (simp add: recover_stage_def undisturbed_probe [OF assms(3)] undisturbed_look [OF assms(3)] t1_def)
qed

lemma check_pass_observes: "staging_entries sr (check_entry sr) seen s = (r, s') \<Longrightarrow> same_dirs s s'"
  by (rule observesD [OF staging_entries_observes], rule check_entry_observes)

lemma remove_staging_changes:
  assumes "remove_staging sr node s = (r, s')" "\<not> same_dirs s s'"
  shows "list_all known_entry (entries_now s) \<and>
    ((\<exists>e \<in> set (entries_now s). fst e \<noteq> staging_lease) \<longrightarrow> staging_lease \<in> fst ` set (entries_now s))"
proof -
  from assms(1) show ?thesis unfolding remove_staging_def
  proof (rule next_do_cases)
    fix e assume "look sr s = (Inl e, s')"
    then show ?thesis using assms(2) observesD by blast
  next
    fix u s1 assume "look sr s = (Inr u, s1)"
      and m: "next_do (same_node sr node) (\<lambda>_. next_do (staging_entries sr (check_entry sr) (False, False))
        (\<lambda>(hasLease, slots). if slots \<and> \<not> hasLease then refuse_with Unfamiliar else clear_stage sr hasLease)) s1 = (r, s')"
    then have s1: "same_dirs s s1" using observesD by blast
    from m show ?thesis
    proof (rule next_do_cases)
      fix e assume "same_node sr node s1 = (Inl e, s')"
      then show ?thesis using assms(2) s1 observesD same_dirs_trans by blast
    next
      fix u s2 assume "same_node sr node s1 = (Inr u, s2)"
        and m: "next_do (staging_entries sr (check_entry sr) (False, False))
          (\<lambda>(hasLease, slots). if slots \<and> \<not> hasLease then refuse_with Unfamiliar else clear_stage sr hasLease) s2 = (r, s')"
      then have s2: "same_dirs s s2" using s1 observesD same_dirs_trans by blast
      from m show ?thesis
      proof (rule next_do_cases)
        fix e assume "staging_entries sr (check_entry sr) (False, False) s2 = (Inl e, s')"
        then show ?thesis
          using assms(2) s2 check_pass_observes same_dirs_trans by blast
      next
        fix x s3 assume c: "staging_entries sr (check_entry sr) (False, False) s2 = (Inr x, s3)"
          and f: "(case x of (hasLease, slots) \<Rightarrow> if slots \<and> \<not> hasLease then refuse_with Unfamiliar else clear_stage sr hasLease) s3 = (r, s')"
        obtain lease slots where x: "x = (lease, slots)" by (cases x)
        have "same_dirs s s3" using s2 check_pass_observes [OF c] same_dirs_trans by blast
        then have "slots \<longrightarrow> lease" using f x assms(2) by (auto split: if_split_asm)
        then show ?thesis using entries_check [OF c [unfolded x]] same_entries [OF s2]
          unfolding list_ex_iff image_iff by metis
      qed
    qed
  qed
qed

lemma lease_free_cases:
  assumes "lease_free sr s = (r, s')"
  shows "same_dirs s s'" "r = Inr True \<Longrightarrow> lease_of s = Some info \<Longrightarrow> st_uid info = sr_uid sr \<and> \<not> sr_held sr"
  using assms by (auto simp: lease_free_def same_dirs_def probe_def look_def next_do_def lease_of_def entries_calls
      split: option.splits sum.splits prod.splits if_split_asm)

lemma recover_changes:
  assumes "recover_stage sr s = (r, s')" "\<not> same_dirs s s'"
  obtains d s1 where "rn_dir s = Some d" "sg_perm d = 448" "sg_uid d = sr_uid sr" "same_dirs s s1"
    "\<And>info. lease_of s = Some info \<Longrightarrow> st_uid info = sr_uid sr \<and> \<not> sr_held sr"
    "remove_staging sr (sg_node d) s1 = (if r = Inr () then fst (remove_staging sr (sg_node d) s1) else r, s')"
proof -
  obtain p s0 where p: "probe sr s = (p, s0)" by (metis surj_pair)
  have s0: "same_dirs s s0" using probe_same [OF p] .
  obtain d where d: "rn_dir s = Some d" and pn: "p = None"
    using assms p s0 by (cases "rn_dir s"; cases p; cases "the p") (auto simp: recover_stage_def same_dirs_def)
  have m: "next_do (look sr) (\<lambda>_. if sg_perm d \<noteq> 448 \<or> sg_uid d \<noteq> sr_uid sr then give ()
          else next_do (lease_free sr) (\<lambda>free s. if \<not> free then (Inr (), s)
            else (case remove_staging sr (sg_node d) s of (Inl Unfamiliar, s) \<Rightarrow> (Inr (), s) | r \<Rightarrow> r))) s0 = (r, s')"
    using assms(1) p pn d s0 by (simp add: recover_stage_def same_dirs_def)
  obtain s1 where l: "look sr s0 = (Inr (), s1)" and own: "sg_perm d = 448" "sg_uid d = sr_uid sr"
    and m: "next_do (lease_free sr) (\<lambda>free s. if \<not> free then (Inr (), s)
            else (case remove_staging sr (sg_node d) s of (Inl Unfamiliar, s) \<Rightarrow> (Inr (), s) | r \<Rightarrow> r)) s1 = (r, s')"
    using m assms(2) s0 observesD [OF observes_basic(3)] same_dirs_trans
    by (auto elim!: next_do_cases split: if_split_asm)
  have s1: "same_dirs s s1" using s0 observesD [OF observes_basic(3) l] same_dirs_trans by blast
  obtain q s2 where q: "lease_free sr s1 = (q, s2)" by (metis surj_pair)
  have s2: "same_dirs s s2" using s1 lease_free_cases(1) [OF q] same_dirs_trans by blast
  have qt: "q = Inr True" using m q assms(2) s2 by (cases q) (auto split: if_split_asm)
  have "lease_of s = lease_of s1" using same_entries [OF s1] by (simp add: lease_of_def)
  then have lease: "\<And>info. lease_of s = Some info \<Longrightarrow> st_uid info = sr_uid sr \<and> \<not> sr_held sr"
    using lease_free_cases(2) [OF q qt] by simp
  have "(case remove_staging sr (sg_node d) s2 of (Inl Unfamiliar, s) \<Rightarrow> (Inr (), s) | r \<Rightarrow> r) = (r, s')" using m q qt by simp
  then have "remove_staging sr (sg_node d) s2 = (if r = Inr () then fst (remove_staging sr (sg_node d) s2) else r, s')"
    by (cases "remove_staging sr (sg_node d) s2") (auto split: sum.splits session_error.splits)
  from that [OF d own s2 lease this] show thesis .
qed

section \<open>A sample\<close>

definition toy_stage_env :: stage_env where
  "toy_stage_env = \<lparr>sr_fault = (\<lambda>_. None), sr_over = (\<lambda>_. False), sr_uid = 1000, sr_held = False, sr_node = 7\<rparr>"

lemma toy_undisturbed: "undisturbed toy_stage_env"
  by (simp add: undisturbed_def toy_stage_env_def)

definition toy_stage :: stage_dir where
  "toy_stage = sync_dir (add_file staging_lease (lease_file toy_stage_env 8 \<lparr>mo_nanos = 0, mo_year = 1970\<rparr>) (new_stage toy_stage_env))"

definition filled_stage :: stage_dir where
  "filled_stage = add_file (slot_name 0) toy_stat toy_stage"

definition filled_run :: run where
  "filled_run = \<lparr>rn_dir = Some filled_stage, rn_calls = 8,
     rn_trace = [new_stage toy_stage_env,
       add_file staging_lease (lease_file toy_stage_env 8 \<lparr>mo_nanos = 0, mo_year = 1970\<rparr>) (new_stage toy_stage_env),
       toy_stage, filled_stage]\<rparr>"

lemma toy_reserved:
  "transfer_run toy_stage_env (Some 7) \<lparr>rn_dir = Some toy_stage, rn_calls = 7, rn_trace = butlast (rn_trace filled_run)\<rparr>"
proof -
  let ?s = "\<lparr>rn_dir = Some toy_stage, rn_calls = 7, rn_trace = butlast (rn_trace filled_run)\<rparr>"
  have "reserve_stage toy_stage_env (lease_file toy_stage_env 8 \<lparr>mo_nanos = 0, mo_year = 1970\<rparr>)
      \<lparr>rn_dir = None, rn_calls = 0, rn_trace = []\<rparr> = (Inr 7, ?s)"
    by (simp add: reserve_stage_def undisturbed_probe [OF toy_undisturbed] put_dir_def open_dir_def undisturbed_look [OF toy_undisturbed] reserve_lease_def act_def
        join_result_def filled_run_def toy_stage_def) (simp add: new_stage_def toy_stage_env_def)
  from transfer_run.reserved [OF this] show ?thesis by simp
qed

lemma toy_filled: "transfer_run toy_stage_env (Some 7) filled_run"
proof -
  have "staging_lease \<noteq> slot_name 0" using lease_not_slot slot_of_staging [of 0] by (auto simp: slot_of_def)
  then have "create_slot toy_stage_env (slot_name 0) toy_stat
      \<lparr>rn_dir = Some toy_stage, rn_calls = 7, rn_trace = butlast (rn_trace filled_run)\<rparr> = (Inr (), filled_run)"
    by (simp add: create_slot_def entries_now_def act_def undisturbed_look [OF toy_undisturbed] put_dir_def filled_run_def filled_stage_def)
      (auto simp: toy_stage_def sync_dir_def add_file_def new_stage_def)
  moreover have "slot_of 0 (slot_name 0)" "st_regular toy_stat" by (simp_all add: slot_of_def toy_stat_def)
  ultimately show ?thesis using transfer_run.created [OF toy_reserved] by blast
qed

lemma filled_sound: "sound_stage toy_stage_env filled_stage"
  using transfer_run_sound [OF toy_filled] by (simp add: sound_run_def filled_run_def)

lemma filled_image: "crash_image filled_stage filled_stage"
  using filled_sound by (simp add: crash_image_def sound_stage_def)

section \<open>Properties\<close>

text \<open>C10: Staging survives a crash: take any moment of a transfer - reserving its stage, creating and
  renaming slots, closing, with any system call failing on the way - and any state of the directory
  a machine failure may leave then, in which each name whose creation or removal was not yet synced
  may be there or not.  Recovery by the same user, with the dead owner's lease released and no call
  failing, recognises what it finds as abandoned staging and removes the directory completely.\<close>

theorem staging_survives_crash:
  assumes "transfer_run sr owned s" "d \<in> set (rn_trace s)" "crash_image d x" "undisturbed sr'" "sr_uid sr' = sr_uid sr"
    "rn_dir t = Some x"
  shows "\<exists>t'. recover_stage sr' t = (Inr (), t') \<and> rn_dir t' = None"
proof -
  have "sound_stage sr d" using transfer_run_sound [OF assms(1)] assms(2) by (auto simp: sound_run_def)
  from recover_image [OF this assms(3-6)] show ?thesis .
qed

theorem staging_survives_crash_witness:
  "\<exists>t'. recover_stage toy_stage_env \<lparr>rn_dir = Some filled_stage, rn_calls = 0, rn_trace = []\<rparr> = (Inr (), t') \<and> rn_dir t' = None"
  by (rule staging_survives_crash [OF toy_filled _ filled_image toy_undisturbed refl]) (simp_all add: filled_run_def)

text \<open>C11: Recovery touches only abandoned staging: when \<open>recoverStage\<close> changes a directory, the directory is
  private to the effective user, every entry is a regular file that is the empty, unshared lease or
  has the name of a slot, a slot comes with a lease, and the lease is the user's own and is held by no
  live process; in every other case, whatever calls fail, the directory keeps every entry.\<close>

theorem recovery_only_abandoned:
  assumes "recover_stage sr s = (r, s')" "rn_dir s' \<noteq> rn_dir s \<or> rn_trace s' \<noteq> rn_trace s"
  shows "\<exists>d. rn_dir s = Some d \<and> sg_perm d = 448 \<and> sg_uid d = sr_uid sr \<and>
    (\<forall>(n, info) \<in> set (sg_files d). st_regular info \<and>
       (if n = staging_lease then st_size info = 0 \<and> st_links info = 1 else staging_slot n)) \<and>
    ((\<exists>(n, info) \<in> set (sg_files d). n \<noteq> staging_lease) \<longrightarrow> staging_lease \<in> fst ` set (sg_files d)) \<and>
    (\<forall>info. map_of (sg_files d) staging_lease = Some info \<longrightarrow> st_uid info = sr_uid sr \<and> \<not> sr_held sr)"
proof -
  have "\<not> same_dirs s s'" using assms(2) by (auto simp: same_dirs_def)
  from recover_changes [OF assms(1) this] obtain d s1 where d: "rn_dir s = Some d" "sg_perm d = 448" "sg_uid d = sr_uid sr"
    and s1: "same_dirs s s1" and lease: "\<And>info. lease_of s = Some info \<Longrightarrow> st_uid info = sr_uid sr \<and> \<not> sr_held sr"
    and removed: "remove_staging sr (sg_node d) s1 = (if r = Inr () then fst (remove_staging sr (sg_node d) s1) else r, s')" by blast
  have entries: "entries_now s = sg_files d" "entries_now s1 = sg_files d" using d(1) same_entries [OF s1] by (simp_all add: entries_now_def)
  have "\<not> same_dirs s1 s'" using \<open>\<not> same_dirs s s'\<close> s1 same_dirs_trans by blast
  from remove_staging_changes [OF removed this] show ?thesis using d lease
    unfolding entries by (intro exI [of _ d]) (auto simp: known_entry_def list_all_iff lease_of_def entries)
qed

theorem recovery_only_abandoned_witness:
  "staging_lease \<in> fst ` set (sg_files filled_stage) \<and> sg_perm filled_stage = 448 \<and> sg_uid filled_stage = 1000"
proof -
  obtain t' where t': "recover_stage toy_stage_env \<lparr>rn_dir = Some filled_stage, rn_calls = 0, rn_trace = []\<rparr> = (Inr (), t')" "rn_dir t' = None"
    using recover_image [OF filled_sound filled_image toy_undisturbed refl, where t = "\<lparr>rn_dir = Some filled_stage, rn_calls = 0, rn_trace = []\<rparr>"]
    by auto
  have "staging_lease \<in> fst ` set (sg_files filled_stage)"
    by (simp add: filled_stage_def toy_stage_def add_file_def sync_dir_def new_stage_def)
  then show ?thesis using recovery_only_abandoned [OF t'(1)] t'(2) by (auto simp: toy_stage_env_def)
qed

end
