(* ===== verification/Go_Flags.thy ===== *)
theory Go_Flags
  imports Session_Rollout
begin

text \<open>
  Go's package \<open>flag\<close> as the program uses it: options with a value, after one or two dashes, up to
  the first argument that is not one; and \<open>strconv.ParseInt(s, 0, 64)\<close>, which sets integer options.
\<close>

section \<open>Integers in base 0\<close>

definition same_letter :: "char \<Rightarrow> char \<Rightarrow> bool" where
  "same_letter c l = (lower_char c = l)"

definition base_prefix :: "string \<Rightarrow> nat option" where
  "base_prefix s =
     (case s of
        z # c # rest \<Rightarrow>
          if z \<noteq> CHR ''0'' then None
          else if same_letter c (CHR ''b'') then Some 2
          else if same_letter c (CHR ''o'') then Some 8
          else if same_letter c (CHR ''x'') then Some 16 else None
      | _ \<Rightarrow> None)"

definition any_digit :: "char \<Rightarrow> nat option" where
  "any_digit c =
     (if is_digit c then Some (digit_val c)
      else if is_lower (lower_char c) then Some (of_char (lower_char c) - 87) else None)"

text \<open>The digits after the prefix, underscores skipped.\<close>

fun base_value :: "nat \<Rightarrow> nat \<Rightarrow> string \<Rightarrow> nat option" where
  "base_value base n [] = Some n"
| "base_value base n (c # cs) =
     (if c = CHR ''_'' then base_value base n cs
      else case any_digit c of
        None \<Rightarrow> None
      | Some d \<Rightarrow> if d \<ge> base then None else base_value base (n * base + d) cs)"

datatype last_seen = Start | Digit | Underscore | Elsewhere

fun underscores_ok :: "bool \<Rightarrow> last_seen \<Rightarrow> string \<Rightarrow> bool" where
  "underscores_ok hex seen [] = (seen \<noteq> Underscore)"
| "underscores_ok hex seen (c # cs) =
     (if is_digit c \<or> hex \<and> CHR ''a'' \<le> lower_char c \<and> lower_char c \<le> CHR ''f'' then underscores_ok hex Digit cs
      else if c = CHR ''_'' then seen = Digit \<and> underscores_ok hex Underscore cs
      else seen \<noteq> Underscore \<and> underscores_ok hex Elsewhere cs)"

definition underscore_ok :: "string \<Rightarrow> bool" where
  "underscore_ok s =
     (case base_prefix s of
        Some b \<Rightarrow> underscores_ok (b = 16) Digit (drop 2 s)
      | None \<Rightarrow> underscores_ok False Start s)"

text \<open>\<open>ParseUint\<close>; a prefix alone is not one, and a leading zero means octal.\<close>

definition parse_base0 :: "string \<Rightarrow> nat option" where
  "parse_base0 s =
     (if s = [] then None
      else
        (case (if length s \<ge> 3 then base_prefix s else None) of
           Some b \<Rightarrow> base_value b 0 (drop 2 s)
         | None \<Rightarrow> if hd s = CHR ''0'' then base_value 8 0 (tl s) else base_value 10 0 s))"

definition parse_int :: "string \<Rightarrow> int option" where
  "parse_int s =
     (let neg = (take 1 s = ''-'');
          ds = (if take 1 s = ''-'' \<or> take 1 s = ''+'' then drop 1 s else s)
      in case parse_base0 ds of
           None \<Rightarrow> None
         | Some n \<Rightarrow>
             if CHR ''_'' \<in> set ds \<and> \<not> underscore_ok ds then None
             else if neg then (if n \<le> 2 ^ 63 then Some (- int n) else None)
             else (if n < 2 ^ 63 then Some (int n) else None))"

section \<open>Options\<close>

datatype flag_kind = Text | Number
datatype flag_value = TextValue string | NumberValue int

type_synonym flag_set = "(string \<times> flag_kind) list"
type_synonym settings = "(string \<times> flag_value) list"

definition set_flag :: "flag_kind \<Rightarrow> string \<Rightarrow> (session_error, flag_value) result" where
  "set_flag k v =
     (case k of
        Text \<Rightarrow> Inr (TextValue v)
      | Number \<Rightarrow> (case parse_int v of None \<Rightarrow> Inl (Refused ''invalid value'') | Some i \<Rightarrow> Inr (NumberValue i)))"

text \<open>The name and value after the dashes: the first byte is never taken for the equals sign.\<close>

definition split_option :: "string \<Rightarrow> string \<times> string option" where
  "split_option s =
     (case s of
        [] \<Rightarrow> ([], None)
      | c # cs \<Rightarrow> (case cut_char (CHR ''='') cs of (a, b, found) \<Rightarrow> (c # a, if found then Some b else None)))"

definition option_text :: "string \<Rightarrow> string" where
  "option_text arg = (if take 2 arg = ''--'' then drop 2 arg else drop 1 arg)"

definition is_option :: "string \<Rightarrow> bool" where
  "is_option arg = (length arg \<ge> 2 \<and> hd arg = CHR ''-'' \<and> arg \<noteq> ''--'')"

fun parse_flags :: "flag_set \<Rightarrow> string list \<Rightarrow> (session_error, settings \<times> string list) result" where
  "parse_flags fs [] = Inr ([], [])"
| "parse_flags fs (arg # rest) =
     (if arg = ''--'' then Inr ([], rest)
      else if \<not> is_option arg then Inr ([], arg # rest)
      else let text = option_text arg in
        if text = [] \<or> hd text = CHR ''-'' \<or> hd text = CHR ''='' then Inl (Refused ''bad flag syntax'')
        else (case split_option text of (name, value) \<Rightarrow>
          case map_of fs name of
            None \<Rightarrow> Inl (Refused ''flag provided but not defined'')
          | Some k \<Rightarrow>
              (case value of
                 Some v \<Rightarrow>
                   bindE (set_flag k v) (\<lambda>x. bindE (parse_flags fs rest) (\<lambda>(sets, left). Inr ((name, x) # sets, left)))
               | None \<Rightarrow>
                   (case rest of
                      [] \<Rightarrow> Inl (Refused ''flag needs an argument'')
                    | v # rest' \<Rightarrow>
                        bindE (set_flag k v) (\<lambda>x. bindE (parse_flags fs rest') (\<lambda>(sets, left). Inr ((name, x) # sets, left)))))))"

text \<open>The value of an option after parsing: the one set last, or its default.\<close>

definition text_of :: "settings \<Rightarrow> string \<Rightarrow> string \<Rightarrow> string" where
  "text_of sets name dflt = (case map_of (rev sets) name of Some (TextValue v) \<Rightarrow> v | _ \<Rightarrow> dflt)"

definition number_of :: "settings \<Rightarrow> string \<Rightarrow> int \<Rightarrow> int" where
  "number_of sets name dflt = (case map_of (rev sets) name of Some (NumberValue v) \<Rightarrow> v | _ \<Rightarrow> dflt)"

section \<open>Decimal numbers\<close>

lemma base_value_digits: "all_digits s \<Longrightarrow> base_value 10 n s = Some (n * 10 ^ length s + digits_val s)"
proof (induction s arbitrary: n)
  case (Cons c s)
  then have c: "is_digit c" "all_digits s" by (simp_all add: all_digits_def)
  then have "c \<noteq> CHR ''_''" "any_digit c = Some (digit_val c)" "digit_val c < 10"
    by (auto simp: is_digit_code any_digit_def digit_val_less)
  moreover have "digits_val (c # s) = digit_val c * 10 ^ length s + digits_val s"
    using digits_val_append [of "[c]" s] by (simp add: digits_val_def)
  ultimately show ?case using Cons(1) [OF c(2), of "n * 10 + digit_val c"] by (simp add: algebra_simps)
qed (simp add: digits_val_def)

lemma parse_int_itoa: "0 < i \<Longrightarrow> i < 2 ^ 63 \<Longrightarrow> parse_int (itoa i) = Some i"
proof -
  assume i: "0 < i" "i < 2 ^ 63"
  let ?s = "show_nat (nat i)"
  have d: "all_digits ?s" "?s \<noteq> []" by (simp_all add: show_nat_digits)
  have z: "hd ?s \<noteq> CHR ''0''" using i by (intro show_nat_hd) simp
  then have "base_prefix ?s = None" using d(2) by (cases ?s) (auto simp: base_prefix_def split: list.splits)
  then have "parse_base0 ?s = Some (nat i)"
    using z d base_value_digits [OF d(1), of 0] by (simp add: parse_base0_def)
  moreover have "CHR ''_'' \<notin> set ?s" using d(1) by (auto simp: all_digits_def list_all_iff is_digit_code)
  ultimately show ?thesis using i all_digits_not_sign [OF d(1)] by (simp add: parse_int_def itoa_def Let_def)
qed

end
