(* ===== verification/Session_Arguments.thy ===== *)
theory Session_Arguments
  imports Go_Flags
begin

text \<open>
  The arguments of a transfer: \<open>hcorral session\<close> (\<open>parseSession\<close> in \<open>internal/app/session.go\<close>), what the
  launcher passes to an endpoint (\<open>transferArgs\<close> in \<open>internal/sessiontransport/transfer.go\<close>) and how
  the endpoint reads it (\<open>Run\<close> in \<open>internal/sessionhelper/helper.go\<close>).
\<close>

section \<open>The command of the user\<close>

record session_request =
  sr_operation :: string
  sr_id :: string
  sr_host_home :: string
  sr_host_sqlite :: string
  sr_container_sqlite :: string
  sr_format :: string
  sr_limits :: limits
  sr_help :: bool

definition session_flags :: flag_set where
  "session_flags =
     [(''host-sqlite-home'', Text), (''container-sqlite-home'', Text), (''format'', Text), (''record-bytes'', Number),
      (''file-bytes'', Number), (''files'', Number), (''manifest-bytes'', Number)]"

definition help_request :: session_request where
  "help_request = \<lparr>sr_operation = [], sr_id = [], sr_host_home = [], sr_host_sqlite = [], sr_container_sqlite = [],
     sr_format = ''human'', sr_limits = default_limits, sr_help = True\<rparr>"

text \<open>Positions and options; nothing when help was asked for.\<close>

fun split_args ::
  "string list \<Rightarrow> string list \<Rightarrow> string list \<Rightarrow> (session_error, (string list \<times> string list) option) result"
where
  "split_args [] positions options = Inr (Some (positions, options))"
| "split_args (arg # rest) positions options =
     (if arg = ''--'' then Inr (Some (positions @ rest, options))
      else if arg = ''--help'' \<or> arg = ''-h'' then Inr None
      else if \<not> has_prefix arg ''-'' then split_args rest (positions @ [arg]) options
      else (case cut_char (CHR ''='') (trim_prefix arg ''--'') of (name, value, has_value) \<Rightarrow>
        if \<not> has_prefix arg ''--'' \<or> map_of session_flags name = None then Inl (Refused ''unknown session option'')
        else if has_value then split_args rest positions (options @ [arg])
        else (case rest of
            [] \<Rightarrow> Inl (Refused ''requires a value'')
          | v # rest' \<Rightarrow> split_args rest' positions (options @ [arg, v]))))"

definition limits_of :: "settings \<Rightarrow> limits" where
  "limits_of sets =
     \<lparr>lm_record = number_of sets ''record-bytes'' (lm_record default_limits),
      lm_file = number_of sets ''file-bytes'' (lm_file default_limits),
      lm_files = number_of sets ''files'' (lm_files default_limits),
      lm_manifest = number_of sets ''manifest-bytes'' (lm_manifest default_limits)\<rparr>"

definition empty_home :: "settings \<Rightarrow> string \<Rightarrow> bool" where
  "empty_home sets name = (name \<in> set (map fst sets) \<and> text_of sets name [] = [])"

definition check_request :: "string \<Rightarrow> string list \<Rightarrow> settings \<Rightarrow> (session_error, session_request) result" where
  "check_request operation positions sets =
     (if empty_home sets ''host-sqlite-home'' \<or> empty_home sets ''container-sqlite-home''
      then Inl (Refused ''must not be empty'')
      else if positions = [] \<or> length positions > 2
      then Inl (Refused ''expected session UUID and optional host Codex home'')
      else bindE (parse_id (hd positions)) (\<lambda>i.
        if length positions = 2 \<and> positions ! 1 = [] then Inl (Refused ''explicit host Codex home must not be empty'')
        else let format = text_of sets ''format'' ''human''; container = text_of sets ''container-sqlite-home'' [] in
        if format \<noteq> ''human'' \<and> format \<noteq> ''json'' then Inl (Refused ''session --format must be human or json'')
        else if container \<noteq> [] \<and> \<not> is_abs container
        then Inl (Refused ''--container-sqlite-home must be absolute in the container'')
        else bindE (valid_limits (limits_of sets)) (\<lambda>_.
          Inr \<lparr>sr_operation = operation, sr_id = i, sr_host_home = (if length positions = 2 then positions ! 1 else []),
               sr_host_sqlite = text_of sets ''host-sqlite-home'' [], sr_container_sqlite = container,
               sr_format = format, sr_limits = limits_of sets, sr_help = False\<rparr>)))"

definition parse_session :: "string list \<Rightarrow> (session_error, session_request) result" where
  "parse_session args =
     (if args = [] then Inl (Refused ''session requires export or import'')
      else if length args = 1 \<and> hd args \<in> {''--help'', ''-h'', ''help''} then Inr help_request
      else if hd args \<noteq> ''export'' \<and> hd args \<noteq> ''import'' then Inl (Refused ''session requires export or import'')
      else bindE (split_args (tl args) [] []) (\<lambda>s.
        case s of
          None \<Rightarrow> Inr (help_request\<lparr>sr_operation := hd args\<rparr>)
        | Some (positions, options) \<Rightarrow>
            bindE (parse_flags session_flags options) (\<lambda>(sets, rest). check_request (hd args) positions sets)))"

section \<open>The arguments of an endpoint\<close>

definition transfer_args :: "string \<Rightarrow> string \<Rightarrow> string \<Rightarrow> string \<Rightarrow> limits \<Rightarrow> string list" where
  "transfer_args operation home sqliteHome thread l =
     [operation, ''--protocol='' @ itoa 1, ''--home'', home, ''--sqlite-home'', sqliteHome, ''--id'', thread,
      ''--record-bytes='' @ itoa (lm_record l), ''--file-bytes='' @ itoa (lm_file l), ''--files='' @ itoa (lm_files l),
      ''--manifest-bytes='' @ itoa (lm_manifest l)]"

record helper_request =
  hr_operation :: string
  hr_home :: string
  hr_sqlite :: string
  hr_id :: string
  hr_limits :: limits

definition helper_flags :: flag_set where
  "helper_flags =
     [(''protocol'', Number), (''home'', Text), (''sqlite-home'', Text), (''id'', Text), (''record-bytes'', Number),
      (''file-bytes'', Number), (''files'', Number), (''manifest-bytes'', Number)]"

text \<open>\<open>Run\<close> up to its first effect; nothing is the request for the capabilities.\<close>

definition parse_helper :: "string list \<Rightarrow> (session_error, helper_request option) result" where
  "parse_helper args =
     (if args = [''protocol''] then Inr None
      else if args = [] \<or> hd args \<noteq> ''export'' \<and> hd args \<noteq> ''import''
      then Inl (Refused ''expected protocol, export or import operation'')
      else bindE (parse_flags helper_flags (tl args)) (\<lambda>(sets, rest).
        if rest \<noteq> [] \<or> number_of sets ''protocol'' 0 \<noteq> 1
        then Inl (Refused ''unexpected arguments or incompatible transfer protocol'')
        else let home = text_of sets ''home'' []; sqliteHome = text_of sets ''sqlite-home'' [] in
        if \<not> is_abs home \<or> \<not> is_abs sqliteHome
        then Inl (Refused ''absolute --home and --sqlite-home paths are required'')
        else bindE (parse_id (text_of sets ''id'' [])) (\<lambda>i.
             bindE (valid_limits (limits_of sets)) (\<lambda>_.
               Inr (Some \<lparr>hr_operation = hd args, hr_home = home, hr_sqlite = sqliteHome, hr_id = i, hr_limits = limits_of sets\<rparr>)))))"

section \<open>Options and their values\<close>

text \<open>The options the launcher collects are the options \<open>flag\<close> sees: each one with its value.\<close>

definition option_name :: "string \<Rightarrow> string" where
  "option_name arg = fst (cut_char (CHR ''='') (drop 2 arg))"

definition has_value :: "string \<Rightarrow> bool" where
  "has_value arg = snd (snd (cut_char (CHR ''='') (drop 2 arg)))"

definition own_value :: "string \<Rightarrow> string" where
  "own_value arg = fst (snd (cut_char (CHR ''='') (drop 2 arg)))"

fun option_pairs :: "string list \<Rightarrow> (string \<times> string) list" where
  "option_pairs [] = []"
| "option_pairs [arg] = [(option_name arg, own_value arg)]"
| "option_pairs (arg # v # rest) =
     (if has_value arg then (option_name arg, own_value arg) # option_pairs (v # rest)
      else (option_name arg, v) # option_pairs rest)"

fun option_list :: "flag_set \<Rightarrow> string list \<Rightarrow> bool" where
  "option_list fs [] = True"
| "option_list fs [arg] = (has_prefix arg ''--'' \<and> map_of fs (option_name arg) \<noteq> None \<and> has_value arg)"
| "option_list fs (arg # v # rest) =
     (has_prefix arg ''--'' \<and> map_of fs (option_name arg) \<noteq> None \<and>
      (if has_value arg then option_list fs (v # rest) else option_list fs rest))"

definition set_option :: "flag_set \<Rightarrow> string \<times> string \<Rightarrow> (session_error, string \<times> flag_value) result" where
  "set_option fs p =
     bindE (try_opt (Refused ''flag provided but not defined'') (map_of fs (fst p))) (\<lambda>k.
     bindE (set_flag k (snd p)) (\<lambda>x. Inr (fst p, x)))"

lemma option_list_append:
  "option_list fs xs \<Longrightarrow> option_list fs ys \<Longrightarrow>
     option_list fs (xs @ ys) \<and> option_pairs (xs @ ys) = option_pairs xs @ option_pairs ys"
proof (induction fs xs rule: option_list.induct)
  case (2 fs arg)
  then show ?case by (cases ys) simp_all
qed auto

lemma dashes: "has_prefix arg ''--'' \<Longrightarrow> arg = ''--'' @ drop 2 arg \<and> trim_prefix arg ''--'' = drop 2 arg"
  by (cases arg; cases "tl arg") (auto simp: trim_prefix_def)

lemma split_args_options:
  "split_args args positions options = Inr (Some (positions', options')) \<Longrightarrow> option_list session_flags options \<Longrightarrow>
     option_list session_flags options'"
proof (induction args positions options rule: split_args.induct)
  case (2 arg rest positions options)
  show ?case
  proof (cases "arg = ''--'' \<or> arg = ''--help'' \<or> arg = ''-h'' \<or> \<not> has_prefix arg ''-''")
    case True
    then show ?thesis using 2 by (auto split: if_split_asm)
  next
    case False
    obtain name val found where c: "cut_char (CHR ''='') (trim_prefix arg ''--'') = (name, val, found)" by (metis prod_cases3)
    obtain k where k: "has_prefix arg ''--''" "map_of session_flags name = Some k" using 2(4) False c by (auto split: if_split_asm)
    then have n: "option_name arg = name" "has_value arg = found" using c dashes [of arg] by (simp_all add: option_name_def has_value_def)
    show ?thesis
    proof (cases found)
      case True
      have "option_list session_flags (options @ [arg])" using option_list_append [OF 2(5), of "[arg]"] k n True by simp
      then show ?thesis using 2(2) [of name "(val, found)" val found] 2(4) False c k True by simp
    next
      case none: False
      show ?thesis
      proof (cases rest)
        case (Cons v rest')
        have "option_list session_flags (options @ [arg, v])" using option_list_append [OF 2(5), of "[arg, v]"] k n none by simp
        then show ?thesis using 2(3) [of name "(val, found)" val found v rest'] 2(4) False c k none Cons by simp
      qed (use 2(4) False c k none in simp)
    qed
  qed
qed simp

definition plain_names :: "flag_set \<Rightarrow> bool" where
  "plain_names fs \<longleftrightarrow> list_all (\<lambda>p. fst p \<noteq> [] \<and> hd (fst p) \<noteq> CHR ''-'') fs"

lemma option_head:
  assumes "has_prefix arg ''--''" "map_of fs (option_name arg) = Some k" "plain_names fs"
  shows "is_option arg" "option_text arg = drop 2 arg" "drop 2 arg \<noteq> []" "hd (drop 2 arg) \<noteq> CHR ''-''"
    "hd (drop 2 arg) \<noteq> CHR ''=''" "arg \<noteq> ''--''"
    "split_option (drop 2 arg) = (option_name arg, if has_value arg then Some (own_value arg) else None)"
proof -
  have "(option_name arg, k) \<in> set fs" using assms(2) by (rule map_of_SomeD)
  then have n: "option_name arg \<noteq> []" "hd (option_name arg) \<noteq> CHR ''-''" using assms(3) by (auto simp: plain_names_def list_all_iff)
  then obtain c cs where t: "drop 2 arg = c # cs" "c \<noteq> CHR ''=''" "c \<noteq> CHR ''-''"
    by (cases "drop 2 arg") (auto simp: option_name_def split: if_split_asm prod.splits)
  note a = conjunct1 [OF dashes [OF assms(1)]]
  then have arg: "arg = CHR ''-'' # CHR ''-'' # c # cs" using t by simp
  show "is_option arg" "option_text arg = drop 2 arg" "drop 2 arg \<noteq> []" "hd (drop 2 arg) \<noteq> CHR ''-''"
    "hd (drop 2 arg) \<noteq> CHR ''=''" "arg \<noteq> ''--''"
    using t unfolding arg by (simp_all add: is_option_def option_text_def)
  show "split_option (drop 2 arg) = (option_name arg, if has_value arg then Some (own_value arg) else None)"
    using t by (simp add: split_option_def option_name_def has_value_def own_value_def split: prod.splits)
qed

lemma parse_flags_pairs:
  "option_list fs options \<Longrightarrow> plain_names fs \<Longrightarrow>
     parse_flags fs options = bindE (mapE (set_option fs) (option_pairs options)) (\<lambda>sets. Inr (sets, []))"
proof (induction fs options rule: option_list.induct)
  case (2 fs arg)
  then obtain k where k: "map_of fs (option_name arg) = Some k" "has_prefix arg ''--''" "has_value arg" by auto
  note h = option_head [OF k(2,1) 2(2)]
  show ?case using h k by (simp add: set_option_def bindE_assoc Let_def)
next
  case (3 fs arg v rest)
  then obtain k where k: "map_of fs (option_name arg) = Some k" "has_prefix arg ''--''" by auto
  note h = option_head [OF k(2,1) 3(4)]
  show ?case
  proof (cases "has_value arg")
    case True
    then have "parse_flags fs (v # rest) = bindE (mapE (set_option fs) (option_pairs (v # rest))) (\<lambda>sets. Inr (sets, []))"
      using 3 by simp
    then show ?thesis using h k True by (subst parse_flags.simps) (simp add: set_option_def bindE_assoc Let_def)
  next
    case False
    then have "parse_flags fs rest = bindE (mapE (set_option fs) (option_pairs rest)) (\<lambda>sets. Inr (sets, []))"
      using 3 by simp
    then show ?thesis using h k False by (subst parse_flags.simps) (simp add: set_option_def bindE_assoc Let_def)
  qed
qed simp

lemma plain_session_flags: "plain_names session_flags" and plain_helper_flags: "plain_names helper_flags"
  by (simp_all add: plain_names_def session_flags_def helper_flags_def)

section \<open>The endpoint reads what the launcher writes\<close>

definition limits_in_range :: "limits \<Rightarrow> bool" where
  "limits_in_range l \<longleftrightarrow> lm_record l < 2 ^ 63 \<and> lm_file l < 2 ^ 63 \<and> lm_files l < 2 ^ 63 \<and> lm_manifest l < 2 ^ 63"

definition sent_settings :: "string \<Rightarrow> string \<Rightarrow> string \<Rightarrow> limits \<Rightarrow> settings" where
  "sent_settings home sqliteHome thread l =
     [(''protocol'', NumberValue 1), (''home'', TextValue home), (''sqlite-home'', TextValue sqliteHome), (''id'', TextValue thread),
      (''record-bytes'', NumberValue (lm_record l)), (''file-bytes'', NumberValue (lm_file l)), (''files'', NumberValue (lm_files l)),
      (''manifest-bytes'', NumberValue (lm_manifest l))]"

lemma sent_options:
  "option_list helper_flags (tl (transfer_args operation home sqliteHome thread l)) \<and>
   option_pairs (tl (transfer_args operation home sqliteHome thread l)) =
     [(''protocol'', itoa 1), (''home'', home), (''sqlite-home'', sqliteHome), (''id'', thread),
      (''record-bytes'', itoa (lm_record l)), (''file-bytes'', itoa (lm_file l)), (''files'', itoa (lm_files l)),
      (''manifest-bytes'', itoa (lm_manifest l))]"
  by (simp add: transfer_args_def option_name_def has_value_def own_value_def helper_flags_def)

lemma sent_parsed:
  assumes "valid_limits l = Inr ()" "limits_in_range l"
  shows "parse_flags helper_flags (tl (transfer_args operation home sqliteHome thread l)) =
    Inr (sent_settings home sqliteHome thread l, [])"
proof -
  have "0 < lm_record l" "0 < lm_file l" "0 < lm_files l" "0 < lm_manifest l"
    using assms(1) by (auto simp: valid_limits_def split: if_split_asm)
  then have "mapE (set_option helper_flags) (option_pairs (tl (transfer_args operation home sqliteHome thread l))) =
      Inr (sent_settings home sqliteHome thread l)"
    using assms(2) parse_int_itoa [of 1]
    by (simp add: sent_options set_option_def set_flag_def helper_flags_def parse_int_itoa limits_in_range_def sent_settings_def)
  then show ?thesis using parse_flags_pairs [OF _ plain_helper_flags] sent_options by simp
qed

section \<open>A sample\<close>

definition sample_command :: "string list" where
  "sample_command = [''export'', ''--files'', ''0x10'', sample_id, ''--format=json'', ''--'', ''/home/u/.codex'']"

lemma sample_parsed:
  "\<exists>r. parse_session sample_command = Inr r \<and> \<not> sr_help r \<and> lm_files (sr_limits r) = 16 \<and> sr_format r = ''json'' \<and> sr_id r = sample_id"
proof -
  have "case parse_session sample_command of Inl _ \<Rightarrow> False
    | Inr r \<Rightarrow> \<not> sr_help r \<and> lm_files (sr_limits r) = 16 \<and> sr_format r = ''json'' \<and> sr_id r = sample_id" by code_simp
  then show ?thesis by (auto split: sum.splits)
qed

lemma args_read:
  assumes "operation = ''export'' \<or> operation = ''import''" "is_abs home" "is_abs sqliteHome"
    "parse_id thread = Inr thread" "valid_limits l = Inr ()" "limits_in_range l"
  shows "parse_helper (transfer_args operation home sqliteHome thread l) =
    Inr (Some \<lparr>hr_operation = operation, hr_home = home, hr_sqlite = sqliteHome, hr_id = thread, hr_limits = l\<rparr>)"
proof -
  have "limits_of (sent_settings home sqliteHome thread l) = l"
    by (simp add: limits_of_def sent_settings_def number_of_def)
  moreover have "number_of (sent_settings home sqliteHome thread l) ''protocol'' 0 = 1"
    "text_of (sent_settings home sqliteHome thread l) ''home'' [] = home"
    "text_of (sent_settings home sqliteHome thread l) ''sqlite-home'' [] = sqliteHome"
    "text_of (sent_settings home sqliteHome thread l) ''id'' [] = thread"
    by (simp_all add: sent_settings_def number_of_def text_of_def)
  moreover have "transfer_args operation home sqliteHome thread l \<noteq> [''protocol'']" "transfer_args operation home sqliteHome thread l \<noteq> []"
    "hd (transfer_args operation home sqliteHome thread l) = operation" by (simp_all add: transfer_args_def)
  ultimately show ?thesis
    using sent_parsed [OF assms(5,6), of operation home sqliteHome thread] assms(1-5)
    by (auto simp: parse_helper_def)
qed

section \<open>Properties\<close>

text \<open>C37: An endpoint reads exactly what the launcher wrote: for an operation of the protocol, absolute
  homes, a thread and limits that are valid and fit into 64 bits, parsing the arguments that
  \<open>transferArgs\<close> builds gives them back, whatever characters the paths contain.\<close>

theorem transfer_args_roundtrip:
  assumes "operation = ''export'' \<or> operation = ''import''" "is_abs home" "is_abs sqliteHome"
    "parse_id thread = Inr thread" "valid_limits l = Inr ()" "limits_in_range l"
  shows "parse_helper (transfer_args operation home sqliteHome thread l) =
    Inr (Some \<lparr>hr_operation = operation, hr_home = home, hr_sqlite = sqliteHome, hr_id = thread, hr_limits = l\<rparr>)"
  using assms by (rule args_read)

theorem transfer_args_roundtrip_witness:
  "parse_helper (transfer_args ''import'' ''/--home=x'' ''/s'' sample_id default_limits) =
     Inr (Some \<lparr>hr_operation = ''import'', hr_home = ''/--home=x'', hr_sqlite = ''/s'', hr_id = sample_id, hr_limits = default_limits\<rparr>)"
proof -
  have "is_abs ''/--home=x''" "is_abs ''/s''" "parse_id sample_id = Inr sample_id" "valid_limits default_limits = Inr ()"
    "limits_in_range default_limits" by code_simp+
  then show ?thesis by (intro transfer_args_roundtrip) simp_all
qed

text \<open>C39: What \<open>parseSession\<close> accepts is complete and checked: the operation is one of the two, the
  options it collected are consumed by the flag parser to the last one, each with the value that
  belongs to it, the identity is a whole lower-case UUID, the format is known, a container database
  home is absolute, an option for a database home is not empty, and the limits are valid.\<close>

theorem parse_session_sound:
  assumes "parse_session args = Inr r" "\<not> sr_help r"
  shows "sr_operation r \<in> {''export'', ''import''} \<and> parse_id (sr_id r) = Inr (sr_id r) \<and> sr_format r \<in> {''human'', ''json''} \<and>
    (sr_container_sqlite r = [] \<or> is_abs (sr_container_sqlite r)) \<and> valid_limits (sr_limits r) = Inr () \<and>
    (\<exists>positions options sets. split_args (tl args) [] [] = Inr (Some (positions, options)) \<and>
       mapE (set_option session_flags) (option_pairs options) = Inr sets \<and>
       parse_flags session_flags options = Inr (sets, []) \<and> sr_limits r = limits_of sets \<and>
       parse_id (hd positions) = Inr (sr_id r) \<and> \<not> empty_home sets ''host-sqlite-home'' \<and> \<not> empty_home sets ''container-sqlite-home'')"
proof -
  have a: "args \<noteq> []" "hd args \<in> {''export'', ''import''}"
    using assms by (auto simp: parse_session_def help_request_def split: if_split_asm)
  obtain positions options where s: "split_args (tl args) [] [] = Inr (Some (positions, options))"
    using assms a by (auto simp: parse_session_def help_request_def result_iff split: if_split_asm option.splits)
  note o' = parse_flags_pairs [OF split_args_options [OF s] plain_session_flags]
  obtain sets where p: "mapE (set_option session_flags) (option_pairs options) = Inr sets" "parse_flags session_flags options = Inr (sets, [])"
    and c: "check_request (hd args) positions sets = Inr r"
    using assms a s o' by (auto simp: parse_session_def help_request_def result_iff split: if_split_asm)
  have "parse_id (sr_id r) = Inr (sr_id r)" if "parse_id (hd positions) = Inr (sr_id r)" using that by (rule parse_id_fixed)
  then show ?thesis using c a s p
    by (auto simp: check_request_def result_iff Let_def split: if_split_asm)
qed

theorem parse_session_sound_witness:
  "case parse_session sample_command of Inl _ \<Rightarrow> False
   | Inr r \<Rightarrow> lm_files (sr_limits r) = 16 \<and> sr_format r = ''json'' \<and> sr_id r = sample_id \<and> valid_limits (sr_limits r) = Inr ()"
proof -
  obtain r where r: "parse_session sample_command = Inr r" "\<not> sr_help r" "lm_files (sr_limits r) = 16" "sr_format r = ''json''"
    "sr_id r = sample_id" using sample_parsed by blast
  then show ?thesis using parse_session_sound [OF r(1,2)] by simp
qed

end
