(* ===== verification/Session_Config.thy ===== *)
theory Session_Config
  imports Session_Rollout
begin

text \<open>
  Where Codex keeps its database (\<open>internal/sessionconfig/sqlite.go\<close>): the layers of configuration
  in the order of their precedence, and the project files that make the answer uncertain.  Reading a
  file and decoding its TOML are parameters.
\<close>

section \<open>Settings\<close>

record sqlite_options =
  so_home :: string
  so_cwd :: string
  so_environment :: string
  so_explicit :: string

record resolution =
  rs_path :: string
  rs_source :: string

text \<open>A read finds no file, fails (also because the context is over), or gives the bytes.\<close>

datatype file_read = NoFile | Unreadable session_error | Content string

text \<open>How a file reads, and what its TOML says of \<open>sqlite_home\<close> when it parses.\<close>

record config_reader =
  cr_read :: "string \<Rightarrow> file_read"
  cr_toml :: "string \<Rightarrow> string option option"

definition maximum_config_bytes :: nat where
  "maximum_config_bytes = 8 * 2 ^ 20"

definition resolved_in :: "string \<Rightarrow> string \<Rightarrow> string \<Rightarrow> (session_error, resolution) result" where
  "resolved_in v base source =
     (if v = [] \<or> contains_any v [CHR 0x00, CHR 0x0D, CHR 0x0A] then Inl (Refused ''invalid SQLite directory'')
      else Inr \<lparr>rs_path = clean (if is_abs v then v else path_join [base, v]), rs_source = source\<rparr>)"

definition sqlite_setting :: "config_reader \<Rightarrow> string \<Rightarrow> (session_error, string option) result" where
  "sqlite_setting rd name =
     (case cr_read rd name of
        NoFile \<Rightarrow> Inr None
      | Unreadable e \<Rightarrow> Inl e
      | Content data \<Rightarrow>
          if length data > maximum_config_bytes then Inl (Refused ''Codex configuration exceeds its limit'')
          else try_opt (Refused ''cannot parse sqlite_home'') (cr_toml rd data))"

section \<open>The layers\<close>

definition apply_layer ::
  "config_reader \<Rightarrow> resolution \<times> bool \<Rightarrow> string \<Rightarrow> (session_error, resolution \<times> bool) result" where
  "apply_layer rd acc name =
     bindE (sqlite_setting rd name) (\<lambda>v.
       case v of
         None \<Rightarrow> Inr acc
       | Some v \<Rightarrow> bindE (resolved_in v (path_dir name) (name @ '':sqlite_home'')) (\<lambda>r. Inr (r, True)))"

definition environment_layer :: "sqlite_options \<Rightarrow> (session_error, resolution) result" where
  "environment_layer opts =
     (let v = trim_space (so_environment opts) in
      if v \<noteq> [] then resolved_in v (so_cwd opts) ''CODEX_SQLITE_HOME''
      else Inr \<lparr>rs_path = clean (so_home opts), rs_source = ''Codex home default''\<rparr>)"

definition home_config :: "sqlite_options \<Rightarrow> string" where
  "home_config opts = path_join [so_home opts, ''config.toml'']"

definition project_config :: "string \<Rightarrow> string" where
  "project_config dir = path_join [dir, ''.codex'', ''config.toml'']"

text \<open>The loop over the working directory and its parents; nothing means that the fuel is used up.\<close>

fun check_projects :: "config_reader \<Rightarrow> sqlite_options \<Rightarrow> nat \<Rightarrow> string \<Rightarrow> (session_error, unit) result option" where
  "check_projects rd opts 0 dir = None"
| "check_projects rd opts (Suc n) dir =
     (case (if project_config dir = home_config opts then Inr None else sqlite_setting rd (project_config dir)) of
        Inl e \<Rightarrow> Some (Inl e)
      | Inr (Some v) \<Rightarrow> Some (Inl (Refused ''project configuration declares sqlite_home''))
      | Inr None \<Rightarrow> if dir = ''/'' then Some (Inr ()) else check_projects rd opts n (path_dir dir))"

definition layered_home :: "config_reader \<Rightarrow> sqlite_options \<Rightarrow> (session_error, resolution \<times> bool) result" where
  "layered_home rd opts =
     bindE (environment_layer opts) (\<lambda>r.
     bindE (foldE (apply_layer rd) (r, False) [''/etc/codex/config.toml'', home_config opts]) (\<lambda>(r, _).
       foldE (apply_layer rd) (r, False) [''/etc/codex/requirements.toml'', ''/etc/codex/managed_config.toml'']))"

definition sqlite_home ::
  "bool \<Rightarrow> config_reader option \<Rightarrow> sqlite_options \<Rightarrow> (session_error, resolution) result option" where
  "sqlite_home cancelled reader opts =
     (if \<not> is_abs (so_home opts) \<or> \<not> is_abs (so_cwd opts)
      then Some (Inl (Refused ''Codex home and configuration working directory must be absolute''))
      else if cancelled then Some (Inl Interrupted)
      else if so_explicit opts \<noteq> [] then
        Some (if \<not> is_abs (so_explicit opts) then Inl (Refused ''explicit SQLite home must be resolved to an absolute path'')
              else resolved_in (so_explicit opts) ''/'' ''explicit option'')
      else (case reader of
        None \<Rightarrow> Some (Inl (Refused ''configuration reader is required''))
      | Some rd \<Rightarrow>
          (case layered_home rd opts of
             Inl e \<Rightarrow> Some (Inl e)
           | Inr (r, managed) \<Rightarrow>
               if managed then Some (Inr r)
               else (case check_projects rd opts (length (clean (so_cwd opts))) (clean (so_cwd opts)) of
                   None \<Rightarrow> None
                 | Some (Inl e) \<Rightarrow> Some (Inl e)
                 | Some (Inr _) \<Rightarrow> Some (Inr r)))))"

section \<open>The parents of a directory\<close>

fun parents :: "string list \<Rightarrow> string list" where
  "parents [] = [''/'']"
| "parents (c # cs) = (slash # join_char slash (rev (c # cs))) # parents cs"

definition check_project :: "config_reader \<Rightarrow> sqlite_options \<Rightarrow> string \<Rightarrow> (session_error, unit) result" where
  "check_project rd opts dir =
     (case (if project_config dir = home_config opts then Inr None else sqlite_setting rd (project_config dir)) of
        Inl e \<Rightarrow> Inl e
      | Inr (Some v) \<Rightarrow> Inl (Refused ''project configuration declares sqlite_home'')
      | Inr None \<Rightarrow> Inr ())"

lemma path_dir_join:
  assumes "list_all ordinary cs" "ordinary c"
  shows "path_dir (slash # join_char slash (cs @ [c])) = slash # join_char slash cs"
proof -
  have n: "normal_comps True cs" using assms(1) by (rule ordinary_normal)
  have "split_char slash (join_char slash (cs @ [c])) = cs @ [c]"
    using assms ordinaryD by (intro split_join) (auto simp: list_all_iff)
  then have l: "last (split_char slash (slash # join_char slash (cs @ [c]))) = c" by (simp add: split_slash_Cons)
  show ?thesis
  proof (cases "cs = []")
    case True
    then show ?thesis using l by (simp add: path_dir_def) (simp add: slash_def clean_def is_abs_def clean_comps_def clean_step_def)
  next
    case False
    then have "take (length (slash # join_char slash (cs @ [c])) - length c) (slash # join_char slash (cs @ [c])) =
        slash # join_char slash cs @ [slash]"
      by (simp add: join_char_snoc)
    moreover have "clean_comps True (slash # join_char slash cs @ [slash]) = cs"
      using clean_comps_join [OF n False] split_char_snoc [of slash "join_char slash cs" "[]"]
      by (simp add: clean_comps_slash) (simp add: clean_comps_def clean_step_def)
    ultimately show ?thesis using l
      by (simp add: path_dir_def clean_def) (simp add: is_abs_def slash_def)
  qed
qed

lemma check_projects_step:
  "check_projects rd opts (Suc n) dir =
     (case check_project rd opts dir of
        Inl e \<Rightarrow> Some (Inl e)
      | Inr _ \<Rightarrow> if dir = ''/'' then Some (Inr ()) else check_projects rd opts n (path_dir dir))"
  by (simp add: check_project_def split: sum.splits option.splits)

lemma check_projects_parents:
  "list_all ordinary cs \<Longrightarrow> length cs < n \<Longrightarrow>
     check_projects rd opts n (slash # join_char slash (rev cs)) =
       Some (bindE (mapE (check_project rd opts) (parents cs)) (\<lambda>_. Inr ()))"
proof (induction cs arbitrary: n)
  case Nil
  then obtain m where "n = Suc m" by (cases n) auto
  then show ?case by (cases "check_project rd opts ''/''") (simp_all add: check_projects_step slash_def del: check_projects.simps)
next
  case (Cons c cs)
  then obtain m where m: "n = Suc m" "length cs < m" by (cases n) auto
  have o': "ordinary c" "list_all ordinary (rev cs)" using Cons(2) by simp_all
  then have "join_char slash (rev cs @ [c]) \<noteq> []"
    using ordinaryD [of c] join_normal_Nil [of True "rev cs @ [c]"] ordinary_normal [of "rev cs @ [c]" True] by simp
  then show ?case using Cons(1) [OF _ m(2)] Cons(2) path_dir_join [OF o'(2,1)] m(1)
    by (cases "check_project rd opts (slash # join_char slash (rev cs @ [c]))")
      (simp_all add: check_projects_step bindE_assoc del: check_projects.simps)
qed

text \<open>The components of the cleaned working directory, the innermost first.\<close>

definition components :: "string \<Rightarrow> string list" where
  "components dir = rev (clean_comps True dir)"

lemma components_clean:
  assumes "is_abs dir"
  shows "clean dir = slash # join_char slash (rev (components dir))" "list_all ordinary (components dir)"
    "length (components dir) < length (clean dir)"
proof -
  show c: "clean dir = slash # join_char slash (rev (components dir))"
    using assms by (auto simp: components_def clean_def is_abs_def slash_def)
  have "normal_comps True (clean_comps True dir)" by (rule normal_clean_comps)
  then show o': "list_all ordinary (components dir)" by (auto simp: normal_comps_def components_def)
  have "length cs \<le> length (join_char slash cs)" if "list_all ordinary cs" for cs
    using that by (induction slash cs rule: join_char.induct) (auto simp: Suc_le_eq dest: ordinaryD)
  from this [of "rev (components dir)"] show "length (components dir) < length (clean dir)" using o' unfolding c by simp
qed

section \<open>The last layer that is set\<close>

definition last_set :: "(string \<times> string option) list \<Rightarrow> (session_error, resolution) result \<Rightarrow> resolution \<Rightarrow> bool" where
  "last_set layers below r \<longleftrightarrow>
     (case find (\<lambda>p. snd p \<noteq> None) (rev layers) of
        None \<Rightarrow> below = Inr r
      | Some (name, v) \<Rightarrow> resolved_in (the v) (path_dir name) (name @ '':sqlite_home'') = Inr r)"

lemma layers_set:
  "foldE (apply_layer rd) (r, b) names = Inr (r', b') \<Longrightarrow>
     \<exists>vs. mapE (sqlite_setting rd) names = Inr vs \<and> last_set (zip names vs) (Inr r) r' \<and> b' = (b \<or> (\<exists>v \<in> set vs. v \<noteq> None))"
proof (induction names arbitrary: r' b' rule: rev_induct)
  case (snoc name names)
  obtain r1 b1 where f: "foldE (apply_layer rd) (r, b) names = Inr (r1, b1)" "apply_layer rd (r1, b1) name = Inr (r', b')"
    using snoc(2) by (auto simp: foldE_append result_iff)
  obtain vs where vs: "mapE (sqlite_setting rd) names = Inr vs" "last_set (zip names vs) (Inr r) r1"
    "b1 = (b \<or> (\<exists>v \<in> set vs. v \<noteq> None))" using snoc(1) [OF f(1)] by blast
  obtain v where v: "sqlite_setting rd name = Inr v"
    "(case v of None \<Rightarrow> (r', b') = (r1, b1)
      | Some x \<Rightarrow> resolved_in x (path_dir name) (name @ '':sqlite_home'') = Inr r' \<and> b')"
    using f(2) by (auto simp: apply_layer_def result_iff split: option.splits)
  have "mapE (sqlite_setting rd) (names @ [name]) = Inr (vs @ [v])"
    using vs(1) v(1) by (auto simp: mapE_Inr intro: list_all2_appendI)
  moreover have "length names = length vs" using mapE_length [OF vs(1)] by simp
  ultimately show ?case using vs v(2)
    by (intro exI [of _ "vs @ [v]"]) (auto simp: last_set_def split: option.splits)
qed (simp add: last_set_def)

lemma mapE_applied: "mapE f xs = Inr ys \<Longrightarrow> x \<in> set xs \<Longrightarrow> \<exists>y. f x = Inr y"
  by (induction xs arbitrary: ys) (auto simp: result_iff)

lemma find_append: "find P (xs @ ys) = (case find P xs of None \<Rightarrow> find P ys | Some x \<Rightarrow> Some x)"
  by (induction xs) auto

lemma last_set_append:
  "last_set xs below r1 \<Longrightarrow> last_set ys (Inr r1) r \<Longrightarrow> last_set (xs @ ys) below r"
  by (auto simp: last_set_def find_append split: option.splits)

lemma layered_homeE:
  assumes "layered_home rd opts = Inr (r, managed)"
  obtains vs ws where "mapE (sqlite_setting rd) [''/etc/codex/config.toml'', home_config opts] = Inr vs"
    "mapE (sqlite_setting rd) [''/etc/codex/requirements.toml'', ''/etc/codex/managed_config.toml''] = Inr ws"
    "last_set (zip [''/etc/codex/config.toml'', home_config opts] vs @
       zip [''/etc/codex/requirements.toml'', ''/etc/codex/managed_config.toml''] ws) (environment_layer opts) r"
    "managed = (\<exists>v \<in> set ws. v \<noteq> None)"
proof -
  obtain r0 r1 b1 where f: "environment_layer opts = Inr r0"
    "foldE (apply_layer rd) (r0, False) [''/etc/codex/config.toml'', home_config opts] = Inr (r1, b1)"
    "foldE (apply_layer rd) (r1, False) [''/etc/codex/requirements.toml'', ''/etc/codex/managed_config.toml''] = Inr (r, managed)"
    using assms by (auto simp: layered_home_def result_iff simp del: foldE.simps)
  show thesis
    using layers_set [OF f(2)] layers_set [OF f(3)] last_set_append that unfolding f(1) by (smt (verit, best))
qed

section \<open>A sample\<close>

definition sample_options :: sqlite_options where
  "sample_options = \<lparr>so_home = ''/home/u/.codex'', so_cwd = ''/work'', so_environment = '' db '', so_explicit = []\<rparr>"

definition sample_reader :: config_reader where
  "sample_reader = \<lparr>cr_read = (\<lambda>n. if n = ''/home/u/.codex/config.toml'' then Content ''x'' else NoFile),
     cr_toml = (\<lambda>_. Some (Some ''data''))\<rparr>"

section \<open>Properties\<close>

text \<open>C40: The database home is that of the highest layer that sets it: without an explicit path
  \<open>SQLiteHome\<close> always returns, and when it gives a result, the four configuration files could be
  read, the result is the value of the last of them that sets one, resolved against its directory,
  else the environment, else the Codex home; and unless a managed file decided, no project file
  between the working directory and the root sets it.\<close>

theorem sqlite_home_precedence:
  assumes "is_abs (so_home opts)" "is_abs (so_cwd opts)" "so_explicit opts = []"
  shows "case sqlite_home False (Some rd) opts of
      None \<Rightarrow> False
    | Some (Inl _) \<Rightarrow> True
    | Some (Inr r) \<Rightarrow>
        (\<exists>vs ws. mapE (sqlite_setting rd) [''/etc/codex/config.toml'', home_config opts] = Inr vs \<and>
           mapE (sqlite_setting rd) [''/etc/codex/requirements.toml'', ''/etc/codex/managed_config.toml''] = Inr ws \<and>
           last_set (zip [''/etc/codex/config.toml'', home_config opts] vs @
             zip [''/etc/codex/requirements.toml'', ''/etc/codex/managed_config.toml''] ws) (environment_layer opts) r \<and>
           ((\<forall>v \<in> set ws. v = None) \<longrightarrow>
              (\<forall>dir \<in> set (parents (components (so_cwd opts))).
                 project_config dir = home_config opts \<or> sqlite_setting rd (project_config dir) = Inr None)))"
proof (cases "layered_home rd opts")
  case (Inl e)
  then show ?thesis using assms by (simp add: sqlite_home_def)
next
  case (Inr p)
  obtain r managed where p: "layered_home rd opts = Inr (r, managed)" using Inr by (cases p) auto
  obtain vs ws where l: "mapE (sqlite_setting rd) [''/etc/codex/config.toml'', home_config opts] = Inr vs"
    "mapE (sqlite_setting rd) [''/etc/codex/requirements.toml'', ''/etc/codex/managed_config.toml''] = Inr ws"
    "last_set (zip [''/etc/codex/config.toml'', home_config opts] vs @
       zip [''/etc/codex/requirements.toml'', ''/etc/codex/managed_config.toml''] ws) (environment_layer opts) r"
    "managed = (\<exists>v \<in> set ws. v \<noteq> None)" by (rule layered_homeE [OF p])
  note c = components_clean [OF assms(2)]
  show ?thesis
  proof (cases managed)
    case True
    then have "sqlite_home False (Some rd) opts = Some (Inr r)" using assms p by (simp add: sqlite_home_def)
    then show ?thesis using l True by auto
  next
    case False
    have k: "check_projects rd opts (length (clean (so_cwd opts))) (clean (so_cwd opts)) =
        Some (bindE (mapE (check_project rd opts) (parents (components (so_cwd opts)))) (\<lambda>_. Inr ()))"
      using check_projects_parents [OF c(2,3), of rd opts] unfolding c(1) [symmetric] .
    show ?thesis
    proof (cases "mapE (check_project rd opts) (parents (components (so_cwd opts)))")
      case (Inl e)
      then show ?thesis using assms p False k by (simp add: sqlite_home_def)
    next
      case (Inr us)
      then have "sqlite_home False (Some rd) opts = Some (Inr r)" using assms p False k by (simp add: sqlite_home_def)
      moreover have "project_config dir = home_config opts \<or> sqlite_setting rd (project_config dir) = Inr None"
        if "dir \<in> set (parents (components (so_cwd opts)))" for dir
      proof -
        have "\<exists>u. check_project rd opts dir = Inr u"
          using mapE_applied [OF Inr that] .
        then show ?thesis by (auto simp: check_project_def split: if_split_asm sum.splits option.splits)
      qed
      ultimately show ?thesis using l by auto
    qed
  qed
qed

theorem sqlite_home_precedence_witness:
  "sqlite_home False (Some sample_reader) sample_options =
     Some (Inr \<lparr>rs_path = ''/home/u/.codex/data'', rs_source = ''/home/u/.codex/config.toml:sqlite_home''\<rparr>) \<and>
   sqlite_setting sample_reader (project_config ''/work'') = Inr None"
proof -
  have a: "is_abs (so_home sample_options)" "is_abs (so_cwd sample_options)" "so_explicit sample_options = []" by code_simp+
  have "layered_home sample_reader sample_options =
      Inr (\<lparr>rs_path = ''/home/u/.codex/data'', rs_source = ''/home/u/.codex/config.toml:sqlite_home''\<rparr>, False)"
    "mapE (check_project sample_reader sample_options) (parents (components (so_cwd sample_options))) = Inr [(), ()]"
    "''/work'' \<in> set (parents (components (so_cwd sample_options)))" "home_config sample_options \<noteq> project_config ''/work''"
    by code_simp+
  moreover from this have "sqlite_home False (Some sample_reader) sample_options =
      Some (Inr \<lparr>rs_path = ''/home/u/.codex/data'', rs_source = ''/home/u/.codex/config.toml:sqlite_home''\<rparr>)"
    using components_clean [OF a(2)] check_projects_parents [of "components (so_cwd sample_options)"
      "length (clean (so_cwd sample_options))" sample_reader sample_options] a
    by (simp add: sqlite_home_def)
  moreover have "\<forall>v \<in> set ws. v = None"
    if "mapE (sqlite_setting sample_reader) [''/etc/codex/requirements.toml'', ''/etc/codex/managed_config.toml''] = Inr ws" for ws
    using that by (auto simp: sqlite_setting_def sample_reader_def result_iff)
  ultimately show ?thesis using sqlite_home_precedence [OF a, of sample_reader] by simp metis
qed

end
