(* ===== verification/Session_Transport.thy ===== *)
theory Session_Transport
  imports Session_Target Session_Staging Session_Arguments Session_Config
begin

text \<open>
  The transfer between the host and the storage of a workstation (\<open>internal/sessiontransport\<close>:
  \<open>docker.go\<close>, \<open>transfer.go\<close>, \<open>config.go\<close>, \<open>assets.go\<close>).  A disposable helper container does the
  remote half; its Docker commands are events of the history, like those of the launcher.
\<close>

datatype transport_error =
    TDocker docker_error
  | TRun cmd_error
  | TTarget target_error
  | TOwner ownership_error
  | TSession session_error
  | TRefused string
  | TJoined transport_error transport_error

section \<open>Arguments of a mount\<close>

text \<open>\<open>csv.Writer\<close> on one record of fields that are never empty.\<close>

definition quoted_field :: "string \<Rightarrow> bool" where
  "quoted_field s =
     (s = [CHR 0x5C, CHR ''.''] \<or> list_ex (\<lambda>c. c \<in> set [CHR '','', CHR 0x22, CHR 0x0D, CHR 0x0A]) s \<or>
      (s \<noteq> [] \<and> hd s \<in> set [CHR '' '', CHR 0x09, CHR 0x0B, CHR 0x0C]))"

definition csv_field :: "string \<Rightarrow> string" where
  "csv_field s =
     (if quoted_field s
      then [CHR 0x22] @ concat (map (\<lambda>c. if c = CHR 0x22 then [CHR 0x22, CHR 0x22] else [c]) s) @ [CHR 0x22]
      else s)"

definition csv_fields :: "string list \<Rightarrow> string" where
  "csv_fields fs = join_char (CHR '','') (map csv_field fs)"

definition mount_fields :: "mount \<Rightarrow> string list" where
  "mount_fields m =
     [''type='' @ mt_type m, ''dst='' @ mt_destination m] @
     (if mt_type m = ''volume''
      then [''src='' @ mt_name m, ''volume-nocopy=true''] @ (if mt_subpath m \<noteq> [] then [''volume-subpath='' @ mt_subpath m] else [])
      else [''src='' @ mt_source m, ''bind-propagation='' @ bind_propagation m] @
        (if bo_non_recursive (mt_bind_options m) then [''bind-recursive=disabled''] else []) @
        (if bo_ro_non_recursive (mt_bind_options m) then [''bind-recursive=writable''] else []) @
        (if bo_ro_force_recursive (mt_bind_options m) then [''bind-recursive=readonly''] else [])) @
     (if \<not> mt_rw m then [''readonly=true''] else [])"

definition mount_argument :: "mount \<Rightarrow> string" where
  "mount_argument m = csv_fields (mount_fields m)"

section \<open>The helper container\<close>

definition helper_label :: string where
  "helper_label = ''ai.infrasecture.hcorral.transfer''"

definition helper_path :: string where
  "helper_path = ''/hcorral-session''"

definition overlaps_helper :: "string \<Rightarrow> bool" where
  "overlaps_helper path = (covers path helper_path \<or> covers helper_path path)"

definition check_image :: "target \<Rightarrow> image option \<Rightarrow> (transport_error, image) result" where
  "check_image t io =
     (case io of
        None \<Rightarrow> Inl (TRefused ''image is unavailable locally; no image was pulled'')
      | Some i \<Rightarrow>
          if img_id i \<noteq> tg_image t then Inl (TRefused ''image is unavailable locally; no image was pulled'')
          else if img_os i \<noteq> ''linux'' \<or> (img_architecture i \<noteq> ''amd64'' \<and> img_architecture i \<noteq> ''arm64'')
          then Inl (TRefused ''unsupported helper image platform'')
          else if list_ex (\<lambda>v. \<not> absolute_path v \<or> overlaps_helper v) (img_volumes i)
          then Inl (TRefused ''image volume would hide the supplied helper'')
          else Inr i)"

text \<open>A declared volume of the image that no mount covers gets a small tmpfs.\<close>

fun cover_volumes :: "target \<Rightarrow> string list \<Rightarrow> (transport_error, string list) result" where
  "cover_volumes t [] = Inr []"
| "cover_volumes t (v # vs) =
     (if list_ex (\<lambda>m. mt_destination m = v) (tg_mounts t) then cover_volumes t vs
      else if covers (tg_codex_home t) v \<or> covers (tg_sqlite_home t) v
      then Inl (TRefused ''image volume would shadow selected Codex storage'')
      else bindE (cover_volumes t vs) (\<lambda>args.
        Inr ([''--mount'', csv_fields [''type=tmpfs'', ''dst='' @ v, ''tmpfs-size=1048576'', ''tmpfs-mode=0755'']] @ args)))"

definition create_options :: "target \<Rightarrow> string \<Rightarrow> string \<Rightarrow> string list" where
  "create_options t name token =
     [''docker'', ''create'', ''--name'', name, ''--label'', helper_label @ ''='' @ token,
      ''--network'', ''none'', ''--cap-drop'', ''ALL'', ''--security-opt'', ''no-new-privileges'',
      ''--pids-limit'', ''64'', ''--restart'', ''no'', ''--stop-signal'', ''SIGTERM'', ''--pull'', ''never'', ''--no-healthcheck'',
      ''--interactive'', ''--user'', tg_uid t @ '':'' @ tg_gid t, ''--workdir'', ''/'', ''--entrypoint'', helper_path,
      ''--env'', ''HOME='' @ tg_home t] @
     concat (map (\<lambda>g. [''--group-add'', g]) (tg_groups t)) @
     concat (map (\<lambda>m. [''--mount'', mount_argument m]) (tg_mounts t))"

definition create_argv :: "target \<Rightarrow> string \<Rightarrow> string \<Rightarrow> string list \<Rightarrow> string list \<Rightarrow> string list" where
  "create_argv t name token covered args = create_options t name token @ covered @ [tg_image t] @ args"

definition valid_container_id :: "string \<Rightarrow> bool" where
  "valid_container_id i = (length i = 64 \<and> list_all hex_char i)"

text \<open>The commands on a container, and the errors of their runs.\<close>

definition command_run :: "daemon \<Rightarrow> string list \<Rightarrow> (transport_error, unit) result io" where
  "command_run d argv = andThen (runner_run d argv) (\<lambda>failure. case failure of None \<Rightarrow> okE () | Some e \<Rightarrow> failE (TRun e))"

definition inspect_helper :: "daemon \<Rightarrow> string \<Rightarrow> (transport_error, container option) result io" where
  "inspect_helper d name = map_errE TDocker (inspect_container d name)"

text \<open>A run whose output and error output go to writers.\<close>

definition runner_stream :: "daemon \<Rightarrow> string list \<Rightarrow> (string \<times> string \<times> cmd_error option) io" where
  "runner_stream d argv h =
     (let r = m_exec d h argv in ((oc_out r, oc_err r, command_error (oc_ctx r) (oc_fail r)), h @ [Ran argv r]))"

section \<open>Recheck and clean-up\<close>

fun check_volumes :: "daemon \<Rightarrow> workspace \<Rightarrow> mount list \<Rightarrow> (transport_error, unit) result io" where
  "check_volumes d ws [] = okE ()"
| "check_volumes d ws (m # ms) =
     (if mt_type m \<noteq> ''volume'' then check_volumes d ws ms
      else andThenE (map_errE TDocker (inspect_volume d (mt_name m))) (\<lambda>vo.
        case vo of
          None \<Rightarrow> failE (TRefused ''selected state volume is missing; no volume was created'')
        | Some v \<Rightarrow>
            let owner = label (vol_labels v) label_workspace_id; schema = label (vol_labels v) label_runtime_schema in
            if owner \<noteq> [] \<and> owner \<noteq> ws_full_id ws then failE (TRefused ''state volume belongs to a different workspace'')
            else if schema \<noteq> [] \<and> schema \<noteq> ''1'' then failE (TRefused ''state volume has an unsupported runtime schema'')
            else check_volumes d ws ms))"

definition recheck :: "daemon \<Rightarrow> workspace \<Rightarrow> target \<Rightarrow> (transport_error, unit) result io" where
  "recheck d ws t =
     andThenE (inspect_helper d (tg_container t)) (\<lambda>co.
     case verify_container co ws of
       Some e \<Rightarrow> failE (TOwner e)
     | None \<Rightarrow>
         (case inspect_target co (tg_sqlite_home t) (tg_sqlite_writable t) of
            Inl e \<Rightarrow> failE (TTarget e)
          | Inr current \<Rightarrow>
              if current \<noteq> t then failE (TRefused ''workstation changed during transfer preparation'')
              else check_volumes d ws (tg_mounts t)))"

definition cleanup :: "daemon \<Rightarrow> string \<Rightarrow> string \<Rightarrow> (transport_error, unit) result io" where
  "cleanup d name token =
     andThenE (inspect_helper d name) (\<lambda>co.
     case co of
       None \<Rightarrow> okE ()
     | Some c \<Rightarrow>
         if clean_name c \<noteq> name \<or> label (c_labels c) helper_label \<noteq> token
         then failE (TRefused ''preserved helper name because its ownership token changed'')
         else
           andThenE (if c_running c then command_run d [''docker'', ''stop'', ''--time'', ''2'', c_id c] else okE ()) (\<lambda>_.
             command_run d [''docker'', ''rm'', c_id c]))"

section \<open>Run\<close>

text \<open>Before the deferred clean-up is set up: the checks, the executable and the random token.\<close>

definition prepare_helper ::
  "daemon \<Rightarrow> (string \<Rightarrow> (transport_error, string) result) option \<Rightarrow> workspace \<Rightarrow> target
     \<Rightarrow> (transport_error, image \<times> string \<times> string) result io" where
  "prepare_helper d supplied ws t =
     andThenE (recheck d ws t) (\<lambda>_.
     if list_ex (\<lambda>m. overlaps_helper (mt_destination m)) (tg_mounts t)
     then failE (TRefused ''selected storage mount would overlap the supplied helper executable'')
     else andThenE (map_errE TDocker (inspect_image d (tg_image t))) (\<lambda>io.
       case check_image t io of
         Inl e \<Rightarrow> failE e
       | Inr i \<Rightarrow>
           (case supplied of
              None \<Rightarrow> failE (TRefused ''launcher has no bundled session helper'')
            | Some give_helper \<Rightarrow>
                (case give_helper (img_architecture i) of
                   Inl e \<Rightarrow> failE e
                 | Inr helper \<Rightarrow>
                     if helper = [] then failE (TRefused ''bundled session helper is empty'')
                     else andThen (sys d ''rand.Read'' [''16'']) (\<lambda>a.
                       case a of
                         answer.Text nonce \<Rightarrow> okE (i, helper, hex_bytes nonce)
                       | _ \<Rightarrow> failE (TRefused ''random source''))))))"

definition owned_helper :: "string \<Rightarrow> string \<Rightarrow> container option \<Rightarrow> bool" where
  "owned_helper name token co =
     (case co of None \<Rightarrow> False | Some c \<Rightarrow> label (c_labels c) helper_label = token \<and> clean_name c = name)"

definition finished_helper :: "string \<Rightarrow> container option \<Rightarrow> bool" where
  "finished_helper token co =
     (case co of None \<Rightarrow> False | Some c \<Rightarrow> label (c_labels c) helper_label = token \<and> c_status c = ''exited'' \<and> c_exit_code c = 0)"

text \<open>The executable is fed to \<open>docker cp\<close> as a tar stream of one member.\<close>

definition supply_helper :: "daemon \<Rightarrow> string \<Rightarrow> string \<Rightarrow> (transport_error, unit) result io" where
  "supply_helper d helper i =
     andThen (say ''docker cp input'' [trim_prefix helper_path ''/'', helper]) (\<lambda>_.
       command_run d [''docker'', ''cp'', ''-'', i @ '':/''])"

definition start_helper ::
  "daemon \<Rightarrow> workspace \<Rightarrow> target \<Rightarrow> string \<Rightarrow> string \<Rightarrow> (transport_error, unit) result io" where
  "start_helper d ws t token i =
     andThenE (recheck d ws t) (\<lambda>_.
     andThenE (command_run d [''docker'', ''start'', ''--attach'', ''--interactive'', i]) (\<lambda>_.
     andThenE (inspect_helper d i) (\<lambda>co.
       if \<not> finished_helper token co
       then failE (TRefused ''session helper did not finish successfully; an import may already have published its files'')
       else okE ())))"

definition use_helper ::
  "daemon \<Rightarrow> workspace \<Rightarrow> target \<Rightarrow> string list \<Rightarrow> image \<Rightarrow> string \<Rightarrow> string \<Rightarrow> string \<Rightarrow> (transport_error, unit) result io" where
  "use_helper d ws t args img helper name token =
     (case cover_volumes t (sort (img_volumes img)) of
        Inl e \<Rightarrow> failE e
      | Inr covered \<Rightarrow>
          andThen (runner_capture d (create_argv t name token covered args)) (\<lambda>(out, err, failure).
            case failure of
              Some e \<Rightarrow> failE (TRun e)
            | None \<Rightarrow>
                let i = trim_space out in
                if \<not> valid_container_id i then failE (TRefused ''Docker returned an invalid helper container ID'')
                else andThenE (inspect_helper d i) (\<lambda>co.
                  if \<not> owned_helper name token co then failE (TRefused ''cannot verify the created transfer helper'')
                  else andThenE (supply_helper d helper i) (\<lambda>_. start_helper d ws t token i))))"

definition helper_name :: "string \<Rightarrow> string" where
  "helper_name token = ''hcorral-transfer-'' @ token"

definition run_helper ::
  "daemon \<Rightarrow> (string \<Rightarrow> (transport_error, string) result) option \<Rightarrow> workspace \<Rightarrow> target \<Rightarrow> string list
     \<Rightarrow> (transport_error, unit) result io" where
  "run_helper d supplied ws t args =
     andThenE (prepare_helper d supplied ws t) (\<lambda>(img, helper, token).
     andThen (use_helper d ws t args img helper (helper_name token) token) (\<lambda>r.
     andThen (cleanup d (helper_name token) token) (\<lambda>r'.
       ret (case (r, r') of
          (Inr _, r') \<Rightarrow> r'
        | (Inl e, Inr _) \<Rightarrow> Inl e
        | (Inl e, Inl e') \<Rightarrow> Inl (TJoined e e')))))"

section \<open>Bundled helpers and configuration files\<close>

text \<open>\<open>readHelper\<close>: the file of the bundle, and what gzip makes of it with the bytes that are left over.\<close>

definition maximum_helper :: nat where
  "maximum_helper = 128 * 2 ^ 20"

definition read_helper ::
  "(string \<Rightarrow> string option) \<Rightarrow> (string \<Rightarrow> (string \<times> nat) option) \<Rightarrow> string \<Rightarrow> (transport_error, string) result" where
  "read_helper bundle gunzip architecture =
     (if architecture \<noteq> ''amd64'' \<and> architecture \<noteq> ''arm64'' then Inl (TRefused ''unsupported session helper architecture'')
      else bindE (try_opt (TRefused ''launcher lacks its session helper'') (bundle (''helpers/linux-'' @ architecture @ ''.gz''))) (\<lambda>file.
        bindE (try_opt (TRefused ''decode bundled session helper'') (gunzip file)) (\<lambda>(data, rest).
          if data = [] \<or> length data > maximum_helper \<or> rest \<noteq> 0
          then Inl (TRefused ''bundled session helper has an invalid size or trailing data'') else Inr data)))"

text \<open>\<open>boundedBuffer\<close>: the writes that fit, and whether one did not.\<close>

fun take_writes :: "int \<Rightarrow> string \<Rightarrow> string list \<Rightarrow> string \<times> bool" where
  "take_writes maximum buf [] = (buf, False)"
| "take_writes maximum buf (p # ps) =
     (if int (length p) > maximum - int (length buf) then (buf, True) else take_writes maximum (buf @ p) ps)"

text \<open>A member of an archive: whether it is a regular file, its size, and its data unless reading fails.\<close>

record archive_member =
  am_regular :: bool
  am_size :: int
  am_data :: "string option"

text \<open>
  \<open>readConfig\<close>: \<open>writes\<close> are the writes of a command's output and error output, \<open>untar\<close> the members
  of an archive and whether it ends properly.
\<close>

record archive_reader =
  ar_writes :: "string \<Rightarrow> string list"
  ar_untar :: "string \<Rightarrow> archive_member list \<times> bool"

definition read_archive :: "archive_reader \<Rightarrow> string \<Rightarrow> (session_error, string) result" where
  "read_archive ar bytes =
     (case ar_untar ar bytes of
        ([], _) \<Rightarrow> Inl (Refused ''read configuration archive'')
      | (m # ms, proper) \<Rightarrow>
          if \<not> am_regular m \<or> am_size m < 0 \<or> am_size m > int maximum_config_bytes
          then Inl (Refused ''configuration archive must contain one bounded regular file'')
          else bindE (try_opt (Refused ''read archived configuration'') (am_data m)) (\<lambda>data.
            if ms \<noteq> [] \<or> \<not> proper then Inl (Refused ''configuration archive contains extra or invalid members'') else Inr data))"

definition missing_text :: "string \<Rightarrow> string \<Rightarrow> string" where
  "missing_text path i = ''Could not find the file '' @ path @ '' in container '' @ i"

definition read_config :: "daemon \<Rightarrow> archive_reader \<Rightarrow> string \<Rightarrow> string \<Rightarrow> file_read io" where
  "read_config d ar i path =
     (if \<not> absolute_path path \<or> path = ''/''
      then ret (Unreadable (Refused ''container configuration path must be an absolute file path''))
      else andThen (runner_stream d [''docker'', ''cp'', ''-L'', i @ '':'' @ path, ''-'']) (\<lambda>(out, err, failure).
        let (archive, full) = take_writes (int maximum_config_bytes + 65536) [] (ar_writes ar out);
            (message, flooded) = take_writes 16384 [] (ar_writes ar err) in
        ret (if failure \<noteq> None \<or> full \<or> flooded then
               (if contains_str message (missing_text path i) then NoFile else Unreadable (Refused ''read container configuration''))
             else (case read_archive ar archive of Inl e \<Rightarrow> Unreadable e | Inr data \<Rightarrow> Content data))))"

text \<open>
  \<open>ResolveSQLiteHome\<close>: the files are read between two checks.  The reads of the discovery are
  answered from the history after the first check; their own events are not recorded.
\<close>

definition resolve_sqlite_home ::
  "daemon \<Rightarrow> archive_reader \<Rightarrow> (string \<Rightarrow> string option option) \<Rightarrow> bool \<Rightarrow> workspace \<Rightarrow> target \<Rightarrow> string
     \<Rightarrow> (transport_error, resolution) result option io" where
  "resolve_sqlite_home d ar toml cancelled ws t explicit =
     (let opts = \<lparr>so_home = tg_codex_home t, so_cwd = tg_workdir t, so_environment = tg_sqlite_env t, so_explicit = explicit\<rparr> in
      if explicit \<noteq> [] then ret (map_option (map_err TSession) (Session_Config.sqlite_home cancelled None opts))
      else andThen (recheck d ws t) (\<lambda>r.
        case r of
          Inl e \<Rightarrow> ret (Some (Inl e))
        | Inr _ \<Rightarrow> (\<lambda>h.
            (case Session_Config.sqlite_home cancelled
                (Some \<lparr>cr_read = (\<lambda>p. fst (read_config d ar (tg_container t) p h)), cr_toml = toml\<rparr>) opts of
               None \<Rightarrow> (None, h)
             | Some (Inl e) \<Rightarrow> (Some (Inl (TSession e)), h)
             | Some (Inr res) \<Rightarrow> andThen (recheck d ws t) (\<lambda>r. ret (Some (bindE r (\<lambda>_. Inr res)))) h))))"

section \<open>Transfer\<close>

record transfer_options =
  to_operation :: string
  to_thread :: string
  to_host_home :: string
  to_host_sqlite :: string
  to_container_sqlite :: string
  to_limits :: limits

text \<open>
  An endpoint, the helper run on the host or in the container: as a source it answers with the
  bytes it writes and its error, and with its error if the destination stops it; as a destination
  it gets the bytes with the error that ends the pipe and answers with its writes and its error.
\<close>

record endpoint =
  ep_source :: "string list \<Rightarrow> string \<times> transport_error option"
  ep_stopped :: "string list \<Rightarrow> transport_error option"
  ep_sink :: "string list \<Rightarrow> string \<times> transport_error option \<Rightarrow> string list \<times> transport_error option"

text \<open>The value the JSON of a result decodes to, and whether anything follows it.\<close>

type_synonym result_decoder = "string \<Rightarrow> (published \<times> bool) option"

definition check_installed :: "published \<Rightarrow> installed \<Rightarrow> session_error option" where
  "check_installed r f =
     (if il_extended f \<and> (il_created f \<or> \<not> il_prefix f) then Some (Refused ''completion result claims an invalid prefix extension'')
      else if il_promoted f \<and> il_prefix f then Some (Refused ''completion result claims promotion of an incomplete prerequisite'')
      else (case parse_id (il_rollout f) of
          Inl e \<Rightarrow> Some e
        | Inr _ \<Rightarrow> if \<not> il_prefix f \<and> il_path f \<noteq> ps_main r
                  then Some (Refused ''completion result has an inconsistent main rollout'') else None))"

definition decode_result :: "result_decoder \<Rightarrow> string \<Rightarrow> limits \<Rightarrow> string \<Rightarrow> (session_error, published) result" where
  "decode_result dec thread l data =
     (case dec data of
        None \<Rightarrow> Inl (Refused ''decode completion result'')
      | Some (r, extra) \<Rightarrow>
          if extra then Inl (Refused ''extra data after completion result'')
          else if ps_thread r \<noteq> thread \<or> (case ps_meta r of None \<Rightarrow> True | Some m \<Rightarrow> sm_thread m \<noteq> thread) \<or> ps_main r = [] \<or>
              ps_destination r = [] \<or> ps_files r = [] \<or> int (length (ps_files r)) > lm_files l
          then Inl (Refused ''completion result does not identify the requested conversation'')
          else (case checkE (check_installed r) (ps_files r) of
              Some e \<Rightarrow> Inl e
            | None \<Rightarrow>
                if length (filter (\<lambda>f. \<not> il_prefix f) (ps_files r)) \<noteq> 1
                then Inl (Refused ''completion result must contain exactly one main rollout'') else Inr r))"

definition join_errors :: "transport_error option \<Rightarrow> transport_error option \<Rightarrow> transport_error option" where
  "join_errors a b = (case (a, b) of (None, b) \<Rightarrow> b | (a, None) \<Rightarrow> a | (Some x, Some y) \<Rightarrow> Some (TJoined x y))"

text \<open>What the destination makes of the source's stream: the response that fits, and its error.\<close>

definition sink_outcome ::
  "endpoint \<Rightarrow> string list \<Rightarrow> limits \<Rightarrow> string \<times> transport_error option \<Rightarrow> string \<times> transport_error option" where
  "sink_outcome consumer toArgs l input =
     (case ep_sink consumer toArgs input of (writes, sinkErr) \<Rightarrow>
        let (response, full) = take_writes (lm_record l + lm_manifest l) [] writes in
        (response, if full \<and> sinkErr = None then Some (TRefused ''helper completion result exceeds transfer limits'') else sinkErr))"

text \<open>The result and the error beside it; the last component says whether the destination was asked.\<close>

definition exchange ::
  "endpoint \<Rightarrow> endpoint \<Rightarrow> result_decoder \<Rightarrow> string list \<Rightarrow> string list \<Rightarrow> string \<Rightarrow> limits
     \<Rightarrow> published option \<times> transport_error option \<times> bool" where
  "exchange producer consumer dec fromArgs toArgs thread l =
     (case ep_source producer fromArgs of (bytes, failure) \<Rightarrow>
        if bytes = [] then (None, Some (case failure of None \<Rightarrow> TRefused ''prepare session source'' | Some e \<Rightarrow> e), False)
        else
          (case sink_outcome consumer toArgs l (bytes, failure) of (response, refused) \<Rightarrow>
             let sent = (if refused \<noteq> None then ep_stopped producer fromArgs else failure) in
             (case (join_errors sent refused, decode_result dec thread l response) of
                (Some e, Inr r) \<Rightarrow> (Some r, Some e, True)
              | (Some e, Inl _) \<Rightarrow> (None, Some e, True)
              | (None, Inl e) \<Rightarrow> (None, Some (TSession e), True)
              | (None, Inr r) \<Rightarrow> (Some r, None, True))))"

definition max_i64 :: int where
  "max_i64 = 2 ^ 63 - 1"

text \<open>The checks before anything runs, and the thread the transfer is about.\<close>

definition check_transfer ::
  "bool \<Rightarrow> bool \<Rightarrow> string \<Rightarrow> transfer_options \<Rightarrow> (transport_error, string) result" where
  "check_transfer over remote containerHome opts =
     (let l = to_limits opts in
      if to_operation opts \<noteq> ''export'' \<and> to_operation opts \<noteq> ''import''
      then Inl (TRefused ''session transfer requires export or import'')
      else bindE (map_err TSession (bindE (parse_id (to_thread opts)) (\<lambda>i. bindE (valid_limits l) (\<lambda>_. Inr i)))) (\<lambda>i.
        if lm_record l > max_i64 - lm_manifest l then Inl (TRefused ''combined transfer result limits overflow'')
        else if \<not> is_abs (to_host_home opts) \<or> \<not> is_abs (to_host_sqlite opts) \<or> \<not> absolute_path containerHome \<or>
            \<not> absolute_path (to_container_sqlite opts)
        then Inl (TRefused ''session transfer requires resolved absolute Codex and SQLite homes at both endpoints'')
        else if over then Inl (TSession Interrupted)
        else if \<not> remote then Inl (TRefused ''session transfer has no remote endpoint'') else Inr i))"

text \<open>The arguments of the source and of the destination.\<close>

definition export_args :: "string \<Rightarrow> transfer_options \<Rightarrow> string \<Rightarrow> string list" where
  "export_args containerHome opts i =
     (if to_operation opts = ''import'' then transfer_args ''export'' (to_host_home opts) (to_host_sqlite opts) i (to_limits opts)
      else transfer_args ''export'' containerHome (to_container_sqlite opts) i (to_limits opts))"

definition import_args :: "string \<Rightarrow> transfer_options \<Rightarrow> string \<Rightarrow> string list" where
  "import_args containerHome opts i =
     (if to_operation opts = ''import'' then transfer_args ''import'' containerHome (to_container_sqlite opts) i (to_limits opts)
      else transfer_args ''import'' (to_host_home opts) (to_host_sqlite opts) i (to_limits opts))"

definition transfer ::
  "bool \<Rightarrow> endpoint \<Rightarrow> endpoint option \<Rightarrow> result_decoder \<Rightarrow> string \<Rightarrow> transfer_options
     \<Rightarrow> published option \<times> transport_error option \<times> bool" where
  "transfer over native remote dec containerHome opts =
     (case (check_transfer over (remote \<noteq> None) containerHome opts, remote) of
        (Inr i, Some rem) \<Rightarrow>
          (case (if to_operation opts = ''import'' then (native, rem) else (rem, native)) of (producer, consumer) \<Rightarrow>
             exchange producer consumer dec (export_args containerHome opts i) (import_args containerHome opts i) i (to_limits opts))
      | (Inr i, None) \<Rightarrow> (None, Some (TRefused ''session transfer has no remote endpoint''), False)
      | (Inl e, _) \<Rightarrow> (None, Some e, False))"

text \<open>\<open>Docker.Transfer\<close>: the options have to be those of the inspected storage.\<close>

definition transfer_target ::
  "bool \<Rightarrow> endpoint \<Rightarrow> endpoint option \<Rightarrow> result_decoder \<Rightarrow> target \<Rightarrow> transfer_options
     \<Rightarrow> published option \<times> transport_error option \<times> bool" where
  "transfer_target over native remote dec t opts =
     (if to_container_sqlite opts \<noteq> tg_sqlite_home t
      then (None, Some (TRefused ''effective SQLite home does not match the inspected storage selection''), False)
      else if tg_sqlite_writable t \<noteq> (to_operation opts = ''import'')
      then (None, Some (TRefused ''transfer direction does not match inspected metadata access''), False)
      else transfer over native remote dec (tg_codex_home t) opts)"

section \<open>The argument reads back\<close>

text \<open>A reader of one record: quoted fields and plain ones, separated by commas.\<close>

fun read_quoted :: "string \<Rightarrow> (string \<times> string) option" where
  "read_quoted [] = None"
| "read_quoted (c # s) =
     (if c \<noteq> CHR 0x22 then map_option (map_prod ((#) c) id) (read_quoted s)
      else (case s of
          c' # s' \<Rightarrow> if c' = CHR 0x22 then map_option (map_prod ((#) c) id) (read_quoted s') else Some ([], s)
        | [] \<Rightarrow> Some ([], [])))"

fun read_plain :: "string \<Rightarrow> string \<times> string" where
  "read_plain [] = ([], [])"
| "read_plain (c # s) = (if c = CHR '','' then ([], c # s) else map_prod ((#) c) id (read_plain s))"

definition read_field :: "string \<Rightarrow> (string \<times> string) option" where
  "read_field s = (case s of [] \<Rightarrow> Some ([], []) | c # t \<Rightarrow> if c = CHR 0x22 then read_quoted t else Some (read_plain s))"

text \<open>\<open>csv_reads s fs\<close>: the record reads as these fields.\<close>

fun csv_reads :: "string \<Rightarrow> string list \<Rightarrow> bool" where
  "csv_reads s [] = False"
| "csv_reads s (f # fs) =
     (case read_field s of None \<Rightarrow> False | Some (g, rest) \<Rightarrow>
        g = f \<and> (case rest of [] \<Rightarrow> fs = [] | c # t \<Rightarrow> c = CHR '','' \<and> fs \<noteq> [] \<and> csv_reads t fs))"

definition doubled :: "string \<Rightarrow> string" where
  "doubled s = concat (map (\<lambda>c. if c = CHR 0x22 then [CHR 0x22, CHR 0x22] else [c]) s)"

definition separated :: "string \<Rightarrow> bool" where
  "separated rest \<longleftrightarrow> rest = [] \<or> hd rest = CHR '',''"

lemma read_quoted_doubled: "separated rest \<Longrightarrow> read_quoted (doubled s @ CHR 0x22 # rest) = Some (s, rest)"
  by (induction s) (auto simp: doubled_def separated_def split: list.splits)

lemma read_plain_plain: "separated rest \<Longrightarrow> CHR '','' \<notin> set s \<Longrightarrow> read_plain (s @ rest) = (s, rest)"
proof (induction s)
  case Nil
  then show ?case by (cases rest) (auto simp: separated_def)
qed auto

lemma read_field_csv:
  assumes "separated rest" "f \<noteq> []" shows "read_field (csv_field f @ rest) = Some (f, rest)"
proof (cases "quoted_field f")
  case True
  then have "csv_field f @ rest = CHR 0x22 # doubled f @ CHR 0x22 # rest" by (simp add: csv_field_def doubled_def)
  then show ?thesis using read_quoted_doubled [OF assms(1)] by (simp add: read_field_def)
next
  case False
  then have f: "CHR '','' \<notin> set f" "CHR 0x22 \<notin> set f" by (auto simp: quoted_field_def list_ex_iff)
  obtain c t where "f = c # t" using assms(2) by (cases f) auto
  then show ?thesis using f False read_plain_plain [OF assms(1) f(1)] by (auto simp: read_field_def csv_field_def)
qed

lemma csv_fields_read:
  assumes "fs \<noteq> []" "\<forall>f \<in> set fs. f \<noteq> []" shows "csv_reads (csv_fields fs) fs"
  using assms
proof (induction fs)
  case (Cons f fs)
  show ?case
  proof (cases fs)
    case Nil
    then show ?thesis using Cons.prems read_field_csv [of "[]" f] by (simp add: csv_fields_def separated_def)
  next
    case (Cons g gs)
    then have "csv_fields (f # fs) = csv_field f @ CHR '','' # csv_fields fs" by (simp add: csv_fields_def)
    moreover have "csv_reads (csv_fields fs) fs" using Cons.IH Cons Cons.prems by simp
    ultimately show ?thesis using Cons Cons.prems read_field_csv [of "CHR '','' # csv_fields fs" f]
      by (simp add: separated_def)
  qed
qed simp

section \<open>Clean-up and commands\<close>

definition container_inspection :: "string \<Rightarrow> string list" where
  "container_inspection name = [''docker'', ''inspect'', ''--type'', ''container'', name]"

text \<open>\<open>told d es asked c\<close>: an inspection in \<open>es\<close> answered \<open>asked\<close> with the container \<open>c\<close>.\<close>

definition told :: "daemon \<Rightarrow> event list \<Rightarrow> string \<Rightarrow> container \<Rightarrow> bool" where
  "told d es asked c \<longleftrightarrow> (\<exists>out. Captured (container_inspection asked) out \<in> set es \<and> one_answer (dec_containers d) out = Some (Some c))"

lemma told_mono: "told d es asked c \<Longrightarrow> set es \<subseteq> set es' \<Longrightarrow> told d es' asked c"
  by (auto simp: told_def)

lemma inspect_helper_told:
  assumes "inspect_helper d name h = (r, h')"
  shows "\<exists>out. h' = h @ [Captured (container_inspection name) out] \<and> (\<forall>c. r = Inr (Some c) \<longrightarrow> one_answer (dec_containers d) out = Some (Some c)) \<and>
    (r = Inr None \<longrightarrow> one_answer (dec_containers d) out = Some None)"
  using assms
  by (intro exI [of _ "m_exec d h (container_inspection name)"])
    (auto simp: inspect_helper_def inspect_container_def inspect_containers_def docker_capture_apply empty_argv_def Let_def
      map_errE_def andThen_def one_answer_def container_inspection_def okE_def failE_def ret_def
      command_error_def split: option.splits if_split_asm prod.splits sum.splits)

lemma command_run_event:
  assumes "command_run d argv h = (r, h')" "argv \<noteq> []" "hd argv \<noteq> []"
  shows "\<exists>out. h' = h @ [Ran argv out] \<and> (r = Inr () \<longleftrightarrow> oc_fail out = None)"
  using assms by (auto simp: command_run_def runner_run_def andThen_def empty_argv_def Let_def split: option.splits)

section \<open>What a run does\<close>

abbreviation volume_inspection :: "event \<Rightarrow> bool" where
  "volume_inspection e \<equiv> (\<exists>n out. e = Captured [''docker'', ''volume'', ''inspect'', n] out)"

definition reads_only :: "event \<Rightarrow> bool" where
  "reads_only e \<longleftrightarrow> volume_inspection e \<or> (\<exists>n out. e = Captured (container_inspection n) out \<or> e = Captured [''docker'', ''image'', ''inspect'', n] out)"

lemma reads_inspect [simp]: "reads_only (Captured (container_inspection n) out)"
  by (auto simp: reads_only_def)

definition start_argv :: "string \<Rightarrow> string list" where
  "start_argv i = [''docker'', ''start'', ''--attach'', ''--interactive'', i]"

definition supply_argv :: "string \<Rightarrow> string list" where
  "supply_argv i = [''docker'', ''cp'', ''-'', i @ '':/'']"

lemma appends_inspect_helper [io_rules]: "(\<And>out. Q (Captured (container_inspection name) out)) \<Longrightarrow> appends Q (inspect_helper d name)"
  unfolding appends_def using inspect_helper_told by (metis prod.collapse set_ConsD empty_iff list.set(1))

lemma inspect_one_appends: "(\<And>out. Q (Captured argv out)) \<Longrightarrow> appends Q (inspect_one d argv decode kind name)"
  unfolding inspect_one_def by (intro io_rules) auto

lemma check_volumes_appends: "appends volume_inspection (check_volumes d ws ms)"
proof (induction ms)
  case (Cons m ms)
  have "appends volume_inspection (inspect_volume d n)" for n unfolding inspect_volume_def by (rule inspect_one_appends) simp
  then show ?case using Cons.IH by (auto simp: Let_def intro!: io_rules split: option.split)
qed (simp add: appends_def)

lemma recheckE:
  assumes "recheck d ws t h = (r, h')"
  obtains out es where "h' = h @ Captured (container_inspection (tg_container t)) out # es" "\<forall>e \<in> set es. volume_inspection e"
    "r = Inr () \<Longrightarrow> \<exists>c. one_answer (dec_containers d) out = Some (Some c) \<and> verify_container (Some c) ws = None \<and>
       inspect_target (Some c) (tg_sqlite_home t) (tg_sqlite_writable t) = Inr t"
proof -
  obtain q h1 where q: "inspect_helper d (tg_container t) h = (q, h1)" by (metis surj_pair)
  obtain out where o1: "h1 = h @ [Captured (container_inspection (tg_container t)) out]"
    "\<forall>c. q = Inr (Some c) \<longrightarrow> one_answer (dec_containers d) out = Some (Some c)"
    using inspect_helper_told [OF q] by blast
  show thesis
  proof (cases "\<exists>c. q = Inr (Some c) \<and> verify_container (Some c) ws = None \<and>
      inspect_target (Some c) (tg_sqlite_home t) (tg_sqlite_writable t) = Inr t")
    case True
    then have "check_volumes d ws (tg_mounts t) h1 = (r, h')" using assms q by (auto simp: recheck_def)
    then obtain es where "h' = h1 @ es" "\<forall>e \<in> set es. volume_inspection e" by (rule appendsD [OF check_volumes_appends])
    then show ?thesis using that [of out es] True o1 by auto
  next
    case False
    have none: "inspect_target None (tg_sqlite_home t) (tg_sqlite_writable t) = Inl NoCorral" by (simp add: inspect_target_def)
    have "h' = h1 \<and> r \<noteq> Inr ()"
    proof (cases q)
      case (Inr co)
      show ?thesis
      proof (cases co)
        case (Some c)
        then show ?thesis using assms q False Inr
          by (auto simp: recheck_def split: sum.splits option.splits if_split_asm)
      qed (use assms q Inr none in \<open>auto simp: recheck_def split: option.splits\<close>)
    qed (use assms q in \<open>auto simp: recheck_def\<close>)
    then show ?thesis using that [of out "[]"] o1(1) by simp
  qed
qed

lemma recheck_reads: "appends reads_only (recheck d ws t)"
  unfolding appends_def
proof
  fix h
  obtain r h' where r: "recheck d ws t h = (r, h')" by (metis surj_pair)
  obtain out es where e: "h' = h @ Captured (container_inspection (tg_container t)) out # es" "\<forall>e \<in> set es. volume_inspection e"
    by (rule recheckE [OF r])
  have "\<forall>e \<in> set (Captured (container_inspection (tg_container t)) out # es). reads_only e" using e(2) by (auto simp: reads_only_def)
  then show "\<exists>es. snd (recheck d ws t h) = h @ es \<and> (\<forall>e \<in> set es. reads_only e)" using r e(1) by (metis snd_conv)
qed

lemma prepare_events: "appends (\<lambda>e. reads_only e \<or> (\<exists>a. e = Sys ''rand.Read'' [''16''] a)) (prepare_helper d supplied ws t)"
proof -
  have "appends (\<lambda>e. reads_only e \<or> (\<exists>a. e = Sys ''rand.Read'' [''16''] a)) (recheck d ws t)"
    using recheck_reads by (rule appends_mono) simp
  moreover have "appends (\<lambda>e. reads_only e \<or> (\<exists>a. e = Sys ''rand.Read'' [''16''] a)) (inspect_image d n)" for n
    unfolding inspect_image_def by (rule inspect_one_appends) (auto simp: reads_only_def)
  ultimately show ?thesis unfolding prepare_helper_def
    by (intro io_rules) (auto intro!: io_rules split: answer.split simp: okE_def)
qed

text \<open>Splitting a history at an event that only one part can hold.\<close>

lemma split_after: "e \<notin> set p \<Longrightarrow> p @ q = es1 @ e # es2 \<Longrightarrow> \<exists>q1. es1 = p @ q1 \<and> q = q1 @ e # es2"
  by (auto simp: append_eq_append_conv2 append_eq_Cons_conv)

lemma split_before: "e \<notin> set c \<Longrightarrow> q @ c = es1 @ e # es2 \<Longrightarrow> \<exists>q2. q = es1 @ e # q2"
  by (auto simp: append_eq_append_conv2 append_eq_Cons_conv)

lemma start_helper_events:
  assumes "start_helper d ws t token i h = (r, h')"
  obtains es where "h' = h @ es" "\<forall>e \<in> set es. reads_only e \<or> (\<exists>out. e = Ran (start_argv i) out)"
    "\<And>es1 out es2. es = es1 @ Ran (start_argv i) out # es2 \<Longrightarrow> recheck d ws t h = (Inr (), h @ es1)"
proof -
  obtain q h1 where q: "recheck d ws t h = (q, h1)" by (metis surj_pair)
  obtain es1 where es1: "h1 = h @ es1" "\<forall>e \<in> set es1. reads_only e" using appendsD [OF recheck_reads q] .
  have plain: "Ran (start_argv i) out \<notin> set es1" for out using es1(2) by (auto simp: reads_only_def)
  show thesis
  proof (cases q)
    case (Inl e)
    then have "h' = h1" using assms q by (simp add: start_helper_def)
    show ?thesis
    proof (rule that [of es1])
      show "recheck d ws t h = (Inr (), h @ es1')" if "es1 = es1' @ Ran (start_argv i) out # es2'" for es1' out es2'
        using plain [of out] that by simp
    qed (use es1 \<open>h' = h1\<close> in auto)
  next
    case (Inr u)
    obtain p h2 where p: "command_run d (start_argv i) h1 = (p, h2)" by (metis surj_pair)
    obtain out where out: "h2 = h1 @ [Ran (start_argv i) out]" using command_run_event [OF p] by (auto simp: start_argv_def)
    have "\<exists>es2. h' = h2 @ es2 \<and> (\<forall>e \<in> set es2. reads_only e)"
    proof (cases p)
      case (Inl e)
      then have "h' = h2" using assms q Inr p by (simp add: start_helper_def start_argv_def)
      then show ?thesis by simp
    next
      case ok: (Inr v)
      obtain c h3 where c: "inspect_helper d i h2 = (c, h3)" by (metis surj_pair)
      have "h' = h3" using assms q Inr p ok c
        by (cases c) (auto simp: start_helper_def start_argv_def split: if_split_asm)
      then show ?thesis using inspect_helper_told [OF c] by auto
    qed
    then obtain es2 where es2: "h' = h2 @ es2" "\<forall>e \<in> set es2. reads_only e" by blast
    have one: "es1' = es1" if whole: "es1 @ Ran (start_argv i) out # es2 = es1' @ Ran (start_argv i) out' # es2'" for es1' out' es2'
    proof -
      obtain q1 where q1: "es1' = es1 @ q1" "Ran (start_argv i) out # es2 = q1 @ Ran (start_argv i) out' # es2'"
        using split_after [OF plain whole] by blast
      have "Ran (start_argv i) out' \<notin> set es2" using es2(2) by (auto simp: reads_only_def)
      then have "q1 = []" using q1(2) by (cases q1) auto
      then show ?thesis using q1(1) by simp
    qed
    show ?thesis
    proof (rule that [of "es1 @ Ran (start_argv i) out # es2"])
      show "h' = h @ es1 @ Ran (start_argv i) out # es2" using es1(1) out es2(1) by simp
      show "recheck d ws t h = (Inr (), h @ es1')" if "es1 @ Ran (start_argv i) out # es2 = es1' @ Ran (start_argv i) out' # es2'"
        for es1' out' es2' using one [OF that] q Inr es1(1) by simp
    qed (use es1(2) es2(2) in auto)
  qed
qed

definition helper_event :: "daemon \<Rightarrow> target \<Rightarrow> string list \<Rightarrow> string \<Rightarrow> event list \<Rightarrow> event \<Rightarrow> bool" where
  "helper_event d t args token es e \<longleftrightarrow>
     reads_only e \<or> (\<exists>a. e = Sys ''rand.Read'' [''16''] a) \<or> (\<exists>m. e = Said ''docker cp input'' m) \<or>
     (\<exists>covered out. e = Captured (create_argv t (helper_name token) token covered args) out) \<or>
     (\<exists>i out c. (e = Ran (supply_argv i) out \<or> e = Ran (start_argv i) out) \<and> told d es i c \<and>
        owned_helper (helper_name token) token (Some c)) \<or>
     (\<exists>out c. (e = Ran [''docker'', ''stop'', ''--time'', ''2'', c_id c] out \<or> e = Ran [''docker'', ''rm'', c_id c] out) \<and>
        told d es (helper_name token) c \<and> owned_helper (helper_name token) token (Some c))"

lemma helper_event_mono: "helper_event d t args token es e \<Longrightarrow> set es \<subseteq> set es' \<Longrightarrow> helper_event d t args token es' e"
  unfolding helper_event_def using told_mono [of d es _ _ es'] by blast

text \<open>The workstation was looked at again, and nothing had changed, since the helper was filled.\<close>

definition fresh_start :: "daemon \<Rightarrow> workspace \<Rightarrow> target \<Rightarrow> string list \<Rightarrow> string \<Rightarrow> string \<Rightarrow> event list \<Rightarrow> bool" where
  "fresh_start d ws t args token i es1 \<longleftrightarrow>
     (\<exists>pre out c vols. es1 = pre @ Captured (container_inspection (tg_container t)) out # vols \<and>
        one_answer (dec_containers d) out = Some (Some c) \<and> verify_container (Some c) ws = None \<and>
        inspect_target (Some c) (tg_sqlite_home t) (tg_sqlite_writable t) = Inr t \<and> (\<forall>e \<in> set vols. volume_inspection e) \<and>
        (\<exists>covered x. Captured (create_argv t (helper_name token) token covered args) x \<in> set pre) \<and>
        (\<exists>x. Ran (supply_argv i) x \<in> set pre))"

lemma fresh_start_after: "fresh_start d ws t args token i es1 \<Longrightarrow> fresh_start d ws t args token i (p @ es1)"
proof -
  assume "fresh_start d ws t args token i es1"
  then obtain pre out c vols where f: "es1 = pre @ Captured (container_inspection (tg_container t)) out # vols"
    "one_answer (dec_containers d) out = Some (Some c)" "verify_container (Some c) ws = None"
    "inspect_target (Some c) (tg_sqlite_home t) (tg_sqlite_writable t) = Inr t" "\<forall>e \<in> set vols. volume_inspection e"
    "\<exists>covered x. Captured (create_argv t (helper_name token) token covered args) x \<in> set pre"
    "\<exists>x. Ran (supply_argv i) x \<in> set pre"
    unfolding fresh_start_def by blast
  show ?thesis unfolding fresh_start_def
    by (rule exI [of _ "p @ pre"], rule exI [of _ out], rule exI [of _ c], rule exI [of _ vols]) (use f in auto)
qed

lemma supply_helper_events:
  assumes "supply_helper d helper i h = (r, h')"
  shows "\<exists>m out. h' = h @ [Said ''docker cp input'' m, Ran (supply_argv i) out]"
proof -
  have "command_run d (supply_argv i) (h @ [Said ''docker cp input'' [trim_prefix helper_path ''/'', helper]]) = (r, h')"
    using assms by (simp add: supply_helper_def andThen_def say_def supply_argv_def)
  from command_run_event [OF this] show ?thesis by (auto simp: supply_argv_def)
qed

lemma use_helper_events:
  assumes "use_helper d ws t args img helper (helper_name token) token h = (r, h')"
  obtains es where "h' = h @ es" "\<forall>e \<in> set es. helper_event d t args token es e"
    "\<And>i es1 out es2. es = es1 @ Ran (start_argv i) out # es2 \<Longrightarrow> fresh_start d ws t args token i es1"
proof (cases "cover_volumes t (sort (img_volumes img))")
  case (Inl e)
  then show ?thesis using assms that [of "[]"] by (simp add: use_helper_def)
next
  case (Inr covered)
  let ?create = "create_argv t (helper_name token) token covered args"
  obtain res h1 where c: "runner_capture d ?create h = (res, h1)" by (metis surj_pair)
  obtain o1 err failure where res: "res = (o1, err, failure)" by (cases res)
  have "\<not> empty_argv ?create" by (simp add: create_argv_def create_options_def empty_argv_def)
  then obtain out where h1: "h1 = h @ [Captured ?create out]" using c by (auto simp: runner_capture_def Let_def)
  have create: "helper_event d t args token es (Captured ?create out)" for es by (auto simp: helper_event_def)
  define i where "i = trim_space o1"
  have rest: "(case failure of Some e \<Rightarrow> failE (TRun e) | None \<Rightarrow>
      if \<not> valid_container_id i then failE (TRefused ''Docker returned an invalid helper container ID'')
      else andThenE (inspect_helper d i) (\<lambda>co.
        if \<not> owned_helper (helper_name token) token co then failE (TRefused ''cannot verify the created transfer helper'')
        else andThenE (supply_helper d helper i) (\<lambda>_. start_helper d ws t token i))) h1 = (r, h')"
    using assms c Inr unfolding i_def by (cases failure) (auto simp: use_helper_def res Let_def andThen_def split: if_split_asm)
  show ?thesis
  proof (cases "failure = None \<and> valid_container_id i")
    case False
    then have "h' = h1" using rest by (auto split: option.splits if_split_asm)
    then show ?thesis using that [of "[Captured ?create out]"] h1 create by (auto simp: Cons_eq_append_conv)
  next
    case True
    obtain q h2 where q: "inspect_helper d i h1 = (q, h2)" by (metis surj_pair)
    obtain o2 where h2: "h2 = h1 @ [Captured (container_inspection i) o2]" and t2: "\<forall>c. q = Inr (Some c) \<longrightarrow> one_answer (dec_containers d) o2 = Some (Some c)"
      using inspect_helper_told [OF q] by blast
    let ?base = "[Captured ?create out, Captured (container_inspection i) o2]"
    have base: "helper_event d t args token es e" if "e \<in> set ?base" for es e using that create by (auto simp: helper_event_def)
    show ?thesis
    proof (cases "\<exists>c. q = Inr (Some c) \<and> owned_helper (helper_name token) token (Some c)")
      case False
      then have "h' = h2" using rest True q
        by (cases q) (auto simp: owned_helper_def split: option.splits if_split_asm)
      then show ?thesis using that [of ?base] h1 h2 base by (auto simp: Cons_eq_append_conv append_eq_Cons_conv)
    next
      case own: True
      then obtain c where c: "q = Inr (Some c)" "owned_helper (helper_name token) token (Some c)" by blast
      have told: "told d es i c" if "set ?base \<subseteq> set es" for es using that t2 c(1) by (auto simp: told_def)
      obtain s h3 where s: "supply_helper d helper i h2 = (s, h3)" by (metis surj_pair)
      obtain m o3 where h3: "h3 = h2 @ [Said ''docker cp input'' m, Ran (supply_argv i) o3]" using supply_helper_events [OF s] by blast
      let ?pre = "?base @ [Said ''docker cp input'' m, Ran (supply_argv i) o3]"
      have pre: "helper_event d t args token es e" if "e \<in> set ?pre" "set ?base \<subseteq> set es" for es e
        using that base told [of es] c(2) by (auto simp: helper_event_def)
      have nostart: "Ran (start_argv j) x \<notin> set ?pre" for j x by (simp add: start_argv_def supply_argv_def)
      show ?thesis
      proof (cases s)
        case (Inl e)
        then have "h' = h3" using rest True q c s by simp
        show ?thesis
        proof (rule that [of ?pre])
          show "h' = h @ ?pre" using h1 h2 h3 \<open>h' = h3\<close> by simp
          show "\<forall>e \<in> set ?pre. helper_event d t args token ?pre e" by (intro ballI, rule pre, assumption, simp)
          show "fresh_start d ws t args token j es1" if "?pre = es1 @ Ran (start_argv j) x # es2" for j es1 x es2
          proof -
            have "Ran (start_argv j) x \<in> set ?pre" unfolding that by simp
            then show ?thesis using nostart by blast
          qed
        qed
      next
        case (Inr u)
        then have "start_helper d ws t token i h3 = (r, h')" using rest True q c s by simp
        then obtain es where es: "h' = h3 @ es" "\<forall>e \<in> set es. reads_only e \<or> (\<exists>out. e = Ran (start_argv i) out)"
          "\<And>es1 out es2. es = es1 @ Ran (start_argv i) out # es2 \<Longrightarrow> recheck d ws t h3 = (Inr (), h3 @ es1)"
          by (rule start_helper_events) blast
        show ?thesis
        proof (rule that [of "?pre @ es"])
          show "h' = h @ ?pre @ es" using es(1) h1 h2 h3 by simp
          show "\<forall>e \<in> set (?pre @ es). helper_event d t args token (?pre @ es) e"
          proof
            fix e assume "e \<in> set (?pre @ es)"
            then consider "e \<in> set ?pre" | "reads_only e" | out where "e = Ran (start_argv i) out" using es(2) by auto
            then show "helper_event d t args token (?pre @ es) e"
            proof cases
              case 1
              then show ?thesis by (rule pre) auto
            next
              case 3
              then show ?thesis using told [of "?pre @ es"] c(2) unfolding helper_event_def by auto
            qed (simp add: helper_event_def)
          qed
          show "fresh_start d ws t args token j es1" if whole: "?pre @ es = es1 @ Ran (start_argv j) x # es2" for j es1 x es2
          proof -
            obtain q1 where q1: "es1 = ?pre @ q1" "es = q1 @ Ran (start_argv j) x # es2" using split_after [OF nostart whole] by blast
            have "Ran (start_argv j) x \<in> set es" by (simp add: q1(2))
            then have "j = i" using es(2) by (auto simp: start_argv_def reads_only_def)
            then have "recheck d ws t h3 = (Inr (), h3 @ q1)" using es(3) q1(2) by simp
            then obtain y vols where r: "q1 = Captured (container_inspection (tg_container t)) y # vols" "\<forall>e \<in> set vols. volume_inspection e"
              "\<exists>c. one_answer (dec_containers d) y = Some (Some c) \<and> verify_container (Some c) ws = None \<and>
                 inspect_target (Some c) (tg_sqlite_home t) (tg_sqlite_writable t) = Inr t"
              by (rule recheckE) auto
            show ?thesis unfolding fresh_start_def q1(1) r(1) \<open>j = i\<close> using r(2,3)
              by (elim exE conjE, intro exI [of _ ?pre] exI [of _ y] exI [of _ vols] exI) auto
          qed
        qed
      qed
    qed
  qed
qed

text \<open>The clean-up removes the container, finds it gone, or reports why not.\<close>

lemma cleanup_events:
  assumes "cleanup d (helper_name token) token h = (r, h')"
  obtains es where "h' = h @ es" "es \<noteq> []" "\<forall>e \<in> set es. helper_event d t args token es e" "\<And>i out. Ran (start_argv i) out \<notin> set es"
    "r = Inr () \<Longrightarrow> (\<exists>out. last es = Captured (container_inspection (helper_name token)) out \<and> one_answer (dec_containers d) out = Some None) \<or>
       (\<exists>c out. last es = Ran [''docker'', ''rm'', c_id c] out \<and> oc_fail out = None \<and> told d es (helper_name token) c)"
proof -
  let ?name = "helper_name token"
  obtain q h1 where q: "inspect_helper d ?name h = (q, h1)" by (metis surj_pair)
  obtain out where h1: "h1 = h @ [Captured (container_inspection ?name) out]"
    and t: "\<forall>c. q = Inr (Some c) \<longrightarrow> one_answer (dec_containers d) out = Some (Some c)"
      "q = Inr None \<longrightarrow> one_answer (dec_containers d) out = Some None"
    using inspect_helper_told [OF q] by blast
  have look: "helper_event d t args token es (Captured (container_inspection ?name) out)" for es by (simp add: helper_event_def)
  show thesis
  proof (cases "\<exists>c. q = Inr (Some c) \<and> owned_helper ?name token (Some c)")
    case False
    then have "h' = h1" "r = Inr () \<Longrightarrow> q = Inr None" using assms q
      by (auto simp: cleanup_def owned_helper_def andThenE_def andThen_def split: sum.splits option.splits if_split_asm)
    then show ?thesis using that [of "[Captured (container_inspection ?name) out]"] h1 t look by simp
  next
    case True
    then obtain c where c: "q = Inr (Some c)" "owned_helper ?name token (Some c)" by blast
    let ?stop = "[''docker'', ''stop'', ''--time'', ''2'', c_id c]" and ?rm = "[''docker'', ''rm'', c_id c]"
    have told: "told d es ?name c" if "Captured (container_inspection ?name) out \<in> set es" for es using that t c(1) by (auto simp: told_def)
    have allowed: "helper_event d t args token es (Ran ?stop x)" "helper_event d t args token es (Ran ?rm x)"
      if "Captured (container_inspection ?name) out \<in> set es" for es x
      using told [OF that] c(2) by (auto simp: helper_event_def)
    have m: "andThenE (if c_running c then command_run d ?stop else okE ()) (\<lambda>_. command_run d ?rm) h1 = (r, h')"
      using assms q c by (simp add: cleanup_def owned_helper_def)
    obtain s h2 where s: "(if c_running c then command_run d ?stop else okE ()) h1 = (s, h2)" by (metis surj_pair)
    have "\<exists>es. h2 = h1 @ es \<and> (\<forall>e \<in> set es. \<exists>x. e = Ran ?stop x)"
    proof (cases "c_running c")
      case True
      then show ?thesis using s command_run_event [of d ?stop h1 s h2] by auto
    qed (use s in auto)
    then obtain es1 where es1: "h2 = h1 @ es1" "\<forall>e \<in> set es1. \<exists>x. e = Ran ?stop x" by blast
    show ?thesis
    proof (cases s)
      case (Inl e)
      then have "h' = h2" "r = Inl e" using m s by simp_all
      then show ?thesis using that [of "Captured (container_inspection ?name) out # es1"] h1 es1 look allowed(1)
        by (fastforce simp: start_argv_def)
    next
      case (Inr u)
      then have "command_run d ?rm h2 = (r, h')" using m s by simp
      from command_run_event [OF this] obtain x where x: "h' = h2 @ [Ran ?rm x]" "r = Inr () \<longleftrightarrow> oc_fail x = None" by auto
      let ?es = "Captured (container_inspection ?name) out # es1 @ [Ran ?rm x]"
      show ?thesis
      proof (rule that [of ?es])
        show "h' = h @ ?es" using h1 es1(1) x(1) by simp
        show "?es \<noteq> []" by simp
        show "\<forall>e \<in> set ?es. helper_event d t args token ?es e"
        proof
          fix e assume "e \<in> set ?es"
          then consider "e = Captured (container_inspection ?name) out" | y where "e = Ran ?stop y" | "e = Ran ?rm x" using es1(2) by auto
          then show "helper_event d t args token ?es e" by cases (simp_all add: look allowed)
        qed
        show "Ran (start_argv i) y \<notin> set ?es" for i y using es1(2) by (auto simp: start_argv_def)
        show "(\<exists>out. last ?es = Captured (container_inspection ?name) out \<and> one_answer (dec_containers d) out = Some None) \<or>
            (\<exists>c out. last ?es = Ran [''docker'', ''rm'', c_id c] out \<and> oc_fail out = None \<and> told d ?es ?name c)" if "r = Inr ()"
          using that x(2) told [of ?es] by auto
      qed
    qed
  qed
qed

lemma run_helper_events:
  assumes "run_helper d supplied ws t args h = (r, h')"
  obtains es where "h' = h @ es" "\<forall>e \<in> set es. reads_only e \<or> (\<exists>a. e = Sys ''rand.Read'' [''16''] a)" "r \<noteq> Inr ()"
  | es token where "h' = h @ es" "\<forall>e \<in> set es. helper_event d t args token es e"
    "\<And>i es1 out es2. es = es1 @ Ran (start_argv i) out # es2 \<Longrightarrow> fresh_start d ws t args token i es1"
    "r = Inr () \<Longrightarrow> (\<exists>out. last es = Captured (container_inspection (helper_name token)) out \<and> one_answer (dec_containers d) out = Some None) \<or>
       (\<exists>c out. last es = Ran [''docker'', ''rm'', c_id c] out \<and> oc_fail out = None \<and> told d es (helper_name token) c)"
proof -
  obtain p h1 where p: "prepare_helper d supplied ws t h = (p, h1)" by (metis surj_pair)
  obtain es1 where es1: "h1 = h @ es1" "\<forall>e \<in> set es1. reads_only e \<or> (\<exists>a. e = Sys ''rand.Read'' [''16''] a)"
    using appendsD [OF prepare_events p] .
  show thesis
  proof (cases p)
    case (Inl e)
    then have "h' = h1" "r = Inl e" using assms p by (simp_all add: run_helper_def)
    then show ?thesis using that(1) es1 by simp
  next
    case (Inr x)
    obtain img helper token where x: "x = (img, helper, token)" by (cases x)
    obtain q h2 where q: "use_helper d ws t args img helper (helper_name token) token h1 = (q, h2)" by (metis surj_pair)
    obtain q' h3 where q': "cleanup d (helper_name token) token h2 = (q', h3)" by (metis surj_pair)
    obtain es2 where es2: "h2 = h1 @ es2" "\<forall>e \<in> set es2. helper_event d t args token es2 e"
      "\<And>i pre out post. es2 = pre @ Ran (start_argv i) out # post \<Longrightarrow> fresh_start d ws t args token i pre"
      using use_helper_events [OF q] by blast
    obtain es3 where es3: "h3 = h2 @ es3" and ne: "es3 \<noteq> []" and es3a: "\<forall>e \<in> set es3. helper_event d t args token es3 e" "\<And>i out. Ran (start_argv i) out \<notin> set es3"
      "q' = Inr () \<Longrightarrow> (\<exists>out. last es3 = Captured (container_inspection (helper_name token)) out \<and> one_answer (dec_containers d) out = Some None) \<or>
       (\<exists>c out. last es3 = Ran [''docker'', ''rm'', c_id c] out \<and> oc_fail out = None \<and> told d es3 (helper_name token) c)"
      using cleanup_events [OF q'] by blast
    have h': "h' = h3" "r = Inr () \<Longrightarrow> q' = Inr ()" using assms p Inr x q q'
      by (auto simp: run_helper_def andThen_def split: sum.splits)
    let ?es = "es1 @ es2 @ es3"
    have sub: "set es2 \<subseteq> set ?es" "set es3 \<subseteq> set ?es" by auto
    show ?thesis
    proof (rule that(2) [of ?es token])
      show "h' = h @ ?es" using h'(1) es1(1) es2(1) es3 by simp
      show "\<forall>e \<in> set ?es. helper_event d t args token ?es e"
      proof
        fix e assume "e \<in> set ?es"
        then consider "e \<in> set es1" | "e \<in> set es2" | "e \<in> set es3" by auto
        then show "helper_event d t args token ?es e"
        proof cases
          case 1
          then show ?thesis using es1(2) unfolding helper_event_def by blast
        next
          case 2
          then show ?thesis using es2(2) helper_event_mono [OF _ sub(1)] by blast
        next
          case 3
          then show ?thesis using es3a(1) helper_event_mono [OF _ sub(2)] by blast
        qed
      qed
      show "fresh_start d ws t args token i pre" if whole: "?es = pre @ Ran (start_argv i) out # post" for i pre out post
      proof -
        have "Ran (start_argv i) out \<notin> set es1" using es1(2) by (auto simp: reads_only_def)
        from split_after [OF this whole] obtain q1 where q1: "pre = es1 @ q1" "es2 @ es3 = q1 @ Ran (start_argv i) out # post" by blast
        from split_before [OF es3a(2) q1(2)] obtain q2 where "es2 = q1 @ Ran (start_argv i) out # q2" by blast
        from fresh_start_after [OF es2(3) [OF this]] show ?thesis by (simp add: q1(1))
      qed
      show "(\<exists>out. last ?es = Captured (container_inspection (helper_name token)) out \<and> one_answer (dec_containers d) out = Some None) \<or>
          (\<exists>c out. last ?es = Ran [''docker'', ''rm'', c_id c] out \<and> oc_fail out = None \<and> told d ?es (helper_name token) c)" if "r = Inr ()"
        using es3a(3) [OF h'(2) [OF that]] ne told_mono [OF _ sub(2)] by (auto 6 0)
    qed
  qed
qed

section \<open>Results\<close>

lemma decode_result_ok:
  assumes "decode_result dec thread l data = Inr r"
  shows "ps_thread r = thread" "\<exists>m. ps_meta r = Some m \<and> sm_thread m = thread" "ps_main r \<noteq> []" "ps_destination r \<noteq> []"
    "int (length (ps_files r)) \<le> lm_files l" "\<forall>f \<in> set (ps_files r). check_installed r f = None"
    "length (filter (\<lambda>f. \<not> il_prefix f) (ps_files r)) = 1"
  using assms by (auto simp: decode_result_def checkE_None split: option.splits prod.splits if_split_asm)

lemma sink_outcome_None: "sink_outcome c ta l inp = (out, None) \<Longrightarrow> snd (ep_sink c ta inp) = None"
  by (auto simp: sink_outcome_def Let_def split: prod.splits if_split_asm)

lemma exchange_result:
  assumes "exchange producer consumer dec fromArgs toArgs thread l = (res, failure, asked)"
  shows "res = Some r \<Longrightarrow> \<exists>data. decode_result dec thread l data = Inr r" "res = None \<Longrightarrow> failure \<noteq> None"
    "asked \<longleftrightarrow> fst (ep_source producer fromArgs) \<noteq> []" "\<not> asked \<Longrightarrow> res = None"
    "failure = None \<Longrightarrow> snd (ep_source producer fromArgs) = None \<and> snd (ep_sink consumer toArgs (ep_source producer fromArgs)) = None"
  using assms unfolding exchange_def Let_def join_errors_def
  by (auto split: prod.splits if_split_asm option.splits sum.splits dest: sink_outcome_None)

lemma check_transfer_ok:
  "check_transfer over remote home opts = Inr i \<longleftrightarrow>
     (to_operation opts = ''export'' \<or> to_operation opts = ''import'') \<and> parse_id (to_thread opts) = Inr i \<and>
     valid_limits (to_limits opts) = Inr () \<and> lm_record (to_limits opts) \<le> max_i64 - lm_manifest (to_limits opts) \<and>
     is_abs (to_host_home opts) \<and> is_abs (to_host_sqlite opts) \<and> absolute_path home \<and> absolute_path (to_container_sqlite opts) \<and>
     \<not> over \<and> remote"
  by (auto simp: check_transfer_def Let_def result_iff)

text \<open>A transfer is refused before anything runs, or it is an exchange.\<close>

lemma transfer_cases:
  assumes "transfer over native remote dec home opts = (res, failure, asked)"
  obtains e where "res = None" "failure = Some e" "\<not> asked"
  | i rem producer consumer where "check_transfer over True home opts = Inr i" "remote = Some rem"
    "(producer, consumer) = (if to_operation opts = ''import'' then (native, rem) else (rem, native))"
    "exchange producer consumer dec (export_args home opts i) (import_args home opts i) i (to_limits opts) = (res, failure, asked)"
  using assms unfolding transfer_def by (auto split: sum.splits option.splits if_split_asm)

section \<open>A sample\<close>

definition toy_workspace :: workspace where
  "toy_workspace = \<lparr>ws_path = ''/w'', ws_base = ''w'', ws_slug = ''w'', ws_full_id = ''id'', ws_short_id = ''id'',
     ws_corral_id = ''c'', ws_corral_short_id = ''c'', ws_harness = ''codex'', ws_project = ''p'', ws_generated = False\<rparr>"

definition toy_station :: container where
  "toy_station = codex_container\<lparr>c_labels := [(label_harness_type, ''codex''), (label_runtime_schema, ''1''),
     (label_workspace_id, ''id''), (label_workspace_scheme, ''v1''), (label_corral_id, ''c''), (label_corral_scheme, ''v1''),
     (label_compose_project, ''p''), (label_compose_service, ''hcorral'')]\<rparr>"

definition toy_target :: target where
  "toy_target = projr (inspect_target (Some toy_station) ''/w/meta'' False)"

definition toy_token :: string where
  "toy_token = hex_bytes ''0123456789abcdef''"

definition toy_container_id :: string where
  "toy_container_id = replicate 64 (CHR ''a'')"

definition toy_helper :: container where
  "toy_helper = codex_container\<lparr>c_id := toy_container_id, c_name := ''/'' @ helper_name toy_token, c_labels := [(helper_label, toy_token)]\<rparr>"

text \<open>A daemon that answers every command: outputs name the objects.\<close>

definition toy_answers :: "history \<Rightarrow> string list \<Rightarrow> outcome" where
  "toy_answers h argv = \<lparr>oc_out =
     (if argv = container_inspection ''id1'' then ''station''
      else if take 2 argv = [''docker'', ''inspect''] then ''helper''
      else if take 2 argv = [''docker'', ''volume''] then ''volume''
      else if take 2 argv = [''docker'', ''create''] then toy_container_id else ''image''),
     oc_err = [], oc_fail = None, oc_ctx = None\<rparr>"

definition transfer_daemon :: daemon where
  "transfer_daemon = \<lparr>m_exec = toy_answers, m_look_path = (\<lambda>_ _. None), m_replace = (\<lambda>_ _. None), m_lock = (\<lambda>_ _. True),
     m_sys = (\<lambda>_ _ _. answer.Text ''0123456789abcdef''),
     dec_containers = (\<lambda>out. Some [if out = ''station'' then toy_station else toy_helper]),
     dec_volumes = (\<lambda>out. Some [\<lparr>vol_name = ''hcorral_state'', vol_driver = [], vol_mountpoint = [], vol_created_at = [], vol_labels = []\<rparr>]),
     dec_networks = (\<lambda>_. None),
     dec_images = (\<lambda>_. Some [\<lparr>img_id = ''img1'', img_os = ''linux'', img_architecture = ''arm64'', img_repo_digests = [], img_labels = [],
        img_volumes = [''/cache'']\<rparr>]),
     dec_project = (\<lambda>_. None)\<rparr>"

definition is_start :: "event \<Rightarrow> bool" where
  "is_start e = (case e of Ran argv out \<Rightarrow> argv = start_argv toy_container_id | _ \<Rightarrow> False)"

lemma toy_run:
  "case run_helper transfer_daemon (Some (\<lambda>_. Inr ''ELF'')) toy_workspace toy_target [''export''] [] of
     (r, h') \<Rightarrow> r = Inr () \<and> list_ex is_start h'"
  by code_simp

lemma toy_run_start:
  obtains h' es1 out es2 where "run_helper transfer_daemon (Some (\<lambda>_. Inr ''ELF'')) toy_workspace toy_target [''export''] [] = (Inr (), h')"
    "h' = es1 @ Ran (start_argv toy_container_id) out # es2"
proof -
  obtain r h' where r: "run_helper transfer_daemon (Some (\<lambda>_. Inr ''ELF'')) toy_workspace toy_target [''export''] [] = (r, h')"
    by (metis surj_pair)
  then have "r = Inr ()" "list_ex is_start h'" using toy_run by simp_all
  then obtain e where "e \<in> set h'" "is_start e" by (auto simp: list_ex_iff)
  then obtain out where "Ran (start_argv toy_container_id) out \<in> set h'" by (cases e rule: event.exhaust) (auto simp: is_start_def)
  then show thesis using that r \<open>r = Inr ()\<close> by (metis in_set_conv_decomp)
qed

definition toy_published :: published where
  "toy_published = \<lparr>ps_thread = sample_id, ps_destination = ''/h'', ps_main = ''sessions/a.jsonl'', ps_archived = False,
     ps_files = [\<lparr>il_path = ''sessions/a.jsonl'', il_rollout = sample_id, il_prefix = False, il_created = True, il_extended = False,
       il_promoted = False\<rparr>], ps_meta = Some (sample_meta\<lparr>sm_thread := sample_id\<rparr>), ps_repaired = False\<rparr>"

definition toy_endpoint :: endpoint where
  "toy_endpoint = \<lparr>ep_source = (\<lambda>_. (''tar'', None)), ep_stopped = (\<lambda>_. None), ep_sink = (\<lambda>_ _. ([''done''], None))\<rparr>"

definition toy_options :: transfer_options where
  "toy_options = \<lparr>to_operation = ''export'', to_thread = sample_id, to_host_home = ''/h'', to_host_sqlite = ''/h'',
     to_container_sqlite = ''/c'', to_limits = default_limits\<rparr>"

lemma toy_transferred:
  "transfer False toy_endpoint (Some toy_endpoint) (\<lambda>data. if data = ''done'' then Some (toy_published, False) else None) ''/c'' toy_options
     = (Some toy_published, None, True)"
proof -
  have d: "decode_result (\<lambda>data. if data = ''done'' then Some (toy_published, False) else None) sample_id default_limits ''done'' = Inr toy_published"
    using toy_id by (simp add: decode_result_def toy_published_def default_limits_def check_installed_def)
  have a: "is_abs ''/h''" "absolute_path ''/c''" by code_simp+
  have "check_transfer False True ''/c'' toy_options = Inr sample_id"
    using a toy_id by (simp add: check_transfer_ok toy_options_def max_i64_def default_limits_def valid_limits_def)
  then show ?thesis using d
    by (simp add: transfer_def toy_options_def exchange_def sink_outcome_def toy_endpoint_def join_errors_def default_limits_def)
qed

section \<open>Properties\<close>




text \<open>C13: A helper starts only in the workstation that was inspected: directly before the command that starts
  the helper, and after it was created and filled, the workstation's container was inspected again,
  belongs to the workspace, and gives the very storage the run was asked for - the same container,
  image, user, mounts and homes - with nothing but inspections of volumes in between.\<close>

theorem helper_starts_fresh:
  assumes "run_helper d supplied ws t args h = (r, h')" "h' = h @ es1 @ Ran (start_argv i) x # es2"
  shows "\<exists>token pre out c vols. es1 = pre @ Captured (container_inspection (tg_container t)) out # vols \<and>
    one_answer (dec_containers d) out = Some (Some c) \<and> verify_container (Some c) ws = None \<and>
    inspect_target (Some c) (tg_sqlite_home t) (tg_sqlite_writable t) = Inr t \<and>
    (\<forall>e \<in> set vols. \<exists>n y. e = Captured [''docker'', ''volume'', ''inspect'', n] y) \<and>
    (\<exists>covered y. Captured (create_argv t (helper_name token) token covered args) y \<in> set pre) \<and>
    (\<exists>y. Ran (supply_argv i) y \<in> set pre)"
  using assms(1)
proof (cases rule: run_helper_events)
  case (1 es)
  then have "es = es1 @ Ran (start_argv i) x # es2" using assms(2) by simp
  then have "Ran (start_argv i) x \<in> set es" by (metis in_set_conv_decomp)
  then show ?thesis using 1(2) by (auto simp: reads_only_def)
next
  case (2 es token)
  then have "es = es1 @ Ran (start_argv i) x # es2" using assms(2) by simp
  from 2(3) [OF this] show ?thesis unfolding fresh_start_def by blast
qed

theorem helper_starts_fresh_witness:
  "\<exists>out c. one_answer (dec_containers transfer_daemon) out = Some (Some c) \<and> verify_container (Some c) toy_workspace = None"
proof -
  obtain h' es1 out es2 where h': "run_helper transfer_daemon (Some (\<lambda>_. Inr ''ELF'')) toy_workspace toy_target [''export''] [] = (Inr (), h')"
    "h' = es1 @ Ran (start_argv toy_container_id) out # es2" by (rule toy_run_start)
  have "h' = [] @ es1 @ Ran (start_argv toy_container_id) out # es2" using h'(2) by simp
  from helper_starts_fresh [OF h'(1) this] show ?thesis by (elim exE conjE) (intro exI conjI)
qed

text \<open>C14: A transfer's answer can be relied on: a result is returned only when the destination was asked and
  its response decodes to the requested conversation, with at least one file and no more than the
  limit, every rollout a valid identifier, exactly one main rollout, at the reported path, and no
  impossible extension or promotion; without a result there is always an error; without an error
  both endpoints ended without one; and the destination is not even asked before the source has
  produced its first byte.\<close>

theorem transfer_confirmed:
  assumes "transfer over native remote dec home opts = (res, failure, asked)"
  shows "(res = None \<longrightarrow> failure \<noteq> None) \<and>
    (case res of None \<Rightarrow> True | Some r \<Rightarrow> asked \<and> parse_id (to_thread opts) = Inr (ps_thread r) \<and>
       (\<exists>m. ps_meta r = Some m \<and> sm_thread m = ps_thread r) \<and> 0 < length (ps_files r) \<and>
       int (length (ps_files r)) \<le> lm_files (to_limits opts) \<and>
       (\<exists>f. filter (\<lambda>f. \<not> il_prefix f) (ps_files r) = [f] \<and> il_path f = ps_main r) \<and>
       (\<forall>f \<in> set (ps_files r). is_ok (parse_id (il_rollout f)) \<and> (il_extended f \<longrightarrow> il_prefix f \<and> \<not> il_created f) \<and>
          (il_promoted f \<longrightarrow> \<not> il_prefix f))) \<and>
    (asked \<longrightarrow> (\<exists>producer consumer fromArgs toArgs. {Some producer, Some consumer} = {Some native, remote} \<and>
       fst (ep_source producer fromArgs) \<noteq> [] \<and>
       (failure = None \<longrightarrow> snd (ep_source producer fromArgs) = None \<and>
          snd (ep_sink consumer toArgs (ep_source producer fromArgs)) = None)))"
  using assms
proof (cases rule: transfer_cases)
  case (2 i rem producer consumer)
  then have i: "parse_id (to_thread opts) = Inr i" "remote = Some rem" "{producer, consumer} = {native, rem}"
    by (auto simp: check_transfer_ok split: if_split_asm)
  note ex = 2(4)
  note facts = exchange_result [OF ex]
  have ends: "{Some producer, Some consumer} = {Some native, remote}" using i(2,3) by (auto simp: doubleton_eq_iff)
  have "case res of None \<Rightarrow> True | Some r \<Rightarrow> asked \<and> parse_id (to_thread opts) = Inr (ps_thread r) \<and>
       (\<exists>m. ps_meta r = Some m \<and> sm_thread m = ps_thread r) \<and> 0 < length (ps_files r) \<and>
       int (length (ps_files r)) \<le> lm_files (to_limits opts) \<and>
       (\<exists>f. filter (\<lambda>f. \<not> il_prefix f) (ps_files r) = [f] \<and> il_path f = ps_main r) \<and>
       (\<forall>f \<in> set (ps_files r). is_ok (parse_id (il_rollout f)) \<and> (il_extended f \<longrightarrow> il_prefix f \<and> \<not> il_created f) \<and>
          (il_promoted f \<longrightarrow> \<not> il_prefix f))"
  proof (cases res)
    case (Some r)
    obtain data where "decode_result dec i (to_limits opts) data = Inr r" using facts(1) [OF Some] by blast
    note d = decode_result_ok [OF this]
    obtain f where f: "filter (\<lambda>f. \<not> il_prefix f) (ps_files r) = [f]" using d(7) by (auto simp: length_Suc_conv)
    then have "f \<in> set (filter (\<lambda>f. \<not> il_prefix f) (ps_files r))" by simp
    then have "f \<in> set (ps_files r)" "\<not> il_prefix f" by simp_all
    moreover from this have "check_installed r f = None" using d(6) by blast
    ultimately have "il_path f = ps_main r" by (auto simp: check_installed_def split: sum.splits if_split_asm)
    moreover have "is_ok (parse_id (il_rollout g)) \<and> (il_extended g \<longrightarrow> il_prefix g \<and> \<not> il_created g) \<and> (il_promoted g \<longrightarrow> \<not> il_prefix g)"
      if "g \<in> set (ps_files r)" for g
      using bspec [OF d(6) that] by (auto simp: check_installed_def split: sum.splits if_split_asm)
    moreover have "asked" using facts(4) Some by blast
    moreover have "0 < length (ps_files r)" using \<open>f \<in> set (ps_files r)\<close> by auto
    ultimately show ?thesis using d(1,2,5) f i(1) Some by auto
  qed simp
  then show ?thesis using facts(2,3,5) ends by (intro conjI) blast+
qed simp

theorem transfer_confirmed_witness:
  "\<exists>f. filter (\<lambda>f. \<not> il_prefix f) (ps_files toy_published) = [f] \<and> il_path f = ps_main toy_published"
  using transfer_confirmed [OF toy_transferred] by simp

end
