(* ===== verification/Session_Endpoint.thy ===== *)
theory Session_Endpoint
  imports Session_Publish Session_Transport
begin

text \<open>
  The endpoint of a transfer (\<open>internal/sessionhelper\<close>): what the native launcher and the helper
  in the container both run.  It composes the snapshot and the export of a conversation, or the
  reception and the publication of one, with the arguments the launcher sends; at the end the two
  endpoints and the launcher are put together.
\<close>

section \<open>Run\<close>

text \<open>
  The machine an endpoint runs on: the context at the beginning and at the snapshot, \<open>MkdirAll\<close> and
  \<open>OpenHome\<close> on the two paths (the database can be opened several times), the codec, the open
  files of a snapshot, the tar writer on members that were closed or not, the tar reader on the bytes
  and the error that end the input, the destination and its store, the JSON encoder of a result and
  of the capabilities with the error of its writes, and the errors of the deferred closes.
\<close>

record place =
  pc_over :: bool
  pc_cancelled :: bool
  pc_make :: "string \<Rightarrow> session_error option"
  pc_home :: "string \<Rightarrow> (session_error, home) result"
  pc_index :: "string \<Rightarrow> (session_error, nat \<Rightarrow> sqlite_home) result"
  pc_codec :: codec
  pc_exporter :: "plan \<Rightarrow> exporter"
  pc_tar :: "tar_member list \<Rightarrow> bool \<Rightarrow> string"
  pc_untar :: "string \<times> transport_error option \<Rightarrow> tar_stream"
  pc_receiver :: receiver
  pc_destination :: "string \<Rightarrow> destination"
  pc_store :: store
  pc_encode :: "published \<Rightarrow> string list \<times> session_error option"
  pc_capabilities :: "string list \<times> session_error option"
  pc_closed :: "string \<Rightarrow> session_error option"

text \<open>A deferred close joins its error.\<close>

definition closing :: "place \<Rightarrow> string \<Rightarrow> transport_error option \<Rightarrow> transport_error option" where
  "closing pc what e = join_errors e (map_option TSession (pc_closed pc what))"

definition close_homes :: "place \<Rightarrow> transport_error option \<Rightarrow> transport_error option" where
  "close_homes pc e = closing pc ''home'' (closing pc ''database'' e)"

definition source_selection :: "(nat \<Rightarrow> sqlite_home) \<Rightarrow> string \<Rightarrow> bool \<Rightarrow> (session_error, selection option) result" where
  "source_selection sq thread later = read_selected (sq (if later then 1 else 0)) thread"

definition export_session :: "place \<Rightarrow> helper_request \<Rightarrow> home \<Rightarrow> (nat \<Rightarrow> sqlite_home) \<Rightarrow> string \<times> transport_error option" where
  "export_session pc rq h sq =
     (case snapshot (pc_codec pc) h (pc_cancelled pc) (hr_id rq) (Some (source_selection sq (hr_id rq))) (hr_limits rq) of
        Inl e \<Rightarrow> ([], Some (TSession e))
      | Inr p \<Rightarrow>
          (case export_plan (pc_exporter pc p) (hr_limits rq) p of
             (ms, e) \<Rightarrow> (pc_tar pc ms (e = None), closing pc ''snapshot'' (map_option TSession e))))"

text \<open>The staging slots after a reception: the data of the members, as the slots were read back.\<close>

fun staged_slots :: "rollout_file list \<Rightarrow> tar_member list \<Rightarrow> store" where
  "staged_slots (f # fs) (m # ms) =
     (staged_slots fs ms)(rf_source f \<mapsto> \<lparr>sd_data = take (nat (tm_size m)) (tm_data m), sd_stat = the (rf_stored f)\<rparr>)"
| "staged_slots fs ms = Map.empty"

definition received_incoming :: "place \<Rightarrow> limits \<Rightarrow> tar_stream \<Rightarrow> plan \<Rightarrow> incoming" where
  "received_incoming pc l s p =
     \<lparr>im_open = True, im_plan = p, im_stage = staged_slots (pl_files p) (tl (ts_members s)),
      im_slots = length (pl_files p), im_limits = l, im_codec = rc_codec (pc_receiver pc)\<rparr>"

text \<open>The writes of the result, the error, and the publication if it was begun.\<close>

definition import_session ::
  "place \<Rightarrow> helper_request \<Rightarrow> (nat \<Rightarrow> sqlite_home) \<Rightarrow> string \<times> transport_error option
     \<Rightarrow> string list \<times> transport_error option \<times> publication option" where
  "import_session pc rq sq input =
     (let s = pc_untar pc input in
      case receive (pc_receiver pc) (hr_limits rq) s of
        (Inl e, gone) \<Rightarrow> ([], if gone then closing pc ''incoming'' (Some (TSession e)) else Some (TSession e), None)
      | (Inr p, _) \<Rightarrow>
          if pl_thread p \<noteq> hr_id rq
          then ([], closing pc ''incoming'' (Some (TRefused ''received a different thread than the requested UUID'')), None)
          else (case publish (pc_destination pc (hr_home rq)) (received_incoming pc (hr_limits rq) s p) (Some sq) (pc_store pc) of
             (pb, Inl e) \<Rightarrow> ([], closing pc ''incoming'' (Some (TSession e)), Some pb)
           | (pb, Inr r) \<Rightarrow>
               (case pc_encode pc r of (ws, e) \<Rightarrow> (ws, closing pc ''incoming'' (map_option TSession e), Some pb))))"

text \<open>What \<open>Run\<close> does once its arguments are read: only an import makes its home.\<close>

definition serve_request ::
  "place \<Rightarrow> helper_request \<Rightarrow> string \<times> transport_error option \<Rightarrow> string list \<times> transport_error option \<times> publication option" where
  "serve_request pc rq input =
     (if pc_over pc then ([], Some (TSession Interrupted), None)
      else case (if hr_operation rq = ''import'' then pc_make pc (hr_home rq) else None) of
        Some e \<Rightarrow> ([], Some (TSession e), None)
      | None \<Rightarrow>
          (case pc_home pc (hr_home rq) of
             Inl e \<Rightarrow> ([], Some (TSession e), None)
           | Inr h \<Rightarrow>
               (case pc_index pc (hr_sqlite rq) of
                  Inl e \<Rightarrow> ([], closing pc ''home'' (Some (TSession e)), None)
                | Inr sq \<Rightarrow>
                    if hr_operation rq = ''export''
                    then (case export_session pc rq h sq of (bytes, e) \<Rightarrow> ([bytes], close_homes pc e, None))
                    else (case import_session pc rq sq input of (ws, e, pb) \<Rightarrow> (ws, close_homes pc e, pb)))))"

definition session_helper ::
  "place \<Rightarrow> string list \<Rightarrow> string \<times> transport_error option \<Rightarrow> string list \<times> transport_error option \<times> publication option" where
  "session_helper pc args input =
     (case parse_helper args of
        Inl e \<Rightarrow> ([], Some (TSession e), None)
      | Inr None \<Rightarrow> (case pc_capabilities pc of (ws, e) \<Rightarrow> (ws, map_option TSession e, None))
      | Inr (Some rq) \<Rightarrow> serve_request pc rq input)"

text \<open>The same \<open>Run\<close> as an endpoint of \<open>transfer\<close>; \<open>stopped\<close> is its error when the other side fails first.\<close>

definition endpoint_of :: "place \<Rightarrow> (string list \<Rightarrow> transport_error option) \<Rightarrow> endpoint" where
  "endpoint_of pc stopped =
     \<lparr>ep_source = (\<lambda>args. case session_helper pc args ([], None) of (ws, e, _) \<Rightarrow> (concat ws, e)),
      ep_stopped = stopped,
      ep_sink = (\<lambda>args input. case session_helper pc args input of (ws, e, _) \<Rightarrow> (ws, e))\<rparr>"

section \<open>The parts of a successful run\<close>

lemma join_errors_None [simp]: "join_errors a b = None \<longleftrightarrow> a = None \<and> b = None"
  by (cases a; cases b) (simp_all add: join_errors_def)

lemma closing_None [simp]: "closing pc what e = None \<longleftrightarrow> e = None \<and> pc_closed pc what = None"
  by (simp add: closing_def)

lemma close_homes_None [simp]: "close_homes pc e = None \<longleftrightarrow> e = None \<and> pc_closed pc ''database'' = None \<and> pc_closed pc ''home'' = None"
  by (auto simp: close_homes_def)

lemma export_runs:
  assumes "serve_request pc rq input = (ws, None, pb)" "hr_operation rq = ''export''"
  obtains h sq p ms where "pc_home pc (hr_home rq) = Inr h" "pc_index pc (hr_sqlite rq) = Inr sq"
    "snapshot (pc_codec pc) h (pc_cancelled pc) (hr_id rq) (Some (source_selection sq (hr_id rq))) (hr_limits rq) = Inr p"
    "export_plan (pc_exporter pc p) (hr_limits rq) p = (ms, None)" "ws = [pc_tar pc ms True]"
  using assms by (auto simp: serve_request_def export_session_def split: if_split_asm sum.splits prod.splits)

lemma import_runs:
  assumes "serve_request pc rq input = (ws, None, pb)" "hr_operation rq = ''import''"
  obtains sq p gone pub r where "pc_index pc (hr_sqlite rq) = Inr sq"
    "receive (pc_receiver pc) (hr_limits rq) (pc_untar pc input) = (Inr p, gone)" "pl_thread p = hr_id rq"
    "publish (pc_destination pc (hr_home rq)) (received_incoming pc (hr_limits rq) (pc_untar pc input) p) (Some sq) (pc_store pc) = (pub, Inr r)"
    "pc_encode pc r = (ws, None)" "pb = Some pub"
  using assms
  by (auto simp: serve_request_def import_session_def Let_def split: if_split_asm sum.splits prod.splits option.splits)

section \<open>What is delivered\<close>

lemma digits_val_zeros: "digits_val (replicate k CHR ''0'' @ s) = digits_val s"
  by (induction k) (simp_all add: digits_val_def digit_val_def)

lemma pad_value: "digits_val (pad w n) = n"
  by (simp add: pad_def digits_val_zeros)

lemma slot_name_inj: "slot_name i = slot_name j \<Longrightarrow> i = j"
  unfolding slot_name_def append_same_eq by (metis pad_value)

lemma receive_file_slot:
  assumes "receive_file rc l i w ms = Inr (f, rest)"
  obtains m where "ms = m # rest" "rf_source f = slot_name i" "sha256_hex (take (nat (tm_size m)) (tm_data m)) = rf_sha256 f"
proof -
  obtain m data where m: "expected_member ms (payload_name i) (wf_bytes w) = Inr (m, rest)" "member_data m = Inr data"
    "sha256_hex data = wf_sha256 w" and f: "rf_sha256 f = wf_sha256 w" "rf_source f = slot_name i"
    using assms unfolding receive_file_def
    by (auto simp: result_iff Let_def split: if_split_asm dest!: read_rolloutE(1))
  have "ms = m # rest" using m(1) by (auto simp: expected_member_def split: list.splits if_split_asm)
  moreover have "data = take (nat (tm_size m)) (tm_data m)" using m(2) by (auto simp: member_data_def split: if_split_asm)
  ultimately show thesis using m(3) f by (intro that [of m]) simp_all
qed

text \<open>Every received file is in a slot of its own, with the bytes that have its hash.\<close>

lemma received_slots:
  assumes "receive_files rc l i ws ms = Inr (fs, rest)" "f \<in> set fs"
  shows "\<exists>k g. rf_source f = slot_name k \<and> i \<le> k \<and> staged_slots fs ms (rf_source f) = Some g \<and> sha256_hex (sd_data g) = rf_sha256 f"
  using assms
proof (induction ws arbitrary: i ms fs)
  case (Cons w ws)
  obtain f' rest' fs' where r: "receive_file rc l i w ms = Inr (f', rest')" "receive_files rc l (i + 1) ws rest' = Inr (fs', rest)"
    "fs = f' # fs'" using Cons.prems(1) by (auto simp: result_iff)
  obtain m where m: "ms = m # rest'" "rf_source f' = slot_name i" "sha256_hex (take (nat (tm_size m)) (tm_data m)) = rf_sha256 f'"
    by (rule receive_file_slot [OF r(1)])
  show ?case
  proof (cases "f = f'")
    case True
    then show ?thesis using m r(3) by (intro exI [of _ i]) simp
  next
    case False
    then obtain k g where k: "rf_source f = slot_name k" "i + 1 \<le> k" "staged_slots fs' rest' (rf_source f) = Some g"
      "sha256_hex (sd_data g) = rf_sha256 f" using Cons.IH [OF r(2)] Cons.prems(2) r(3) by auto
    have "slot_name k \<noteq> slot_name i" using k(2) slot_name_inj by fastforce
    then show ?thesis using k m(1,2) r(3) by (intro exI [of _ k] exI [of _ g]) simp
  qed
qed simp

lemma receive_slots:
  assumes "receive rc l s = (Inr q, gone)" "f \<in> set (pl_files q)"
  shows "\<not> compressed (rf_source f) \<and>
    (\<exists>g. staged_slots (pl_files q) (tl (ts_members s)) (rf_source f) = Some g \<and> sha256_hex (sd_data g) = rf_sha256 f)"
proof -
  obtain encoded m ms where r: "receive_manifest rc l s = Inr (encoded, m, ms)" "receive_staged rc l s encoded m ms = Inr q"
    using assms(1) unfolding receive_def by (auto simp: result_iff split: sum.splits option.splits prod.splits)
  obtain h where h: "ts_members s = h # ms" by (rule receive_manifestE [OF r(1)])
  obtain files rest where f: "receive_files rc l 0 (mf_files m) ms = Inr (files, rest)" "q = \<lparr>pl_thread = mf_thread m, pl_files = files\<rparr>"
    using r(2) unfolding receive_staged_def by (auto simp: result_iff split: option.splits)
  have "f \<in> set files" using assms(2) f(2) by simp
  from received_slots [OF f(1) this] obtain k g
    where "rf_source f = slot_name k" "staged_slots files ms (rf_source f) = Some g" "sha256_hex (sd_data g) = rf_sha256 f" by blast
  then show ?thesis using h f(2) by (simp add: slot_plain)
qed

definition delivered :: "rollout_file \<Rightarrow> rollout_file \<Rightarrow> bool" where
  "delivered f g \<longleftrightarrow> rf_thread g = rf_thread f \<and> rf_rollout g = rf_rollout f \<and> rf_prefix g = rf_prefix f \<and>
     rf_bytes g = rf_bytes f \<and> rf_sha256 g = rf_sha256 f"

lemma export_received:
  assumes exp: "export_plan ex l p = (ms, None)" and rec: "receive rc l (closed_stream ms) = (Inr q, gone)"
    and json: "faithful_json (ex_encode ex) (rc_decode rc)"
  shows "pl_thread q = pl_thread p" "list_all2 delivered (pl_files p) (pl_files q)"
proof -
  obtain wires encoded ds where e: "mapE (wire_of ex) (pl_files p) = Inr wires"
    "ex_encode ex \<lparr>mf_version = 1, mf_thread = pl_thread p, mf_files = wires\<rparr> = Some encoded"
    "ms = regular_member ''manifest.json'' (int (length encoded)) encoded # payload_members 0 (pl_files p) ds @
      [regular_member ''complete.sha256'' 65 (sha256_hex encoded @ [newline])]"
    by (rule export_completeE [OF exp]) auto
  obtain encoded' m ms' where r: "receive_manifest rc l (closed_stream ms) = Inr (encoded', m, ms')"
    "receive_staged rc l (closed_stream ms) encoded' m ms' = Inr q"
    using rec unfolding receive_def by (auto simp: result_iff split: sum.splits option.splits prod.splits)
  obtain h where h: "ts_members (closed_stream ms) = h # ms'" "member_data h = Inr encoded'" "rc_decode rc encoded' = Some (m, True)"
    by (rule receive_manifestE [OF r(1)])
  have "encoded' = encoded" using h(1,2) e(3) by (auto simp: closed_stream_def member_data_def regular_member_def)
  then have m: "m = \<lparr>mf_version = 1, mf_thread = pl_thread p, mf_files = wires\<rparr>"
    using h(3) json e(2) by (simp add: faithful_json_def)
  obtain files rest where f: "receive_files rc l 0 (mf_files m) ms' = Inr (files, rest)" "q = \<lparr>pl_thread = mf_thread m, pl_files = files\<rparr>"
    using r(2) unfolding receive_staged_def by (auto simp: result_iff split: option.splits)
  show "pl_thread q = pl_thread p" using f(2) m by simp
  have "list_all2 (accepted rc l) wires files" using receive_files_accepted [OF f(1)] m by simp
  then have "list_all2 delivered (pl_files p) files"
    by (rule list_all2_trans [OF _ wires_ok [OF e(1)], rotated]) (auto simp: delivered_def accepted_def wire_def)
  then show "list_all2 delivered (pl_files p) (pl_files q)" using f(2) by simp
qed

section \<open>From one endpoint to the other\<close>

lemma take_writes_all: "take_writes n buf ws = (out, False) \<Longrightarrow> out = buf @ concat ws"
  by (induction n buf ws rule: take_writes.induct) (auto split: if_split_asm)

lemma exchange_success:
  assumes "exchange producer consumer dec fromArgs toArgs thread l = (Some r, None, asked)"
  obtains bytes ws where "ep_source producer fromArgs = (bytes, None)" "ep_sink consumer toArgs (bytes, None) = (ws, None)"
    "decode_result dec thread l (concat ws) = Inr r"
proof -
  obtain bytes where s: "ep_source producer fromArgs = (bytes, None)" using exchange_result(5) [OF assms] by (metis prod.collapse)
  obtain ws where k: "ep_sink consumer toArgs (bytes, None) = (ws, None)" using exchange_result(5) [OF assms] s by (metis prod.collapse)
  obtain response full where t: "take_writes (lm_record l + lm_manifest l) [] ws = (response, full)" by fastforce
  have "\<not> full \<and> decode_result dec thread l response = Inr r"
    using assms s k t unfolding exchange_def sink_outcome_def Let_def
    by (auto split: if_split_asm option.splits sum.splits)
  moreover from this have "response = concat ws" using take_writes_all [of _ "[]" ws response] t by auto
  ultimately show thesis using s k by (intro that [of bytes ws]) simp_all
qed

text \<open>The two ends of a transfer, with the homes the launcher gives them.\<close>

definition transfer_source :: "place \<Rightarrow> place \<Rightarrow> transfer_options \<Rightarrow> place" where
  "transfer_source host station opts = (if to_operation opts = ''export'' then station else host)"

definition transfer_goal :: "place \<Rightarrow> place \<Rightarrow> transfer_options \<Rightarrow> place" where
  "transfer_goal host station opts = (if to_operation opts = ''export'' then host else station)"

definition source_home :: "string \<Rightarrow> transfer_options \<Rightarrow> string" where
  "source_home home opts = (if to_operation opts = ''export'' then home else to_host_home opts)"

definition goal_home :: "string \<Rightarrow> transfer_options \<Rightarrow> string" where
  "goal_home home opts = (if to_operation opts = ''export'' then to_host_home opts else home)"

text \<open>
  What the two ends need of each other: the tar stream of an export reads as it was written, the
  manifest and the result decode to what was encoded.
\<close>

definition understood :: "place \<Rightarrow> place \<Rightarrow> result_decoder \<Rightarrow> limits \<Rightarrow> bool" where
  "understood src dst dec l \<longleftrightarrow>
     (\<forall>p ms. export_plan (pc_exporter src p) l p = (ms, None) \<longrightarrow> pc_untar dst (pc_tar src ms True, None) = closed_stream ms) \<and>
     (\<forall>p. faithful_json (ex_encode (pc_exporter src p)) (rc_decode (pc_receiver dst))) \<and>
     (\<forall>r ws. pc_encode dst r = (ws, None) \<longrightarrow> dec (concat ws) = Some (r, False))"

lemma absolute_is_abs: "absolute_path s \<Longrightarrow> is_abs s"
  by (auto simp: absolute_path_def is_abs_def)

text \<open>A run of the two endpoints with what the launcher sends them.\<close>

lemma endpoints_deliver:
  assumes ex: "exchange (endpoint_of src s) (endpoint_of dst t) dec (transfer_args ''export'' fh fs i l)
      (transfer_args ''import'' th ts i l) i l = (Some r, None, asked)"
    and args: "parse_id i = Inr i" "valid_limits l = Inr ()" "limits_in_range l" "is_abs fh" "is_abs fs" "is_abs th" "is_abs ts"
    and und: "understood src dst dec l"
  shows "\<exists>h sq p q sq' im pb. pc_home src fh = Inr h \<and>
    snapshot (pc_codec src) h (pc_cancelled src) i (Some (source_selection sq i)) l = Inr p \<and>
    list_all2 delivered (pl_files p) (pl_files q) \<and> im_plan im = q \<and> staged_files im \<and>
    (\<forall>f \<in> set (pl_files q). \<exists>g. im_stage im (rf_source f) = Some g \<and> sha256_hex (sd_data g) = rf_sha256 f) \<and>
    publish (pc_destination dst th) im (Some sq') (pc_store dst) = (pb, Inr r)"
proof -
  obtain bytes ws where b: "ep_source (endpoint_of src s) (transfer_args ''export'' fh fs i l) = (bytes, None)"
    "ep_sink (endpoint_of dst t) (transfer_args ''import'' th ts i l) (bytes, None) = (ws, None)"
    "decode_result dec i l (concat ws) = Inr r" by (rule exchange_success [OF ex])
  let ?out = "\<lparr>hr_operation = ''export'', hr_home = fh, hr_sqlite = fs, hr_id = i, hr_limits = l\<rparr>"
    and ?in = "\<lparr>hr_operation = ''import'', hr_home = th, hr_sqlite = ts, hr_id = i, hr_limits = l\<rparr>"
  obtain us pb0 where out: "serve_request src ?out ([], None) = (us, None, pb0)" "bytes = concat us"
    using b(1) args_read [of "''export''" fh fs i l] args
    by (auto simp: endpoint_of_def session_helper_def split: prod.splits)
  obtain pb1 where into: "serve_request dst ?in (bytes, None) = (ws, None, pb1)"
    using b(2) args_read [of "''import''" th ts i l] args
    by (auto simp: endpoint_of_def session_helper_def split: prod.splits)
  obtain h sq p ms where e: "pc_home src fh = Inr h"
    "snapshot (pc_codec src) h (pc_cancelled src) i (Some (source_selection sq i)) l = Inr p"
    "export_plan (pc_exporter src p) l p = (ms, None)" "bytes = pc_tar src ms True"
    by (rule export_runs [OF out(1)]) (use out(2) in auto)
  obtain sq' q gone pub r' where m: "receive (pc_receiver dst) l (pc_untar dst (bytes, None)) = (Inr q, gone)"
    "publish (pc_destination dst th) (received_incoming dst l (pc_untar dst (bytes, None)) q) (Some sq') (pc_store dst) = (pub, Inr r')"
    "pc_encode dst r' = (ws, None)"
    by (rule import_runs [OF into]) auto
  have stream: "pc_untar dst (bytes, None) = closed_stream ms" and json: "faithful_json (ex_encode (pc_exporter src p)) (rc_decode (pc_receiver dst))"
    and dec: "dec (concat ws) = Some (r', False)" using und e(3,4) m(3) by (simp_all add: understood_def)
  have "r' = r" using b(3) dec by (auto simp: decode_result_def split: if_split_asm option.splits)
  moreover have "list_all2 delivered (pl_files p) (pl_files q)" using export_received(2) [OF e(3) _ json] m(1) stream by simp
  moreover have "staged_files (received_incoming dst l (closed_stream ms) q)"
    "\<forall>f \<in> set (pl_files q). \<exists>g. im_stage (received_incoming dst l (closed_stream ms) q) (rf_source f) = Some g \<and> sha256_hex (sd_data g) = rf_sha256 f"
    using receive_slots [OF m(1)] stream by (auto simp: staged_files_def received_incoming_def)
  ultimately show ?thesis using e(1,2) m(2) stream
    by (intro exI [of _ h] exI [of _ sq] exI [of _ p] exI [of _ q] exI [of _ sq']
        exI [of _ "received_incoming dst l (closed_stream ms) q"] exI [of _ pub] conjI) (simp_all add: received_incoming_def)
qed

text \<open>
  \<open>arrived\<close>: the result names the rollout, and a file it calls created was linked to a free name, with
  bytes that have the hash of the source.
\<close>

definition arrived :: "publication \<Rightarrow> rollout_file \<Rightarrow> installed \<Rightarrow> bool" where
  "arrived pb f ins \<longleftrightarrow> il_rollout ins = rf_rollout f \<and> il_prefix ins = rf_prefix f \<and>
     (il_created ins \<longrightarrow> (\<exists>a g. sha256_hex (sd_data g) = rf_sha256 f \<and> a (il_path ins) = None \<and>
        (a, a(il_path ins \<mapsto> linked_file g)) \<in> set (pb_log pb)))"

lemma arrived_delivered: "delivered f g \<Longrightarrow> arrived pb g ins \<Longrightarrow> arrived pb f ins"
  by (simp add: delivered_def arrived_def)

lemma published_files:
  assumes "publish d im sq st = (pb, Inr r)" "staged_files im"
    "\<forall>f \<in> set (pl_files (im_plan im)). \<exists>g. im_stage im (rf_source f) = Some g \<and> sha256_hex (sd_data g) = rf_sha256 f"
  shows "list_all2 (arrived pb) (pl_files (im_plan im)) (ps_files r)"
  using assms(1)
proof (cases rule: publish_cases)
  case (2 sq' chs held)
  have ok: "list_all2 (present_file (im_stage im) pb) (pl_files (im_plan im)) chs" "ps_files r = map2 installed_file (pl_files (im_plan im)) chs"
    using install_all_ok(2,3) [OF 2(4) assms(2) 2(3)] by blast+
  have "arrived pb f (installed_file f pick)" if "f \<in> set (pl_files (im_plan im))" "present_file (im_stage im) pb f pick" for f pick
    using that assms(3) unfolding arrived_def present_file_def installed_file_def by fastforce
  then show ?thesis using ok by (auto simp: list_all2_conv_all_nth)
qed simp

section \<open>A sample\<close>

definition toy_plan :: plan where
  "toy_plan = \<lparr>pl_thread = sample_id, pl_files = [toy_file]\<rparr>"

definition toy_result :: published where
  "toy_result = \<lparr>ps_thread = sample_id, ps_destination = ''/d'', ps_main = toy_path, ps_archived = False,
     ps_files = [\<lparr>il_path = toy_path, il_rollout = sample_id, il_prefix = False, il_created = True, il_extended = False,
       il_promoted = False\<rparr>], ps_meta = Some (rf_meta toy_file), ps_repaired = False\<rparr>"

definition toy_place :: place where
  "toy_place = \<lparr>pc_over = False, pc_cancelled = False, pc_make = (\<lambda>_. None), pc_home = (\<lambda>_. Inr toy_home),
     pc_index = (\<lambda>_. Inr (\<lambda>_. vacant_sqlite)), pc_codec = toy_codec,
     pc_exporter = (\<lambda>p. toy_exporter\<lparr>ex_open := (p = toy_plan)\<rparr>),
     pc_tar = (\<lambda>ms _. if ms = toy_members then ''T'' else []), pc_untar = (\<lambda>_. closed_stream toy_members),
     pc_receiver = toy_receiver, pc_destination = (\<lambda>_. toy_destination), pc_store = Map.empty,
     pc_encode = (\<lambda>r. if r = toy_result then ([''R''], None) else ([], Some (Refused ''json''))),
     pc_capabilities = ([], None), pc_closed = (\<lambda>_. None)\<rparr>"

definition toy_decoder :: result_decoder where
  "toy_decoder data = (if data = ''R'' then Some (toy_result, False) else None)"

lemma toy_received:
  "receive toy_receiver default_limits (closed_stream toy_members) =
     (Inr \<lparr>pl_thread = sample_id, pl_files = [received toy_file toy_path 0 toy_stat]\<rparr>, False)"
proof -
  obtain p where p: "receive toy_receiver default_limits (closed_stream toy_members) = (Inr p, False)" using toy_receive by blast
  obtain encoded m ms where r: "receive_manifest toy_receiver default_limits (closed_stream toy_members) = Inr (encoded, m, ms)"
    "receive_staged toy_receiver default_limits (closed_stream toy_members) encoded m ms = Inr p"
    using p unfolding receive_def by (auto simp: result_iff split: sum.splits option.splits prod.splits)
  obtain h where h: "ts_members (closed_stream toy_members) = h # ms" "rc_decode toy_receiver encoded = Some (m, True)"
    by (rule receive_manifestE [OF r(1)])
  have "ms = tl (ts_members (closed_stream toy_members))" using h(1) by simp
  then have ms: "ms = tl toy_members" "m = toy_manifest"
    using h(2) by (auto simp: closed_stream_def toy_receiver_def split: if_split_asm)
  obtain files rest where f: "receive_files toy_receiver default_limits 0 (mf_files m) ms = Inr (files, rest)"
    "p = \<lparr>pl_thread = mf_thread m, pl_files = files\<rparr>"
    using r(2) unfolding receive_staged_def by (auto simp: result_iff split: option.splits)
  note sound = snapshot_sound [OF toy_snapshot]
  have "list_all2 verified [toy_file] [toy_data]" by (simp add: verified_def toy_file_simps toy_data_length)
  then have "list_all2 (file_content toy_codec default_limits) [toy_file] [toy_data]"
    by (rule sent_content [rotated]) (use toy_unique sound(2) read_content in auto)
  then have c: "file_content toy_codec default_limits toy_file toy_data" by simp
  have "sound_file toy_file" using sound(1) by (simp add: sound_plan_def)
  from receive_one [OF c toy_publication this, of toy_receiver 0 toy_stat "[regular_member ''complete.sha256'' 65 (sha256_hex ''M'' @ [newline])]"]
  have "receive_files toy_receiver default_limits 0 [wire toy_file toy_path] (tl toy_members) =
      Inr ([received toy_file toy_path 0 toy_stat], [regular_member ''complete.sha256'' 65 (sha256_hex ''M'' @ [newline])])"
    by (simp add: toy_receiver_def toy_members_def default_limits_def toy_file_simps)
  then show ?thesis using f p ms by (simp add: toy_manifest_def)
qed

lemma toy_understood: "understood toy_place toy_place toy_decoder default_limits"
proof -
  have "p = toy_plan" if "export_plan (toy_exporter\<lparr>ex_open := (p = toy_plan)\<rparr>) default_limits p = (ms, None)" for p ms
    using that by (auto simp: export_plan_def split: if_split_asm)
  moreover have "toy_exporter\<lparr>ex_open := True\<rparr> = toy_exporter" by (simp add: toy_exporter_def)
  ultimately have "ms = toy_members" if "export_plan (toy_exporter\<lparr>ex_open := (p = toy_plan)\<rparr>) default_limits p = (ms, None)" for p ms
    using that toy_export by (fastforce simp: toy_plan_def)
  then show ?thesis using toy_transfer(4)
    by (auto simp: understood_def toy_place_def toy_decoder_def faithful_json_def split: if_split_asm)
qed

lemma toy_transfer_run:
  "transfer False (endpoint_of toy_place (\<lambda>_. None)) (Some (endpoint_of toy_place (\<lambda>_. None))) toy_decoder ''/c'' toy_options =
     (Some toy_result, None, True)"
proof -
  have a: "is_abs ''/h''" "absolute_path ''/c''" "is_abs ''/c''" "valid_limits default_limits = Inr ()" "limits_in_range default_limits"
    by code_simp+
  have out: "parse_helper (transfer_args ''export'' ''/c'' ''/c'' sample_id default_limits) = Inr (Some \<lparr>hr_operation = ''export'',
      hr_home = ''/c'', hr_sqlite = ''/c'', hr_id = sample_id, hr_limits = default_limits\<rparr>)"
    and into: "parse_helper (transfer_args ''import'' ''/h'' ''/h'' sample_id default_limits) = Inr (Some \<lparr>hr_operation = ''import'',
      hr_home = ''/h'', hr_sqlite = ''/h'', hr_id = sample_id, hr_limits = default_limits\<rparr>)"
    using a toy_id by (simp_all add: args_read)
  have none: "read_selected vacant_sqlite i = Inr None" for i
    by (simp add: read_selected_def open_state_db_def vacant_sqlite_def is_missing_def check_sidecar_def)
  then have "source_selection (\<lambda>_. vacant_sqlite) sample_id = (\<lambda>_. Inr None)" by (simp add: source_selection_def fun_eq_iff)
  then have src: "ep_source (endpoint_of toy_place (\<lambda>_. None)) (transfer_args ''export'' ''/c'' ''/c'' sample_id default_limits) = (''T'', None)"
    using toy_snapshot toy_export
    by (simp add: endpoint_of_def session_helper_def out serve_request_def toy_place_def export_session_def closing_def
        close_homes_def join_errors_def toy_plan_def toy_exporter_def)
  have incoming: "received_incoming toy_place default_limits (closed_stream toy_members)
      \<lparr>pl_thread = sample_id, pl_files = [received toy_file toy_path 0 toy_stat]\<rparr> = toy_incoming"
    by (simp add: received_incoming_def toy_incoming_def toy_place_def toy_receiver_def closed_stream_def toy_members_def
        received_def regular_member_def toy_data_length)
  have dst: "ep_sink (endpoint_of toy_place (\<lambda>_. None)) (transfer_args ''import'' ''/h'' ''/h'' sample_id default_limits) (''T'', None) = ([''R''], None)"
    using toy_received toy_publish incoming
    by (simp add: endpoint_of_def session_helper_def into serve_request_def import_session_def closing_def
        close_homes_def join_errors_def toy_result_def toy_place_def)
  have "decode_result toy_decoder sample_id default_limits ''R'' = Inr toy_result"
    using toy_id by (simp add: decode_result_def toy_decoder_def toy_result_def default_limits_def check_installed_def
        toy_file_simps sample_meta_def) (simp add: toy_path_def)
  moreover have "check_transfer False True ''/c'' toy_options = Inr sample_id"
    using a toy_id by (simp add: check_transfer_ok toy_options_def max_i64_def default_limits_def)
  ultimately show ?thesis using src dst
    by (simp add: transfer_def toy_options_def export_args_def import_args_def exchange_def sink_outcome_def join_errors_def default_limits_def)
qed

section \<open>Properties\<close>

text \<open>C0: A confirmed transfer delivers the conversation: when the launcher's transfer between the two
  endpoints returns a result without an error, the source has captured the requested thread from its
  home, the destination's publication succeeded with exactly this result, and file by file, in the
  order of the captured lineage, the result names the captured rollout, and each file it calls created
  was linked to a name that was free, with bytes that have the SHA-256 of the captured history.  This
  needs that the two ends agree on the tar stream and the JSON of the manifest and the result.\<close>

theorem session_transferred:
  assumes run: "transfer over (endpoint_of host s) (Some (endpoint_of station t)) dec home opts = (Some r, None, asked)"
    and und: "understood (transfer_source host station opts) (transfer_goal host station opts) dec (to_limits opts)"
    and range: "limits_in_range (to_limits opts)"
  shows "\<exists>i h sq p im sq' pb. parse_id (to_thread opts) = Inr i \<and>
    pc_home (transfer_source host station opts) (source_home home opts) = Inr h \<and>
    snapshot (pc_codec (transfer_source host station opts)) h (pc_cancelled (transfer_source host station opts)) i
      (Some (source_selection sq i)) (to_limits opts) = Inr p \<and>
    publish (pc_destination (transfer_goal host station opts) (goal_home home opts)) im (Some sq')
      (pc_store (transfer_goal host station opts)) = (pb, Inr r) \<and>
    list_all2 (arrived pb) (pl_files p) (ps_files r)"
  using run
proof (cases rule: transfer_cases)
  case (2 i rem producer consumer)
  then have i: "parse_id (to_thread opts) = Inr i" "valid_limits (to_limits opts) = Inr ()" "is_abs (to_host_home opts)"
    "is_abs (to_host_sqlite opts)" "absolute_path home" "absolute_path (to_container_sqlite opts)"
    and rem: "rem = endpoint_of station t" and import_op: "to_operation opts = ''import'' \<longleftrightarrow> to_operation opts \<noteq> ''export''"
    by (auto simp: check_transfer_ok)
  note checks = parse_id_fixed [OF i(1)] i(2) range
  note abs = i(3,4) absolute_is_abs [OF i(5)] absolute_is_abs [OF i(6)]
  have "\<exists>h sq p q sq' im pb. pc_home (transfer_source host station opts) (source_home home opts) = Inr h \<and>
    snapshot (pc_codec (transfer_source host station opts)) h (pc_cancelled (transfer_source host station opts)) i
      (Some (source_selection sq i)) (to_limits opts) = Inr p \<and>
    list_all2 delivered (pl_files p) (pl_files q) \<and> im_plan im = q \<and> staged_files im \<and>
    (\<forall>f \<in> set (pl_files q). \<exists>g. im_stage im (rf_source f) = Some g \<and> sha256_hex (sd_data g) = rf_sha256 f) \<and>
    publish (pc_destination (transfer_goal host station opts) (goal_home home opts)) im (Some sq')
      (pc_store (transfer_goal host station opts)) = (pb, Inr r)"
  proof (cases "to_operation opts = ''export''")
    case True
    then have "exchange (endpoint_of station t) (endpoint_of host s) dec
        (transfer_args ''export'' home (to_container_sqlite opts) i (to_limits opts))
        (transfer_args ''import'' (to_host_home opts) (to_host_sqlite opts) i (to_limits opts)) i (to_limits opts) = (Some r, None, asked)"
      using 2(3,4) rem by (simp add: export_args_def import_args_def)
    from endpoints_deliver [OF this checks abs(3,4,1,2)] show ?thesis using und True
      by (simp add: transfer_source_def transfer_goal_def source_home_def goal_home_def)
  next
    case False
    then have "exchange (endpoint_of host s) (endpoint_of station t) dec
        (transfer_args ''export'' (to_host_home opts) (to_host_sqlite opts) i (to_limits opts))
        (transfer_args ''import'' home (to_container_sqlite opts) i (to_limits opts)) i (to_limits opts) = (Some r, None, asked)"
      using 2(3,4) rem import_op by (simp add: export_args_def import_args_def)
    from endpoints_deliver [OF this checks abs(1-4)] show ?thesis using und False
      by (simp add: transfer_source_def transfer_goal_def source_home_def goal_home_def)
  qed
  then obtain h sq p q sq' im pb where all: "pc_home (transfer_source host station opts) (source_home home opts) = Inr h"
    "snapshot (pc_codec (transfer_source host station opts)) h (pc_cancelled (transfer_source host station opts)) i
      (Some (source_selection sq i)) (to_limits opts) = Inr p"
    "list_all2 delivered (pl_files p) (pl_files q)" "im_plan im = q" "staged_files im"
    "\<forall>f \<in> set (pl_files q). \<exists>g. im_stage im (rf_source f) = Some g \<and> sha256_hex (sd_data g) = rf_sha256 f"
    "publish (pc_destination (transfer_goal host station opts) (goal_home home opts)) im (Some sq')
      (pc_store (transfer_goal host station opts)) = (pb, Inr r)" by blast
  have "list_all2 (arrived pb) (pl_files q) (ps_files r)" using published_files [OF all(7,5)] all(4,6) by simp
  then have "list_all2 (arrived pb) (pl_files p) (ps_files r)"
    by (rule list_all2_trans [of delivered "arrived pb" "arrived pb", rotated, OF all(3)]) (rule arrived_delivered)
  then show ?thesis using i(1) all(1,2,7) by blast
qed simp

theorem session_transferred_witness:
  "\<exists>h sq p im sq' pb. snapshot toy_codec h False sample_id (Some (source_selection sq sample_id)) default_limits = Inr p \<and>
     publish toy_destination im (Some sq') Map.empty = (pb, Inr toy_result) \<and> list_all2 (arrived pb) (pl_files p) (ps_files toy_result)"
proof -
  have "limits_in_range default_limits" by code_simp
  then show ?thesis using session_transferred [OF toy_transfer_run] toy_understood toy_id
    by (simp add: transfer_source_def transfer_goal_def toy_options_def toy_place_def) blast
qed

end
