(* ===== verification/Spec2Isabelle.thy ===== *)
theory Spec2Isabelle
  imports Semver Launch_Properties Session_Target Session_Stream Session_Selection Session_Staging Session_Arguments Session_Config Session_Transport Session_Endpoint
begin

text \<open>
  Harness Corral: the launcher that runs a coding workstation of a workspace in a container.
\<close>

end
